(* ===== verification/Prelude.thy ===== *)
theory Prelude
  imports Main
begin

text \<open>
  Shared vocabulary of the development: unsigned machine arithmetic with its wrap-around written
  out, half-open byte ranges (\<open>std::ops::Range<u64>\<close>), computations that may panic, and the
  generic list and map lemmas the components use.

  A \<open>u64\<close> (and a \<open>usize\<close>, on the 64-bit targets the crate is built for) is a
  natural number below \<open>2 ^ 64\<close>. Rust's plain \<open>+\<close> and \<open>-\<close> are \<open>add64\<close> and
  \<open>sub64\<close>, which wrap as the release profile does; the invariants of the components show where
  the wrap cannot happen (there the debug profile does not panic either).
\<close>

section \<open>Automation collections\<close>

named_theorems u64_simps \<open>wrapping arithmetic that is known not to wrap\<close>
named_theorems range_simps \<open>byte ranges as sets\<close>
named_theorems run_simps \<open>panicking computations\<close>

section \<open>Unsigned 64-bit arithmetic\<close>

type_synonym u64 = nat
type_synonym usize = nat

definition u64_bound :: nat where
  "u64_bound = 2 ^ 64"

definition add64 :: "u64 \<Rightarrow> u64 \<Rightarrow> u64" where
  "add64 a b = (a + b) mod u64_bound"

definition sub64 :: "u64 \<Rightarrow> u64 \<Rightarrow> u64" where
  "sub64 a b = (a + u64_bound - b) mod u64_bound"

definition mul64 :: "u64 \<Rightarrow> u64 \<Rightarrow> u64" where
  "mul64 a b = (a * b) mod u64_bound"

definition checked_add64 :: "u64 \<Rightarrow> u64 \<Rightarrow> u64 option" where
  "checked_add64 a b = (if a + b < u64_bound then Some (a + b) else None)"

definition checked_sub64 :: "u64 \<Rightarrow> u64 \<Rightarrow> u64 option" where
  "checked_sub64 a b = (if b \<le> a then Some (a - b) else None)"

definition checked_mul64 :: "u64 \<Rightarrow> u64 \<Rightarrow> u64 option" where
  "checked_mul64 a b = (if a * b < u64_bound then Some (a * b) else None)"

definition saturating_add64 :: "u64 \<Rightarrow> u64 \<Rightarrow> u64" where
  "saturating_add64 a b = min (a + b) (u64_bound - 1)"

definition saturating_mul64 :: "u64 \<Rightarrow> u64 \<Rightarrow> u64" where
  "saturating_mul64 a b = min (a * b) (u64_bound - 1)"

definition saturating_sub64 :: "u64 \<Rightarrow> u64 \<Rightarrow> u64" where
  "saturating_sub64 a b = a - b"

lemma u64_bound_pos [simp]: "0 < u64_bound"
  by (simp add: u64_bound_def)

lemma u64_bound_gt_1 [simp]: "Suc 0 < u64_bound"
  by (simp add: u64_bound_def)

lemma add64_exact [u64_simps]: "a + b < u64_bound \<Longrightarrow> add64 a b = a + b"
  by (simp add: add64_def)

lemma sub64_exact [u64_simps]:
  assumes "b \<le> a" and "a < u64_bound"
  shows "sub64 a b = a - b"
proof -
  have "sub64 a b = (u64_bound + (a - b)) mod u64_bound"
    unfolding sub64_def using assms by (intro arg_cong [where f = "\<lambda>x. x mod u64_bound"]) linarith
  also have "\<dots> = (a - b) mod u64_bound" by (rule mod_add_self1)
  also have "\<dots> = a - b" using assms by (intro mod_less) linarith
  finally show ?thesis .
qed

lemma mul64_exact [u64_simps]: "a * b < u64_bound \<Longrightarrow> mul64 a b = a * b"
  by (simp add: mul64_def)

lemma add64_bound [simp]: "add64 a b < u64_bound"
  by (simp add: add64_def)

lemma sub64_bound [simp]: "sub64 a b < u64_bound"
  by (simp add: sub64_def)

lemma checked_add64_Some: "checked_add64 a b = Some c \<longleftrightarrow> c = a + b \<and> a + b < u64_bound"
  by (auto simp: checked_add64_def)

lemma checked_sub64_Some: "checked_sub64 a b = Some c \<longleftrightarrow> c = a - b \<and> b \<le> a"
  by (auto simp: checked_sub64_def)

section \<open>Half-open byte ranges\<close>

datatype range = Range (r_start: u64) (r_end: u64)

abbreviation r_bytes :: "range \<Rightarrow> nat set" where
  "r_bytes r \<equiv> {r_start r..<r_end r}"

abbreviation r_len :: "range \<Rightarrow> nat" where
  "r_len r \<equiv> r_end r - r_start r"

definition r_is_empty :: "range \<Rightarrow> bool" where
  "r_is_empty r \<longleftrightarrow> r_end r \<le> r_start r"

definition ranges_bytes :: "range list \<Rightarrow> nat set" where
  "ranges_bytes rs = (\<Union>r \<in> set rs. r_bytes r)"

lemma ranges_bytes_simps [simp, range_simps]:
  "ranges_bytes [] = {}"
  "ranges_bytes (r # rs) = r_bytes r \<union> ranges_bytes rs"
  "ranges_bytes (rs @ qs) = ranges_bytes rs \<union> ranges_bytes qs"
  by (auto simp: ranges_bytes_def)

lemma r_is_empty_iff: "r_is_empty r \<longleftrightarrow> r_bytes r = {}"
  by (auto simp: r_is_empty_def)

section \<open>Computations that may panic\<close>

text \<open>
  A handler of the code that calls \<open>expect\<close> or \<open>unwrap\<close> either returns or panics with
  the message it names.
\<close>

datatype 'a run = Panicked string | Done 'a

fun bind_run :: "'a run \<Rightarrow> ('a \<Rightarrow> 'b run) \<Rightarrow> 'b run" where
  "bind_run (Panicked m) f = Panicked m"
| "bind_run (Done x) f = f x"

definition expect_some :: "string \<Rightarrow> 'a option \<Rightarrow> 'a run" where
  "expect_some m x = (case x of None \<Rightarrow> Panicked m | Some y \<Rightarrow> Done y)"

definition expect_ok :: "string \<Rightarrow> 'e + 'a \<Rightarrow> 'a run" where
  "expect_ok m x = (case x of Inl _ \<Rightarrow> Panicked m | Inr y \<Rightarrow> Done y)"

lemma expect_simps [simp, run_simps]:
  "expect_some m None = Panicked m"
  "expect_some m (Some y) = Done y"
  "expect_ok m (Inl e) = Panicked m"
  "expect_ok m (Inr y) = Done y"
  by (simp_all add: expect_some_def expect_ok_def)

lemma bind_run_Done: "bind_run r f = Done y \<longleftrightarrow> (\<exists>x. r = Done x \<and> f x = Done y)"
  by (cases r) auto

lemma bind_run_Panicked:
  "bind_run r f = Panicked m \<longleftrightarrow> r = Panicked m \<or> (\<exists>x. r = Done x \<and> f x = Panicked m)"
  by (cases r) auto

section \<open>Generic list functions\<close>

text \<open>\<open>Iterator::max_by_key\<close>: of several maximal elements the last one is returned.\<close>

fun max_by_key :: "('a \<Rightarrow> nat) \<Rightarrow> 'a list \<Rightarrow> 'a option" where
  "max_by_key f [] = None"
| "max_by_key f (x # xs) =
     (case max_by_key f xs of None \<Rightarrow> Some x | Some y \<Rightarrow> if f y < f x then Some x else Some y)"

lemma max_by_key_None [simp]: "max_by_key f xs = None \<longleftrightarrow> xs = []"
  by (cases xs) (auto split: option.splits)

lemma max_by_key_Some:
  "max_by_key f xs = Some y \<Longrightarrow> y \<in> set xs \<and> (\<forall>x \<in> set xs. f x \<le> f y)"
proof (induction xs arbitrary: y)
  case Nil
  then show ?case by simp
next
  case (Cons x xs)
  show ?case
  proof (cases "max_by_key f xs")
    case None
    with Cons.prems show ?thesis by simp
  next
    case (Some z)
    with Cons.IH have "z \<in> set xs \<and> (\<forall>x \<in> set xs. f x \<le> f z)" by blast
    with Some Cons.prems show ?thesis by (fastforce split: if_splits)
  qed
qed

lemma find_Some_D: "List.find P xs = Some x \<Longrightarrow> x \<in> set xs \<and> P x"
  by (induction xs) (auto split: if_splits)

end
