(* ===== verification/Ordered_Map.thy ===== *)
theory Ordered_Map
  imports Prelude
begin

text \<open>
  \<open>std::collections::BTreeMap\<close> as the code uses it: lookup, insertion, removal, the entries in
  key order and the last entry below a key. \<open>ordered_map\<close> is the interface with the laws the
  chunk planner relies on; the model is a list of entries sorted by key, which interprets it.
\<close>

section \<open>The interface\<close>

locale ordered_map =
  fixes entries :: "'m \<Rightarrow> ('k::linorder \<times> 'v) list"
    and get :: "'k \<Rightarrow> 'm \<Rightarrow> 'v option"
    and insert_entry :: "'k \<Rightarrow> 'v \<Rightarrow> 'm \<Rightarrow> 'm"
    and remove_entry :: "'k \<Rightarrow> 'm \<Rightarrow> 'm"
    and last_below :: "'k \<Rightarrow> 'm \<Rightarrow> ('k \<times> 'v) option"
    and invar :: "'m \<Rightarrow> bool"
  assumes entries_sorted: "invar m \<Longrightarrow> sorted_wrt (<) (map fst (entries m))"
    and get_entries: "invar m \<Longrightarrow> get k m = map_of (entries m) k"
    and invar_insert: "invar m \<Longrightarrow> invar (insert_entry k v m)"
    and get_insert: "invar m \<Longrightarrow> get j (insert_entry k v m) = (if j = k then Some v else get j m)"
    and invar_remove: "invar m \<Longrightarrow> invar (remove_entry k m)"
    and get_remove: "invar m \<Longrightarrow> get j (remove_entry k m) = (if j = k then None else get j m)"
    and last_below_entries: "last_below k m = List.find (\<lambda>e. fst e < k) (rev (entries m))"
begin

lemma entries_distinct: "invar m \<Longrightarrow> distinct (map fst (entries m))"
  by (metis entries_sorted strict_sorted_iff)

lemma entries_get: "invar m \<Longrightarrow> (k, v) \<in> set (entries m) \<longleftrightarrow> get k m = Some v"
  by (simp add: get_entries entries_distinct)

lemma entries_insert:
  assumes "invar m"
  shows "set (entries (insert_entry k v m)) = insert (k, v) {e \<in> set (entries m). fst e \<noteq> k}"
proof -
  have "(j, w) \<in> set (entries (insert_entry k v m))
      \<longleftrightarrow> (j, w) \<in> insert (k, v) {e \<in> set (entries m). fst e \<noteq> k}" for j w
    using assms by (auto simp: entries_get invar_insert get_insert)
  then show ?thesis by auto
qed

lemma entries_remove:
  assumes "invar m"
  shows "set (entries (remove_entry k m)) = {e \<in> set (entries m). fst e \<noteq> k}"
proof -
  have "(j, w) \<in> set (entries (remove_entry k m)) \<longleftrightarrow> (j, w) \<in> {e \<in> set (entries m). fst e \<noteq> k}"
    for j w using assms by (auto simp: entries_get invar_remove get_remove)
  then show ?thesis by auto
qed

lemma last_below_Some:
  "last_below k m = Some (j, v) \<Longrightarrow> (j, v) \<in> set (entries m) \<and> j < k"
  by (auto simp: last_below_entries dest!: find_Some_D)

lemma last_below_None: "last_below k m = None \<Longrightarrow> e \<in> set (entries m) \<Longrightarrow> k \<le> fst e"
  unfolding last_below_entries find_None_iff by (metis not_less set_rev)

lemma last_below_greatest:
  assumes "invar m" and "last_below k m = Some (j, v)" and "(i, w) \<in> set (entries m)" and "i < k"
  shows "i \<le> j"
proof -
  have sorted: "sorted_wrt (\<lambda>x y. y < x) (map fst (rev (entries m)))"
    using entries_sorted [OF assms(1)] by (simp add: rev_map [symmetric] sorted_wrt_rev)
  have "List.find (\<lambda>e. fst e < k) xs = Some (j, v) \<Longrightarrow> sorted_wrt (\<lambda>x y. y < x) (map fst xs)
      \<Longrightarrow> (i, w) \<in> set xs \<Longrightarrow> i \<le> j" for xs
  proof (induction xs)
    case Nil
    then show ?case by simp
  next
    case (Cons x xs)
    then show ?case using \<open>i < k\<close> by (cases "fst x < k") (force split: if_splits)+
  qed
  then show ?thesis using sorted assms(2,3) by (simp add: last_below_entries)
qed

end

section \<open>The sorted-list model\<close>

type_synonym ('k, 'v) btree = "('k \<times> 'v) list"

definition bt_invar :: "('k::linorder, 'v) btree \<Rightarrow> bool" where
  "bt_invar m \<longleftrightarrow> sorted_wrt (<) (map fst m)"

definition bt_get :: "'k \<Rightarrow> ('k, 'v) btree \<Rightarrow> 'v option" where
  "bt_get k m = map_of m k"

fun bt_insert :: "'k::linorder \<Rightarrow> 'v \<Rightarrow> ('k, 'v) btree \<Rightarrow> ('k, 'v) btree" where
  "bt_insert k v [] = [(k, v)]"
| "bt_insert k v ((j, w) # m) =
     (if k < j then (k, v) # (j, w) # m
      else if k = j then (k, v) # m
      else (j, w) # bt_insert k v m)"

definition bt_remove :: "'k::linorder \<Rightarrow> ('k, 'v) btree \<Rightarrow> ('k, 'v) btree" where
  "bt_remove k m = filter (\<lambda>e. fst e \<noteq> k) m"

definition bt_values :: "('k, 'v) btree \<Rightarrow> 'v list" where
  "bt_values m = map snd m"

text \<open>\<open>range(..k).next_back()\<close>: the last entry with a key below \<open>k\<close>.\<close>

definition bt_last_below :: "'k::linorder \<Rightarrow> ('k, 'v) btree \<Rightarrow> ('k \<times> 'v) option" where
  "bt_last_below k m = List.find (\<lambda>e. fst e < k) (rev m)"

lemma bt_insert_keys: "fst ` set (bt_insert k v m) = insert k (fst ` set m)"
  by (induction k v m rule: bt_insert.induct) auto

lemma bt_insert_sorted:
  "sorted_wrt (<) (map fst m) \<Longrightarrow> sorted_wrt (<) (map fst (bt_insert k v m))"
proof (induction k v m rule: bt_insert.induct)
  case (1 k v)
  then show ?case by simp
next
  case (2 k v j w m)
  then show ?case
    using bt_insert_keys [of k v m] by (auto simp: image_iff)
qed

lemma bt_insert_get:
  "sorted_wrt (<) (map fst m) \<Longrightarrow>
   map_of (bt_insert k v m) j = (if j = k then Some v else map_of m j)"
proof (induction k v m rule: bt_insert.induct)
  case (1 k v)
  then show ?case by simp
next
  case (2 k v i w m)
  then show ?case by (auto simp: image_iff)
qed

lemma bt_remove_get: "map_of (bt_remove k m) j = (if j = k then None else map_of m j)"
  by (induction m) (auto simp: bt_remove_def)

interpretation bt: ordered_map "\<lambda>m. m" bt_get bt_insert bt_remove bt_last_below bt_invar
proof unfold_locales
  show "bt_invar m \<Longrightarrow> bt_invar (bt_remove k m)" for m :: "('k::linorder, 'v) btree" and k
    by (auto simp: bt_invar_def bt_remove_def sorted_wrt_map sorted_wrt_filter)
qed (auto simp: bt_invar_def bt_get_def bt_insert_sorted bt_insert_get bt_remove_get bt_last_below_def)

section \<open>Locating an entry\<close>

text \<open>An operation at a present key changes the list at one place.\<close>

lemma bt_split:
  assumes "bt_get k m = Some v"
  obtains xs ys where "m = xs @ (k, v) # ys"
  using assms by (metis bt_get_def map_of_SomeD split_list)

lemma bt_insert_here:
  "bt_invar (xs @ (k, v) # ys) \<Longrightarrow> bt_insert k w (xs @ (k, v) # ys) = xs @ (k, w) # ys"
  by (induction xs) (auto simp: bt_invar_def sorted_wrt_append)

lemma bt_insert_after:
  "bt_invar (xs @ (k, v) # ys) \<Longrightarrow> k < j \<Longrightarrow> (\<forall>e \<in> set ys. j < fst e) \<Longrightarrow>
   bt_insert j w (xs @ (k, v) # ys) = xs @ (k, v) # (j, w) # ys"
proof (induction xs)
  case Nil
  then show ?case by (cases ys) auto
next
  case (Cons x xs)
  then have "fst x < k" by (auto simp: bt_invar_def)
  with Cons show ?case by (cases x) (auto simp: bt_invar_def)
qed

lemma bt_remove_here:
  assumes "bt_invar (xs @ (k, v) # ys)"
  shows "bt_remove k (xs @ (k, v) # ys) = xs @ ys"
proof -
  have "\<forall>e \<in> set xs. fst e \<noteq> k" and "\<forall>e \<in> set ys. fst e \<noteq> k"
    using assms by (auto simp: bt_invar_def sorted_wrt_append)
  then show ?thesis by (simp add: bt_remove_def filter_id_conv [THEN iffD2])
qed

lemma bt_insert_removed:
  assumes "bt_invar (xs @ (k, v) # ys)"
  shows "bt_insert k w (xs @ ys) = xs @ (k, w) # ys"
  using assms
proof (induction xs)
  case Nil
  then show ?case by (cases ys) (auto simp: bt_invar_def)
next
  case (Cons x xs)
  then have "fst x < k" by (auto simp: bt_invar_def)
  with Cons show ?case by (cases x) (auto simp: bt_invar_def)
qed

lemma bt_get_here: "bt_invar (xs @ (k, v) # ys) \<Longrightarrow> bt_get k (xs @ (k, v) # ys) = Some v"
  by (induction xs) (auto simp: bt_invar_def bt_get_def)

lemma bt_values_append [simp]:
  "bt_values (xs @ ys) = bt_values xs @ bt_values ys"
  "bt_values (e # ys) = snd e # bt_values ys"
  "bt_values [] = []"
  by (simp_all add: bt_values_def)

lemma bt_get_values: "bt_get k m = Some v \<Longrightarrow> v \<in> set (bt_values m)"
  by (force simp: bt_get_def bt_values_def dest: map_of_SomeD)

end
