(* ===== verification/Chunk_Planner.thy ===== *)
theory Chunk_Planner
  imports Ordered_Map
begin

text \<open>
  The chunk planner (\<open>task/instance/concurrent_task/chunk_planner.rs\<close>): which byte ranges of the
  file are allocated to which runner, how far each is downloaded, and which runner to split. This
  theory holds its data and its operations, in the order of the source; \<open>Chunk_Planner_Inv\<close>
  proves what they keep and compute.

  Every operation of the code takes \<open>&mut self\<close>; here it returns the new planner, also on the
  error paths, because some of them change the state before they fail. \<open>debug_assert!\<close>s are not
  part of the release build and are not modelled.
\<close>

section \<open>Chunks\<close>

datatype chunk_status = Idle | Running | Pending | Finished | Failed

definition is_active :: "chunk_status \<Rightarrow> bool" where
  "is_active s \<longleftrightarrow> s = Running \<or> s = Pending"

type_synonym runner_id = usize

record chunk_state =
  c_allocated :: range
  c_downloaded :: range
  c_runner_id :: "runner_id option"
  c_status :: chunk_status

datatype planner_error =
    RunnerNotFound runner_id
  | ChunkNotFound runner_id
  | InvalidSplitPosition u64
  | InvalidResize runner_id u64

datatype resize = Unchanged | Shrunk u64

definition chunk_new :: "range \<Rightarrow> runner_id option \<Rightarrow> chunk_status \<Rightarrow> chunk_state" where
  "chunk_new alloc rid st =
     \<lparr>c_allocated = alloc, c_downloaded = Range (r_start alloc) (r_start alloc),
      c_runner_id = rid, c_status = st\<rparr>"

definition chunk_from_runner_id :: "range \<Rightarrow> runner_id option \<Rightarrow> chunk_state" where
  "chunk_from_runner_id alloc rid =
     (case rid of
        Some r \<Rightarrow> chunk_new alloc (Some r) Running
      | None \<Rightarrow> chunk_new alloc None Idle)"

definition remaining :: "chunk_state \<Rightarrow> u64" where
  "remaining c = sub64 (r_end (c_allocated c)) (r_end (c_downloaded c))"

definition incomplete_range :: "chunk_state \<Rightarrow> range" where
  "incomplete_range c = Range (r_end (c_downloaded c)) (r_end (c_allocated c))"

definition chunk_is_complete :: "chunk_state \<Rightarrow> bool" where
  "chunk_is_complete c \<longleftrightarrow> r_end (c_allocated c) \<le> r_end (c_downloaded c)"

section \<open>The planner\<close>

definition DEFAULT_MIN_CHUNK_SIZE :: u64 where
  "DEFAULT_MIN_CHUNK_SIZE = 1024 * 1024"

record planner =
  p_total :: u64
  p_min_chunk_size :: u64
  p_max_chunk_count :: "usize option"
  p_chunks :: "(u64, chunk_state) btree"
  p_runner_to_chunk :: "runner_id \<rightharpoonup> u64"
  p_accepted_bytes :: u64

definition planner_new :: "u64 \<Rightarrow> planner" where
  "planner_new tot =
     \<lparr>p_total = tot, p_min_chunk_size = DEFAULT_MIN_CHUNK_SIZE, p_max_chunk_count = None,
      p_chunks = [], p_runner_to_chunk = Map.empty, p_accepted_bytes = 0\<rparr>"

definition get_chunks_count :: "planner \<Rightarrow> usize" where
  "get_chunks_count p = length (p_chunks p)"

definition get_active_runners_count :: "planner \<Rightarrow> usize" where
  "get_active_runners_count p =
     length (filter (\<lambda>c. is_active (c_status c)) (bt_values (p_chunks p)))"

text \<open>
  \<open>allocate_chunk_inner\<close>: the range is rejected when it is empty or passes the total, when the
  chunk count is at its maximum, and when the last chunk that starts before its end overlaps it.
\<close>

definition allocate_chunk_inner ::
  "planner \<Rightarrow> range \<Rightarrow> runner_id option \<Rightarrow> chunk_status \<Rightarrow> bool \<times> planner" where
  "allocate_chunk_inner p r rid st =
     (if r_end r \<le> r_start r \<or> p_total p < r_end r then (False, p)
      else if (case p_max_chunk_count p of None \<Rightarrow> False | Some m \<Rightarrow> m \<le> get_chunks_count p)
        then (False, p)
      else if (case bt_last_below (r_end r) (p_chunks p) of
                 None \<Rightarrow> False
               | Some (_, pred) \<Rightarrow> r_start r < r_end (c_allocated pred))
        then (False, p)
      else (True, p\<lparr>p_chunks := bt_insert (r_start r) (chunk_new r rid st) (p_chunks p),
                    p_runner_to_chunk :=
                      (case rid of
                         None \<Rightarrow> p_runner_to_chunk p
                       | Some i \<Rightarrow> (p_runner_to_chunk p)(i \<mapsto> r_start r))\<rparr>))"

definition allocate_pending_chunk :: "planner \<Rightarrow> range \<Rightarrow> runner_id \<Rightarrow> bool \<times> planner" where
  "allocate_pending_chunk p r i = allocate_chunk_inner p r (Some i) Pending"

definition allocate_idle_chunk :: "planner \<Rightarrow> range \<Rightarrow> bool \<times> planner" where
  "allocate_idle_chunk p r = allocate_chunk_inner p r None Idle"

definition allocate_chunk :: "planner \<Rightarrow> range \<Rightarrow> runner_id option \<Rightarrow> bool \<times> planner" where
  "allocate_chunk p r rid =
     (case rid of
        Some i \<Rightarrow> allocate_pending_chunk p r i
      | None \<Rightarrow> allocate_idle_chunk p r)"

text \<open>
  \<open>update_progress\<close>: accept at most the remaining bytes and return the range they fill. The
  code reports its two errors as formatted strings; here they are the constructors that the
  other operations use for the same causes.
\<close>

definition chunk_accept :: "chunk_state \<Rightarrow> u64 \<Rightarrow> chunk_state \<times> range" where
  "chunk_accept c n =
     (let previous_end = r_end (c_downloaded c);
          new_end = add64 previous_end (min n (remaining c));
          c' = c\<lparr>c_downloaded := Range (r_start (c_downloaded c)) new_end\<rparr>
      in (if chunk_is_complete c' then c'\<lparr>c_status := Finished\<rparr> else c',
          Range previous_end new_end))"

definition update_progress ::
  "planner \<Rightarrow> runner_id \<Rightarrow> u64 \<Rightarrow> (planner_error + range) \<times> planner" where
  "update_progress p i n =
     (case p_runner_to_chunk p i of
        None \<Rightarrow> (Inl (RunnerNotFound i), p)
      | Some start \<Rightarrow>
         (case bt_get start (p_chunks p) of
            None \<Rightarrow> (Inl (ChunkNotFound i), p)
          | Some c \<Rightarrow>
             (case chunk_accept c n of (c', accepted) \<Rightarrow>
               (Inr accepted,
                p\<lparr>p_chunks := bt_insert start c' (p_chunks p),
                  p_accepted_bytes :=
                    add64 (p_accepted_bytes p)
                      (sub64 (r_end accepted) (r_start accepted))\<rparr>))))"

definition mark_running :: "planner \<Rightarrow> runner_id \<Rightarrow> (planner_error + unit) \<times> planner" where
  "mark_running p i =
     (case p_runner_to_chunk p i of
        None \<Rightarrow> (Inl (RunnerNotFound i), p)
      | Some start \<Rightarrow>
         (case bt_get start (p_chunks p) of
            None \<Rightarrow> (Inl (ChunkNotFound i), p)
          | Some c \<Rightarrow>
              (Inr (), p\<lparr>p_chunks := bt_insert start (c\<lparr>c_status := Running\<rparr>) (p_chunks p)\<rparr>)))"

text \<open>
  \<open>mark_finished\<close>, \<open>mark_failed\<close> and \<open>split_chunk\<close> take the runner out of the mapping
  before they look the chunk up.
\<close>

definition forget_runner :: "planner \<Rightarrow> runner_id \<Rightarrow> planner" where
  "forget_runner p i = p\<lparr>p_runner_to_chunk := (p_runner_to_chunk p)(i := None)\<rparr>"

definition mark_finished :: "planner \<Rightarrow> runner_id \<Rightarrow> (planner_error + unit) \<times> planner" where
  "mark_finished p i =
     (case p_runner_to_chunk p i of
        None \<Rightarrow> (Inl (RunnerNotFound i), p)
      | Some start \<Rightarrow>
         (let p' = forget_runner p i
          in (case bt_get start (p_chunks p') of
                None \<Rightarrow> (Inl (ChunkNotFound i), p')
              | Some c \<Rightarrow>
                  (Inr (),
                   p'\<lparr>p_chunks := bt_insert start (c\<lparr>c_status := Finished\<rparr>) (p_chunks p')\<rparr>))))"

definition mark_failed :: "planner \<Rightarrow> runner_id \<Rightarrow> (planner_error + range) \<times> planner" where
  "mark_failed p i =
     (case p_runner_to_chunk p i of
        None \<Rightarrow> (Inl (RunnerNotFound i), p)
      | Some start \<Rightarrow>
         (let p' = forget_runner p i
          in (case bt_get start (p_chunks p') of
                None \<Rightarrow> (Inl (ChunkNotFound i), p')
              | Some c \<Rightarrow>
                 (let rest = bt_remove start (p_chunks p');
                      unfinished = Range (r_end (c_downloaded c)) (r_end (c_allocated c))
                  in if r_start (c_downloaded c) = r_end (c_downloaded c)
                     then (Inr (c_allocated c), p'\<lparr>p_chunks := rest\<rparr>)
                     else (Inr unfinished,
                           p'\<lparr>p_chunks :=
                               bt_insert start
                                 (c\<lparr>c_allocated := Range (r_start (c_allocated c))
                                                        (r_end (c_downloaded c)),
                                    c_status := Finished, c_runner_id := None\<rparr>) rest\<rparr>)))))"

definition split_chunk ::
  "planner \<Rightarrow> runner_id \<Rightarrow> u64 \<Rightarrow> runner_id \<Rightarrow> (planner_error + range) \<times> planner" where
  "split_chunk p i pos j =
     (case p_runner_to_chunk p i of
        None \<Rightarrow> (Inl (RunnerNotFound i), p)
      | Some start \<Rightarrow>
         (let p' = forget_runner p i
          in (case bt_get start (p_chunks p') of
                None \<Rightarrow> (Inl (ChunkNotFound i), p')
              | Some c \<Rightarrow>
                 (let rest = bt_remove start (p_chunks p')
                  in if pos \<le> r_end (c_downloaded c) \<or> r_end (c_allocated c) \<le> pos
                     then (Inl (InvalidSplitPosition pos),
                           p'\<lparr>p_chunks := bt_insert start c rest,
                              p_runner_to_chunk := (p_runner_to_chunk p')(i \<mapsto> start)\<rparr>)
                     else
                       (let first_range = Range (r_start (c_allocated c)) pos;
                            second_range = Range pos (r_end (c_allocated c));
                            second = chunk_from_runner_id second_range (Some j)
                        in (Inr second_range,
                            p'\<lparr>p_chunks :=
                                bt_insert pos second
                                  (bt_insert (r_start first_range)
                                    (c\<lparr>c_allocated := first_range\<rparr>) rest),
                               p_runner_to_chunk :=
                                 (p_runner_to_chunk p')(i \<mapsto> r_start first_range, j \<mapsto> pos)\<rparr>))))))"

section \<open>Queries\<close>

text \<open>\<open>get_available_ranges\<close>: the gaps before, between and after the chunks.\<close>

fun available_from :: "u64 \<Rightarrow> chunk_state list \<Rightarrow> u64 \<Rightarrow> range list" where
  "available_from cursor [] tot = (if cursor < tot then [Range cursor tot] else [])"
| "available_from cursor (c # cs) tot =
     (if cursor < r_start (c_allocated c) then [Range cursor (r_start (c_allocated c))] else [])
     @ available_from (r_end (c_allocated c)) cs tot"

definition get_available_ranges :: "planner \<Rightarrow> range list" where
  "get_available_ranges p = available_from 0 (bt_values (p_chunks p)) (p_total p)"

text \<open>
  \<open>merge_adjacent_ranges\<close>: sort by start (stably), then extend the last merged range while the
  next one starts at or before its end.
\<close>

fun merge_from :: "range \<Rightarrow> range list \<Rightarrow> range list" where
  "merge_from cur [] = [cur]"
| "merge_from cur (r # rs) =
     (if r_start r \<le> r_end cur
      then merge_from (Range (r_start cur) (max (r_end cur) (r_end r))) rs
      else cur # merge_from r rs)"

definition merge_adjacent_ranges :: "range list \<Rightarrow> range list" where
  "merge_adjacent_ranges rs =
     (case sort_key r_start rs of [] \<Rightarrow> [] | first # rest \<Rightarrow> merge_from first rest)"

definition get_downloaded_ranges :: "planner \<Rightarrow> range list" where
  "get_downloaded_ranges p =
     merge_adjacent_ranges
       (sort_key r_start
         (map c_downloaded
           (filter (\<lambda>c. r_start (c_downloaded c) < r_end (c_downloaded c))
             (bt_values (p_chunks p)))))"

definition get_total_downloaded :: "planner \<Rightarrow> u64" where
  "get_total_downloaded p = p_accepted_bytes p"

text \<open>
  \<open>get_incomplete_states\<close>: the running chunks large enough to split. A chosen chunk without a
  runner would panic.
\<close>

fun runner_states :: "chunk_state list \<Rightarrow> (runner_id \<times> range) list run" where
  "runner_states [] = Done []"
| "runner_states (c # cs) =
     bind_run (expect_some ''runner id should be some if not finished'' (c_runner_id c))
       (\<lambda>i. bind_run (runner_states cs) (\<lambda>xs. Done ((i, incomplete_range c) # xs)))"

definition splittable :: "planner \<Rightarrow> u64 option \<Rightarrow> chunk_state \<Rightarrow> bool" where
  "splittable p sz c \<longleftrightarrow>
     c_status c = Running
     \<and> r_end (c_downloaded c) < r_end (c_allocated c)
     \<and> (case sz of
          None \<Rightarrow> mul64 2 (p_min_chunk_size p)
        | Some v \<Rightarrow> max v (mul64 2 (p_min_chunk_size p))) \<le> remaining c"

definition get_incomplete_states :: "planner \<Rightarrow> u64 option \<Rightarrow> (runner_id \<times> range) list run" where
  "get_incomplete_states p sz =
     runner_states (filter (splittable p sz) (bt_values (p_chunks p)))"

text \<open>
  \<open>find_chunk_to_split\<close>: the first available range of the required size, else the largest
  available one, else the running chunk with the most bytes left.
\<close>

fun pick_available :: "u64 \<Rightarrow> range option \<Rightarrow> range list \<Rightarrow> range option" where
  "pick_available sz best [] = best"
| "pick_available sz best (r # rs) =
     (if sz \<le> sub64 (r_end r) (r_start r)
      then Some (Range (r_start r) (add64 (r_start r) sz))
      else
        (case best of
           None \<Rightarrow> pick_available sz (Some r) rs
         | Some b \<Rightarrow>
             pick_available sz
               (if sub64 (r_end r) (r_start r) < sub64 (r_end b) (r_start b) then Some b else Some r)
               rs))"

definition find_chunk_to_split :: "planner \<Rightarrow> u64 \<Rightarrow> (runner_id option \<times> range) option" where
  "find_chunk_to_split p sz =
     (case pick_available sz None (get_available_ranges p) of
        Some r \<Rightarrow> Some (None, r)
      | None \<Rightarrow>
         (case max_by_key remaining
                 (filter (\<lambda>c. c_status c = Running \<and> c_runner_id c \<noteq> None
                              \<and> p_min_chunk_size p \<le> remaining c)
                   (bt_values (p_chunks p))) of
            Some c \<Rightarrow>
              Some (c_runner_id c,
                    Range (r_end (c_downloaded c)) (add64 (r_end (c_downloaded c)) sz))
          | None \<Rightarrow> None))"

definition get_runner_state :: "planner \<Rightarrow> runner_id \<Rightarrow> chunk_state option" where
  "get_runner_state p i =
     (case p_runner_to_chunk p i of
        None \<Rightarrow> None
      | Some start \<Rightarrow> bt_get start (p_chunks p))"

definition resize_runner_state ::
  "planner \<Rightarrow> runner_id \<Rightarrow> u64 \<Rightarrow> (planner_error + resize) \<times> planner" where
  "resize_runner_state p i sz =
     (case p_runner_to_chunk p i of
        None \<Rightarrow> (Inl (RunnerNotFound i), p)
      | Some start \<Rightarrow>
         (case bt_get start (p_chunks p) of
            None \<Rightarrow> (Inl (ChunkNotFound i), p)
          | Some c \<Rightarrow>
             (case checked_add64 (r_end (c_downloaded c)) sz of
                None \<Rightarrow> (Inl (InvalidResize i sz), p)
              | Some e \<Rightarrow>
                  if e = r_end (c_allocated c) then (Inr Unchanged, p)
                  else if r_start (c_allocated c) < e \<and> e < r_end (c_allocated c)
                  then (Inr (Shrunk (sub64 e (r_start (c_allocated c)))),
                        p\<lparr>p_chunks :=
                            bt_insert start
                              (c\<lparr>c_allocated := Range (r_start (c_allocated c)) e\<rparr>)
                              (p_chunks p)\<rparr>)
                  else (Inl (InvalidResize i sz), p))))"

definition planner_is_complete :: "planner \<Rightarrow> bool" where
  "planner_is_complete p \<longleftrightarrow>
     p_chunks p \<noteq> [] \<and> (\<forall>c \<in> set (bt_values (p_chunks p)). c_status c = Finished)
     \<and> get_available_ranges p = []"

definition try_arrange_chunk_by_length :: "planner \<Rightarrow> u64 \<Rightarrow> range option" where
  "try_arrange_chunk_by_length p len =
     map_option (\<lambda>r. Range (r_start r) (add64 (r_start r) len))
       (List.find (\<lambda>r. len \<le> sub64 (r_end r) (r_start r)) (get_available_ranges p))"

section \<open>The planner guard\<close>

text \<open>
  \<open>PlannerGuard\<close> restores a snapshot of the planner when it is dropped without a commit;
  \<open>guard_drop\<close> is its destructor, returning the planner the guard borrowed.
\<close>

record planner_guard =
  g_planner :: planner
  g_snapshot :: planner
  g_committed :: bool

definition guard_new :: "planner \<Rightarrow> planner_guard" where
  "guard_new p = \<lparr>g_planner = p, g_snapshot = p, g_committed = False\<rparr>"

definition guard_drop :: "planner_guard \<Rightarrow> planner" where
  "guard_drop g = (if g_committed g then g_planner g else g_snapshot g)"

definition guard_commit :: "planner_guard \<Rightarrow> planner" where
  "guard_commit g = guard_drop (g\<lparr>g_committed := True\<rparr>)"

end
