(* ===== verification/Chunk_Planner_Inv.thy ===== *)
theory Chunk_Planner_Inv
  imports Chunk_Planner
begin

text \<open>
  What the chunk planner keeps: the chunks lie in order, without overlap, inside the file; what
  is downloaded is a prefix of what is allocated; a runner in the mapping owns the chunk it is
  mapped to; an active chunk has its runner in the mapping; and \<open>accepted_bytes\<close> is the number
  of downloaded bytes. \<open>planner_inv\<close> says so, and every operation keeps it.
\<close>

section \<open>The layout of the chunks\<close>

definition chunk_ok :: "u64 \<Rightarrow> chunk_state \<Rightarrow> bool" where
  "chunk_ok k c \<longleftrightarrow>
     k = r_start (c_allocated c) \<and> r_start (c_downloaded c) = k
     \<and> k < r_end (c_allocated c)
     \<and> k \<le> r_end (c_downloaded c) \<and> r_end (c_downloaded c) \<le> r_end (c_allocated c)"

fun layout :: "u64 \<Rightarrow> (u64, chunk_state) btree \<Rightarrow> u64 \<Rightarrow> bool" where
  "layout lo [] hi \<longleftrightarrow> lo \<le> hi"
| "layout lo ((k, c) # xs) hi \<longleftrightarrow>
     lo \<le> k \<and> chunk_ok k c \<and> layout (r_end (c_allocated c)) xs hi"

abbreviation dl_len :: "chunk_state \<Rightarrow> nat" where
  "dl_len c \<equiv> r_len (c_downloaded c)"

definition dl_total :: "(u64, chunk_state) btree \<Rightarrow> nat" where
  "dl_total xs = sum_list (map dl_len (bt_values xs))"

lemma dl_total_simps [simp]:
  "dl_total [] = 0"
  "dl_total (e # xs) = dl_len (snd e) + dl_total xs"
  "dl_total (xs @ ys) = dl_total xs + dl_total ys"
  by (simp_all add: dl_total_def)

lemma layout_le: "layout lo xs hi \<Longrightarrow> lo \<le> hi"
  by (induction lo xs hi rule: layout.induct) (auto simp: chunk_ok_def)

lemma layout_lower: "layout lo xs hi \<Longrightarrow> lo' \<le> lo \<Longrightarrow> layout lo' xs hi"
  by (cases xs) auto

lemma layout_upper: "layout lo xs hi \<Longrightarrow> hi \<le> hi' \<Longrightarrow> layout lo xs hi'"
  by (induction lo xs hi rule: layout.induct) auto

lemma layout_append [simp]:
  "layout lo (xs @ (k, c) # ys) hi \<longleftrightarrow>
     layout lo xs k \<and> chunk_ok k c \<and> layout (r_end (c_allocated c)) ys hi"
  by (induction xs arbitrary: lo) auto

lemma layout_entries:
  "layout lo xs hi \<Longrightarrow> (k, c) \<in> set xs \<Longrightarrow>
   chunk_ok k c \<and> lo \<le> k \<and> r_end (c_allocated c) \<le> hi"
proof (induction lo xs hi rule: layout.induct)
  case (1 lo hi)
  then show ?case by simp
next
  case (2 lo j d xs hi)
  then show ?case by (auto simp: chunk_ok_def dest: layout_le)
qed

lemma layout_keys: "layout lo xs hi \<Longrightarrow> e \<in> set xs \<Longrightarrow> lo \<le> fst e \<and> fst e < hi"
  by (cases e) (force dest: layout_entries simp: chunk_ok_def)

lemma layout_bt_invar: "layout lo xs hi \<Longrightarrow> bt_invar xs"
proof (induction lo xs hi rule: layout.induct)
  case (1 lo hi)
  then show ?case by (simp add: bt_invar_def)
next
  case (2 lo k c xs hi)
  then show ?case by (force simp: bt_invar_def chunk_ok_def dest: layout_keys)
qed

lemma layout_disjoint:
  assumes "layout lo xs hi" and "(k, c) \<in> set xs" and "(j, d) \<in> set xs" and "k < j"
  shows "r_end (c_allocated c) \<le> j"
proof -
  obtain as bs where xs: "xs = as @ (k, c) # bs"
    using assms(2) by (meson split_list)
  have "(j, d) \<in> set bs"
    using assms xs by (auto dest: layout_keys)
  then show ?thesis using assms(1) xs by (auto dest: layout_keys)
qed

lemma layout_dl_total: "layout lo xs hi \<Longrightarrow> dl_total xs \<le> hi - lo"
proof (induction lo xs hi rule: layout.induct)
  case (1 lo hi)
  then show ?case by simp
next
  case (2 lo k c xs hi)
  then have "r_end (c_allocated c) \<le> hi" by (auto dest: layout_le)
  with 2 show ?case by (auto simp: chunk_ok_def)
qed

text \<open>Bytes of a chunk list: what is allocated and what is downloaded.\<close>

definition alloc_bytes :: "(u64, chunk_state) btree \<Rightarrow> nat set" where
  "alloc_bytes xs = (\<Union>c \<in> set (bt_values xs). r_bytes (c_allocated c))"

definition dl_bytes :: "(u64, chunk_state) btree \<Rightarrow> nat set" where
  "dl_bytes xs = (\<Union>c \<in> set (bt_values xs). r_bytes (c_downloaded c))"

lemma bytes_simps [simp, range_simps]:
  "alloc_bytes [] = {}" "dl_bytes [] = {}"
  "alloc_bytes (e # xs) = r_bytes (c_allocated (snd e)) \<union> alloc_bytes xs"
  "dl_bytes (e # xs) = r_bytes (c_downloaded (snd e)) \<union> dl_bytes xs"
  "alloc_bytes (xs @ ys) = alloc_bytes xs \<union> alloc_bytes ys"
  "dl_bytes (xs @ ys) = dl_bytes xs \<union> dl_bytes ys"
  by (auto simp: alloc_bytes_def dl_bytes_def)

lemma layout_alloc_bytes: "layout lo xs hi \<Longrightarrow> alloc_bytes xs \<subseteq> {lo..<hi}"
proof (induction lo xs hi rule: layout.induct)
  case (1 lo hi)
  then show ?case by simp
next
  case (2 lo k c xs hi)
  then show ?case by (fastforce simp: chunk_ok_def dest: layout_le)
qed

lemma layout_dl_bytes: "layout lo xs hi \<Longrightarrow> dl_bytes xs \<subseteq> alloc_bytes xs"
  by (induction lo xs hi rule: layout.induct) (auto simp: chunk_ok_def)

lemma dl_bytes_finite [simp]: "finite (dl_bytes xs)"
  by (simp add: dl_bytes_def)

lemma layout_dl_card: "layout lo xs hi \<Longrightarrow> card (dl_bytes xs) = dl_total xs"
proof (induction lo xs hi rule: layout.induct)
  case (1 lo hi)
  then show ?case by simp
next
  case (2 lo k c xs hi)
  then have "dl_bytes xs \<subseteq> {r_end (c_allocated c)..<hi}"
    by (meson layout.simps(2) layout_alloc_bytes layout_dl_bytes subset_trans)
  with 2 have "r_bytes (c_downloaded c) \<inter> dl_bytes xs = {}"
    by (fastforce simp: chunk_ok_def)
  with 2 show ?case by (simp add: card_Un_disjoint)
qed

section \<open>The invariant\<close>

definition maps_ok :: "(u64, chunk_state) btree \<Rightarrow> (runner_id \<rightharpoonup> u64) \<Rightarrow> bool" where
  "maps_ok xs m \<longleftrightarrow>
     (\<forall>i k. m i = Some k \<longrightarrow> (\<exists>c. bt_get k xs = Some c \<and> c_runner_id c = Some i))
     \<and> (\<forall>k c. bt_get k xs = Some c \<longrightarrow> is_active (c_status c) \<longrightarrow>
            (\<exists>i. c_runner_id c = Some i \<and> m i = Some k))"

lemma maps_okD:
  assumes "maps_ok xs m"
  shows "m i = Some k \<Longrightarrow> \<exists>c. bt_get k xs = Some c \<and> c_runner_id c = Some i"
    and "bt_get k xs = Some c \<Longrightarrow> is_active (c_status c) \<Longrightarrow> \<exists>i. c_runner_id c = Some i \<and> m i = Some k"
  using assms unfolding maps_ok_def by blast+

lemma maps_okI:
  assumes "\<And>i k. m i = Some k \<Longrightarrow> \<exists>c. bt_get k xs = Some c \<and> c_runner_id c = Some i"
    and "\<And>k c. bt_get k xs = Some c \<Longrightarrow> is_active (c_status c) \<Longrightarrow>
           \<exists>i. c_runner_id c = Some i \<and> m i = Some k"
  shows "maps_ok xs m"
  using assms unfolding maps_ok_def by blast

definition planner_inv :: "planner \<Rightarrow> bool" where
  "planner_inv p \<longleftrightarrow>
     p_total p < u64_bound
     \<and> layout 0 (p_chunks p) (p_total p)
     \<and> maps_ok (p_chunks p) (p_runner_to_chunk p)
     \<and> p_accepted_bytes p = dl_total (p_chunks p)"

lemma planner_inv_new: "tot < u64_bound \<Longrightarrow> planner_inv (planner_new tot)"
  by (simp add: planner_inv_def planner_new_def maps_ok_def bt_get_def)

lemma planner_inv_bt: "planner_inv p \<Longrightarrow> bt_invar (p_chunks p)"
  by (auto simp: planner_inv_def dest: layout_bt_invar)

lemma planner_accepted_le: "planner_inv p \<Longrightarrow> p_accepted_bytes p \<le> p_total p"
  using layout_dl_total by (fastforce simp: planner_inv_def)

lemma planner_runner_chunk:
  assumes "planner_inv p" and "p_runner_to_chunk p i = Some k"
  obtains c xs ys where "p_chunks p = xs @ (k, c) # ys" and "bt_get k (p_chunks p) = Some c"
    and "c_runner_id c = Some i" and "chunk_ok k c" and "r_end (c_allocated c) \<le> p_total p"
proof -
  obtain c where c: "bt_get k (p_chunks p) = Some c" "c_runner_id c = Some i"
    using assms maps_okD(1) unfolding planner_inv_def by blast
  obtain xs ys where xs: "p_chunks p = xs @ (k, c) # ys" using bt_split [OF c(1)] .
  have "chunk_ok k c" "r_end (c_allocated c) \<le> p_total p"
    using assms(1) xs by (auto simp: planner_inv_def dest: layout_le)
  with c xs show ?thesis using that by blast
qed

lemma planner_runner_inj:
  assumes "planner_inv p" and "p_runner_to_chunk p i = Some k" and "p_runner_to_chunk p j = Some k"
  shows "i = j"
  using assms maps_okD(1) unfolding planner_inv_def by (metis option.inject)

text \<open>Replacing one chunk by another that starts at the same byte and ends no later.\<close>

lemma layout_replace:
  assumes "layout lo (xs @ (k, c) # ys) hi" and "chunk_ok k c'"
    and "r_end (c_allocated c') \<le> r_end (c_allocated c)"
  shows "layout lo (xs @ (k, c') # ys) hi"
  using assms by (auto intro: layout_lower)

lemma maps_ok_replace:
  assumes "maps_ok xs m" and "bt_invar xs" and "bt_get k xs = Some c"
    and "c_runner_id c' = c_runner_id c"
    and "is_active (c_status c') \<Longrightarrow> \<exists>i. c_runner_id c = Some i \<and> m i = Some k"
  shows "maps_ok (bt_insert k c' xs) m"
proof (rule maps_okI)
  fix i j assume "m i = Some j"
  then show "\<exists>d. bt_get j (bt_insert k c' xs) = Some d \<and> c_runner_id d = Some i"
    using maps_okD(1) [OF assms(1)] assms(2-4) by (fastforce simp: bt.get_insert)
next
  fix j d assume "bt_get j (bt_insert k c' xs) = Some d" and "is_active (c_status d)"
  then show "\<exists>i. c_runner_id d = Some i \<and> m i = Some j"
    using maps_okD(2) [OF assms(1)] assms(2-5) by (auto simp: bt.get_insert split: if_splits)
qed

lemma maps_ok_release:
  assumes "maps_ok xs m" and "bt_invar xs" and "m i = Some k" and "\<not> is_active (c_status c')"
  shows "maps_ok (bt_insert k c' xs) (m(i := None))"
proof (rule maps_okI)
  fix i' j assume m: "(m(i := None)) i' = Some j"
  then have "i' \<noteq> i" and "m i' = Some j" by (auto split: if_splits)
  then have "j \<noteq> k" using maps_okD(1) [OF assms(1)] assms(3) by (metis option.inject)
  with m show "\<exists>d. bt_get j (bt_insert k c' xs) = Some d \<and> c_runner_id d = Some i'"
    using maps_okD(1) [OF assms(1)] assms(2) by (auto simp: bt.get_insert split: if_splits)
next
  fix j d assume "bt_get j (bt_insert k c' xs) = Some d" and "is_active (c_status d)"
  then show "\<exists>i'. c_runner_id d = Some i' \<and> (m(i := None)) i' = Some j"
    using maps_okD(2) [OF assms(1)] assms(2-4) by (fastforce simp: bt.get_insert split: if_splits)
qed

lemma maps_ok_insert:
  assumes "maps_ok xs m" and "bt_invar xs" and "bt_get k xs = None"
    and "\<And>i. c_runner_id c = Some i \<Longrightarrow> m i = None"
    and "is_active (c_status c) \<Longrightarrow> c_runner_id c \<noteq> None"
  shows "maps_ok (bt_insert k c xs) (case c_runner_id c of None \<Rightarrow> m | Some i \<Rightarrow> m(i \<mapsto> k))"
proof (cases "c_runner_id c")
  case None
  show ?thesis
  proof (rule maps_okI)
    fix i' j assume "(case c_runner_id c of None \<Rightarrow> m | Some i \<Rightarrow> m(i \<mapsto> k)) i' = Some j"
    then show "\<exists>d. bt_get j (bt_insert k c xs) = Some d \<and> c_runner_id d = Some i'"
      using maps_okD(1) [OF assms(1)] assms(2,3) None by (fastforce simp: bt.get_insert)
  next
    fix j d assume "bt_get j (bt_insert k c xs) = Some d" and "is_active (c_status d)"
    then show "\<exists>i'. c_runner_id d = Some i' \<and>
        (case c_runner_id c of None \<Rightarrow> m | Some i \<Rightarrow> m(i \<mapsto> k)) i' = Some j"
      using maps_okD(2) [OF assms(1)] assms(2,5) None by (fastforce simp: bt.get_insert split: if_splits)
  qed
next
  case (Some i)
  have i: "m i = None" using assms(4) Some by blast
  show ?thesis
  proof (rule maps_okI)
    fix i' j assume "(case c_runner_id c of None \<Rightarrow> m | Some i \<Rightarrow> m(i \<mapsto> k)) i' = Some j"
    then show "\<exists>d. bt_get j (bt_insert k c xs) = Some d \<and> c_runner_id d = Some i'"
      using maps_okD(1) [OF assms(1)] assms(2,3) Some
      by (fastforce simp: bt.get_insert split: if_splits)
  next
    fix j d assume *: "bt_get j (bt_insert k c xs) = Some d" "is_active (c_status d)"
    show "\<exists>i'. c_runner_id d = Some i' \<and>
        (case c_runner_id c of None \<Rightarrow> m | Some i \<Rightarrow> m(i \<mapsto> k)) i' = Some j"
    proof (cases "j = k")
      case True
      with * assms(2) Some show ?thesis by (auto simp: bt.get_insert)
    next
      case False
      with * assms(2) obtain i' where "c_runner_id d = Some i'" "m i' = Some j"
        using maps_okD(2) [OF assms(1)] by (fastforce simp: bt.get_insert)
      with i Some show ?thesis by auto
    qed
  qed
qed

lemma maps_ok_remove:
  assumes "maps_ok xs m" and "bt_invar xs" and "m i = Some k"
  shows "maps_ok (bt_remove k xs) (m(i := None))"
proof (rule maps_okI)
  fix i' j assume m: "(m(i := None)) i' = Some j"
  then have "i' \<noteq> i" and "m i' = Some j" by (auto split: if_splits)
  then have "j \<noteq> k" using maps_okD(1) [OF assms(1)] assms(3) by (metis option.inject)
  with m show "\<exists>d. bt_get j (bt_remove k xs) = Some d \<and> c_runner_id d = Some i'"
    using maps_okD(1) [OF assms(1)] assms(2) by (auto simp: bt.get_remove split: if_splits)
next
  fix j d assume "bt_get j (bt_remove k xs) = Some d" and "is_active (c_status d)"
  then show "\<exists>i'. c_runner_id d = Some i' \<and> (m(i := None)) i' = Some j"
    using maps_okD(2) [OF assms(1)] assms(2,3) by (fastforce simp: bt.get_remove split: if_splits)
qed

lemma planner_inv_replace:
  assumes inv: "planner_inv p" and split: "p_chunks p = xs @ (k, c) # ys"
    and ok: "chunk_ok k c'" and "r_end (c_allocated c') \<le> r_end (c_allocated c)"
    and "p_total p' = p_total p" and "p_chunks p' = xs @ (k, c') # ys"
    and "maps_ok (xs @ (k, c') # ys) (p_runner_to_chunk p')"
    and "p_accepted_bytes p' + dl_len c = p_accepted_bytes p + dl_len c'"
  shows "planner_inv p'"
  using assms layout_replace [of 0 xs k c ys "p_total p" c'] by (auto simp: planner_inv_def)

section \<open>Every operation keeps the invariant\<close>

lemma last_below_no_overlap:
  assumes lay: "layout 0 xs hi" and "bt_last_below e xs = Some (j, d)"
    and "r_end (c_allocated d) \<le> s" and "(k, c) \<in> set xs" and "k < e"
  shows "r_end (c_allocated c) \<le> s"
proof -
  have inv: "bt_invar xs" using lay by (rule layout_bt_invar)
  have jd: "(j, d) \<in> set xs" "j < e" using bt.last_below_Some [OF assms(2)] by auto
  have "k \<le> j" using bt.last_below_greatest [OF inv assms(2,4,5)] .
  show ?thesis
  proof (cases "k = j")
    case True
    with assms(4) jd inv have "c = d"
      by (metis bt.entries_get option.inject)
    with assms(3) show ?thesis by simp
  next
    case False
    with \<open>k \<le> j\<close> have "r_end (c_allocated c) \<le> j"
      using layout_disjoint [OF lay assms(4) jd(1)] by simp
    moreover have "j < r_end (c_allocated d)" using layout_entries [OF lay jd(1)] by (simp add: chunk_ok_def)
    ultimately show ?thesis using assms(3) by simp
  qed
qed

lemma layout_insert:
  assumes "layout lo xs hi" and "chunk_ok k c" and "lo \<le> k" and "r_end (c_allocated c) \<le> hi"
    and "\<forall>(j, d) \<in> set xs. r_end (c_allocated d) \<le> k \<or> r_end (c_allocated c) \<le> j"
  shows "layout lo (bt_insert k c xs) hi \<and> dl_total (bt_insert k c xs) = dl_len c + dl_total xs"
  using assms
proof (induction lo xs hi rule: layout.induct)
  case (1 lo hi)
  then show ?case by simp
next
  case (2 lo j d xs hi)
  then have kj: "j \<noteq> k" and jd: "r_end (c_allocated d) \<le> k \<or> r_end (c_allocated c) \<le> j"
    by (auto simp: chunk_ok_def)
  show ?case
  proof (cases "k < j")
    case True
    with 2 jd show ?thesis by (auto simp: chunk_ok_def)
  next
    case False
    with 2 kj jd show ?thesis by (auto simp: chunk_ok_def)
  qed
qed

lemma allocate_fits:
  assumes "planner_inv p" and "allocate_chunk_inner p r rid st = (True, p')"
    and "(j, d) \<in> set (p_chunks p)"
  shows "r_end (c_allocated d) \<le> r_start r \<or> r_end r \<le> j"
proof (cases "bt_last_below (r_end r) (p_chunks p)")
  case None
  then show ?thesis using bt.last_below_None [OF None assms(3)] by simp
next
  case (Some e)
  obtain i w where e: "e = (i, w)" by (cases e)
  have "r_end (c_allocated w) \<le> r_start r"
    using assms(2) Some e by (auto simp: allocate_chunk_inner_def split: if_splits)
  then show ?thesis
    using last_below_no_overlap [of "p_chunks p" "p_total p" "r_end r" i w "r_start r" j d] assms Some e
    by (auto simp: planner_inv_def not_less [symmetric])
qed

lemma allocate_chunk_inner_inv:
  assumes inv: "planner_inv p" and "allocate_chunk_inner p r rid st = (True, p')"
    and fresh: "\<And>i. rid = Some i \<Longrightarrow> p_runner_to_chunk p i = None"
    and act: "is_active st \<Longrightarrow> rid \<noteq> None"
  shows "planner_inv p'"
proof -
  let ?c = "chunk_new r rid st"
  have p': "p' = p\<lparr>p_chunks := bt_insert (r_start r) ?c (p_chunks p),
      p_runner_to_chunk := (case rid of None \<Rightarrow> p_runner_to_chunk p
        | Some i \<Rightarrow> (p_runner_to_chunk p)(i \<mapsto> r_start r))\<rparr>"
    and r: "r_start r < r_end r" "r_end r \<le> p_total p"
    using assms(2) by (auto simp: allocate_chunk_inner_def split: if_splits)
  have ok: "chunk_ok (r_start r) ?c" using r by (simp add: chunk_ok_def chunk_new_def)
  have fits: "\<forall>(j, d) \<in> set (p_chunks p). r_end (c_allocated d) \<le> r_start r \<or> r_end (c_allocated ?c) \<le> j"
    using allocate_fits [OF inv assms(2)] by (auto simp: chunk_new_def)
  have lay: "layout 0 (bt_insert (r_start r) ?c (p_chunks p)) (p_total p)
      \<and> dl_total (bt_insert (r_start r) ?c (p_chunks p)) = dl_total (p_chunks p)"
    using layout_insert [of 0 "p_chunks p" "p_total p" "r_start r" ?c] inv ok fits r
    by (auto simp: planner_inv_def chunk_new_def)
  have none: "bt_get (r_start r) (p_chunks p) = None"
  proof (rule ccontr)
    assume "bt_get (r_start r) (p_chunks p) \<noteq> None"
    then obtain d where "(r_start r, d) \<in> set (p_chunks p)"
      using bt.entries_get [OF planner_inv_bt [OF inv]] by blast
    moreover from this have "chunk_ok (r_start r) d"
      using inv layout_entries by (auto simp: planner_inv_def)
    ultimately show False using fits r by (auto simp: chunk_ok_def chunk_new_def)
  qed
  have "maps_ok (bt_insert (r_start r) ?c (p_chunks p)) (p_runner_to_chunk p')"
    using maps_ok_insert [of "p_chunks p" "p_runner_to_chunk p" "r_start r" ?c] inv fresh act none p'
      planner_inv_bt [OF inv]
    by (auto simp: planner_inv_def chunk_new_def)
  with lay inv p' show ?thesis by (auto simp: planner_inv_def)
qed

lemma chunk_accept_ok:
  assumes "chunk_ok k c" and "r_end (c_allocated c) < u64_bound" and "chunk_accept c n = (c', r)"
  shows "r = Range (r_end (c_downloaded c))
               (r_end (c_downloaded c) + min n (r_end (c_allocated c) - r_end (c_downloaded c)))"
    and "c_allocated c' = c_allocated c" and "c_runner_id c' = c_runner_id c"
    and "c_downloaded c' = Range (r_start (c_downloaded c)) (r_end r)"
    and "c_status c' = c_status c \<or> c_status c' = Finished"
    and "chunk_ok k c'"
proof -
  have rem: "remaining c = r_end (c_allocated c) - r_end (c_downloaded c)"
    using assms by (simp add: remaining_def chunk_ok_def sub64_exact)
  have "add64 (r_end (c_downloaded c)) (min n (remaining c))
      = r_end (c_downloaded c) + min n (remaining c)"
    using assms by (intro add64_exact) (auto simp: rem chunk_ok_def)
  with assms rem
  show "r = Range (r_end (c_downloaded c))
               (r_end (c_downloaded c) + min n (r_end (c_allocated c) - r_end (c_downloaded c)))"
    and "c_allocated c' = c_allocated c" and "c_runner_id c' = c_runner_id c"
    and "c_downloaded c' = Range (r_start (c_downloaded c)) (r_end r)"
    and "c_status c' = c_status c \<or> c_status c' = Finished"
    and "chunk_ok k c'"
    by (auto simp: chunk_accept_def Let_def chunk_ok_def split: if_splits)
qed

lemma update_progress_spec:
  assumes inv: "planner_inv p" and map: "p_runner_to_chunk p i = Some k"
    and c: "bt_get k (p_chunks p) = Some c" and acc: "chunk_accept c n = (c', r)"
  shows "update_progress p i n =
      (Inr r, p\<lparr>p_chunks := bt_insert k c' (p_chunks p), p_accepted_bytes := p_accepted_bytes p + r_len r\<rparr>)"
    and "planner_inv (p\<lparr>p_chunks := bt_insert k c' (p_chunks p), p_accepted_bytes := p_accepted_bytes p + r_len r\<rparr>)"
proof -
  obtain xs ys where p: "p_chunks p = xs @ (k, c) # ys" and rid: "c_runner_id c = Some i"
    and ok: "chunk_ok k c" "r_end (c_allocated c) \<le> p_total p"
    using planner_runner_chunk [OF inv map] c by (metis option.inject)
  have tot: "p_total p < u64_bound" using inv by (simp add: planner_inv_def)
  have "r_end (c_allocated c) < u64_bound" using ok tot by simp
  note a = chunk_accept_ok [OF ok(1) this acc]
  have ins: "bt_insert k c' (p_chunks p) = xs @ (k, c') # ys"
    using bt_insert_here planner_inv_bt [OF inv] p by metis
  have act: "is_active (c_status c') \<Longrightarrow> is_active (c_status c)"
    using a(5) by (auto simp: is_active_def)
  have maps: "maps_ok (bt_insert k c' (p_chunks p)) (p_runner_to_chunk p)"
    using inv c a(3) act rid map planner_inv_bt [OF inv]
    by (intro maps_ok_replace [where c = c]) (auto simp: planner_inv_def)
  have len: "p_accepted_bytes p + r_len r + dl_len c = p_accepted_bytes p + dl_len c'"
    using a(1,4) ok(1) by (auto simp: chunk_ok_def)
  show inv': "planner_inv (p\<lparr>p_chunks := bt_insert k c' (p_chunks p),
      p_accepted_bytes := p_accepted_bytes p + r_len r\<rparr>)"
    by (rule planner_inv_replace [OF inv p a(6)]) (use a(2) maps len ins in simp_all)
  have "p_accepted_bytes p + r_len r < u64_bound"
    using planner_accepted_le [OF inv'] tot by simp
  moreover have "sub64 (r_end r) (r_start r) = r_len r"
    using a(1,6) tot ok by (intro sub64_exact) (auto simp: chunk_ok_def)
  ultimately show "update_progress p i n =
      (Inr r, p\<lparr>p_chunks := bt_insert k c' (p_chunks p), p_accepted_bytes := p_accepted_bytes p + r_len r\<rparr>)"
    by (simp add: update_progress_def map c acc add64_exact)
qed

lemma update_progress_inv:
  assumes "planner_inv p"
  shows "planner_inv (snd (update_progress p i n))"
proof (cases "p_runner_to_chunk p i")
  case None
  with assms show ?thesis by (simp add: update_progress_def)
next
  case (Some k)
  obtain c where c: "bt_get k (p_chunks p) = Some c"
    using planner_runner_chunk [OF assms Some] by metis
  obtain c' r where acc: "chunk_accept c n = (c', r)" by fastforce
  show ?thesis using update_progress_spec [OF assms Some c acc] by simp
qed

lemma mark_running_inv:
  assumes "planner_inv p"
  shows "planner_inv (snd (mark_running p i))"
proof (cases "p_runner_to_chunk p i")
  case None
  with assms show ?thesis by (simp add: mark_running_def)
next
  case (Some k)
  obtain c xs ys where c: "p_chunks p = xs @ (k, c) # ys" "bt_get k (p_chunks p) = Some c"
    "c_runner_id c = Some i" "chunk_ok k c"
    using planner_runner_chunk [OF assms Some] by metis
  let ?c = "c\<lparr>c_status := Running\<rparr>"
  have ins: "bt_insert k ?c (p_chunks p) = xs @ (k, ?c) # ys"
    using bt_insert_here planner_inv_bt [OF assms] c(1) by metis
  have "maps_ok (xs @ (k, ?c) # ys) (p_runner_to_chunk p)"
    using maps_ok_replace [of "p_chunks p" "p_runner_to_chunk p" k c ?c] assms c Some
      planner_inv_bt [OF assms] ins by (auto simp: planner_inv_def)
  then show ?thesis
    by (intro planner_inv_replace [OF assms c(1), of ?c])
      (use c(2,4) Some ins in \<open>simp_all add: mark_running_def chunk_ok_def\<close>)
qed

lemma mark_finished_inv:
  assumes "planner_inv p"
  shows "planner_inv (snd (mark_finished p i))"
proof (cases "p_runner_to_chunk p i")
  case None
  with assms show ?thesis by (simp add: mark_finished_def)
next
  case (Some k)
  obtain c xs ys where c: "p_chunks p = xs @ (k, c) # ys" "bt_get k (p_chunks p) = Some c"
    "c_runner_id c = Some i" "chunk_ok k c"
    using planner_runner_chunk [OF assms Some] by metis
  let ?c = "c\<lparr>c_status := Finished\<rparr>"
  have ins: "bt_insert k ?c (p_chunks p) = xs @ (k, ?c) # ys"
    using bt_insert_here planner_inv_bt [OF assms] c(1) by metis
  have "maps_ok (xs @ (k, ?c) # ys) ((p_runner_to_chunk p)(i := None))"
    using maps_ok_release [of "p_chunks p" "p_runner_to_chunk p" i k ?c] assms Some
      planner_inv_bt [OF assms] ins by (auto simp: planner_inv_def is_active_def)
  then show ?thesis
    by (intro planner_inv_replace [OF assms c(1), of ?c])
      (use c(2,4) Some ins in \<open>simp_all add: mark_finished_def forget_runner_def chunk_ok_def Let_def\<close>)
qed

text \<open>Failing releases the unfinished part; what was downloaded stays, as a finished chunk.\<close>

lemma mark_failed_spec:
  assumes inv: "planner_inv p" and map: "p_runner_to_chunk p i = Some k"
    and c: "bt_get k (p_chunks p) = Some c"
  shows "r_end (c_downloaded c) = k \<Longrightarrow> mark_failed p i =
      (Inr (c_allocated c), p\<lparr>p_runner_to_chunk := (p_runner_to_chunk p)(i := None),
                              p_chunks := bt_remove k (p_chunks p)\<rparr>)"
    and "k < r_end (c_downloaded c) \<Longrightarrow> mark_failed p i =
      (Inr (incomplete_range c),
       p\<lparr>p_runner_to_chunk := (p_runner_to_chunk p)(i := None),
         p_chunks := bt_insert k (c\<lparr>c_allocated := c_downloaded c, c_status := Finished,
                                   c_runner_id := None\<rparr>) (p_chunks p)\<rparr>)"
    and "planner_inv (snd (mark_failed p i))"
proof -
  obtain xs ys where p: "p_chunks p = xs @ (k, c) # ys" and ok: "chunk_ok k c"
    using planner_runner_chunk [OF inv map] c by (metis option.inject)
  have bt: "bt_invar (xs @ (k, c) # ys)" using planner_inv_bt [OF inv] p by simp
  let ?d = "c\<lparr>c_allocated := c_downloaded c, c_status := Finished, c_runner_id := None\<rparr>"
  have st: "r_start (c_downloaded c) = k" "r_start (c_allocated c) = k" using ok by (simp_all add: chunk_ok_def)
  have alloc: "Range (r_start (c_allocated c)) (r_end (c_downloaded c)) = c_downloaded c"
    using ok by (cases "c_downloaded c") (simp add: chunk_ok_def)
  show e1: "mark_failed p i = (Inr (c_allocated c), p\<lparr>p_runner_to_chunk := (p_runner_to_chunk p)(i := None),
      p_chunks := bt_remove k (p_chunks p)\<rparr>)" if "r_end (c_downloaded c) = k"
    using that st map c by (simp add: mark_failed_def forget_runner_def Let_def)
  have e2: "bt_insert k ?d (bt_remove k (p_chunks p)) = bt_insert k ?d (p_chunks p)"
    using bt_remove_here [OF bt] bt_insert_removed [OF bt] bt_insert_here [OF bt] p by simp
  show e3: "mark_failed p i = (Inr (incomplete_range c), p\<lparr>p_runner_to_chunk := (p_runner_to_chunk p)(i := None),
      p_chunks := bt_insert k ?d (p_chunks p)\<rparr>)" if "k < r_end (c_downloaded c)"
    using that st map c alloc e2
    by (simp add: mark_failed_def forget_runner_def incomplete_range_def Let_def)
  show "planner_inv (snd (mark_failed p i))"
  proof (cases "r_end (c_downloaded c) = k")
    case True
    have "maps_ok (xs @ ys) ((p_runner_to_chunk p)(i := None))"
      using maps_ok_remove [of "p_chunks p" "p_runner_to_chunk p" i k] inv map bt_remove_here [OF bt]
        planner_inv_bt [OF inv] p by (simp add: planner_inv_def)
    moreover have "layout 0 (xs @ ys) (p_total p)"
    proof (cases ys)
      case Nil
      with inv p show ?thesis
        by (auto simp: planner_inv_def chunk_ok_def intro: layout_upper)
    next
      case (Cons e zs)
      with inv p show ?thesis
        by (cases e) (auto simp: planner_inv_def chunk_ok_def intro: layout_upper)
    qed
    ultimately show ?thesis
      using True ok inv p e1 [OF True] bt_remove_here [OF bt]
      by (simp add: planner_inv_def chunk_ok_def)
  next
    case False
    then have lt: "k < r_end (c_downloaded c)" using ok by (simp add: chunk_ok_def)
    have "maps_ok (xs @ (k, ?d) # ys) ((p_runner_to_chunk p)(i := None))"
      using maps_ok_release [of "p_chunks p" "p_runner_to_chunk p" i k ?d] inv map
        bt_insert_here [OF bt] planner_inv_bt [OF inv] p by (simp add: planner_inv_def is_active_def)
    then show ?thesis
      by (intro planner_inv_replace [OF inv p, of ?d])
        (use e3 [OF lt] ok lt bt_insert_here [OF bt] p in \<open>simp_all add: chunk_ok_def\<close>)
  qed
qed

lemma mark_failed_inv:
  assumes "planner_inv p"
  shows "planner_inv (snd (mark_failed p i))"
proof (cases "p_runner_to_chunk p i")
  case None
  with assms show ?thesis by (simp add: mark_failed_def)
next
  case (Some k)
  then show ?thesis
    using planner_runner_chunk [OF assms Some] mark_failed_spec(3) [OF assms Some] by metis
qed

end
