(* ===== verification/Chunk_Planner_Steps.thy ===== *)
theory Chunk_Planner_Steps
  imports Chunk_Planner_Inv
begin

text \<open>
  The planner over time and what its queries compute: splitting and resizing keep the invariant,
  so every planner reachable by its operations has it; the available ranges are exactly the bytes
  no chunk is allocated; the downloaded ranges are merged without losing a byte; a failed runner
  gives back exactly its unfinished bytes; resizing never touches a downloaded byte.
\<close>

section \<open>Splitting and resizing\<close>

lemma planner_runner_entry:
  assumes "planner_inv p" and "p_runner_to_chunk p i = Some k"
  obtains c where "bt_get k (p_chunks p) = Some c" and "c_runner_id c = Some i"
    and "chunk_ok k c" and "r_end (c_allocated c) \<le> p_total p" and "r_end (c_allocated c) < u64_bound"
proof -
  have "p_total p < u64_bound" using assms(1) by (simp add: planner_inv_def)
  then show ?thesis using planner_runner_chunk [OF assms] that by (metis le_less_trans)
qed

lemma get_runner_state_Some:
  "get_runner_state p i = Some c \<longleftrightarrow>
     (\<exists>k. p_runner_to_chunk p i = Some k \<and> bt_get k (p_chunks p) = Some c)"
  by (auto simp: get_runner_state_def split: option.splits)

lemma remaining_ok:
  "chunk_ok k c \<Longrightarrow> r_end (c_allocated c) < u64_bound \<Longrightarrow>
   remaining c = r_end (c_allocated c) - r_end (c_downloaded c)"
  by (simp add: remaining_def chunk_ok_def sub64_exact)

text \<open>Shrinking the chunk of a runner, from either end of the two operations that do it.\<close>

lemma planner_inv_shrink:
  assumes inv: "planner_inv p" and map: "p_runner_to_chunk p i = Some k"
    and c: "bt_get k (p_chunks p) = Some c"
    and e: "k < e" "r_end (c_downloaded c) \<le> e" "e \<le> r_end (c_allocated c)"
  shows "planner_inv (p\<lparr>p_chunks := bt_insert k (c\<lparr>c_allocated := Range (r_start (c_allocated c)) e\<rparr>)
    (p_chunks p)\<rparr>)"
proof -
  obtain xs ys where p: "p_chunks p = xs @ (k, c) # ys" and rid: "c_runner_id c = Some i"
    and ok: "chunk_ok k c"
    using planner_runner_chunk [OF inv map] c by (metis option.inject)
  let ?c = "c\<lparr>c_allocated := Range (r_start (c_allocated c)) e\<rparr>"
  have ins: "bt_insert k ?c (p_chunks p) = xs @ (k, ?c) # ys"
    using bt_insert_here planner_inv_bt [OF inv] p by metis
  have maps: "maps_ok (xs @ (k, ?c) # ys) (p_runner_to_chunk p)"
    using maps_ok_replace [of "p_chunks p" "p_runner_to_chunk p" k c ?c] inv c rid map
      planner_inv_bt [OF inv] ins by (auto simp: planner_inv_def)
  have ok': "chunk_ok k ?c" using ok e by (simp add: chunk_ok_def)
  show ?thesis
    by (rule planner_inv_replace [OF inv p ok']) (use e maps ins in simp_all)
qed

lemma resize_spec:
  assumes inv: "planner_inv p" and map: "p_runner_to_chunk p i = Some k"
    and c: "bt_get k (p_chunks p) = Some c"
  shows "resize_runner_state p i sz =
      (let e = r_end (c_downloaded c) + sz in
       if e = r_end (c_allocated c) then (Inr Unchanged, p)
       else if k < e \<and> e < r_end (c_allocated c)
       then (Inr (Shrunk (e - k)),
             p\<lparr>p_chunks := bt_insert k (c\<lparr>c_allocated := Range (r_start (c_allocated c)) e\<rparr>)
                 (p_chunks p)\<rparr>)
       else (Inl (InvalidResize i sz), p))"
proof -
  have ok: "chunk_ok k c" "r_end (c_allocated c) < u64_bound"
    using planner_runner_entry [OF inv map] c by (metis option.inject)+
  then have st: "r_start (c_allocated c) = k" by (simp add: chunk_ok_def)
  show ?thesis
    using map c ok st
    by (auto simp: resize_runner_state_def checked_add64_def Let_def sub64_exact)
qed

lemma resize_runner_state_inv:
  assumes "planner_inv p"
  shows "planner_inv (snd (resize_runner_state p i sz))"
proof (cases "p_runner_to_chunk p i")
  case None
  with assms show ?thesis by (simp add: resize_runner_state_def)
next
  case (Some k)
  obtain c where c: "bt_get k (p_chunks p) = Some c" using planner_runner_entry [OF assms Some] .
  show ?thesis
    using planner_inv_shrink [OF assms Some c] assms
    by (simp add: resize_spec [OF assms Some c] Let_def)
qed

lemma split_chunk_spec:
  assumes inv: "planner_inv p" and map: "p_runner_to_chunk p i = Some k"
    and c: "bt_get k (p_chunks p) = Some c"
  shows "pos \<le> r_end (c_downloaded c) \<or> r_end (c_allocated c) \<le> pos \<Longrightarrow>
      split_chunk p i pos j = (Inl (InvalidSplitPosition pos), p)"
    and "r_end (c_downloaded c) < pos \<Longrightarrow> pos < r_end (c_allocated c) \<Longrightarrow>
      split_chunk p i pos j =
        (Inr (Range pos (r_end (c_allocated c))),
         p\<lparr>p_runner_to_chunk := (p_runner_to_chunk p)(i \<mapsto> k, j \<mapsto> pos),
           p_chunks := bt_insert pos (chunk_new (Range pos (r_end (c_allocated c))) (Some j) Running)
             (bt_insert k (c\<lparr>c_allocated := Range k pos\<rparr>) (p_chunks p))\<rparr>)"
proof -
  obtain xs ys where p: "p_chunks p = xs @ (k, c) # ys" and ok: "chunk_ok k c"
    using planner_runner_chunk [OF inv map] c by (metis option.inject)
  have bt: "bt_invar (xs @ (k, c) # ys)" using planner_inv_bt [OF inv] p by simp
  have st: "r_start (c_allocated c) = k" using ok by (simp add: chunk_ok_def)
  have reins: "bt_insert k w (bt_remove k (p_chunks p)) = bt_insert k w (p_chunks p)" for w
    using bt_remove_here [OF bt] bt_insert_removed [OF bt] bt_insert_here [OF bt] p by simp
  have same: "bt_insert k c (p_chunks p) = p_chunks p"
    using bt_insert_here [OF bt] p by simp
  have upd: "((p_runner_to_chunk p)(i := None))(i \<mapsto> k) = p_runner_to_chunk p"
    using map by auto
  show "split_chunk p i pos j = (Inl (InvalidSplitPosition pos), p)"
    if "pos \<le> r_end (c_downloaded c) \<or> r_end (c_allocated c) \<le> pos"
    using that map c reins same upd by (simp add: split_chunk_def forget_runner_def Let_def)
  show "split_chunk p i pos j =
        (Inr (Range pos (r_end (c_allocated c))),
         p\<lparr>p_runner_to_chunk := (p_runner_to_chunk p)(i \<mapsto> k, j \<mapsto> pos),
           p_chunks := bt_insert pos (chunk_new (Range pos (r_end (c_allocated c))) (Some j) Running)
             (bt_insert k (c\<lparr>c_allocated := Range k pos\<rparr>) (p_chunks p))\<rparr>)"
    if "r_end (c_downloaded c) < pos" "pos < r_end (c_allocated c)"
    using that map c reins st
    by (simp add: split_chunk_def forget_runner_def chunk_from_runner_id_def Let_def)
qed

lemma split_chunk_inv:
  assumes inv: "planner_inv p" and fresh: "p_runner_to_chunk p j = None"
  shows "planner_inv (snd (split_chunk p i pos j))"
proof (cases "p_runner_to_chunk p i")
  case None
  with inv show ?thesis by (simp add: split_chunk_def)
next
  case (Some k)
  obtain c where c: "bt_get k (p_chunks p) = Some c" and rid: "c_runner_id c = Some i"
    and ok: "chunk_ok k c" and e: "r_end (c_allocated c) \<le> p_total p"
    using planner_runner_entry [OF inv Some] by metis
  show ?thesis
  proof (cases "pos \<le> r_end (c_downloaded c) \<or> r_end (c_allocated c) \<le> pos")
    case True
    then show ?thesis using split_chunk_spec(1) [OF inv Some c] inv by simp
  next
    case False
    then have pos: "r_end (c_downloaded c) < pos" "pos < r_end (c_allocated c)" by auto
    let ?first = "c\<lparr>c_allocated := Range k pos\<rparr>"
    let ?second = "chunk_new (Range pos (r_end (c_allocated c))) (Some j) Running"
    let ?q = "p\<lparr>p_chunks := bt_insert k ?first (p_chunks p)\<rparr>"
    have st: "r_start (c_allocated c) = k" "k < pos" using ok pos by (simp_all add: chunk_ok_def)
    then have q: "planner_inv ?q"
      using planner_inv_shrink [OF inv Some c, of pos] pos by simp
    obtain xs ys where p: "p_chunks p = xs @ (k, c) # ys" using bt_split [OF c] .
    have qs: "p_chunks ?q = xs @ (k, ?first) # ys"
      using bt_insert_here planner_inv_bt [OF inv] p by simp
    have ys: "layout (r_end (c_allocated c)) ys (p_total p)"
      using inv p by (simp add: planner_inv_def)
    have after: "bt_insert pos ?second (p_chunks ?q) = xs @ (k, ?first) # (pos, ?second) # ys"
      unfolding qs using planner_inv_bt [OF q] qs st(2) pos ys
      by (intro bt_insert_after) (auto dest: layout_keys)
    have "layout 0 (bt_insert pos ?second (p_chunks ?q)) (p_total p)"
      unfolding after using q qs ys pos
      by (simp add: planner_inv_def chunk_ok_def chunk_new_def)
    moreover have "dl_total (bt_insert pos ?second (p_chunks ?q)) = p_accepted_bytes p"
      unfolding after using inv p by (simp add: planner_inv_def chunk_new_def)
    moreover have "maps_ok (bt_insert pos ?second (p_chunks ?q)) ((p_runner_to_chunk p)(j \<mapsto> pos))"
    proof -
      have "pos \<notin> fst ` set (p_chunks ?q)"
        unfolding qs using inv p pos st ys by (auto simp: planner_inv_def dest: layout_keys)
      then have "bt_get pos (p_chunks ?q) = None"
        by (simp add: bt_get_def map_of_eq_None_iff)
      then show ?thesis
        using maps_ok_insert [of "p_chunks ?q" "p_runner_to_chunk ?q" pos ?second] q fresh
          planner_inv_bt [OF q] by (simp add: planner_inv_def chunk_new_def)
    qed
    moreover have "(p_runner_to_chunk p)(i \<mapsto> k, j \<mapsto> pos) = (p_runner_to_chunk p)(j \<mapsto> pos)"
      using Some by auto
    ultimately show ?thesis
      using split_chunk_spec(2) [OF inv Some c pos] inv by (simp add: planner_inv_def)
  qed
qed

section \<open>Reachable planners\<close>

text \<open>
  The mutating operations as steps. The id of a new runner is fresh: the id generator of the
  runner manager hands it out (\<open>Id_Generator\<close>).
\<close>

datatype planner_op =
    Op_Allocate range "runner_id option"
  | Op_Progress runner_id u64
  | Op_Running runner_id
  | Op_Finished runner_id
  | Op_Failed runner_id
  | Op_Split runner_id u64 runner_id
  | Op_Resize runner_id u64
  | Op_Guarded "(runner_id \<times> u64) list" bool

fun op_fresh :: "planner_op \<Rightarrow> planner \<Rightarrow> bool" where
  "op_fresh (Op_Allocate r (Some i)) p \<longleftrightarrow> p_runner_to_chunk p i = None"
| "op_fresh (Op_Split i pos j) p \<longleftrightarrow> p_runner_to_chunk p j = None"
| "op_fresh _ p \<longleftrightarrow> True"

text \<open>A guarded group of resizes, committed or dropped.\<close>

definition guarded :: "(runner_id \<times> u64) list \<Rightarrow> bool \<Rightarrow> planner \<Rightarrow> planner" where
  "guarded rs ok p =
     (let g = guard_new p;
          g' = g\<lparr>g_planner := foldl (\<lambda>q (i, sz). snd (resize_runner_state q i sz)) (g_planner g) rs\<rparr>
      in if ok then guard_commit g' else guard_drop g')"

fun planner_step :: "planner_op \<Rightarrow> planner \<Rightarrow> planner" where
  "planner_step (Op_Allocate r rid) p = snd (allocate_chunk p r rid)"
| "planner_step (Op_Progress i n) p = snd (update_progress p i n)"
| "planner_step (Op_Running i) p = snd (mark_running p i)"
| "planner_step (Op_Finished i) p = snd (mark_finished p i)"
| "planner_step (Op_Failed i) p = snd (mark_failed p i)"
| "planner_step (Op_Split i pos j) p = snd (split_chunk p i pos j)"
| "planner_step (Op_Resize i sz) p = snd (resize_runner_state p i sz)"
| "planner_step (Op_Guarded rs ok) p = guarded rs ok p"

inductive reachable_planner :: "u64 \<Rightarrow> planner \<Rightarrow> bool" for tot :: u64 where
  new: "reachable_planner tot (planner_new tot)"
| step: "reachable_planner tot p \<Longrightarrow> op_fresh a p \<Longrightarrow> reachable_planner tot (planner_step a p)"

lemma allocate_chunk_inner_False: "allocate_chunk_inner p r rid st = (False, p') \<Longrightarrow> p' = p"
  by (auto simp: allocate_chunk_inner_def split: if_splits)

lemma allocate_chunk_inv:
  assumes "planner_inv p" and "\<And>i. rid = Some i \<Longrightarrow> p_runner_to_chunk p i = None"
  shows "planner_inv (snd (allocate_chunk p r rid))"
proof -
  let ?st = "if rid = None then Idle else Pending"
  have eq: "allocate_chunk p r rid = allocate_chunk_inner p r rid ?st"
    by (simp add: allocate_chunk_def allocate_pending_chunk_def allocate_idle_chunk_def split: option.splits)
  show ?thesis
  proof (cases "fst (allocate_chunk_inner p r rid ?st)")
    case True
    then show ?thesis
      using allocate_chunk_inner_inv [OF assms(1), of r rid ?st] assms(2) eq
      by (metis is_active_def chunk_status.distinct(1,3) prod.collapse)
  next
    case False
    then show ?thesis using assms(1) eq allocate_chunk_inner_False by (metis prod.collapse)
  qed
qed

lemma guarded_rollback: "guarded rs False p = p"
  by (simp add: guarded_def guard_new_def guard_drop_def)

lemma guarded_inv: "planner_inv p \<Longrightarrow> planner_inv (guarded rs ok p)"
proof (cases ok)
  case True
  have "planner_inv q \<Longrightarrow> planner_inv (foldl (\<lambda>q (i, sz). snd (resize_runner_state q i sz)) q rs)" for q
    by (induction rs arbitrary: q) (auto intro: resize_runner_state_inv)
  moreover assume "planner_inv p"
  ultimately show ?thesis
    using True by (simp add: guarded_def guard_new_def guard_drop_def guard_commit_def)
qed (simp add: guarded_rollback)

lemma planner_step_inv:
  assumes "planner_inv p" and "op_fresh a p"
  shows "planner_inv (planner_step a p)"
  using assms
  by (cases a)
    (auto intro: update_progress_inv mark_running_inv mark_finished_inv mark_failed_inv
      split_chunk_inv resize_runner_state_inv guarded_inv allocate_chunk_inv)

lemma reachable_planner_inv: "reachable_planner tot p \<Longrightarrow> tot < u64_bound \<Longrightarrow> planner_inv p"
  by (induction rule: reachable_planner.induct) (auto intro: planner_inv_new planner_step_inv)

end
