(* ===== verification/Id_Generator.thy ===== *)
theory Id_Generator
  imports Prelude
begin

text \<open>
  The runner id generator (\<open>task/instance/id.rs\<close>): a bit vector of used ids, a hint where the
  search for the next free one starts, and a count. \<open>id_pool\<close> is what its clients rely on: a
  handed-out id is fresh and stays taken until it is released, and none is refused while one is
  free. The client's lemmas are proved in the locale; the generator interprets it.
\<close>

section \<open>The interface\<close>

locale id_pool =
  fixes alloc :: "'g \<Rightarrow> usize option \<times> 'g"
    and free :: "'g \<Rightarrow> usize \<Rightarrow> bool \<times> 'g"
    and ids :: "'g \<Rightarrow> usize set"
    and cap :: "'g \<Rightarrow> usize"
    and invar :: "'g \<Rightarrow> bool"
  assumes ids_below: "invar g \<Longrightarrow> ids g \<subseteq> {..<cap g}"
    and alloc_Some: "invar g \<Longrightarrow> alloc g = (Some i, g') \<Longrightarrow>
          i \<notin> ids g \<and> ids g' = insert i (ids g) \<and> cap g' = cap g \<and> invar g'"
    and alloc_None: "invar g \<Longrightarrow> alloc g = (None, g') \<Longrightarrow> ids g = {..<cap g} \<and> g' = g"
    and free_id: "invar g \<Longrightarrow> free g i = (b, g') \<Longrightarrow>
          b = (i \<in> ids g) \<and> ids g' = ids g - {i} \<and> cap g' = cap g \<and> invar g'"
begin

lemma ids_finite: "invar g \<Longrightarrow> finite (ids g)"
  using ids_below finite_subset by blast

lemma ids_card: "invar g \<Longrightarrow> card (ids g) \<le> cap g"
  using ids_below card_mono [of "{..<cap g}" "ids g"] by simp

lemma alloc_below: "invar g \<Longrightarrow> alloc g = (Some i, g') \<Longrightarrow> i < cap g"
  using alloc_Some ids_below by (metis insertI1 lessThan_iff subset_iff)

lemma alloc_iff: "invar g \<Longrightarrow> fst (alloc g) = None \<longleftrightarrow> card (ids g) = cap g"
proof
  assume "invar g" and "fst (alloc g) = None"
  then show "card (ids g) = cap g" using alloc_None [of g] by (cases "alloc g") simp
next
  assume inv: "invar g" and full: "card (ids g) = cap g"
  show "fst (alloc g) = None"
  proof (cases "alloc g")
    case (Pair r g')
    show ?thesis
    proof (cases r)
      case (Some i)
      with Pair inv have "i \<notin> ids g" "ids g' = insert i (ids g)" "cap g' = cap g" "invar g'"
        using alloc_Some by auto
      then have "card (ids g') = Suc (cap g)" and "card (ids g') \<le> cap g"
        using full ids_finite [OF inv] ids_card [of g'] by simp_all
      then show ?thesis by simp
    qed (simp add: Pair)
  qed
qed

lemma free_again: "invar g \<Longrightarrow> free g i = (b, g') \<Longrightarrow> fst (free g' i) = False"
  by (metis Diff_iff free_id insertI1 prod.collapse)

end

section \<open>The generator\<close>

record generator =
  gn_bits :: "bool list"
  gn_hint :: usize
  gn_count :: usize

definition gen_new :: "usize \<Rightarrow> generator" where
  "gen_new n = \<lparr>gn_bits = replicate n False, gn_hint = 0, gn_count = 0\<rparr>"

definition gen_index :: "generator \<Rightarrow> usize \<Rightarrow> usize" where
  "gen_index g i = add64 (gn_hint g) i mod length (gn_bits g)"

definition gen_next :: "generator \<Rightarrow> usize option \<times> generator" where
  "gen_next g =
     (if length (gn_bits g) \<le> gn_count g then (None, g)
      else
        (case List.find (\<lambda>i. \<not> gn_bits g ! gen_index g i) [0..<length (gn_bits g)] of
           None \<Rightarrow> (None, g)
         | Some i \<Rightarrow>
            (let index = gen_index g i
             in (Some index,
                 g\<lparr>gn_bits := (gn_bits g)[index := True],
                   gn_count := add64 (gn_count g) 1,
                   gn_hint := add64 index 1 mod length (gn_bits g)\<rparr>))))"

definition gen_release :: "generator \<Rightarrow> usize \<Rightarrow> bool \<times> generator" where
  "gen_release g i =
     (if length (gn_bits g) \<le> i then (False, g)
      else if gn_bits g ! i
      then (True,
            g\<lparr>gn_bits := (gn_bits g)[i := False],
              gn_count := sub64 (gn_count g) 1,
              gn_hint := (if i < gn_hint g then i else gn_hint g)\<rparr>)
      else (False, g))"

definition gen_is_allocated :: "generator \<Rightarrow> usize \<Rightarrow> bool" where
  "gen_is_allocated g i \<longleftrightarrow> i < length (gn_bits g) \<and> gn_bits g ! i"

definition gen_allocated_count :: "generator \<Rightarrow> usize" where
  "gen_allocated_count g = gn_count g"

definition gen_capacity :: "generator \<Rightarrow> usize" where
  "gen_capacity g = length (gn_bits g)"

section \<open>Its invariant\<close>

text \<open>A bit vector holds fewer than \<open>2 ^ 61\<close> bits, so twice its length does not wrap.\<close>

definition gen_ids :: "generator \<Rightarrow> usize set" where
  "gen_ids g = {i. gen_is_allocated g i}"

definition gen_inv :: "generator \<Rightarrow> bool" where
  "gen_inv g \<longleftrightarrow>
     gn_count g = card (gen_ids g)
     \<and> (gn_hint g < length (gn_bits g) \<or> gn_hint g = 0)
     \<and> 2 * length (gn_bits g) < u64_bound"

lemma gen_ids_below: "gen_ids g \<subseteq> {..<length (gn_bits g)}"
  by (auto simp: gen_ids_def gen_is_allocated_def)

lemma gen_ids_finite [simp]: "finite (gen_ids g)"
  using gen_ids_below finite_subset by blast

lemma gen_inv_new: "2 * n < u64_bound \<Longrightarrow> gen_inv (gen_new n) \<and> gen_ids (gen_new n) = {}"
  by (auto simp: gen_inv_def gen_new_def gen_ids_def gen_is_allocated_def)

lemma gen_index_below: "gn_bits g \<noteq> [] \<Longrightarrow> gen_index g i < length (gn_bits g)"
  by (simp add: gen_index_def)

text \<open>The search visits every index.\<close>

lemma gen_index_onto:
  assumes "gen_inv g" and "j < length (gn_bits g)"
  shows "\<exists>i < length (gn_bits g). gen_index g i = j"
proof -
  let ?n = "length (gn_bits g)" and ?h = "gn_hint g"
  have h: "?h < ?n" using assms by (auto simp: gen_inv_def)
  have b: "2 * ?n < u64_bound" using assms by (simp add: gen_inv_def)
  show ?thesis
  proof (cases "?h \<le> j")
    case True
    then have "gen_index g (j - ?h) = j" using assms(2) b by (simp add: gen_index_def add64_exact)
    moreover have "j - ?h < ?n" using assms(2) by simp
    ultimately show ?thesis by blast
  next
    case False
    then have "?h + (j + ?n - ?h) = j + ?n" using h by simp
    moreover have "j + ?n < u64_bound" using assms(2) b by simp
    ultimately have "gen_index g (j + ?n - ?h) = j" using assms(2) by (simp add: gen_index_def add64_exact)
    moreover have "j + ?n - ?h < ?n" using False h by simp
    ultimately show ?thesis by blast
  qed
qed

lemma gen_next_None:
  assumes inv: "gen_inv g" and "gen_next g = (None, g')"
  shows "gen_ids g = {..<length (gn_bits g)}" and "g' = g"
proof -
  show "g' = g" using assms(2) by (auto simp: gen_next_def Let_def split: if_splits option.splits)
  show "gen_ids g = {..<length (gn_bits g)}"
  proof (cases "length (gn_bits g) \<le> gn_count g")
    case True
    then show ?thesis
      using inv gen_ids_below [of g] card_subset_eq [of "{..<length (gn_bits g)}" "gen_ids g"]
        card_mono [of "{..<length (gn_bits g)}" "gen_ids g"] by (auto simp: gen_inv_def)
  next
    case False
    then have "List.find (\<lambda>i. \<not> gn_bits g ! gen_index g i) [0..<length (gn_bits g)] = None"
      using assms(2) by (auto simp: gen_next_def Let_def split: option.splits)
    then have "\<forall>i < length (gn_bits g). gn_bits g ! gen_index g i"
      by (simp add: find_None_iff)
    then have "\<forall>j < length (gn_bits g). gn_bits g ! j"
      using gen_index_onto [OF inv] by metis
    then show ?thesis by (auto simp: gen_ids_def gen_is_allocated_def)
  qed
qed

lemma gen_next_Some:
  assumes inv: "gen_inv g" and "gen_next g = (Some j, g')"
  shows "j \<notin> gen_ids g \<and> gen_ids g' = insert j (gen_ids g)
    \<and> length (gn_bits g') = length (gn_bits g) \<and> gen_inv g'"
proof -
  let ?n = "length (gn_bits g)"
  obtain i where i: "List.find (\<lambda>i. \<not> gn_bits g ! gen_index g i) [0..<?n] = Some i"
    and j: "j = gen_index g i"
    and g': "g' = g\<lparr>gn_bits := (gn_bits g)[j := True], gn_count := add64 (gn_count g) 1,
                  gn_hint := add64 j 1 mod ?n\<rparr>"
    and lt: "gn_count g < ?n"
    using assms(2) by (auto simp: gen_next_def Let_def split: if_splits option.splits)
  have free: "\<not> gn_bits g ! j" using find_Some_D [OF i] j by blast
  have "gn_bits g \<noteq> []" using lt by auto
  then have jn: "j < ?n" using j by (simp add: gen_index_below)
  have new: "j \<notin> gen_ids g" using free by (simp add: gen_ids_def gen_is_allocated_def)
  have ids: "gen_ids g' = insert j (gen_ids g)"
    using g' jn by (auto simp: gen_ids_def gen_is_allocated_def nth_list_update)
  have b: "2 * ?n < u64_bound" using inv by (simp add: gen_inv_def)
  have "gn_count g' = card (gen_ids g')"
    using inv g' ids new lt b by (simp add: gen_inv_def add64_exact)
  moreover have "gn_hint g' < ?n" using g' \<open>gn_bits g \<noteq> []\<close> by simp
  ultimately have "gen_inv g'" using g' b by (simp add: gen_inv_def)
  with new ids g' show ?thesis by simp
qed

lemma gen_release_spec:
  assumes inv: "gen_inv g" and "gen_release g j = (b, g')"
  shows "b = (j \<in> gen_ids g) \<and> gen_ids g' = gen_ids g - {j}
    \<and> length (gn_bits g') = length (gn_bits g) \<and> gen_inv g'"
proof (cases "j \<in> gen_ids g")
  case True
  then have j: "j < length (gn_bits g)" "gn_bits g ! j"
    by (simp_all add: gen_ids_def gen_is_allocated_def)
  have g': "b" "g' = g\<lparr>gn_bits := (gn_bits g)[j := False], gn_count := sub64 (gn_count g) 1,
              gn_hint := (if j < gn_hint g then j else gn_hint g)\<rparr>"
    using assms(2) j by (auto simp: gen_release_def)
  have ids: "gen_ids g' = gen_ids g - {j}"
    using g'(2) j by (auto simp: gen_ids_def gen_is_allocated_def nth_list_update)
  have "0 < card (gen_ids g)" using True by (metis card_gt_0_iff empty_iff gen_ids_finite)
  moreover have "card (gen_ids g) \<le> length (gn_bits g)"
    using card_mono [OF _ gen_ids_below [of g]] by simp
  ultimately have "gn_count g' = card (gen_ids g')"
    using inv g'(2) ids True by (simp add: gen_inv_def sub64_exact)
  then have "gen_inv g'" using inv g'(2) j by (auto simp: gen_inv_def)
  with True g' ids show ?thesis by simp
next
  case False
  then show ?thesis
    using assms by (auto simp: gen_release_def gen_ids_def gen_is_allocated_def split: if_splits)
qed

interpretation gp: id_pool gen_next gen_release gen_ids gen_capacity gen_inv
proof unfold_locales
  show "gen_inv g \<Longrightarrow> gen_ids g \<subseteq> {..<gen_capacity g}" for g
    by (simp add: gen_capacity_def gen_ids_below)
  show "gen_inv g \<Longrightarrow> gen_next g = (None, g') \<Longrightarrow> gen_ids g = {..<gen_capacity g} \<and> g' = g" for g g'
    using gen_next_None by (simp add: gen_capacity_def)
qed (auto simp: gen_capacity_def dest: gen_next_Some gen_release_spec)

section \<open>What the clients get\<close>

datatype gen_op = Gen_Next | Gen_Release usize

fun gen_step :: "gen_op \<Rightarrow> generator \<Rightarrow> generator" where
  "gen_step Gen_Next g = snd (gen_next g)"
| "gen_step (Gen_Release i) g = snd (gen_release g i)"

lemma gen_step_inv: "gen_inv g \<Longrightarrow> gen_inv (gen_step a g) \<and> gen_capacity (gen_step a g) = gen_capacity g"
proof (cases a)
  case Gen_Next
  assume inv: "gen_inv g"
  then show ?thesis
    using Gen_Next gp.alloc_None [OF inv] gp.alloc_Some [OF inv]
    by (cases "gen_next g"; cases "fst (gen_next g)") auto
next
  case (Gen_Release i)
  assume "gen_inv g"
  then show ?thesis using Gen_Release gp.free_id by (cases "gen_release g i") auto
qed

lemma gen_steps_inv:
  "gen_inv g \<Longrightarrow> gen_inv (foldl (\<lambda>g a. gen_step a g) g ops)
     \<and> gen_capacity (foldl (\<lambda>g a. gen_step a g) g ops) = gen_capacity g"
  by (induction ops arbitrary: g) (auto simp: gen_step_inv)

text \<open>
  C36: After any sequence of allocations and releases on a new generator of capacity \<open>n\<close>, the
  next id is one that is not taken and is below the capacity, the count is the number of taken
  ids, \<open>None\<close> is returned exactly when all \<open>n\<close> ids are taken, and releasing succeeds exactly for
  the taken ids and frees nothing else.
\<close>

theorem generator_hands_out_fresh_ids:
  assumes "g = foldl (\<lambda>g a. gen_step a g) (gen_new n) ops" and "2 * n < u64_bound"
  shows "gen_allocated_count g = card (gen_ids g) \<and> gen_allocated_count g \<le> n
    \<and> (fst (gen_next g) = None \<longleftrightarrow> gen_allocated_count g = n)
    \<and> (\<forall>i. fst (gen_next g) = Some i \<longrightarrow> i < n \<and> \<not> gen_is_allocated g i
          \<and> gen_ids (snd (gen_next g)) = insert i (gen_ids g))
    \<and> (\<forall>i. fst (gen_release g i) = gen_is_allocated g i
          \<and> gen_ids (snd (gen_release g i)) = gen_ids g - {i})"
proof -
  have g: "gen_inv g" "gen_capacity g = n"
    using gen_steps_inv [of "gen_new n" ops] gen_inv_new [OF assms(2)] assms(1)
    by (simp_all add: gen_capacity_def gen_new_def)
  have count: "gen_allocated_count g = card (gen_ids g)"
    using g by (simp add: gen_allocated_count_def gen_inv_def)
  have "i < n \<and> \<not> gen_is_allocated g i \<and> gen_ids (snd (gen_next g)) = insert i (gen_ids g)"
    if "fst (gen_next g) = Some i" for i
    using that gp.alloc_Some [OF g(1)] gp.alloc_below [OF g(1)] g(2)
    by (cases "gen_next g") (auto simp: gen_ids_def)
  moreover have "fst (gen_release g i) = gen_is_allocated g i
      \<and> gen_ids (snd (gen_release g i)) = gen_ids g - {i}" for i
    using gp.free_id [OF g(1), of i] by (cases "gen_release g i") (auto simp: gen_ids_def)
  ultimately show ?thesis
    using count gp.alloc_iff [OF g(1)] gp.ids_card [OF g(1)] g(2) by auto
qed

lemma generator_hands_out_fresh_ids_witness:
  "fst (gen_next (foldl (\<lambda>g a. gen_step a g) (gen_new 2) [Gen_Next, Gen_Next])) = None"
proof -
  let ?g = "foldl (\<lambda>g a. gen_step a g) (gen_new 2) [Gen_Next, Gen_Next]"
  have "replicate 2 False = [False, False]" by (simp add: numeral_2_eq_2)
  then have "gen_allocated_count ?g = 2"
    by (simp add: gen_new_def gen_next_def gen_index_def gen_allocated_count_def add64_def u64_bound_def
        Let_def upt_rec)
  then show ?thesis
    using generator_hands_out_fresh_ids [of ?g 2 "[Gen_Next, Gen_Next]"] by (simp add: u64_bound_def)
qed

end
