(* ===== verification/Rust_Str.thy ===== *)
theory Rust_Str
  imports Prelude
begin

text \<open>
  The part of Rust's \<open>str\<close> the parsers use. A string is the list of its Unicode code points;
  \<open>lit\<close> gives a literal. \<open>trim\<close> strips Unicode \<open>White_Space\<close>, the \<open>ascii\<close> functions
  look at ASCII only, and \<open>parse_u64\<close> is \<open>u64::from_str\<close> on digits, with its overflow check.
\<close>

section \<open>Characters and literals\<close>

type_synonym rstr = "nat list"

definition lit :: "string \<Rightarrow> rstr" where
  "lit s = map of_char s"

definition is_whitespace :: "nat \<Rightarrow> bool" where
  "is_whitespace c \<longleftrightarrow>
     9 \<le> c \<and> c \<le> 13 \<or> c = 32 \<or> c = 133 \<or> c = 160 \<or> c = 5760 \<or> 8192 \<le> c \<and> c \<le> 8202
     \<or> c = 8232 \<or> c = 8233 \<or> c = 8239 \<or> c = 8287 \<or> c = 12288"

definition is_ascii_whitespace :: "nat \<Rightarrow> bool" where
  "is_ascii_whitespace c \<longleftrightarrow> c = 9 \<or> c = 10 \<or> c = 12 \<or> c = 13 \<or> c = 32"

definition is_control :: "nat \<Rightarrow> bool" where
  "is_control c \<longleftrightarrow> c < 32 \<or> 127 \<le> c \<and> c < 160"

definition is_ascii_digit :: "nat \<Rightarrow> bool" where
  "is_ascii_digit c \<longleftrightarrow> 48 \<le> c \<and> c \<le> 57"

definition ascii_lower :: "nat \<Rightarrow> nat" where
  "ascii_lower c = (if 65 \<le> c \<and> c \<le> 90 then c + 32 else c)"

definition to_ascii_lowercase :: "rstr \<Rightarrow> rstr" where
  "to_ascii_lowercase s = map ascii_lower s"

definition eq_ignore_ascii_case :: "rstr \<Rightarrow> rstr \<Rightarrow> bool" where
  "eq_ignore_ascii_case a b \<longleftrightarrow> to_ascii_lowercase a = to_ascii_lowercase b"

section \<open>Trimming and splitting\<close>

definition trim :: "rstr \<Rightarrow> rstr" where
  "trim s = rev (dropWhile is_whitespace (rev (dropWhile is_whitespace s)))"

fun split_once :: "(nat \<Rightarrow> bool) \<Rightarrow> rstr \<Rightarrow> (rstr \<times> rstr) option" where
  "split_once P [] = None"
| "split_once P (c # s) =
     (if P c then Some ([], s)
      else (case split_once P s of None \<Rightarrow> None | Some (a, b) \<Rightarrow> Some (c # a, b)))"

definition trim_start :: "rstr \<Rightarrow> rstr" where
  "trim_start s = dropWhile is_whitespace s"

definition trim_end :: "rstr \<Rightarrow> rstr" where
  "trim_end s = rev (dropWhile is_whitespace (rev s))"

text \<open>\<open>str::split\<close>: always at least one piece.\<close>

fun split_char :: "nat \<Rightarrow> rstr \<Rightarrow> rstr list" where
  "split_char d [] = [[]]"
| "split_char d (c # s) =
     (if c = d then [] # split_char d s
      else (case split_char d s of [] \<Rightarrow> [[c]] | p # ps \<Rightarrow> (c # p) # ps))"

lemma split_once_here:
  "\<forall>c \<in> set a. \<not> P c \<Longrightarrow> P d \<Longrightarrow> split_once P (a @ d # b) = Some (a, b)"
  by (induction a) auto

lemma split_once_Some:
  "split_once P s = Some (a, b) \<Longrightarrow> \<exists>d. s = a @ d # b \<and> P d \<and> (\<forall>c \<in> set a. \<not> P c)"
proof (induction s arbitrary: a b)
  case Nil
  then show ?case by simp
next
  case (Cons c s)
  show ?case
  proof (cases "P c")
    case True
    with Cons.prems show ?thesis by auto
  next
    case False
    with Cons.prems obtain a' where a: "split_once P s = Some (a', b)" "a = c # a'"
      by (auto split: option.splits)
    from Cons.IH [OF a(1)] a(2) False show ?thesis by fastforce
  qed
qed

lemma split_char_none: "d \<notin> set s \<Longrightarrow> split_char d s = [s]"
  by (induction s) auto

lemma split_char_nonempty [simp]: "split_char d s \<noteq> []"
  by (induction s) (auto split: list.splits)

lemma split_char_append: "d \<notin> set s \<Longrightarrow> split_char d (s @ d # t) = s # split_char d t"
  by (induction s) (auto split: list.splits)

lemma trim_id:
  assumes "s \<noteq> []" and "\<not> is_whitespace (hd s)" and "\<not> is_whitespace (last s)"
  shows "trim s = s"
proof -
  have "dropWhile is_whitespace s = s" using assms by (cases s) auto
  moreover have "dropWhile is_whitespace (rev s) = rev s"
    using assms by (metis dropWhile_eq_self_iff hd_rev)
  ultimately show ?thesis by (simp add: trim_def)
qed

lemma trim_all: "\<forall>c \<in> set s. \<not> is_whitespace c \<Longrightarrow> trim s = s"
  by (cases "s = []") (simp add: trim_def, simp add: trim_id)

section \<open>Numbers\<close>

fun show_u64 :: "u64 \<Rightarrow> rstr" where
  "show_u64 n = (if n < 10 then [48 + n] else show_u64 (n div 10) @ [48 + n mod 10])"

declare show_u64.simps [simp del]

definition push_digit :: "u64 option \<Rightarrow> nat \<Rightarrow> u64 option" where
  "push_digit acc c =
     (case acc of
        None \<Rightarrow> None
      | Some a \<Rightarrow>
         (case checked_mul64 a 10 of None \<Rightarrow> None | Some b \<Rightarrow> checked_add64 b (c - 48)))"

definition parse_u64 :: "rstr \<Rightarrow> u64 option" where
  "parse_u64 s =
     (if s = [] \<or> \<not> list_all is_ascii_digit s then None else foldl push_digit (Some 0) s)"

lemma show_u64_digits: "\<forall>c \<in> set (show_u64 n). is_ascii_digit c"
proof (induction n rule: show_u64.induct)
  case (1 n)
  have "n mod 10 < 10" by simp
  then show ?case using 1 by (subst show_u64.simps) (auto simp: is_ascii_digit_def)
qed

lemma show_u64_nonempty [simp]: "show_u64 n \<noteq> []"
  by (subst show_u64.simps) simp

lemma foldl_push_show: "n < u64_bound \<Longrightarrow> foldl push_digit (Some 0) (show_u64 n) = Some n"
proof (induction n rule: show_u64.induct)
  case (1 n)
  show ?case
  proof (cases "n < 10")
    case True
    then show ?thesis
      by (subst show_u64.simps) (simp add: push_digit_def checked_mul64_def checked_add64_def u64_bound_def)
  next
    case False
    have "n div 10 < u64_bound" using 1(2) by simp
    with 1(1) False have "foldl push_digit (Some 0) (show_u64 (n div 10)) = Some (n div 10)" by simp
    moreover have "n div 10 * 10 + n mod 10 = n" by simp
    moreover have "n div 10 * 10 < u64_bound" using 1(2) by linarith
    ultimately show ?thesis
      using False 1(2)
      by (subst show_u64.simps) (simp add: push_digit_def checked_mul64_def checked_add64_def)
  qed
qed

lemma parse_show_u64: "n < u64_bound \<Longrightarrow> parse_u64 (show_u64 n) = Some n"
  using foldl_push_show show_u64_digits by (simp add: parse_u64_def list_all_iff)

lemma foldl_push_bound: "foldl push_digit acc s = Some n \<Longrightarrow> (acc = Some n \<and> s = []) \<or> n < u64_bound"
proof (induction s arbitrary: n rule: rev_induct)
  case Nil
  then show ?case by simp
next
  case (snoc c s)
  then show ?case
    by (auto simp: push_digit_def checked_add64_def split: option.splits if_splits)
qed

lemma parse_u64_bound: "parse_u64 s = Some n \<Longrightarrow> n < u64_bound"
  using foldl_push_bound [of "Some 0" s n] by (auto simp: parse_u64_def split: if_splits)

lemma digit_not_whitespace: "is_ascii_digit c \<Longrightarrow> \<not> is_whitespace c"
  by (auto simp: is_ascii_digit_def is_whitespace_def)

lemma trim_show [simp]: "trim (show_u64 n) = show_u64 n"
  using show_u64_digits digit_not_whitespace by (blast intro: trim_all)

end
