(* ===== verification/Errors.thy ===== *)
theory Errors
  imports Rust_Str
begin

text \<open>
  The error values that cross the components: a parsed \<open>Content-Range\<close>
  (\<open>bolt-load-core/src/adapter/content_range.rs\<close>), the errors of an adapter
  (\<open>bolt-load-core/src/adapter/error.rs\<close>), of a runner (\<open>bolt-load/src/runner/error.rs\<close>) and of
  a whole download (\<open>bolt-load/src/task/error.rs\<close>). Texts are \<open>rstr\<close>; an \<open>io::Error\<close> and a
  boxed source error are carried as their message. A \<open>Duration\<close> is its nanoseconds.
\<close>

type_synonym duration = nat
type_synonym instant = nat
type_synonym io_error = rstr
type_synonym byte = nat
type_synonym chunk = "byte list"

definition from_secs :: "nat \<Rightarrow> duration" where
  "from_secs n = n * 1000000000"

definition from_millis :: "nat \<Rightarrow> duration" where
  "from_millis n = n * 1000000"

text \<open>\<open>Instant::duration_since\<close> saturates at zero.\<close>

definition duration_since :: "instant \<Rightarrow> instant \<Rightarrow> duration" where
  "duration_since now earlier = now - earlier"

section \<open>Content ranges\<close>

record content_range =
  cr_first :: u64
  cr_last :: u64
  cr_complete :: "u64 option"

definition number :: "rstr \<Rightarrow> u64 option" where
  "number value =
     (let v = trim value
      in if v = [] \<or> \<not> list_all is_ascii_digit v then None else parse_u64 v)"

definition byte_range :: "rstr \<Rightarrow> rstr option" where
  "byte_range value =
     (case split_once is_ascii_whitespace (trim value) of
        None \<Rightarrow> None
      | Some (unit, r) \<Rightarrow> if eq_ignore_ascii_case unit (lit ''bytes'') then Some r else None)"

text \<open>\<open>from_str\<close>; \<open>None\<close> is \<open>InvalidContentRange\<close>, its only error.\<close>

definition content_range_from_str :: "rstr \<Rightarrow> content_range option" where
  "content_range_from_str value =
     (case byte_range value of None \<Rightarrow> None | Some r \<Rightarrow>
     (case split_once (\<lambda>c. c = of_char (CHR ''/'')) r of None \<Rightarrow> None | Some (span, complete) \<Rightarrow>
     (case split_once (\<lambda>c. c = of_char (CHR ''-'')) span of None \<Rightarrow> None | Some (f, l) \<Rightarrow>
     (case number f of None \<Rightarrow> None | Some first_pos \<Rightarrow>
     (case number l of None \<Rightarrow> None | Some last_pos \<Rightarrow>
     (case (if trim complete = lit ''*'' then Some None
            else (case number (trim complete) of None \<Rightarrow> None | Some n \<Rightarrow> Some (Some n))) of
        None \<Rightarrow> None
      | Some compl \<Rightarrow>
          if last_pos < first_pos
             \<or> (case compl of None \<Rightarrow> False | Some n \<Rightarrow> n \<le> last_pos) then None
          else Some \<lparr>cr_first = first_pos, cr_last = last_pos, cr_complete = compl\<rparr>))))))"

definition content_range_display :: "content_range \<Rightarrow> rstr" where
  "content_range_display r =
     lit ''bytes '' @ show_u64 (cr_first r) @ lit ''-'' @ show_u64 (cr_last r) @ lit ''/''
     @ (case cr_complete r of Some n \<Rightarrow> show_u64 n | None \<Rightarrow> lit ''*'')"

definition unsatisfied_complete :: "rstr \<Rightarrow> u64 option" where
  "unsatisfied_complete value =
     (case byte_range value of None \<Rightarrow> None | Some r \<Rightarrow>
     (case split_once (\<lambda>c. c = of_char (CHR ''/'')) r of None \<Rightarrow> None | Some (star, complete) \<Rightarrow>
       if trim star = lit ''*'' then number complete else None))"

definition content_range_ok :: "content_range \<Rightarrow> bool" where
  "content_range_ok r \<longleftrightarrow>
     cr_first r \<le> cr_last r \<and> cr_last r < u64_bound
     \<and> (case cr_complete r of None \<Rightarrow> True | Some n \<Rightarrow> cr_last r < n \<and> n < u64_bound)"

section \<open>Adapter errors\<close>

datatype unretryable_error =
    Unauthorized nat rstr
  | Not_Found nat
  | Congestion nat "duration option"
  | Unretryable_Status nat
  | Range_Ignored
  | Range_Mismatch range "content_range option"
  | Range_Content_Coded rstr
  | Range_Body_Too_Long content_range
  | Range_Body_Too_Short content_range u64
  | Body_Undecodable io_error
  | Content_Coded rstr
  | Range_Not_Satisfiable "u64 option"
  | Internal rstr
  | Adapter_Cancelled
  | Unretryable_Io io_error
  | Range_Stream_Not_Supported
  | Whatever rstr "rstr option"

datatype retryable_error = Retryable_Io io_error | Retryable_Status nat

datatype adapter_error = Retryable retryable_error | Unretryable unretryable_error

fun from_retryable_error :: "retryable_error \<Rightarrow> unretryable_error" where
  "from_retryable_error (Retryable_Io e) = Unretryable_Io e"
| "from_retryable_error (Retryable_Status s) = Unretryable_Status s"

section \<open>Runner and download errors\<close>

datatype task_error =
    Task_Cancelled
  | Task_Timeout
  | Task_Empty
  | Channel_Closed
  | Exceeded_Total_Size
  | Smaller_Than_Total_Size
  | Stream_Error adapter_error
  | No_Progress duration
  | Retry_Limit_Exceeded usize task_error
  | Task_Other rstr

fun is_retryable :: "task_error \<Rightarrow> bool" where
  "is_retryable (Stream_Error (Retryable _)) = True"
| "is_retryable Task_Timeout = True"
| "is_retryable _ = False"

definition task_error_is_cancelled :: "task_error \<Rightarrow> bool" where
  "task_error_is_cancelled e \<longleftrightarrow> e = Task_Cancelled"

fun is_stream_error :: "task_error \<Rightarrow> bool" where
  "is_stream_error (Stream_Error _) = True"
| "is_stream_error _ = False"

definition task_error_is_empty :: "task_error \<Rightarrow> bool" where
  "task_error_is_empty e \<longleftrightarrow> e = Task_Empty"

text \<open>What a runner reports (\<open>bolt-load/src/runner/mod.rs\<close>).\<close>

datatype stopped_reason = Stop_Finished | Stop_Failed task_error

datatype lifecycle_event = Started | Stopped stopped_reason

definition lifecycle_failed :: "task_error \<Rightarrow> lifecycle_event" where
  "lifecycle_failed e = Stopped (Stop_Failed e)"

definition lifecycle_is_finished :: "lifecycle_event \<Rightarrow> bool" where
  "lifecycle_is_finished e \<longleftrightarrow> e = Stopped Stop_Finished"

fun lifecycle_is_cancelled :: "lifecycle_event \<Rightarrow> bool" where
  "lifecycle_is_cancelled (Stopped (Stop_Failed e)) = task_error_is_cancelled e"
| "lifecycle_is_cancelled _ = False"

datatype io_op = Inspect | Create | Allocate | Write_Op | Flush_Op | Rename

fun io_op_display :: "io_op \<Rightarrow> rstr" where
  "io_op_display Inspect = lit ''inspect''"
| "io_op_display Create = lit ''create''"
| "io_op_display Allocate = lit ''allocate''"
| "io_op_display Write_Op = lit ''write''"
| "io_op_display Flush_Op = lit ''flush''"
| "io_op_display Rename = lit ''rename to''"

datatype fallback_reason = Reason_Range_Ignored | Reason_Content_Coded

fun fallback_reason_display :: "fallback_reason \<Rightarrow> rstr" where
  "fallback_reason_display Reason_Range_Ignored = lit ''the server ignores ranges''"
| "fallback_reason_display Reason_Content_Coded = lit ''the server content-codes the response''"

datatype download_error =
    Download_Cancelled
  | Metadata adapter_error
  | Transfer task_error
  | Range_Unsupported fallback_reason adapter_error
  | Download_Io io_op rstr io_error
  | Invalid_Destination rstr rstr
  | Invalid_Filename rstr
  | Missing_Filename
  | Runtime_Error rstr
  | Download_Panicked rstr
  | Aborted

definition download_is_cancelled :: "download_error \<Rightarrow> bool" where
  "download_is_cancelled e \<longleftrightarrow> e = Download_Cancelled"

fun transfer :: "task_error \<Rightarrow> download_error" where
  "transfer Task_Cancelled = Download_Cancelled"
| "transfer e = Transfer e"

definition download_other :: "rstr \<Rightarrow> download_error" where
  "download_other message = transfer (Task_Other message)"

definition download_io :: "io_op \<Rightarrow> rstr \<Rightarrow> io_error \<Rightarrow> download_error" where
  "download_io op p e = Download_Io op p e"

fun as_transfer :: "download_error \<Rightarrow> task_error option" where
  "as_transfer (Transfer e) = Some e"
| "as_transfer _ = None"

section \<open>Parsing a content range\<close>

lemma number_show: "n < u64_bound \<Longrightarrow> number (show_u64 n) = Some n"
  using show_u64_digits by (simp add: number_def parse_show_u64 list_all_iff)

lemma number_bound: "number s = Some n \<Longrightarrow> n < u64_bound"
  by (auto simp: number_def Let_def dest: parse_u64_bound split: if_splits)

lemma show_u64_no_slash:
  "c \<in> set (show_u64 n) \<Longrightarrow> c \<noteq> 47 \<and> c \<noteq> 45 \<and> \<not> is_whitespace c"
  using show_u64_digits [of n] by (auto simp: is_ascii_digit_def is_whitespace_def)

lemma byte_range_lit:
  assumes "s \<noteq> []" and "\<not> is_whitespace (last s)"
  shows "byte_range (lit ''bytes '' @ s) = Some s"
proof -
  have "trim (lit ''bytes '' @ s) = lit ''bytes '' @ s"
    using assms by (intro trim_id) (simp_all add: lit_def is_whitespace_def)
  also have "\<dots> = lit ''bytes'' @ 32 # s" by (simp add: lit_def)
  finally show ?thesis
    by (simp add: byte_range_def lit_def is_ascii_whitespace_def eq_ignore_ascii_case_def)
qed

lemma content_range_roundtrip_aux:
  assumes "content_range_ok r"
  shows "content_range_from_str (content_range_display r) = Some r"
proof -
  let ?c = "case cr_complete r of Some n \<Rightarrow> show_u64 n | None \<Rightarrow> lit ''*''"
  let ?span = "show_u64 (cr_first r) @ 45 # show_u64 (cr_last r)"
  have ok: "cr_first r < u64_bound" "cr_last r < u64_bound" using assms by (auto simp: content_range_ok_def)
  have c: "?c \<noteq> []" "\<forall>x \<in> set ?c. \<not> is_whitespace x"
    using show_u64_no_slash by (auto simp: lit_def is_whitespace_def split: option.splits)
  have disp: "content_range_display r = lit ''bytes '' @ (?span @ 47 # ?c)"
    by (simp add: content_range_display_def lit_def)
  have "byte_range (content_range_display r) = Some (?span @ 47 # ?c)"
    unfolding disp by (rule byte_range_lit) (use c in auto)
  moreover have "split_once (\<lambda>x. x = of_char (CHR ''/'')) (?span @ 47 # ?c) = Some (?span, ?c)"
    by (rule split_once_here) (use show_u64_no_slash in auto)
  moreover have "split_once (\<lambda>x. x = of_char (CHR ''-'')) ?span
      = Some (show_u64 (cr_first r), show_u64 (cr_last r))"
    by (rule split_once_here) (use show_u64_no_slash in auto)
  moreover have "(if trim ?c = lit ''*'' then Some None
      else (case number (trim ?c) of None \<Rightarrow> None | Some n \<Rightarrow> Some (Some n))) = Some (cr_complete r)"
  proof (cases "cr_complete r")
    case None
    then show ?thesis by (simp add: trim_all lit_def is_whitespace_def)
  next
    case (Some n)
    have "42 \<notin> set (show_u64 n)" using show_u64_digits [of n] by (auto simp: is_ascii_digit_def)
    then have "show_u64 n \<noteq> lit ''*''" by (auto simp: lit_def)
    moreover have "n < u64_bound" using assms Some by (simp add: content_range_ok_def)
    ultimately show ?thesis using Some by (simp add: number_show)
  qed
  ultimately show ?thesis
    using ok assms
    by (simp add: content_range_from_str_def number_show content_range_ok_def not_less [symmetric]
        split: option.splits)
qed

text \<open>
  C40: Displaying a content range and parsing it back gives the same range, and every range the
  parser accepts is well formed: \<open>first \<le> last\<close>, \<open>last\<close> before a known complete length, all of
  them \<open>u64\<close> values. Numbers that do not fit are refused, not wrapped.
\<close>

theorem content_range_roundtrip:
  "(content_range_ok r \<longrightarrow> content_range_from_str (content_range_display r) = Some r)
   \<and> (content_range_from_str s = Some q \<longrightarrow> content_range_ok q)"
proof -
  have "content_range_ok q" if "content_range_from_str s = Some q"
    using that number_bound
    by (fastforce simp: content_range_from_str_def content_range_ok_def not_le not_less
        split: option.splits prod.splits if_splits)
  then show ?thesis using content_range_roundtrip_aux by blast
qed

lemma content_range_roundtrip_witness:
  "content_range_from_str (content_range_display \<lparr>cr_first = 10, cr_last = 19, cr_complete = Some 100\<rparr>)
     = Some \<lparr>cr_first = 10, cr_last = 19, cr_complete = Some 100\<rparr>
   \<and> content_range_from_str (lit ''bytes 5-4/*'') = None"
  using content_range_roundtrip [of "\<lparr>cr_first = 10, cr_last = 19, cr_complete = Some 100\<rparr>" "[]"]
  by (simp add: content_range_ok_def u64_bound_def content_range_from_str_def byte_range_def lit_def trim_def
      is_whitespace_def is_ascii_whitespace_def eq_ignore_ascii_case_def to_ascii_lowercase_def
      ascii_lower_def number_def is_ascii_digit_def parse_u64_def push_digit_def checked_mul64_def
      checked_add64_def)

end
