(* ===== verification/Samplers.thy ===== *)
theory Samplers
  imports Complex_Main Errors
begin

text \<open>
  The samplers the strategies read: the download speed (\<open>task/instance/sampler.rs\<close>) and the
  outcomes of the runners (\<open>strategy/runner_outcome_sampler.rs\<close>). A float is a rational, without
  rounding. An \<open>Instant\<close> counts nanoseconds from the earliest instant the platform represents, so
  \<open>checked_sub\<close> fails exactly below it; each reading of the clock is an argument.
\<close>

section \<open>Download speed\<close>

definition DEFAULT_EMA_ALPHA :: rat where
  "DEFAULT_EMA_ALPHA = 33 / 100"

definition DEFAULT_SAMPLE_INTERVAL :: duration where
  "DEFAULT_SAMPLE_INTERVAL = from_millis 250"

record speed_sampler =
  ss_last_ts :: instant
  ss_ema_speed :: rat
  ss_alpha :: rat

definition sampler_with_alpha :: "rat \<Rightarrow> instant \<Rightarrow> speed_sampler run" where
  "sampler_with_alpha alpha now =
     (if 0 \<le> alpha \<and> alpha \<le> 1
      then Done \<lparr>ss_last_ts = now, ss_ema_speed = 0, ss_alpha = alpha\<rparr>
      else Panicked ''alpha must be within 0..=1'')"

definition sampler_new :: "instant \<Rightarrow> speed_sampler run" where
  "sampler_new now = sampler_with_alpha DEFAULT_EMA_ALPHA now"

definition as_secs :: "duration \<Rightarrow> rat" where
  "as_secs d = of_nat d / 1000000000"

text \<open>\<open>sample\<close> also resets the byte count it is given; here the caller drops it.\<close>

definition sample_speed :: "speed_sampler \<Rightarrow> nat \<Rightarrow> instant \<Rightarrow> (rat \<times> rat) \<times> speed_sampler" where
  "sample_speed s bytes now =
     (let elapsed = as_secs (duration_since now (ss_last_ts s));
          inst = (if 0 < elapsed then of_nat bytes / elapsed else 0);
          ema = (if ss_ema_speed s = 0 then inst
                 else ss_alpha s * inst + (1 - ss_alpha s) * ss_ema_speed s)
      in ((inst, ema), s\<lparr>ss_last_ts := now, ss_ema_speed := ema\<rparr>))"

definition growth_rate :: "rat \<Rightarrow> rat \<Rightarrow> rat option" where
  "growth_rate prev next = (if prev = 0 then None else Some ((next - prev) / prev))"

section \<open>Runner outcomes\<close>

datatype failure_kind = Fail_Retryable | Fail_Unretryable

datatype runner_outcome =
    Completed
  | Connect_Failed failure_kind
  | Stream_Closed failure_kind

fun is_unretryable :: "runner_outcome \<Rightarrow> bool" where
  "is_unretryable (Connect_Failed Fail_Unretryable) = True"
| "is_unretryable (Stream_Closed Fail_Unretryable) = True"
| "is_unretryable _ = False"

record outcome_record =
  o_timestamp :: instant
  o_outcome :: runner_outcome

record outcome_stats =
  st_total :: usize
  st_completed :: usize
  st_connect_retryable :: usize
  st_connect_unretryable :: usize
  st_stream_retryable :: usize
  st_stream_unretryable :: usize

definition total_failures :: "outcome_stats \<Rightarrow> usize" where
  "total_failures s = sub64 (st_total s) (st_completed s)"

definition failure_rate :: "outcome_stats \<Rightarrow> rat" where
  "failure_rate s =
     (if st_total s = 0 then 0 else of_nat (total_failures s) / of_nat (st_total s))"

record outcome_sampler =
  os_records :: "outcome_record list"
  os_window :: duration
  os_max_records :: usize
  os_last_unretryable :: "instant option"

definition outcome_sampler_new :: "duration \<Rightarrow> usize \<Rightarrow> outcome_sampler" where
  "outcome_sampler_new window n =
     \<lparr>os_records = [], os_window = window, os_max_records = n, os_last_unretryable = None\<rparr>"

definition outcome_sampler_default :: outcome_sampler where
  "outcome_sampler_default = outcome_sampler_new (from_secs 60) 100"

definition cleanup_expired :: "outcome_sampler \<Rightarrow> instant \<Rightarrow> outcome_sampler run" where
  "cleanup_expired s now =
     bind_run (expect_some ''overflow when subtracting duration from instant''
                (if os_window s \<le> now then Some (now - os_window s) else None))
       (\<lambda>cutoff. Done (s\<lparr>os_records := dropWhile (\<lambda>r. o_timestamp r < cutoff) (os_records s)\<rparr>))"

definition record_outcome :: "outcome_sampler \<Rightarrow> runner_outcome \<Rightarrow> instant \<Rightarrow> outcome_sampler run" where
  "record_outcome s out now =
     bind_run (cleanup_expired s now)
       (\<lambda>s. let s = (if is_unretryable out then s\<lparr>os_last_unretryable := Some now\<rparr> else s);
                rs = os_records s @ [\<lparr>o_timestamp = now, o_outcome = out\<rparr>]
            in Done (s\<lparr>os_records := drop (length rs - os_max_records s) rs\<rparr>))"

definition record_completed :: "outcome_sampler \<Rightarrow> instant \<Rightarrow> outcome_sampler run" where
  "record_completed s now = record_outcome s Completed now"

definition record_connect_failed ::
  "outcome_sampler \<Rightarrow> failure_kind \<Rightarrow> instant \<Rightarrow> outcome_sampler run" where
  "record_connect_failed s kind now = record_outcome s (Connect_Failed kind) now"

definition record_stream_closed ::
  "outcome_sampler \<Rightarrow> failure_kind \<Rightarrow> instant \<Rightarrow> outcome_sampler run" where
  "record_stream_closed s kind now = record_outcome s (Stream_Closed kind) now"

fun count_outcome :: "outcome_stats \<Rightarrow> runner_outcome \<Rightarrow> outcome_stats" where
  "count_outcome st Completed =
     st\<lparr>st_total := st_total st + 1, st_completed := st_completed st + 1\<rparr>"
| "count_outcome st (Connect_Failed Fail_Retryable) =
     st\<lparr>st_total := st_total st + 1, st_connect_retryable := st_connect_retryable st + 1\<rparr>"
| "count_outcome st (Connect_Failed Fail_Unretryable) =
     st\<lparr>st_total := st_total st + 1, st_connect_unretryable := st_connect_unretryable st + 1\<rparr>"
| "count_outcome st (Stream_Closed Fail_Retryable) =
     st\<lparr>st_total := st_total st + 1, st_stream_retryable := st_stream_retryable st + 1\<rparr>"
| "count_outcome st (Stream_Closed Fail_Unretryable) =
     st\<lparr>st_total := st_total st + 1, st_stream_unretryable := st_stream_unretryable st + 1\<rparr>"

definition no_stats :: outcome_stats where
  "no_stats = \<lparr>st_total = 0, st_completed = 0, st_connect_retryable = 0,
     st_connect_unretryable = 0, st_stream_retryable = 0, st_stream_unretryable = 0\<rparr>"

definition sampler_stats :: "outcome_sampler \<Rightarrow> instant \<Rightarrow> (outcome_stats \<times> outcome_sampler) run" where
  "sampler_stats s now =
     bind_run (cleanup_expired s now)
       (\<lambda>s. Done (foldl count_outcome no_stats (map o_outcome (os_records s)), s))"

definition has_recent_unretryable ::
  "outcome_sampler \<Rightarrow> duration \<Rightarrow> instant \<Rightarrow> bool \<times> outcome_sampler" where
  "has_recent_unretryable s win now =
     (case os_last_unretryable s of
        Some t \<Rightarrow>
          if duration_since now t \<le> win then (True, s\<lparr>os_last_unretryable := None\<rparr>)
          else (False, s)
      | None \<Rightarrow> (False, s))"

section \<open>What the samplers keep\<close>

text \<open>The counters add up, so \<open>total_failures\<close> does not wrap.\<close>

definition stats_add_up :: "outcome_stats \<Rightarrow> bool" where
  "stats_add_up s \<longleftrightarrow>
     st_total s = st_completed s + st_connect_retryable s + st_connect_unretryable s
                  + st_stream_retryable s + st_stream_unretryable s"

lemma count_outcome_total: "st_total (count_outcome st x) = st_total st + 1"
  by (cases "(st, x)" rule: count_outcome.cases) simp_all

lemma count_outcome_add_up: "stats_add_up st \<Longrightarrow> stats_add_up (count_outcome st x)"
  by (cases "(st, x)" rule: count_outcome.cases) (simp_all add: stats_add_up_def)

lemma foldl_count:
  "stats_add_up st \<Longrightarrow>
   stats_add_up (foldl count_outcome st xs) \<and> st_total (foldl count_outcome st xs) = st_total st + length xs"
  by (induction xs arbitrary: st) (auto simp: count_outcome_total count_outcome_add_up)

lemma total_failures_exact:
  "stats_add_up s \<Longrightarrow> st_total s < u64_bound \<Longrightarrow> total_failures s = st_total s - st_completed s"
  by (simp add: total_failures_def stats_add_up_def sub64_exact)

definition outcomes_ok :: "outcome_sampler \<Rightarrow> instant \<Rightarrow> bool" where
  "outcomes_ok s now \<longleftrightarrow>
     length (os_records s) \<le> os_max_records s
     \<and> sorted (map o_timestamp (os_records s))
     \<and> (\<forall>r \<in> set (os_records s). o_timestamp r \<le> now)"

lemma dropWhile_sorted:
  "sorted (map f xs) \<Longrightarrow> \<forall>r \<in> set (dropWhile (\<lambda>r. f r < (c::nat)) xs). c \<le> f r"
  by (induction xs) auto

lemma sorted_dropWhile_map: "sorted (map f xs) \<Longrightarrow> sorted (map f (dropWhile P xs))"
  by (induction xs) auto

lemma cleanup_expired_ok:
  assumes "outcomes_ok s t" and "t \<le> now" and "os_window s \<le> now"
  shows "\<exists>s'. cleanup_expired s now = Done s' \<and> outcomes_ok s' now
    \<and> (\<forall>r \<in> set (os_records s'). now - os_window s \<le> o_timestamp r)
    \<and> (\<exists>old. os_records s = old @ os_records s' \<and> (\<forall>r \<in> set old. o_timestamp r < now - os_window s))
    \<and> os_window s' = os_window s \<and> os_max_records s' = os_max_records s
    \<and> os_last_unretryable s' = os_last_unretryable s"
proof -
  let ?P = "\<lambda>r. o_timestamp r < now - os_window s"
  let ?rs = "dropWhile ?P (os_records s)"
  have "\<exists>old. os_records s = old @ ?rs \<and> (\<forall>r \<in> set old. ?P r)"
    by (rule exI [of _ "takeWhile ?P (os_records s)"]) (auto dest: set_takeWhileD)
  moreover have "\<forall>r \<in> set ?rs. now - os_window s \<le> o_timestamp r"
    using assms(1) by (intro dropWhile_sorted) (simp add: outcomes_ok_def)
  moreover have "sorted (map o_timestamp ?rs)"
    using assms(1) by (intro sorted_dropWhile_map) (simp add: outcomes_ok_def)
  moreover have "length ?rs \<le> os_max_records s"
    using assms(1) length_dropWhile_le [of ?P "os_records s"] by (simp add: outcomes_ok_def)
  moreover have "\<forall>r \<in> set ?rs. o_timestamp r \<le> now"
    using assms(1,2) by (auto simp: outcomes_ok_def dest!: set_dropWhileD)
  ultimately show ?thesis
    using assms(3) by (simp add: cleanup_expired_def outcomes_ok_def)
qed

lemma record_outcome_ok:
  assumes "outcomes_ok s t" and "t \<le> now" and "os_window s \<le> now"
  shows "\<exists>s'. record_outcome s x now = Done s' \<and> outcomes_ok s' now
    \<and> os_window s' = os_window s \<and> os_max_records s' = os_max_records s"
proof -
  obtain s1 where s1: "cleanup_expired s now = Done s1" "outcomes_ok s1 now"
    "os_window s1 = os_window s" "os_max_records s1 = os_max_records s"
    using cleanup_expired_ok [OF assms] by blast
  define rs where "rs = os_records s1 @ [\<lparr>o_timestamp = now, o_outcome = x\<rparr>]"
  define s2 where "s2 = (if is_unretryable x then s1\<lparr>os_last_unretryable := Some now\<rparr> else s1)"
  have s2: "os_records s2 = os_records s1" "os_window s2 = os_window s1"
    "os_max_records s2 = os_max_records s1"
    by (simp_all add: s2_def)
  define n where "n = length rs - os_max_records s2"
  have "sorted (map o_timestamp rs)" using s1(2) by (auto simp: outcomes_ok_def sorted_append rs_def)
  then have "sorted (map o_timestamp (drop n rs))"
    by (metis drop_map sorted_wrt_drop)
  moreover have "\<forall>r \<in> set (drop n rs). o_timestamp r \<le> now"
    using s1(2) by (auto simp: outcomes_ok_def rs_def dest!: in_set_dropD)
  moreover have "record_outcome s x now = Done (s2\<lparr>os_records := drop n rs\<rparr>)"
    using s1(1) s2(1) unfolding record_outcome_def Let_def n_def rs_def s2_def by simp
  ultimately show ?thesis
    using s1 s2 by (auto simp: outcomes_ok_def n_def)
qed

text \<open>A run of recordings, in the order of the clock.\<close>

fun record_all :: "(runner_outcome \<times> instant) list \<Rightarrow> outcome_sampler \<Rightarrow> outcome_sampler run" where
  "record_all [] s = Done s"
| "record_all ((x, t) # xs) s = bind_run (record_outcome s x t) (record_all xs)"

lemma record_all_ok:
  assumes "outcomes_ok s t0" and "sorted (t0 # map snd xs)" and "os_window s \<le> hd (map snd xs @ [t0])"
  shows "\<exists>s'. record_all xs s = Done s' \<and> outcomes_ok s' (last (t0 # map snd xs))
    \<and> os_window s' = os_window s \<and> os_max_records s' = os_max_records s"
  using assms
proof (induction xs arbitrary: s t0)
  case Nil
  then show ?case by simp
next
  case (Cons e xs)
  obtain x t where e: "e = (x, t)" by (cases e)
  obtain s1 where s1: "record_outcome s x t = Done s1" "outcomes_ok s1 t"
    "os_window s1 = os_window s" "os_max_records s1 = os_max_records s"
    using record_outcome_ok [of s t0 t x] Cons.prems e by auto
  have "os_window s1 \<le> hd (map snd xs @ [t])"
    using Cons.prems s1 e by (cases xs) auto
  then obtain s' where "record_all xs s1 = Done s'" "outcomes_ok s' (last (t # map snd xs))"
    "os_window s' = os_window s" "os_max_records s' = os_max_records s"
    using Cons.IH [OF s1(2)] Cons.prems s1 e by auto
  then show ?case using e s1 by simp
qed



text \<open>
  The exponential average stays between the speeds it averages: after any sample it lies
  between the smaller and the larger of the previous average and the new measurement, and is never
  negative; a clock that stands still measures zero instead of dividing by it.
\<close>

theorem ema_is_bounded:
  assumes "0 \<le> ss_alpha s" and "ss_alpha s \<le> 1" and "0 \<le> ss_ema_speed s"
    and "sample_speed s bytes now = ((inst, ema), s')"
  shows "0 \<le> inst \<and> 0 \<le> ema \<and> ss_ema_speed s' = ema \<and> ss_last_ts s' = now
    \<and> (ss_ema_speed s = 0 \<longrightarrow> ema = inst)
    \<and> (ss_ema_speed s \<noteq> 0 \<longrightarrow> min inst (ss_ema_speed s) \<le> ema \<and> ema \<le> max inst (ss_ema_speed s))
    \<and> (now \<le> ss_last_ts s \<longrightarrow> inst = 0)"
proof -
  let ?a = "ss_alpha s" and ?v = "ss_ema_speed s"
  have r: "inst = (if 0 < as_secs (duration_since now (ss_last_ts s))
        then of_nat bytes / as_secs (duration_since now (ss_last_ts s)) else 0)"
    "ema = (if ?v = 0 then inst else ?a * inst + (1 - ?a) * ?v)"
    "ss_ema_speed s' = ema" "ss_last_ts s' = now"
    using assms(4) by (auto simp: sample_speed_def Let_def)
  have inst: "0 \<le> inst" using r(1) by simp
  have conv: "min x y \<le> ?a * x + (1 - ?a) * y \<and> ?a * x + (1 - ?a) * y \<le> max x y" for x y
  proof -
    let ?m = "min x y" and ?M = "max x y"
    have "?a * ?m \<le> ?a * x" "(1 - ?a) * ?m \<le> (1 - ?a) * y"
      "?a * x \<le> ?a * ?M" "(1 - ?a) * y \<le> (1 - ?a) * ?M"
      using assms(1,2) by (auto intro!: mult_left_mono)
    then show ?thesis by (simp add: algebra_simps)
  qed
  have "0 \<le> ema" using r(2) inst assms(1-3) by simp
  moreover have "now \<le> ss_last_ts s \<Longrightarrow> inst = 0"
    using r(1) by (simp add: duration_since_def as_secs_def)
  ultimately show ?thesis using r inst conv [of inst ?v] by auto
qed

lemma ema_is_bounded_witness:
  "\<exists>inst ema s'. sample_speed \<lparr>ss_last_ts = 0, ss_ema_speed = 100, ss_alpha = 33 / 100\<rparr> 500 1000000000
     = ((inst, ema), s') \<and> 100 \<le> ema \<and> ema \<le> 500"
proof -
  let ?s = "\<lparr>ss_last_ts = 0, ss_ema_speed = 100, ss_alpha = 33 / 100 :: rat\<rparr>"
  obtain inst ema s' where e: "sample_speed ?s 500 1000000000 = ((inst, ema), s')"
    by (metis prod.collapse)
  moreover have "inst = 500"
    using e by (simp add: sample_speed_def duration_since_def as_secs_def)
  ultimately show ?thesis using ema_is_bounded [of ?s 500 1000000000 inst ema s'] by simp
qed

end
