(* ===== verification/Strategies.thy ===== *)
theory Strategies
  imports Samplers
begin

text \<open>
  The two strategies of the concurrent task (\<open>strategy/concurrency_control_strategy.rs\<close> and
  \<open>strategy/dynamic_strategy.rs\<close>) and the policy that ends a task
  (\<open>strategy/failure_policy.rs\<close>). A step takes the readings of the clock it makes: \<open>now\<close> by the
  step itself, \<open>t1\<close> by \<open>has_recent_unretryable\<close>, \<open>t2\<close> by \<open>stats\<close>.
\<close>

datatype strategy_action =
    Change_Max_Concurrency usize
  | Split_All_Task u64
  | Split_Given_Task usize
  | Create_Task range

section \<open>Concurrency control\<close>

record cc_config =
  cfg_failure_rate_threshold :: rat
  cfg_min_samples :: usize
  cfg_recovery_delay :: duration
  cfg_observation_period :: duration
  cfg_degradation_step :: usize
  cfg_recovery_step :: usize
  cfg_min_concurrency :: usize
  cfg_detection_window :: duration

definition cc_config_default :: cc_config where
  "cc_config_default =
     \<lparr>cfg_failure_rate_threshold = 3 / 10, cfg_min_samples = 5,
      cfg_recovery_delay = from_secs 30, cfg_observation_period = from_secs 15,
      cfg_degradation_step = 1, cfg_recovery_step = 1, cfg_min_concurrency = 1,
      cfg_detection_window = from_secs 5\<rparr>"

record cc_context =
  cx_max_concurrency :: usize
  cx_active_runners :: usize
  cx_available_chunks :: "range list"

datatype cc_state =
    Normal_State
  | Degraded usize instant
  | Recovering usize instant usize

record cc_strategy =
  cc_config :: cc_config
  cc_state :: cc_state
  cc_initial_max :: usize
  cc_first_execute :: bool

definition cc_new :: "cc_config \<Rightarrow> usize \<Rightarrow> cc_strategy" where
  "cc_new cfg n =
     \<lparr>cc_config = cfg, cc_state = Normal_State, cc_initial_max = n, cc_first_execute = True\<rparr>"

definition cc_with_default_config :: "usize \<Rightarrow> cc_strategy" where
  "cc_with_default_config n = cc_new cc_config_default n"

definition handle_immediate_degradation ::
  "cc_strategy \<Rightarrow> cc_context \<Rightarrow> instant \<Rightarrow> strategy_action list \<times> cc_strategy" where
  "handle_immediate_degradation s ctx now =
     (let n = max (max (cx_active_runners ctx) (cfg_min_concurrency (cc_config s))) 1
      in ([Change_Max_Concurrency n], s\<lparr>cc_state := Degraded n now\<rparr>))"

definition handle_normal_state ::
  "cc_strategy \<Rightarrow> cc_context \<Rightarrow> outcome_stats \<Rightarrow> instant \<Rightarrow> strategy_action list \<times> cc_strategy" where
  "handle_normal_state s ctx st now =
     (if st_total st < cfg_min_samples (cc_config s) then ([], s)
      else if cfg_failure_rate_threshold (cc_config s) \<le> failure_rate st
              \<and> cfg_min_concurrency (cc_config s) < cx_max_concurrency ctx
      then
        (let n = max (saturating_sub64 (cx_max_concurrency ctx) (cfg_degradation_step (cc_config s)))
                     (cfg_min_concurrency (cc_config s))
         in ([Change_Max_Concurrency n], s\<lparr>cc_state := Degraded n now\<rparr>))
      else ([], s))"

definition handle_degraded_state ::
  "cc_strategy \<Rightarrow> outcome_stats \<Rightarrow> instant \<Rightarrow> usize \<Rightarrow> instant \<Rightarrow> strategy_action list \<times> cc_strategy" where
  "handle_degraded_state s st now target degraded_at =
     (if duration_since now degraded_at < cfg_recovery_delay (cc_config s) then ([], s)
      else if failure_rate st < cfg_failure_rate_threshold (cc_config s) / 2
      then
        (let trial = min (add64 target (cfg_recovery_step (cc_config s))) (cc_initial_max s)
         in if target < trial
            then ([Change_Max_Concurrency trial],
                  s\<lparr>cc_state := Recovering trial now (total_failures st)\<rparr>)
            else ([], s\<lparr>cc_state := Normal_State\<rparr>))
      else ([], s))"

definition handle_recovering_state ::
  "cc_strategy \<Rightarrow> outcome_stats \<Rightarrow> instant \<Rightarrow> usize \<Rightarrow> instant \<Rightarrow> usize
   \<Rightarrow> strategy_action list \<times> cc_strategy" where
  "handle_recovering_state s st now trial started_at initial_failures =
     (let cfg = cc_config s in
      if cfg_failure_rate_threshold cfg \<le> failure_rate st
      then
        (let fallback = max (saturating_sub64 trial (cfg_degradation_step cfg)) (cfg_min_concurrency cfg)
         in ([Change_Max_Concurrency fallback], s\<lparr>cc_state := Degraded fallback now\<rparr>))
      else if cfg_observation_period cfg \<le> duration_since now started_at
      then
        (let new_failures = saturating_sub64 (total_failures st) initial_failures;
             samples = saturating_sub64 (st_total st) initial_failures;
             rate = (if 0 < samples then of_nat new_failures / of_nat samples else 0)
         in if rate < cfg_failure_rate_threshold cfg
            then
              (if trial < cc_initial_max s
               then
                 (let next_trial = min (add64 trial (cfg_recovery_step cfg)) (cc_initial_max s)
                  in ([Change_Max_Concurrency next_trial],
                      s\<lparr>cc_state := Recovering next_trial now (total_failures st)\<rparr>))
               else ([], s\<lparr>cc_state := Normal_State\<rparr>))
            else
              (let fallback = max (saturating_sub64 trial (cfg_recovery_step cfg)) (cfg_min_concurrency cfg)
               in ([Change_Max_Concurrency fallback], s\<lparr>cc_state := Degraded fallback now\<rparr>)))
      else ([], s))"

definition cc_current_state :: "cc_strategy \<Rightarrow> rstr" where
  "cc_current_state s =
     (case cc_state s of
        Normal_State \<Rightarrow> lit ''normal''
      | Degraded _ _ \<Rightarrow> lit ''degraded''
      | Recovering _ _ _ \<Rightarrow> lit ''recovering'')"

text \<open>The transition of the state machine, after the two early returns of \<open>step\<close>.\<close>

definition cc_dispatch ::
  "cc_strategy \<Rightarrow> cc_context \<Rightarrow> outcome_stats \<Rightarrow> instant \<Rightarrow> strategy_action list \<times> cc_strategy" where
  "cc_dispatch s ctx st now =
     (case cc_state s of
        Normal_State \<Rightarrow> handle_normal_state s ctx st now
      | Degraded target since \<Rightarrow> handle_degraded_state s st now target since
      | Recovering trial since failures \<Rightarrow> handle_recovering_state s st now trial since failures)"

definition cc_step ::
  "cc_strategy \<Rightarrow> cc_context \<Rightarrow> outcome_sampler \<Rightarrow> instant \<Rightarrow> instant \<Rightarrow> instant
   \<Rightarrow> (strategy_action list \<times> cc_strategy \<times> outcome_sampler) run" where
  "cc_step s ctx sampler now t1 t2 =
     (if cc_first_execute s
      then Done (map Create_Task (take (cx_max_concurrency ctx) (cx_available_chunks ctx)),
                 s\<lparr>cc_first_execute := False\<rparr>, sampler)
      else
        (case has_recent_unretryable sampler (cfg_detection_window (cc_config s)) t1 of
           (True, sampler) \<Rightarrow>
             (case handle_immediate_degradation s ctx now of (acts, s) \<Rightarrow> Done (acts, s, sampler))
         | (False, sampler) \<Rightarrow>
             bind_run (sampler_stats sampler t2)
               (\<lambda>(st, sampler).
                  (case cc_dispatch s ctx st now of (acts, s) \<Rightarrow>
                    if acts \<noteq> [] then Done (acts, s, sampler)
                    else if cx_active_runners ctx < cx_max_concurrency ctx
                    then Done (map Create_Task
                                 (take (sub64 (cx_max_concurrency ctx) (cx_active_runners ctx))
                                   (cx_available_chunks ctx)), s, sampler)
                    else Done ([], s, sampler)))))"

section \<open>Splitting for speed\<close>

datatype planner_stage = Quick_Start | Normal_Stage

record dynamic_strategy =
  d_threshold1 :: rat
  d_threshold2 :: rat
  d_stage :: planner_stage
  d_previous_speed :: rat

definition dynamic_default :: dynamic_strategy where
  "dynamic_default =
     \<lparr>d_threshold1 = 1024 * 1024, d_threshold2 = 1024 * 1024, d_stage = Quick_Start,
      d_previous_speed = 0\<rparr>"

definition dynamic_new :: "rat \<Rightarrow> rat \<Rightarrow> dynamic_strategy" where
  "dynamic_new t1 t2 = dynamic_default\<lparr>d_threshold1 := t1, d_threshold2 := t2\<rparr>"

record dynamic_context =
  dx_speed :: rat
  dx_per_runner_speed :: rat
  dx_current_concurrency :: usize
  dx_max_concurrency :: usize
  dx_planned_chunk_size :: u64
  dx_largest_runner :: usize

text \<open>
  The loop of \<open>step\<close> runs while it has no action. It terminates because a round without an
  action either leaves the quick start, for good, or breaks.
\<close>

function dynamic_step :: "dynamic_context \<Rightarrow> dynamic_strategy \<Rightarrow> strategy_action list \<times> dynamic_strategy" where
  "dynamic_step ctx s =
     (case d_stage s of
        Quick_Start \<Rightarrow>
          if d_threshold1 s < \<bar>dx_speed ctx - 2 * d_previous_speed s\<bar>
             \<and> saturating_mul64 (dx_current_concurrency ctx) 2 < dx_max_concurrency ctx
          then ([Split_All_Task (dx_planned_chunk_size ctx)], s\<lparr>d_previous_speed := dx_speed ctx\<rparr>)
          else dynamic_step ctx (s\<lparr>d_stage := Normal_Stage\<rparr>)
      | Normal_Stage \<Rightarrow>
          if d_threshold2 s < \<bar>dx_speed ctx - (d_previous_speed s + dx_per_runner_speed ctx)\<bar>
             \<and> saturating_add64 (dx_current_concurrency ctx) 1 < dx_max_concurrency ctx
          then ([Split_Given_Task (dx_largest_runner ctx)], s\<lparr>d_previous_speed := dx_speed ctx\<rparr>)
          else ([], s\<lparr>d_previous_speed := dx_speed ctx\<rparr>))"
  by pat_completeness auto
termination
  by (relation "measure (\<lambda>(ctx, s). case d_stage s of Quick_Start \<Rightarrow> 1 | Normal_Stage \<Rightarrow> 0)") auto

declare dynamic_step.simps [simp del]

section \<open>The failure policy\<close>

record attempt_failure =
  af_runner_id :: usize
  af_error :: task_error
  af_retryable :: bool

fun is_congestion :: "task_error \<Rightarrow> bool" where
  "is_congestion (Stream_Error (Unretryable (Congestion _ _))) = True"
| "is_congestion _ = False"

record failure_policy =
  fp_max_consecutive :: usize
  fp_no_progress :: duration
  fp_consecutive :: usize
  fp_last_progress_at :: instant

definition policy_new :: "usize \<Rightarrow> duration \<Rightarrow> instant \<Rightarrow> failure_policy" where
  "policy_new max_consecutive no_progress now =
     \<lparr>fp_max_consecutive = max_consecutive, fp_no_progress = no_progress,
      fp_consecutive = 0, fp_last_progress_at = now\<rparr>"

definition policy_on_progress :: "failure_policy \<Rightarrow> instant \<Rightarrow> failure_policy" where
  "policy_on_progress p now = p\<lparr>fp_last_progress_at := now\<rparr>"

definition policy_on_write_ok :: "failure_policy \<Rightarrow> usize \<Rightarrow> failure_policy" where
  "policy_on_write_ok p written = (if 0 < written then p\<lparr>fp_consecutive := 0\<rparr> else p)"

definition policy_on_failure ::
  "failure_policy \<Rightarrow> attempt_failure \<Rightarrow> usize \<Rightarrow> task_error option \<times> failure_policy" where
  "policy_on_failure p f in_flight =
     (if \<not> af_retryable f
      then ((if 0 < in_flight \<and> is_congestion (af_error f) then None else Some (af_error f)), p)
      else
        (let p = p\<lparr>fp_consecutive := add64 (fp_consecutive p) 1\<rparr>
         in ((if fp_max_consecutive p \<le> fp_consecutive p
              then Some (Retry_Limit_Exceeded (fp_max_consecutive p) (af_error f)) else None), p)))"

text \<open>\<open>Instant + Duration\<close> panics when the sum is not representable; instants here are unbounded.\<close>

definition policy_deadline :: "failure_policy \<Rightarrow> instant" where
  "policy_deadline p = fp_last_progress_at p + fp_no_progress p"

definition policy_check :: "failure_policy \<Rightarrow> instant \<Rightarrow> task_error option" where
  "policy_check p now = (if policy_deadline p \<le> now then Some (No_Progress (fp_no_progress p)) else None)"

section \<open>The concurrency limit is sound\<close>

definition cc_target :: "cc_state \<Rightarrow> usize option" where
  "cc_target st =
     (case st of Normal_State \<Rightarrow> None | Degraded n _ \<Rightarrow> Some n | Recovering n _ _ \<Rightarrow> Some n)"

definition cc_inv :: "cc_strategy \<Rightarrow> bool" where
  "cc_inv s \<longleftrightarrow>
     1 \<le> cfg_min_concurrency (cc_config s) \<and> 1 \<le> cc_initial_max s
     \<and> (\<forall>n. cc_target (cc_state s) = Some n \<longrightarrow> 1 \<le> n \<and> n < u64_bound)
     \<and> cc_initial_max s + cfg_recovery_step (cc_config s) < u64_bound
     \<and> cfg_min_concurrency (cc_config s) < u64_bound"

lemma cc_inv_default: "1 \<le> n \<Longrightarrow> n + 1 < u64_bound \<Longrightarrow> cc_inv (cc_with_default_config n)"
  by (simp add: cc_inv_def cc_with_default_config_def cc_new_def cc_config_default_def cc_target_def)

definition actions_ok :: "cc_context \<Rightarrow> usize \<Rightarrow> strategy_action list \<Rightarrow> bool" where
  "actions_ok ctx room acts \<longleftrightarrow>
     acts = [] \<or> (\<exists>n. acts = [Change_Max_Concurrency n] \<and> 1 \<le> n)
     \<or> acts = map Create_Task (take room (cx_available_chunks ctx))"

lemma cc_dispatch_ok:
  assumes "cc_inv s" and "cx_max_concurrency ctx < u64_bound" and "cc_dispatch s ctx st now = (acts, s')"
  shows "(acts = [] \<or> (\<exists>n. acts = [Change_Max_Concurrency n] \<and> cc_target (cc_state s') = Some n))
    \<and> cc_inv s' \<and> cc_config s' = cc_config s \<and> cc_initial_max s' = cc_initial_max s
    \<and> cc_first_execute s' = cc_first_execute s"
proof (cases "cc_state s")
  case Normal_State
  with assms show ?thesis
    by (auto simp: cc_dispatch_def handle_normal_state_def cc_inv_def cc_target_def Let_def
        saturating_sub64_def split: if_splits)
next
  case (Degraded target since)
  with assms show ?thesis
    by (auto simp: cc_dispatch_def handle_degraded_state_def cc_inv_def cc_target_def Let_def
        saturating_sub64_def min_def split: if_splits)
next
  case (Recovering trial since failures)
  with assms show ?thesis
    by (auto simp: cc_dispatch_def handle_recovering_state_def cc_inv_def cc_target_def Let_def
        saturating_sub64_def min_def add64_exact split: if_splits)
qed

lemma cc_step_ok:
  assumes "cc_inv s" and "cx_max_concurrency ctx < u64_bound" and "cx_active_runners ctx < u64_bound"
    and "cc_step s ctx sampler now t1 t2 = Done (acts, s', sampler')"
  shows "cc_inv s' \<and> actions_ok ctx
      (if cc_first_execute s then cx_max_concurrency ctx
       else cx_max_concurrency ctx - cx_active_runners ctx) acts
    \<and> \<not> cc_first_execute s'"
proof (cases "cc_first_execute s")
  case True
  with assms show ?thesis by (auto simp: cc_step_def cc_inv_def actions_ok_def)
next
  case False
  obtain b sm where h: "has_recent_unretryable sampler (cfg_detection_window (cc_config s)) t1 = (b, sm)"
    by fastforce
  show ?thesis
  proof (cases b)
    case True
    with False h assms show ?thesis
      by (auto simp: cc_step_def handle_immediate_degradation_def cc_inv_def actions_ok_def cc_target_def
          Let_def)
  next
    case b: False
    then obtain st sm' where st: "sampler_stats sm t2 = Done (st, sm')"
      using False h assms(4) by (auto simp: cc_step_def bind_run_Done)
    obtain a s1 where d: "cc_dispatch s ctx st now = (a, s1)" by fastforce
    note ok = cc_dispatch_ok [OF assms(1,2) d]
    have "1 \<le> n" if "cc_target (cc_state s1) = Some n" for n
      using ok that by (auto simp: cc_inv_def)
    with ok have a: "a = [] \<or> (\<exists>n. a = [Change_Max_Concurrency n] \<and> 1 \<le> n)" by blast
    show ?thesis
      using False h b st d assms(4) ok a assms(2,3)
      by (auto simp: cc_step_def actions_ok_def sub64_exact split: if_splits)
  qed
qed

text \<open>
  C37: The concurrency control never lets a task stall or exceed its limit: a step yields nothing,
  one new limit of at least one, or the creation of runners for the first available ranges, never
  more of them than the limit leaves room for beside the active runners (on the first step no
  runner is active). What it needs for that is kept by every step.
\<close>

theorem concurrency_control_is_safe:
  assumes "cc_inv s" and "cx_max_concurrency ctx < u64_bound" and "cx_active_runners ctx < u64_bound"
    and "cc_first_execute s \<Longrightarrow> cx_active_runners ctx = 0"
    and "cc_step s ctx sampler now t1 t2 = Done (acts, s', sampler')"
  shows "cc_inv s' \<and> \<not> cc_first_execute s'
    \<and> (\<forall>n. Change_Max_Concurrency n \<in> set acts \<longrightarrow> 1 \<le> n \<and> acts = [Change_Max_Concurrency n])
    \<and> (\<forall>a \<in> set acts. (\<exists>n. a = Change_Max_Concurrency n)
          \<or> (\<exists>r \<in> set (cx_available_chunks ctx). a = Create_Task r))
    \<and> ((\<exists>r. Create_Task r \<in> set acts) \<longrightarrow> length acts + cx_active_runners ctx \<le> cx_max_concurrency ctx)
    \<and> (\<exists>rest. (\<exists>r. Create_Task r \<in> set acts)
          \<longrightarrow> map Create_Task (cx_available_chunks ctx) = acts @ rest)"
proof -
  let ?room = "if cc_first_execute s then cx_max_concurrency ctx
       else cx_max_concurrency ctx - cx_active_runners ctx"
  have ok: "cc_inv s'" "actions_ok ctx ?room acts" "\<not> cc_first_execute s'"
    using cc_step_ok [OF assms(1-3,5)] by blast+
  consider (none) "acts = []" | (change) n where "acts = [Change_Max_Concurrency n]" "1 \<le> n"
    | (create) "acts = map Create_Task (take ?room (cx_available_chunks ctx))"
    using ok(2) unfolding actions_ok_def by blast
  then show ?thesis
  proof cases
    case create
    let ?cs = "cx_available_chunks ctx"
    have "map Create_Task ?cs = acts @ map Create_Task (drop ?room ?cs)"
      unfolding create by (simp only: map_append [symmetric] append_take_drop_id)
    moreover have "length acts \<le> ?room" unfolding create by simp
    moreover have "acts = [] \<or> 0 < ?room" unfolding create by auto
    moreover have "\<forall>a \<in> set acts. \<exists>r \<in> set ?cs. a = Create_Task r"
      unfolding create by (auto dest: in_set_takeD)
    ultimately show ?thesis
      using ok(1,3) assms(4) by (auto split: if_splits)
  qed (use ok in auto)
qed

lemma concurrency_control_is_safe_witness:
  "\<exists>s'. cc_step (cc_with_default_config 2)
      \<lparr>cx_max_concurrency = 2, cx_active_runners = 0,
       cx_available_chunks = [Range 0 10, Range 20 30, Range 40 50]\<rparr>
      outcome_sampler_default 100 100 100
    = Done ([Create_Task (Range 0 10), Create_Task (Range 20 30)], s', outcome_sampler_default) \<and> cc_inv s'"
proof -
  let ?ctx = "\<lparr>cx_max_concurrency = 2, cx_active_runners = 0,
       cx_available_chunks = [Range 0 10, Range 20 30, Range 40 50]\<rparr>"
  let ?s = "cc_with_default_config 2"
  have st: "cc_step ?s ?ctx outcome_sampler_default 100 100 100
      = Done ([Create_Task (Range 0 10), Create_Task (Range 20 30)], ?s\<lparr>cc_first_execute := False\<rparr>,
              outcome_sampler_default)"
    by (simp add: cc_step_def cc_with_default_config_def cc_new_def numeral_2_eq_2)
  have "cc_inv ?s" by (rule cc_inv_default) (simp_all add: u64_bound_def)
  then show ?thesis
    using concurrency_control_is_safe [of ?s ?ctx] st by (fastforce simp: u64_bound_def)
qed

lemma dynamic_step_bounded:
  assumes "dx_max_concurrency ctx < u64_bound" and "dynamic_step ctx s = (acts, s')"
  shows "(acts = []
      \<or> acts = [Split_All_Task (dx_planned_chunk_size ctx)]
          \<and> d_stage s = Quick_Start \<and> 2 * dx_current_concurrency ctx < dx_max_concurrency ctx
      \<or> acts = [Split_Given_Task (dx_largest_runner ctx)]
          \<and> d_stage s' = Normal_Stage \<and> dx_current_concurrency ctx + 1 < dx_max_concurrency ctx)
    \<and> d_previous_speed s' = dx_speed ctx
    \<and> (d_stage s = Normal_Stage \<longrightarrow> d_stage s' = Normal_Stage)"
proof -
  have normal: "(acts = [] \<or> acts = [Split_Given_Task (dx_largest_runner ctx)]
        \<and> dx_current_concurrency ctx + 1 < dx_max_concurrency ctx)
      \<and> d_stage s' = Normal_Stage \<and> d_previous_speed s' = dx_speed ctx"
    if "d_stage t = Normal_Stage" "dynamic_step ctx t = (acts, s')" for t
    using that assms(1)
    by (subst (asm) dynamic_step.simps) (auto simp: saturating_add64_def split: if_splits)
  show ?thesis
  proof (cases "d_stage s")
    case Normal_Stage
    then show ?thesis using normal [OF _ assms(2)] by blast
  next
    case Quick_Start
    show ?thesis
    proof (cases "d_threshold1 s < \<bar>dx_speed ctx - 2 * d_previous_speed s\<bar>
             \<and> saturating_mul64 (dx_current_concurrency ctx) 2 < dx_max_concurrency ctx")
      case True
      then show ?thesis
        using Quick_Start assms
        by (subst (asm) dynamic_step.simps) (auto simp: saturating_mul64_def)
    next
      case False
      then have "dynamic_step ctx (s\<lparr>d_stage := Normal_Stage\<rparr>) = (acts, s')"
        using Quick_Start assms(2) by (subst (asm) dynamic_step.simps) (simp split: if_splits)
      then show ?thesis using normal [of "s\<lparr>d_stage := Normal_Stage\<rparr>"] Quick_Start by auto
    qed
  qed
qed

text \<open>
  The splitting strategy always ends with at most one action. It splits all running chunks
  only in the quick start and only while twice the concurrency is below the limit, splits the
  largest one only while there is room for another runner, never goes back to the quick start,
  and remembers the speed it saw.
\<close>

theorem dynamic_strategy_is_bounded:
  assumes "dx_max_concurrency ctx < u64_bound" and "dynamic_step ctx s = (acts, s')"
  shows "(acts = []
      \<or> acts = [Split_All_Task (dx_planned_chunk_size ctx)]
          \<and> d_stage s = Quick_Start \<and> 2 * dx_current_concurrency ctx < dx_max_concurrency ctx
      \<or> acts = [Split_Given_Task (dx_largest_runner ctx)]
          \<and> d_stage s' = Normal_Stage \<and> dx_current_concurrency ctx + 1 < dx_max_concurrency ctx)
    \<and> d_previous_speed s' = dx_speed ctx
    \<and> (d_stage s = Normal_Stage \<longrightarrow> d_stage s' = Normal_Stage)"
  by (rule dynamic_step_bounded [OF assms])

lemma dynamic_strategy_is_bounded_witness:
  "\<exists>s'. dynamic_step \<lparr>dx_speed = 5000000, dx_per_runner_speed = 5000000, dx_current_concurrency = 1,
      dx_max_concurrency = 8, dx_planned_chunk_size = 10000000, dx_largest_runner = 3\<rparr> dynamic_default
    = ([Split_All_Task 10000000], s') \<and> d_previous_speed s' = 5000000"
proof -
  let ?ctx = "\<lparr>dx_speed = 5000000 :: rat, dx_per_runner_speed = 5000000 :: rat, dx_current_concurrency = 1,
      dx_max_concurrency = 8, dx_planned_chunk_size = 10000000, dx_largest_runner = 3\<rparr>"
  have "dynamic_step ?ctx dynamic_default = ([Split_All_Task 10000000],
      dynamic_default\<lparr>d_previous_speed := 5000000\<rparr>)"
    by (simp add: dynamic_step.simps dynamic_default_def saturating_mul64_def u64_bound_def)
  then show ?thesis
    using dynamic_strategy_is_bounded [of ?ctx dynamic_default] by (fastforce simp: u64_bound_def)
qed

lemma policy_failures:
  "\<forall>f \<in> set fs. af_retryable f \<Longrightarrow> fp_consecutive p + length fs < u64_bound \<Longrightarrow>
   foldl (\<lambda>p f. snd (policy_on_failure p f n)) p fs = p\<lparr>fp_consecutive := fp_consecutive p + length fs\<rparr>"
proof (induction fs arbitrary: p)
  case Nil
  then show ?case by simp
next
  case (Cons f fs)
  have "snd (policy_on_failure p f n) = p\<lparr>fp_consecutive := fp_consecutive p + 1\<rparr>"
    using Cons.prems by (simp add: policy_on_failure_def Let_def add64_exact)
  then show ?case using Cons by simp
qed

text \<open>
  C38: The failure policy ends a task exactly when it should: an unretryable failure ends it with
  that failure unless it is a congestion rejection while other attempts are in flight; a run of
  retryable failures ends it at the configured limit and not before, and any non-empty write
  starts the count afresh.
\<close>

theorem failure_policy_limits_retries:
  assumes "\<forall>f \<in> set fs. af_retryable f" and "length fs < u64_bound" and "fp_consecutive p = 0"
    and "q = foldl (\<lambda>p f. snd (policy_on_failure p f n)) p fs"
  shows "fp_consecutive q = length fs
    \<and> (\<forall>f. af_retryable f \<longrightarrow> length fs + 1 < u64_bound \<longrightarrow>
          fst (policy_on_failure q f n)
            = (if fp_max_consecutive p \<le> length fs + 1
               then Some (Retry_Limit_Exceeded (fp_max_consecutive p) (af_error f)) else None))
    \<and> (\<forall>f. \<not> af_retryable f \<longrightarrow> policy_on_failure q f n
          = (if 0 < n \<and> is_congestion (af_error f) then None else Some (af_error f), q))
    \<and> (\<forall>w > 0. fp_consecutive (policy_on_write_ok q w) = 0)
    \<and> (\<forall>now. policy_check q now \<noteq> None \<longleftrightarrow> fp_last_progress_at p + fp_no_progress p \<le> now)"
proof -
  have q: "q = p\<lparr>fp_consecutive := length fs\<rparr>"
    using policy_failures [of fs p n] assms by simp
  have "fst (policy_on_failure q f n)
      = (if fp_max_consecutive p \<le> length fs + 1
         then Some (Retry_Limit_Exceeded (fp_max_consecutive p) (af_error f)) else None)"
    if "af_retryable f" "length fs + 1 < u64_bound" for f
    using that by (simp add: q policy_on_failure_def Let_def add64_exact)
  moreover have "policy_on_failure q f n
      = (if 0 < n \<and> is_congestion (af_error f) then None else Some (af_error f), q)"
    if "\<not> af_retryable f" for f
    using that by (simp add: policy_on_failure_def)
  moreover have "fp_consecutive (policy_on_write_ok q w) = 0" if "0 < w" for w
    using that by (simp add: policy_on_write_ok_def)
  moreover have "policy_check q now \<noteq> None \<longleftrightarrow> fp_last_progress_at p + fp_no_progress p \<le> now" for now
    by (simp add: q policy_check_def policy_deadline_def)
  ultimately show ?thesis using q by simp
qed

lemma failure_policy_limits_retries_witness:
  "fst (policy_on_failure (snd (policy_on_failure (policy_new 2 60 0)
     \<lparr>af_runner_id = 0, af_error = Task_Timeout, af_retryable = True\<rparr> 0))
     \<lparr>af_runner_id = 0, af_error = Task_Timeout, af_retryable = True\<rparr> 0) = Some (Retry_Limit_Exceeded 2 Task_Timeout)"
  using failure_policy_limits_retries [of "[\<lparr>af_runner_id = 0, af_error = Task_Timeout, af_retryable = True\<rparr>]"
      "policy_new 2 60 0" _ 0]
  by (simp add: policy_new_def u64_bound_def)

end
