(* ===== verification/Runner_Manager.thy ===== *)
theory Runner_Manager
  imports Chunk_Planner_Steps Id_Generator Strategies
begin

text \<open>
  The runner manager (\<open>concurrent_task/runner_manager.rs\<close> and its modules): it hands out runner
  ids, allocates their chunks, sends them limits, and turns the events of their streams into
  ticks of the download loop. This theory holds its state and its handlers;
  \<open>Runner_Manager_Inv\<close> proves that no handler panics.

  The streams of the runners live in a \<open>StreamGroup\<close> of another crate: which event it yields is
  an argument of \<open>poll_lifecycle\<close> and \<open>poll_data\<close>. An aggregator is modelled by the ids of its
  \<open>map\<close>. A runner's limit mailbox is the latest-value slot of \<open>bolt-load-sync\<close>: its unread
  value and whether its receiver is alive.
\<close>

section \<open>Messages and errors\<close>

record downloaded_chunk =
  dc_range :: range
  dc_bytes :: chunk

record meter_snapshot =
  ms_runners :: usize
  ms_bytes :: usize

datatype task_state = Downloading | Paused | Task_Finished

record runner_tick =
  tk_state :: task_state
  tk_downloaded :: "downloaded_chunk option"
  tk_failure :: "attempt_failure option"

definition tick_downloading :: runner_tick where
  "tick_downloading = \<lparr>tk_state = Downloading, tk_downloaded = None, tk_failure = None\<rparr>"

definition tick_finished :: runner_tick where
  "tick_finished = \<lparr>tk_state = Task_Finished, tk_downloaded = None, tk_failure = None\<rparr>"

definition tick_with_chunk :: "downloaded_chunk \<Rightarrow> runner_tick" where
  "tick_with_chunk c = \<lparr>tk_state = Downloading, tk_downloaded = Some c, tk_failure = None\<rparr>"

definition tick_with_failure :: "attempt_failure \<Rightarrow> runner_tick" where
  "tick_with_failure f = \<lparr>tk_state = Downloading, tk_downloaded = None, tk_failure = Some f\<rparr>"

definition is_attempt_retryable :: "task_error \<Rightarrow> bool" where
  "is_attempt_retryable e \<longleftrightarrow>
     is_retryable e \<or> e = Smaller_Than_Total_Size \<or> e = Channel_Closed"

type_synonym spawn_failed = rstr

datatype send_error = Send_Runner_Not_Found runner_id | Receiver_Gone runner_id

datatype resize_error = Resize_Planner planner_error | Resize_Limit send_error

section \<open>The limit mailbox\<close>

record limit_slot =
  sl_unread :: "u64 option"
  sl_receiver :: bool

definition limit_mailbox :: limit_slot where
  "limit_mailbox = \<lparr>sl_unread = None, sl_receiver = True\<rparr>"

definition limit_send :: "limit_slot \<Rightarrow> u64 \<Rightarrow> (bool \<times> limit_slot) run" where
  "limit_send s v =
     (if v = u64_bound - 1 then Panicked ''u64::MAX marks the empty slot''
      else if \<not> sl_receiver s then Done (False, s)
      else Done (True, s\<lparr>sl_unread := Some v\<rparr>))"

section \<open>The manager\<close>

record runner_manager =
  rm_ids :: generator
  rm_planner :: planner
  rm_limits :: "runner_id \<rightharpoonup> limit_slot"
  rm_spawn_failures :: "(runner_id \<times> spawn_failed) list"
  rm_sampler :: outcome_sampler
  rm_lifecycle :: "runner_id set"
  rm_connecting :: "runner_id set"
  rm_data :: "runner_id set"
  rm_meters :: "(runner_id, usize) btree"

definition manager_new :: "u64 \<Rightarrow> usize \<Rightarrow> runner_manager" where
  "manager_new tot max_concurrency =
     \<lparr>rm_ids = gen_new max_concurrency, rm_planner = planner_new tot, rm_limits = Map.empty,
      rm_spawn_failures = [], rm_sampler = outcome_sampler_default, rm_lifecycle = {},
      rm_connecting = {}, rm_data = {}, rm_meters = []\<rparr>"

definition take_meters_snapshot :: "runner_manager \<Rightarrow> meter_snapshot \<times> runner_manager" where
  "take_meters_snapshot m =
     (\<lparr>ms_runners = length (rm_meters m), ms_bytes = sum_list (bt_values (rm_meters m)) mod u64_bound\<rparr>,
      m\<lparr>rm_meters := map (\<lambda>(i, n). (i, 0)) (rm_meters m)\<rparr>)"

definition allocate_runner :: "runner_manager \<Rightarrow> (runner_id \<times> limit_slot) option \<times> runner_manager" where
  "allocate_runner m =
     (case gen_next (rm_ids m) of
        (None, g) \<Rightarrow> (None, m\<lparr>rm_ids := g\<rparr>)
      | (Some i, g) \<Rightarrow>
          (Some (i, limit_mailbox),
           m\<lparr>rm_ids := g, rm_limits := (rm_limits m)(i \<mapsto> limit_mailbox)\<rparr>))"

definition release_runner :: "runner_manager \<Rightarrow> runner_id \<Rightarrow> runner_manager" where
  "release_runner m i =
     m\<lparr>rm_limits := (rm_limits m)(i := None), rm_lifecycle := rm_lifecycle m - {i},
       rm_connecting := rm_connecting m - {i}, rm_data := rm_data m - {i},
       rm_ids := snd (gen_release (rm_ids m) i)\<rparr>"

definition allocated_runner_count :: "runner_manager \<Rightarrow> usize" where
  "allocated_runner_count m = gen_allocated_count (rm_ids m)"

definition is_connecting :: "runner_manager \<Rightarrow> runner_id \<Rightarrow> bool" where
  "is_connecting m i \<longleftrightarrow>
     (case get_runner_state (rm_planner m) i of None \<Rightarrow> False | Some c \<Rightarrow> c_status c = Pending)"

definition register_runner_channels :: "runner_manager \<Rightarrow> runner_id \<Rightarrow> runner_manager" where
  "register_runner_channels m i =
     (let m = m\<lparr>rm_lifecycle := insert i (rm_lifecycle m)\<rparr>
      in if is_connecting m i then m\<lparr>rm_connecting := insert i (rm_connecting m)\<rparr>
         else m\<lparr>rm_data := insert i (rm_data m)\<rparr>)"

definition manager_total :: "runner_manager \<Rightarrow> u64" where
  "manager_total m = p_total (rm_planner m)"

text \<open>
  \<open>spawn_runner_with_chunk\<close>; \<open>spawn\<close> is the spawner's answer for an id, \<open>None\<close> for its
  channels.
\<close>

definition spawn_runner_with_chunk ::
  "runner_manager \<Rightarrow> range \<Rightarrow> (runner_id \<Rightarrow> spawn_failed option) \<Rightarrow> unit option \<times> runner_manager" where
  "spawn_runner_with_chunk m r spawn =
     (case allocate_runner m of
        (None, m) \<Rightarrow> (None, m)
      | (Some (i, limits), m) \<Rightarrow>
         (case allocate_pending_chunk (rm_planner m) r i of
            (False, p) \<Rightarrow> (None, release_runner (m\<lparr>rm_planner := p\<rparr>) i)
          | (True, p) \<Rightarrow>
             (let m = m\<lparr>rm_planner := p\<rparr>
              in (Some (),
                  (case spawn i of
                     None \<Rightarrow> register_runner_channels m i
                   | Some failed \<Rightarrow>
                       m\<lparr>rm_spawn_failures := rm_spawn_failures m @ [(i, failed)]\<rparr>)))))"

text \<open>
  \<open>resize_runner\<close>: every early return drops the guard, which puts the snapshot back.
\<close>

definition resize_runner ::
  "runner_manager \<Rightarrow> runner_id \<Rightarrow> u64 \<Rightarrow> ((resize_error + unit) \<times> runner_manager) run" where
  "resize_runner m i new_size =
     (let g = guard_new (rm_planner m)
      in (case resize_runner_state (g_planner g) i new_size of
            (Inl e, p) \<Rightarrow>
              Done (Inl (Resize_Planner e), m\<lparr>rm_planner := guard_drop (g\<lparr>g_planner := p\<rparr>)\<rparr>)
          | (Inr Unchanged, p) \<Rightarrow>
              Done (Inr (), m\<lparr>rm_planner := guard_drop (g\<lparr>g_planner := p\<rparr>)\<rparr>)
          | (Inr (Shrunk limit), p) \<Rightarrow>
             (case rm_limits m i of
                None \<Rightarrow>
                  Done (Inl (Resize_Limit (Send_Runner_Not_Found i)),
                        m\<lparr>rm_planner := guard_drop (g\<lparr>g_planner := p\<rparr>)\<rparr>)
              | Some s \<Rightarrow>
                  bind_run (limit_send s limit)
                    (\<lambda>(ok, s').
                       if ok
                       then Done (Inr (), m\<lparr>rm_planner := guard_commit (g\<lparr>g_planner := p\<rparr>),
                                            rm_limits := (rm_limits m)(i \<mapsto> s')\<rparr>)
                       else Done (Inl (Resize_Limit (Receiver_Gone i)),
                                  m\<lparr>rm_planner := guard_drop (g\<lparr>g_planner := p\<rparr>)\<rparr>)))))"

section \<open>Lifecycle events\<close>

definition planner_expect ::
  "runner_manager \<Rightarrow> (planner_error + 'a) \<times> planner \<Rightarrow> ('a \<times> runner_manager) run" where
  "planner_expect m res =
     bind_run (expect_ok ''chunk planner should not fail'' (fst res))
       (\<lambda>x. Done (x, m\<lparr>rm_planner := snd res\<rparr>))"

definition sample_outcome ::
  "runner_manager \<Rightarrow> runner_outcome \<Rightarrow> instant \<Rightarrow> runner_manager run" where
  "sample_outcome m x now =
     bind_run (record_outcome (rm_sampler m) x now) (\<lambda>s. Done (m\<lparr>rm_sampler := s\<rparr>))"

definition mark_runner_completed ::
  "runner_manager \<Rightarrow> runner_id \<Rightarrow> instant \<Rightarrow> (bool \<times> runner_manager) run" where
  "mark_runner_completed m i now =
     bind_run (planner_expect m (mark_finished (rm_planner m) i))
       (\<lambda>(_, m). bind_run (sample_outcome m Completed now)
          (\<lambda>m. Done (planner_is_complete (rm_planner m), m)))"

definition failure_kind_of :: "bool \<Rightarrow> failure_kind" where
  "failure_kind_of retryable = (if retryable then Fail_Retryable else Fail_Unretryable)"

definition handle_connect_failed ::
  "runner_manager \<Rightarrow> runner_id \<Rightarrow> task_error \<Rightarrow> instant \<Rightarrow> (runner_tick \<times> runner_manager) run" where
  "handle_connect_failed m i err now =
     bind_run (planner_expect m (mark_failed (rm_planner m) i))
       (\<lambda>(_, m).
          if task_error_is_cancelled err then Done (tick_downloading, m)
          else
            (let retryable = is_attempt_retryable err
             in bind_run (sample_outcome m (Connect_Failed (failure_kind_of retryable)) now)
                  (\<lambda>m. Done (tick_with_failure
                               \<lparr>af_runner_id = i, af_error = err, af_retryable = retryable\<rparr>, m))))"

definition handle_started :: "runner_manager \<Rightarrow> runner_id \<Rightarrow> (runner_tick \<times> runner_manager) run" where
  "handle_started m i =
     bind_run (planner_expect m (mark_running (rm_planner m) i))
       (\<lambda>(_, m).
          if i \<in> rm_connecting m
          then Done (tick_downloading,
                     m\<lparr>rm_connecting := rm_connecting m - {i}, rm_data := insert i (rm_data m)\<rparr>)
          else Panicked ''a connecting runner has a data receiver'')"

definition handle_stopped ::
  "runner_manager \<Rightarrow> runner_id \<Rightarrow> stopped_reason \<Rightarrow> instant \<Rightarrow> (runner_tick \<times> runner_manager) run" where
  "handle_stopped m0 i reason now =
     (let connecting = is_connecting m0 i;
          m = release_runner (m0\<lparr>rm_meters := bt_remove i (rm_meters m0)\<rparr>) i
      in if connecting
         then handle_connect_failed m i
                (case reason of Stop_Failed e \<Rightarrow> e | Stop_Finished \<Rightarrow> Channel_Closed) now
         else if reason = Stop_Finished \<or> reason = Stop_Failed Exceeded_Total_Size
         then bind_run (mark_runner_completed m i now)
                (\<lambda>(complete, m). Done (if complete then tick_finished else tick_downloading, m))
         else
           (case reason of
              Stop_Finished \<Rightarrow> Done (tick_downloading, m)
            | Stop_Failed kind \<Rightarrow>
                bind_run (planner_expect m (mark_failed (rm_planner m) i))
                  (\<lambda>(_, m).
                     if task_error_is_cancelled kind then Done (tick_downloading, m)
                     else
                       bind_run (sample_outcome m
                                   (Stream_Closed (failure_kind_of (is_retryable kind))) now)
                         (\<lambda>m. Done (tick_with_failure
                                      \<lparr>af_runner_id = i, af_error = kind,
                                       af_retryable = is_attempt_retryable kind\<rparr>, m)))))"

definition handle_lifecycle ::
  "runner_manager \<Rightarrow> runner_id \<Rightarrow> lifecycle_event \<Rightarrow> instant \<Rightarrow> (runner_tick \<times> runner_manager) run" where
  "handle_lifecycle m i ev now =
     (case ev of Started \<Rightarrow> handle_started m i | Stopped reason \<Rightarrow> handle_stopped m i reason now)"

definition handle_spawn_failed ::
  "runner_manager \<Rightarrow> runner_id \<Rightarrow> spawn_failed \<Rightarrow> instant \<Rightarrow> (runner_tick \<times> runner_manager) run" where
  "handle_spawn_failed m i failed now =
     handle_connect_failed (release_runner m i) i (Task_Other failed) now"

definition handle_runner_lost ::
  "runner_manager \<Rightarrow> runner_id \<Rightarrow> instant \<Rightarrow> (runner_tick \<times> runner_manager) run" where
  "handle_runner_lost m0 i now =
     (let connecting = is_connecting m0 i;
          m1 = m0\<lparr>rm_meters := bt_remove i (rm_meters m0)\<rparr>
      in bind_run (planner_expect m1 (mark_failed (rm_planner m1) i))
           (\<lambda>(_, m2). bind_run
              (sample_outcome m2
                (if connecting then Connect_Failed Fail_Retryable else Stream_Closed Fail_Retryable) now)
              (\<lambda>m3.
                 (let m = release_runner m3 i
                  in Done (if planner_is_complete (rm_planner m) then tick_finished
                           else tick_with_failure
                                  \<lparr>af_runner_id = i, af_error = Channel_Closed, af_retryable = True\<rparr>,
                           m)))))"

section \<open>Polling\<close>

text \<open>What a stream group yields: nothing yet (or its end), an item, or the end of one stream.\<close>

datatype 'a group_event = Group_Pending | Group_Item runner_id 'a | Group_Closed runner_id

definition poll_lifecycle ::
  "runner_manager \<Rightarrow> lifecycle_event group_event \<Rightarrow> instant \<Rightarrow> (runner_tick option \<times> runner_manager) run" where
  "poll_lifecycle m ev now =
     (case rm_spawn_failures m of
        (i, failed) # rest \<Rightarrow>
          bind_run (handle_spawn_failed (m\<lparr>rm_spawn_failures := rest\<rparr>) i failed now)
            (\<lambda>(t, m). Done (Some t, m))
      | [] \<Rightarrow>
          if rm_lifecycle m = {} then Done (None, m)
          else
            (case ev of
               Group_Pending \<Rightarrow> Done (None, m)
             | Group_Item i e \<Rightarrow>
                 bind_run (handle_lifecycle m i e now) (\<lambda>(t, m). Done (Some t, m))
             | Group_Closed i \<Rightarrow>
                 bind_run (handle_runner_lost (m\<lparr>rm_lifecycle := rm_lifecycle m - {i}\<rparr>) i now)
                   (\<lambda>(t, m). Done (Some t, m))))"

definition handle_data_frame ::
  "runner_manager \<Rightarrow> runner_id \<Rightarrow> chunk \<Rightarrow> (downloaded_chunk \<times> runner_manager) run" where
  "handle_data_frame m0 i frame =
     (let metered = (case bt_get i (rm_meters m0) of None \<Rightarrow> 0 | Some n \<Rightarrow> n);
          m = m0\<lparr>rm_meters := bt_insert i (add64 metered (length frame)) (rm_meters m0)\<rparr>
      in bind_run (planner_expect m (update_progress (rm_planner m) i (length frame)))
           (\<lambda>(r, m). Done (\<lparr>dc_range = r, dc_bytes = take (sub64 (r_end r) (r_start r)) frame\<rparr>, m)))"

definition poll_data ::
  "runner_manager \<Rightarrow> chunk group_event \<Rightarrow> (runner_tick option \<times> runner_manager) run" where
  "poll_data m ev =
     (if rm_data m = {} then Done (None, m)
      else
        (case ev of
           Group_Pending \<Rightarrow> Done (None, m)
         | Group_Item i frame \<Rightarrow>
             bind_run (handle_data_frame m i frame) (\<lambda>(c, m). Done (Some (tick_with_chunk c), m))
         | Group_Closed i \<Rightarrow> Done (Some tick_downloading, m\<lparr>rm_data := rm_data m - {i}\<rparr>)))"

definition poll_tick ::
  "runner_manager \<Rightarrow> lifecycle_event group_event \<Rightarrow> chunk group_event \<Rightarrow> bool \<Rightarrow> instant
   \<Rightarrow> (runner_tick option \<times> runner_manager) run" where
  "poll_tick m lev dev data_enabled now =
     bind_run (poll_lifecycle m lev now)
       (\<lambda>(t, m).
          if t \<noteq> None then Done (t, m)
          else if data_enabled then poll_data m dev
          else Done (None, m))"

end
