(* ===== verification/Pending_Writer.thy ===== *)
theory Pending_Writer
  imports "HOL-Library.Multiset" Errors
begin

text \<open>
  The pending writer (\<open>concurrent_task/file_writer/pending_writer.rs\<close>) and the completion guard
  of its writes (\<open>file_writer/command.rs\<close>): writes are dispatched to a backend up to a capacity,
  one more is buffered, and every dispatched write reports its completion once, through a channel
  with one slot more than the capacity.

  The state includes what the backend holds: \<open>pw_outstanding\<close>, the guarded writes that have not
  reported yet, and \<open>pw_queue\<close>, the completion channel. \<open>publish\<close> loses a completion when the
  channel is full, as \<open>try_send\<close> does; the invariant shows that this never happens.
\<close>

section \<open>Errors and writes\<close>

record write_chunk =
  wc_range :: range
  wc_data :: chunk

datatype command_error = Cmd_Io io_error | Cmd_Recv | Cmd_Send

datatype file_writer_error =
    Open_Or_Create_File command_error rstr
  | Allocate_File command_error u64
  | Write_Range_Failed command_error "write_chunk option" rstr
  | Finalize_Failed command_error rstr

type_synonym write_result = "file_writer_error + unit"

record write_completion =
  w_range :: range
  w_result :: write_result

datatype write_status = Dispatched | Buffered

definition queue_closed :: io_error where
  "queue_closed = lit ''writer command channel closed''"

section \<open>The writer\<close>

record pending_writer =
  pw_capacity :: usize
  pw_in_flight :: usize
  pw_pending :: "write_chunk option"
  pw_saw_error :: bool
  pw_queue :: "write_completion list"
  pw_outstanding :: "write_chunk list"

definition writer_new :: "usize \<Rightarrow> pending_writer" where
  "writer_new cap =
     \<lparr>pw_capacity = max cap 1, pw_in_flight = 0, pw_pending = None, pw_saw_error = False,
      pw_queue = [], pw_outstanding = []\<rparr>"

definition writer_is_full :: "pending_writer \<Rightarrow> bool" where
  "writer_is_full w \<longleftrightarrow> pw_capacity w \<le> pw_in_flight w"

definition has_pending_write :: "pending_writer \<Rightarrow> bool" where
  "has_pending_write w \<longleftrightarrow> pw_pending w \<noteq> None"

definition writer_is_idle :: "pending_writer \<Rightarrow> bool" where
  "writer_is_idle w \<longleftrightarrow> pw_in_flight w = 0 \<and> \<not> has_pending_write w"

definition can_write :: "pending_writer \<Rightarrow> bool" where
  "can_write w \<longleftrightarrow> \<not> writer_is_full w \<or> \<not> has_pending_write w"

text \<open>The completion channel holds \<open>capacity + 1\<close> items; what does not fit is dropped.\<close>

definition publish :: "pending_writer \<Rightarrow> write_completion \<Rightarrow> pending_writer" where
  "publish w c =
     (if length (pw_queue w) < add64 (pw_capacity w) 1
      then w\<lparr>pw_queue := pw_queue w @ [c]\<rparr> else w)"

text \<open>
  The guard of a write reports it once: with the result of the backend (\<open>guard_complete\<close>), with
  the result of \<open>write_range\<close> (\<open>guard_complete_result\<close>), or as failed when it is dropped.
\<close>

definition guard_complete ::
  "pending_writer \<Rightarrow> write_chunk \<Rightarrow> io_error + unit \<Rightarrow> rstr \<Rightarrow> pending_writer" where
  "guard_complete w c result path =
     publish w \<lparr>w_range = wc_range c,
                w_result = (case result of
                              Inr u \<Rightarrow> Inr u
                            | Inl e \<Rightarrow> Inl (Write_Range_Failed (Cmd_Io e) (Some c) path))\<rparr>"

definition guard_complete_result ::
  "pending_writer \<Rightarrow> write_chunk \<Rightarrow> write_result \<Rightarrow> pending_writer" where
  "guard_complete_result w c result = publish w \<lparr>w_range = wc_range c, w_result = result\<rparr>"

definition guard_dropped :: "pending_writer \<Rightarrow> write_chunk \<Rightarrow> pending_writer" where
  "guard_dropped w c =
     publish w \<lparr>w_range = wc_range c,
                w_result = Inl (Write_Range_Failed
                  (Cmd_Io (lit ''write request dropped / panicked'')) (Some c) [])\<rparr>"

text \<open>
  What the backend answers to a dispatched write: it queues it; its queue is full, and a task
  that waits for room is spawned or rejected; its queue is closed; or, for a backend without a
  queue, the write is spawned as a task of its own, or that is rejected.
\<close>

datatype submit_answer =
    Queue_Accepts
  | Queue_Is_Full bool
  | Queue_Is_Closed rstr
  | No_Queue bool

definition writer_dispatch :: "pending_writer \<Rightarrow> write_chunk \<Rightarrow> submit_answer \<Rightarrow> pending_writer" where
  "writer_dispatch w c ans =
     (case ans of
        Queue_Accepts \<Rightarrow> w\<lparr>pw_outstanding := pw_outstanding w @ [c]\<rparr>
      | Queue_Is_Full spawned \<Rightarrow>
          if spawned then w\<lparr>pw_outstanding := pw_outstanding w @ [c]\<rparr> else guard_dropped w c
      | Queue_Is_Closed path \<Rightarrow> guard_complete w c (Inl queue_closed) path
      | No_Queue spawned \<Rightarrow>
          if spawned then w\<lparr>pw_outstanding := pw_outstanding w @ [c]\<rparr> else guard_dropped w c)"

definition dispatch_write :: "pending_writer \<Rightarrow> write_chunk \<Rightarrow> submit_answer \<Rightarrow> pending_writer" where
  "dispatch_write w c ans =
     writer_dispatch (w\<lparr>pw_in_flight := add64 (pw_in_flight w) 1\<rparr>) c ans"

text \<open>\<open>Inl\<close> is \<open>WriterFullError\<close>, with the rejected write.\<close>

definition write_range ::
  "pending_writer \<Rightarrow> range \<Rightarrow> chunk \<Rightarrow> submit_answer \<Rightarrow> (write_chunk + write_status) \<times> pending_writer" where
  "write_range w r data ans =
     (let c = \<lparr>wc_range = r, wc_data = data\<rparr>
      in if \<not> writer_is_full w then (Inr Dispatched, dispatch_write w c ans)
         else if pw_pending w = None then (Inr Buffered, w\<lparr>pw_pending := Some c\<rparr>)
         else (Inl c, w))"

definition ack_completions :: "pending_writer \<Rightarrow> nat \<Rightarrow> pending_writer run" where
  "ack_completions w n =
     bind_run (expect_some ''in_flight underflow: more completions drained than dispatched''
                (checked_sub64 (pw_in_flight w) n))
       (\<lambda>k. Done (w\<lparr>pw_in_flight := k\<rparr>))"

definition completions_have_error :: "write_completion list \<Rightarrow> bool" where
  "completions_have_error cs \<longleftrightarrow> list_ex (\<lambda>c. case w_result c of Inl _ \<Rightarrow> True | Inr _ \<Rightarrow> False) cs"

definition try_flush_pending :: "pending_writer \<Rightarrow> submit_answer \<Rightarrow> pending_writer" where
  "try_flush_pending w ans =
     (if writer_is_full w then w
      else (case pw_pending w of
              None \<Rightarrow> w
            | Some c \<Rightarrow> dispatch_write (w\<lparr>pw_pending := None\<rparr>) c ans))"

definition settle ::
  "pending_writer \<Rightarrow> write_completion list \<Rightarrow> submit_answer \<Rightarrow> (write_completion list \<times> pending_writer) run" where
  "settle w cs ans =
     bind_run (ack_completions w (length cs))
       (\<lambda>w. let w = w\<lparr>pw_saw_error := (pw_saw_error w \<or> completions_have_error cs)\<rparr>
            in Done (cs, if pw_saw_error w then w else try_flush_pending w ans))"

definition try_tick :: "pending_writer \<Rightarrow> submit_answer \<Rightarrow> (write_completion list \<times> pending_writer) run" where
  "try_tick w ans = settle (w\<lparr>pw_queue := []\<rparr>) (pw_queue w) ans"

text \<open>\<open>None\<close> is \<open>Pending\<close>; the channel is not closed while the writer lives.\<close>

definition poll_completions ::
  "pending_writer \<Rightarrow> submit_answer \<Rightarrow> (write_completion list option \<times> pending_writer) run" where
  "poll_completions w ans =
     (if pw_in_flight w = 0 then Done (None, w)
      else if pw_queue w = [] then Done (None, w)
      else bind_run (settle (w\<lparr>pw_queue := []\<rparr>) (pw_queue w) ans) (\<lambda>(cs, w). Done (Some cs, w)))"

text \<open>A worker reports the \<open>n\<close>-th outstanding write.\<close>

definition worker_reports :: "pending_writer \<Rightarrow> nat \<Rightarrow> write_result \<Rightarrow> pending_writer" where
  "worker_reports w n result =
     (if n < length (pw_outstanding w)
      then guard_complete_result
             (w\<lparr>pw_outstanding := take n (pw_outstanding w) @ drop (Suc n) (pw_outstanding w)\<rparr>)
             (pw_outstanding w ! n) result
      else w)"

text \<open>
  \<open>flush\<close> waits for the workers: each element of the list is one report that arrives while it
  waits (of any outstanding write: the number picks one modulo their count), with the backend's
  answer to a write the flush then dispatches. \<open>None\<close>: it still waits.
\<close>

fun flush_loop ::
  "(nat \<times> write_result \<times> submit_answer) list \<Rightarrow> pending_writer \<Rightarrow> write_completion list
   \<Rightarrow> (write_completion list \<times> pending_writer) option run" where
  "flush_loop evs w acc =
     (if pw_in_flight w = 0 then Done (Some (acc, w))
      else
        (case evs of
           [] \<Rightarrow> Done None
         | (n, result, ans) # evs \<Rightarrow>
             bind_run (poll_completions
                (worker_reports w (n mod max 1 (length (pw_outstanding w))) result) ans)
               (\<lambda>(batch, w). flush_loop evs w (acc @ (case batch of None \<Rightarrow> [] | Some b \<Rightarrow> b)))))"

declare flush_loop.simps [simp del]

definition flush ::
  "pending_writer \<Rightarrow> submit_answer \<Rightarrow> (nat \<times> write_result \<times> submit_answer) list
   \<Rightarrow> (write_completion list \<times> pending_writer) option run" where
  "flush w ans evs = bind_run (try_tick w ans) (\<lambda>(cs, w). flush_loop evs w cs)"

section \<open>The accounting invariant\<close>

definition writer_inv :: "pending_writer \<Rightarrow> bool" where
  "writer_inv w \<longleftrightarrow>
     1 \<le> pw_capacity w \<and> pw_capacity w + 1 < u64_bound
     \<and> pw_in_flight w = length (pw_outstanding w) + length (pw_queue w)
     \<and> pw_in_flight w \<le> pw_capacity w
     \<and> (pw_pending w \<noteq> None \<longrightarrow> pw_saw_error w \<or> 0 < pw_in_flight w)"

text \<open>The writes a writer still owes a completion.\<close>

definition owed :: "pending_writer \<Rightarrow> range multiset" where
  "owed w = mset (map wc_range (pw_outstanding w)) + mset (map w_range (pw_queue w))
     + (case pw_pending w of None \<Rightarrow> {#} | Some c \<Rightarrow> {#wc_range c#})"

lemma writer_inv_new: "cap + 2 < u64_bound \<Longrightarrow> writer_inv (writer_new cap) \<and> owed (writer_new cap) = {#}"
  by (auto simp: writer_inv_def writer_new_def owed_def u64_bound_def)

lemma publish_room:
  "pw_capacity w + 1 < u64_bound \<Longrightarrow> length (pw_queue w) \<le> pw_capacity w \<Longrightarrow>
   publish w c = w\<lparr>pw_queue := pw_queue w @ [c]\<rparr>"
  by (simp add: publish_def add64_exact)

lemma writer_dispatch_publish:
  assumes "pw_capacity w + 1 < u64_bound" and "length (pw_queue w) \<le> pw_capacity w"
  shows "(\<exists>x. w_range x = wc_range c \<and> writer_dispatch w c ans = w\<lparr>pw_queue := pw_queue w @ [x]\<rparr>)
    \<or> writer_dispatch w c ans = w\<lparr>pw_outstanding := pw_outstanding w @ [c]\<rparr>"
proof -
  have pub: "\<exists>x. w_range x = wc_range c
      \<and> publish w \<lparr>w_range = wc_range c, w_result = res\<rparr> = w\<lparr>pw_queue := pw_queue w @ [x]\<rparr>" for res
    by (rule exI [of _ "\<lparr>w_range = wc_range c, w_result = res\<rparr>"]) (simp add: publish_room [OF assms])
  show ?thesis
  proof (cases ans)
    case Queue_Accepts
    then show ?thesis by (simp add: writer_dispatch_def)
  next
    case (Queue_Is_Full b)
    then show ?thesis using pub by (simp add: writer_dispatch_def guard_dropped_def)
  next
    case (Queue_Is_Closed path)
    then show ?thesis using pub by (simp add: writer_dispatch_def guard_complete_def)
  next
    case (No_Queue b)
    then show ?thesis using pub by (simp add: writer_dispatch_def guard_dropped_def)
  qed
qed

lemma dispatch_write_ok:
  assumes "1 \<le> pw_capacity w" and "pw_capacity w + 1 < u64_bound" and "pw_in_flight w < pw_capacity w"
    and "pw_in_flight w = length (pw_outstanding w) + length (pw_queue w)"
  shows "\<exists>q out. dispatch_write w c ans = w\<lparr>pw_in_flight := pw_in_flight w + 1, pw_queue := q, pw_outstanding := out\<rparr>
    \<and> pw_in_flight w + 1 = length out + length q
    \<and> mset (map wc_range out) + mset (map w_range q)
        = mset (map wc_range (pw_outstanding w)) + mset (map w_range (pw_queue w)) + {#wc_range c#}"
proof -
  let ?w = "w\<lparr>pw_in_flight := add64 (pw_in_flight w) 1\<rparr>"
  have n: "add64 (pw_in_flight w) 1 = pw_in_flight w + 1" using assms(2,3) by (simp add: add64_exact)
  have eq: "w\<lparr>pw_in_flight := pw_in_flight w + 1, pw_queue := pw_queue w, pw_outstanding := out\<rparr>
      = ?w\<lparr>pw_outstanding := out\<rparr>"
    "w\<lparr>pw_in_flight := pw_in_flight w + 1, pw_queue := q, pw_outstanding := pw_outstanding w\<rparr>
      = ?w\<lparr>pw_queue := q\<rparr>" for out q
    using n by (cases w; simp)+
  from writer_dispatch_publish [of ?w c ans] assms
  consider x where "w_range x = wc_range c" "dispatch_write w c ans = ?w\<lparr>pw_queue := pw_queue w @ [x]\<rparr>"
    | "dispatch_write w c ans = ?w\<lparr>pw_outstanding := pw_outstanding w @ [c]\<rparr>"
    by (auto simp: dispatch_write_def)
  then show ?thesis
  proof cases
    case 1
    then show ?thesis
      using assms(4) eq(2) [of "pw_queue w @ [x]"]
      by (intro exI [of _ "pw_queue w @ [x]"] exI [of _ "pw_outstanding w"]) simp
  next
    case 2
    then show ?thesis
      using assms(4) eq(1) [of "pw_outstanding w @ [c]"]
      by (intro exI [of _ "pw_queue w"] exI [of _ "pw_outstanding w @ [c]"]) simp
  qed
qed

lemma write_range_ok:
  assumes inv: "writer_inv w" and res: "write_range w r data ans = (res, w')"
  shows "writer_inv w'" and "can_write w \<Longrightarrow> \<exists>s. res = Inr s"
    and "\<not> can_write w \<Longrightarrow> w' = w \<and> res = Inl \<lparr>wc_range = r, wc_data = data\<rparr>"
    and "can_write w \<Longrightarrow> owed w' = owed w + {#r#}"
    and "pw_saw_error w' = pw_saw_error w"
proof -
  let ?c = "\<lparr>wc_range = r, wc_data = data\<rparr>"
  note i = inv [unfolded writer_inv_def]
  have "writer_inv w' \<and> (can_write w \<longrightarrow> (\<exists>s. res = Inr s) \<and> owed w' = owed w + {#r#})
    \<and> (\<not> can_write w \<longrightarrow> w' = w \<and> res = Inl ?c) \<and> pw_saw_error w' = pw_saw_error w"
  proof (cases "writer_is_full w")
    case False
    obtain q out where d: "dispatch_write w ?c ans
        = w\<lparr>pw_in_flight := pw_in_flight w + 1, pw_queue := q, pw_outstanding := out\<rparr>"
      "pw_in_flight w + 1 = length out + length q"
      "mset (map wc_range out) + mset (map w_range q)
        = mset (map wc_range (pw_outstanding w)) + mset (map w_range (pw_queue w)) + {#r#}"
      using dispatch_write_ok [of w ?c ans] i False by (auto simp: writer_is_full_def)
    have w': "res = Inr Dispatched"
      "w' = w\<lparr>pw_in_flight := pw_in_flight w + 1, pw_queue := q, pw_outstanding := out\<rparr>"
      using res False d(1) by (simp_all add: write_range_def Let_def)
    have "writer_inv w'" using i d(2) w'(2) False by (auto simp: writer_inv_def writer_is_full_def)
    moreover have "owed w' = owed w + {#r#}"
      using d(3) w'(2) by (simp add: owed_def ac_simps split: option.splits)
    ultimately show ?thesis using w' False by (simp add: can_write_def)
  next
    case True
    then have pos: "0 < pw_in_flight w" using i unfolding writer_is_full_def by linarith
    show ?thesis
    proof (cases "pw_pending w")
      case None
      then have "res = Inr Buffered" "w' = w\<lparr>pw_pending := Some ?c\<rparr>"
        using True res by (simp_all add: write_range_def Let_def)
      then show ?thesis
        using i pos None by (auto simp: writer_inv_def can_write_def has_pending_write_def owed_def)
    next
      case (Some c)
      then show ?thesis
        using True res inv by (simp add: write_range_def Let_def can_write_def has_pending_write_def)
    qed
  qed
  then show "writer_inv w'" and "can_write w \<Longrightarrow> \<exists>s. res = Inr s"
    and "\<not> can_write w \<Longrightarrow> w' = w \<and> res = Inl \<lparr>wc_range = r, wc_data = data\<rparr>"
    and "can_write w \<Longrightarrow> owed w' = owed w + {#r#}" and "pw_saw_error w' = pw_saw_error w"
    by blast+
qed

text \<open>Taking every available completion and settling.\<close>

lemma settle_ok:
  assumes inv: "writer_inv w"
  shows "\<exists>w'. settle (w\<lparr>pw_queue := []\<rparr>) (pw_queue w) ans = Done (pw_queue w, w') \<and> writer_inv w'
    \<and> owed w = owed w' + mset (map w_range (pw_queue w))
    \<and> pw_saw_error w' = (pw_saw_error w \<or> completions_have_error (pw_queue w))
    \<and> pw_capacity w' = pw_capacity w"
proof -
  note i = inv [unfolded writer_inv_def]
  define w1 where "w1 = w\<lparr>pw_queue := [], pw_in_flight := length (pw_outstanding w),
      pw_saw_error := (pw_saw_error w \<or> completions_have_error (pw_queue w))\<rparr>"
  let ?w' = "if pw_saw_error w1 then w1 else try_flush_pending w1 ans"
  have ack: "ack_completions (w\<lparr>pw_queue := []\<rparr>) (length (pw_queue w))
      = Done (w\<lparr>pw_queue := [], pw_in_flight := length (pw_outstanding w)\<rparr>)"
    using i by (simp add: ack_completions_def checked_sub64_def)
  have eq: "settle (w\<lparr>pw_queue := []\<rparr>) (pw_queue w) ans = Done (pw_queue w, ?w')"
    using ack by (simp add: settle_def Let_def w1_def)
  have owed1: "owed w = owed w1 + mset (map w_range (pw_queue w))"
    by (simp add: owed_def w1_def ac_simps)
  have "writer_inv ?w' \<and> owed ?w' = owed w1 \<and> pw_saw_error ?w' = pw_saw_error w1
      \<and> pw_capacity ?w' = pw_capacity w"
  proof (cases "pw_saw_error w1 \<or> writer_is_full w1 \<or> pw_pending w1 = None")
    case True
    then have "?w' = w1" by (auto simp: try_flush_pending_def)
    then show ?thesis using True i by (auto simp: writer_inv_def w1_def writer_is_full_def)
  next
    case False
    then obtain c where c: "pw_pending w1 = Some c" by auto
    let ?w2 = "w1\<lparr>pw_pending := None\<rparr>"
    obtain q out where d: "dispatch_write ?w2 c ans
        = ?w2\<lparr>pw_in_flight := pw_in_flight ?w2 + 1, pw_queue := q, pw_outstanding := out\<rparr>"
      "pw_in_flight ?w2 + 1 = length out + length q"
      "mset (map wc_range out) + mset (map w_range q)
        = mset (map wc_range (pw_outstanding ?w2)) + mset (map w_range (pw_queue ?w2)) + {#wc_range c#}"
      using dispatch_write_ok [of ?w2 c ans] i False by (auto simp: w1_def writer_is_full_def)
    have "?w' = dispatch_write ?w2 c ans" using False c by (simp add: try_flush_pending_def)
    then show ?thesis
      using d i False c by (auto simp: writer_inv_def owed_def w1_def writer_is_full_def)
  qed
  then show ?thesis using eq owed1 by (simp add: w1_def)
qed

lemma worker_reports_ok:
  assumes inv: "writer_inv w"
  shows "writer_inv (worker_reports w n result) \<and> owed (worker_reports w n result) = owed w
    \<and> pw_in_flight (worker_reports w n result) = pw_in_flight w
    \<and> length (pw_queue (worker_reports w n result)) \<ge> length (pw_queue w)
    \<and> (n < length (pw_outstanding w) \<longrightarrow> length (pw_outstanding (worker_reports w n result)) < length (pw_outstanding w))"
proof (cases "n < length (pw_outstanding w)")
  case True
  note i = inv [unfolded writer_inv_def]
  let ?out = "take n (pw_outstanding w) @ drop (Suc n) (pw_outstanding w)"
  have o: "pw_outstanding w = take n (pw_outstanding w) @ pw_outstanding w ! n # drop (Suc n) (pw_outstanding w)"
    using True by (rule id_take_nth_drop)
  have len: "length ?out + 1 = length (pw_outstanding w)" using True by simp
  have "worker_reports w n result = w\<lparr>pw_outstanding := ?out,
      pw_queue := pw_queue w @ [\<lparr>w_range = wc_range (pw_outstanding w ! n), w_result = result\<rparr>]\<rparr>"
    using True i by (simp add: worker_reports_def guard_complete_result_def publish_room)
  moreover have "mset (map wc_range (pw_outstanding w))
      = mset (map wc_range ?out) + {#wc_range (pw_outstanding w ! n)#}"
    by (subst o) simp
  ultimately show ?thesis using i len True by (auto simp: writer_inv_def owed_def)
next
  case False
  then show ?thesis using inv by (simp add: worker_reports_def)
qed

section \<open>Runs of the writer\<close>

text \<open>
  A run: the owner writes when the writer takes it and polls the completions, the workers report
  in any order and with any result. \<open>acc\<close> collects the accepted writes, \<open>rep\<close> the reported ones.
\<close>

inductive writer_run :: "usize \<Rightarrow> pending_writer \<Rightarrow> range list \<Rightarrow> range list \<Rightarrow> bool" for cap where
  start: "writer_run cap (writer_new cap) [] []"
| submit: "writer_run cap w acc rep \<Longrightarrow> can_write w \<Longrightarrow>
    writer_run cap (snd (write_range w r data ans)) (acc @ [r]) rep"
| worker: "writer_run cap w acc rep \<Longrightarrow> writer_run cap (worker_reports w n result) acc rep"
| tick: "writer_run cap w acc rep \<Longrightarrow> try_tick w ans = Done (cs, w') \<Longrightarrow>
    writer_run cap w' acc (rep @ map w_range cs)"

lemma writer_run_inv:
  "writer_run cap w acc rep \<Longrightarrow> cap + 2 < u64_bound \<Longrightarrow>
   writer_inv w \<and> mset acc = mset rep + owed w"
proof (induction rule: writer_run.induct)
  case start
  then show ?case using writer_inv_new by simp
next
  case (submit w acc rep r data ans)
  then show ?case using write_range_ok [of w r data ans] by (cases "write_range w r data ans") auto
next
  case (worker w acc rep n result)
  then show ?case using worker_reports_ok by simp
next
  case (tick w acc rep ans cs w')
  then obtain w2 where "settle (w\<lparr>pw_queue := []\<rparr>) (pw_queue w) ans = Done (pw_queue w, w2)" "writer_inv w2"
    "owed w = owed w2 + mset (map w_range (pw_queue w))"
    using settle_ok by blast
  then show ?case using tick by (simp add: try_tick_def)
qed

text \<open>
  C11: No write is lost or reported twice. After any run of writes, worker reports in any order
  and ticks, the ranges accepted are, with their multiplicities, the ones reported plus the ones
  still outstanding, in the completion channel or buffered; the count of writes in flight is
  exact and never above the capacity, so its checked subtraction cannot fail and the channel
  cannot overflow; and a buffered write always has a write in flight ahead of it, unless an
  error stopped the dispatch.
\<close>

theorem writes_are_conserved:
  assumes "writer_run cap w acc rep" and "cap + 2 < u64_bound"
  shows "mset acc = mset rep + owed w
    \<and> pw_in_flight w = length (pw_outstanding w) + length (pw_queue w)
    \<and> pw_in_flight w \<le> pw_capacity w
    \<and> (\<exists>cs w'. try_tick w ans = Done (cs, w') \<and> cs = pw_queue w)
    \<and> (pw_pending w \<noteq> None \<longrightarrow> pw_saw_error w \<or> 0 < pw_in_flight w)
    \<and> (can_write w \<longrightarrow> (\<exists>s. fst (write_range w r data ans) = Inr s))"
proof -
  have inv: "writer_inv w" "mset acc = mset rep + owed w" using writer_run_inv [OF assms] by auto
  obtain w' where "settle (w\<lparr>pw_queue := []\<rparr>) (pw_queue w) ans = Done (pw_queue w, w')"
    using settle_ok [OF inv(1)] by blast
  moreover have "can_write w \<longrightarrow> (\<exists>s. fst (write_range w r data ans) = Inr s)"
    using write_range_ok(2) [OF inv(1), of r data ans] by (cases "write_range w r data ans") auto
  ultimately show ?thesis using inv by (auto simp: writer_inv_def try_tick_def)
qed

lemma writes_are_conserved_witness:
  "mset [Range 0 3] = mset [] + owed (snd (write_range (writer_new 2) (Range 0 3) [1, 2, 3] Queue_Accepts))"
proof -
  have "can_write (writer_new 2)" by (simp add: can_write_def writer_is_full_def writer_new_def)
  then have "writer_run 2 (snd (write_range (writer_new 2) (Range 0 3) [1, 2, 3] Queue_Accepts)) [Range 0 3] []"
    using writer_run.submit [OF writer_run.start, of 2 "Range 0 3" "[1, 2, 3]" Queue_Accepts] by simp
  then show ?thesis using writes_are_conserved [of 2] by (fastforce simp: u64_bound_def)
qed

section \<open>Flushing ends\<close>

lemma flush_loop_ends:
  assumes "writer_inv w"
    and "length (pw_outstanding w) + length (pw_queue w) + (if pw_pending w = None then 0 else 1) \<le> length evs"
  shows "\<exists>cs w'. flush_loop evs w acc = Done (Some (acc @ cs, w')) \<and> writer_inv w' \<and> pw_in_flight w' = 0
    \<and> owed w = owed w' + mset (map w_range cs)
    \<and> (\<not> pw_saw_error w' \<longrightarrow> owed w' = {#})"
  using assms
proof (induction evs arbitrary: w acc)
  case Nil
  then have "pw_in_flight w = 0" by (simp add: writer_inv_def)
  with Nil show ?case
    by (auto simp: flush_loop.simps [of "[]"] owed_def writer_inv_def split: option.splits)
next
  case (Cons e evs)
  obtain n result ans where e: "e = (n, result, ans)" by (cases e)
  show ?case
  proof (cases "pw_in_flight w = 0")
    case True
    with Cons.prems(1) show ?thesis
      by (auto simp: flush_loop.simps [of "e # evs"] owed_def writer_inv_def split: option.splits)
  next
    case False
    let ?n = "n mod max 1 (length (pw_outstanding w))"
    let ?w = "worker_reports w ?n result"
    note rep = worker_reports_ok [OF Cons.prems(1), of ?n result]
    have same: "pw_pending ?w = pw_pending w"
      by (simp add: worker_reports_def guard_complete_result_def publish_def)
    have q: "pw_queue ?w \<noteq> []"
    proof (cases "pw_outstanding w")
      case Nil
      then show ?thesis using rep False Cons.prems(1) by (auto simp: writer_inv_def)
    next
      case (Cons x xs)
      then have "?n < length (pw_outstanding w)" by simp
      then have "length (pw_outstanding ?w) < length (pw_outstanding w)" using rep by simp
      then show ?thesis using rep Cons.prems(1) by (auto simp: writer_inv_def)
    qed
    obtain w2 where s: "settle (?w\<lparr>pw_queue := []\<rparr>) (pw_queue ?w) ans = Done (pw_queue ?w, w2)" "writer_inv w2"
      "owed ?w = owed w2 + mset (map w_range (pw_queue ?w))"
      using settle_ok [of ?w ans] rep by blast
    have step: "flush_loop (e # evs) w acc = flush_loop evs w2 (acc @ pw_queue ?w)"
      using False rep e q s(1) by (subst flush_loop.simps) (simp add: poll_completions_def)
    have size: "size (owed x) = length (pw_outstanding x) + length (pw_queue x) + (if pw_pending x = None then 0 else 1)"
      for x by (auto simp: owed_def split: option.splits)
    have "size (owed w2) + length (pw_queue ?w) = size (owed w)"
      using s(3) rep by (metis size_union size_mset length_map)
    moreover have "0 < length (pw_queue ?w)" using q by simp
    moreover have "size (owed w) \<le> length evs + 1" using Cons.prems(2) size [of w] by simp
    ultimately have "size (owed w2) \<le> length evs" by linarith
    then obtain cs w' where IH: "flush_loop evs w2 (acc @ pw_queue ?w) = Done (Some ((acc @ pw_queue ?w) @ cs, w'))"
      "writer_inv w'" "pw_in_flight w' = 0" "owed w2 = owed w' + mset (map w_range cs)"
      "\<not> pw_saw_error w' \<longrightarrow> owed w' = {#}"
      using Cons.IH [OF s(2), of "acc @ pw_queue ?w"] size [of w2] by auto
    have "owed w = owed w' + mset (map w_range (pw_queue ?w @ cs))"
      using s(3) rep IH(4) by (simp add: ac_simps)
    then show ?thesis
      using step IH by (intro exI [of _ "pw_queue ?w @ cs"] exI [of _ w']) simp
  qed
qed

text \<open>
  C28: Flushing ends and gives every write its completion. Once the workers have reported as often
  as writes are owed, \<open>flush\<close> returns, without panicking, with no write in flight; it returns one
  completion for every write that was owed, except a buffered one that an error kept back.
\<close>

theorem flush_completes_every_write:
  assumes "writer_inv w" and "size (owed w) \<le> length evs"
  shows "\<exists>cs w'. flush w ans evs = Done (Some (cs, w')) \<and> pw_in_flight w' = 0
    \<and> owed w = owed w' + mset (map w_range cs)
    \<and> (\<not> pw_saw_error w' \<longrightarrow> mset (map w_range cs) = owed w)"
proof -
  obtain w2 where s: "settle (w\<lparr>pw_queue := []\<rparr>) (pw_queue w) ans = Done (pw_queue w, w2)" "writer_inv w2"
    "owed w = owed w2 + mset (map w_range (pw_queue w))"
    using settle_ok [OF assms(1)] by blast
  have size: "size (owed x) = length (pw_outstanding x) + length (pw_queue x) + (if pw_pending x = None then 0 else 1)"
    for x by (auto simp: owed_def split: option.splits)
  have "size (owed w2) \<le> length evs" using assms(2) s(3) by (metis le_add1 le_trans size_union)
  then obtain cs w' where f: "flush_loop evs w2 (pw_queue w) = Done (Some (pw_queue w @ cs, w'))"
    "writer_inv w'" "pw_in_flight w' = 0" "owed w2 = owed w' + mset (map w_range cs)"
    "\<not> pw_saw_error w' \<longrightarrow> owed w' = {#}"
    using flush_loop_ends [OF s(2), of evs "pw_queue w"] size [of w2] by auto
  have "owed w = owed w' + mset (map w_range (pw_queue w @ cs))"
    using s(3) f(4) by (simp add: ac_simps)
  then show ?thesis
    using s(1) f by (intro exI [of _ "pw_queue w @ cs"] exI [of _ w']) (auto simp: flush_def try_tick_def)
qed

lemma flush_completes_every_write_witness:
  "\<exists>cs w'. flush (snd (write_range (writer_new 2) (Range 0 3) [1, 2, 3] Queue_Accepts)) Queue_Accepts
      [(0, Inr (), Queue_Accepts)] = Done (Some (cs, w')) \<and> pw_in_flight w' = 0"
proof -
  let ?w = "snd (write_range (writer_new 2) (Range 0 3) [1, 2, 3] Queue_Accepts)"
  have eq: "?w = (writer_new 2)\<lparr>pw_in_flight := 1, pw_outstanding := [\<lparr>wc_range = Range 0 3, wc_data = [1, 2, 3]\<rparr>]\<rparr>"
    by (simp add: write_range_def dispatch_write_def writer_dispatch_def writer_is_full_def writer_new_def
        add64_def u64_bound_def)
  have "writer_inv ?w" unfolding eq by (simp add: writer_inv_def writer_new_def u64_bound_def)
  moreover have "size (owed ?w) \<le> 1" unfolding eq by (simp add: owed_def writer_new_def)
  ultimately show ?thesis
    using flush_completes_every_write [of ?w "[(0, Inr (), Queue_Accepts)]" Queue_Accepts] by auto
qed

end
