(* ===== verification/Task_Status.thy ===== *)
theory Task_Status
  imports Samplers
begin

text \<open>
  The observable status of a task: the lifecycle states and snapshots of \<open>task/status.rs\<close> with
  the progress and mode of \<open>task/mod.rs\<close> and the metadata of \<open>bolt-load-core/src/adapter.rs\<close>,
  and the publisher that owns the only sender of the status channel. The channel itself keeps its
  newest value; here all values that were sent are kept, the newest last, so that the order in
  which a task publishes can be stated. A path is its text.
\<close>

section \<open>Metadata\<close>

record adapter_meta =
  mt_content_size :: u64
  mt_filename :: "rstr option"
  mt_content_encoding :: "rstr option"

definition meta_new :: "u64 \<Rightarrow> adapter_meta" where
  "meta_new n = \<lparr>mt_content_size = n, mt_filename = None, mt_content_encoding = None\<rparr>"

definition with_filename :: "adapter_meta \<Rightarrow> rstr option \<Rightarrow> adapter_meta" where
  "with_filename m f = m\<lparr>mt_filename := f\<rparr>"

definition is_identity :: "rstr \<Rightarrow> bool" where
  "is_identity content_encoding \<longleftrightarrow>
     list_all (\<lambda>c. c = [] \<or> eq_ignore_ascii_case c (lit ''identity''))
       (map trim (split_char (of_char (CHR '','')) content_encoding))"

definition with_content_encoding :: "adapter_meta \<Rightarrow> rstr option \<Rightarrow> adapter_meta" where
  "with_content_encoding m e =
     m\<lparr>mt_content_encoding := (case e of None \<Rightarrow> None | Some v \<Rightarrow> if is_identity v then None else Some v)\<rparr>"

section \<open>Snapshots\<close>

record progress =
  pr_total :: "u64 option"
  pr_downloaded :: u64
  pr_chunks :: "range list"

definition progress_default :: progress where
  "progress_default = \<lparr>pr_total = None, pr_downloaded = 0, pr_chunks = []\<rparr>"

definition progress_new :: "u64 option \<Rightarrow> u64 \<Rightarrow> range list \<Rightarrow> progress" where
  "progress_new tot n chunks = \<lparr>pr_total = tot, pr_downloaded = n, pr_chunks = chunks\<rparr>"

datatype download_mode = Singleton | Concurrent

datatype status_state =
    State_Pending
  | State_Initializing
  | State_Downloading
  | State_Finished
  | State_Failed
  | State_Cancelled

definition state_is_terminal :: "status_state \<Rightarrow> bool" where
  "state_is_terminal s \<longleftrightarrow> s \<in> {State_Finished, State_Failed, State_Cancelled}"

record speed =
  sp_download :: rat
  sp_write :: rat

definition speed_new :: "rat \<Rightarrow> rat \<Rightarrow> speed" where
  "speed_new d w = \<lparr>sp_download = d, sp_write = w\<rparr>"

definition speed_default :: speed where
  "speed_default = \<lparr>sp_download = 0, sp_write = 0\<rparr>"

record task_info =
  ti_meta :: adapter_meta
  ti_mode :: download_mode
  ti_path :: rstr
  ti_fallback :: "fallback_reason option"

record task_status =
  ts_state :: status_state
  ts_progress :: progress
  ts_speed :: speed
  ts_info :: "task_info option"
  ts_error :: "download_error option"
  ts_leftover :: "rstr option"

definition status_new :: "status_state \<Rightarrow> progress \<Rightarrow> task_info option \<Rightarrow> task_status" where
  "status_new st p i =
     \<lparr>ts_state = st, ts_progress = p, ts_speed = speed_default, ts_info = i, ts_error = None,
      ts_leftover = None\<rparr>"

definition status_is_terminal :: "task_status \<Rightarrow> bool" where
  "status_is_terminal s \<longleftrightarrow> state_is_terminal (ts_state s)"

definition fraction :: "task_status \<Rightarrow> rat option" where
  "fraction s =
     (case pr_total (ts_progress s) of
        Some n \<Rightarrow> if 0 < n then Some (of_nat (pr_downloaded (ts_progress s)) / of_nat n) else None
      | None \<Rightarrow> None)"

section \<open>The publisher\<close>

text \<open>
  \<open>Shared\<close>: the sender, whether the terminal status was published, the recorded information and
  the temporary file (a \<open>OnceLock\<close>).
\<close>

record publisher =
  pb_sent :: "task_status list"
  pb_terminal :: bool
  pb_info :: "task_info option"
  pb_temp_file :: "rstr option"

definition publisher_new :: publisher where
  "publisher_new =
     \<lparr>pb_sent = [status_new State_Pending progress_default None], pb_terminal = False,
      pb_info = None, pb_temp_file = None\<rparr>"

text \<open>\<open>send_replace\<close>; \<open>current\<close> is what \<open>borrow\<close> reads.\<close>

definition send_status :: "publisher \<Rightarrow> task_status \<Rightarrow> publisher" where
  "send_status pb s = pb\<lparr>pb_sent := pb_sent pb @ [s]\<rparr>"

definition current_status :: "publisher \<Rightarrow> task_status" where
  "current_status pb = last (pb_sent pb)"

text \<open>A status after the terminal one is ignored (and a debug build panics).\<close>

definition publish_status :: "publisher \<Rightarrow> task_status \<Rightarrow> publisher" where
  "publish_status pb s = (if pb_terminal pb then pb else send_status pb s)"

definition publish_initializing :: "publisher \<Rightarrow> publisher" where
  "publish_initializing pb = publish_status pb (status_new State_Initializing progress_default None)"

definition publish_downloading :: "publisher \<Rightarrow> task_info \<Rightarrow> rstr \<Rightarrow> progress \<Rightarrow> publisher" where
  "publish_downloading pb i temp_file p =
     (let pb = pb\<lparr>pb_info := Some i\<rparr>;
          pb = (case pb_temp_file pb of None \<Rightarrow> pb\<lparr>pb_temp_file := Some temp_file\<rparr> | Some _ \<Rightarrow> pb)
      in publish_status pb (status_new State_Downloading p (Some i)))"

fun finish_state :: "download_error + unit \<Rightarrow> status_state \<times> download_error option" where
  "finish_state (Inr _) = (State_Finished, None)"
| "finish_state (Inl Download_Cancelled) = (State_Cancelled, Some Download_Cancelled)"
| "finish_state (Inl e) = (State_Failed, Some e)"

definition publish_finish ::
  "publisher \<Rightarrow> download_error + unit \<Rightarrow> progress \<Rightarrow> rstr option \<Rightarrow> publisher" where
  "publish_finish pb result p leftover =
     (case finish_state result of (st, e) \<Rightarrow>
       (let s = (status_new st p (pb_info pb))\<lparr>ts_error := e, ts_leftover := leftover\<rparr>
        in if pb_terminal pb then pb else send_status (pb\<lparr>pb_terminal := True\<rparr>) s))"

definition publisher_is_finished :: "publisher \<Rightarrow> bool" where
  "publisher_is_finished pb = pb_terminal pb"

definition publisher_progress :: "publisher \<Rightarrow> progress" where
  "publisher_progress pb = ts_progress (current_status pb)"

text \<open>\<open>ProgressReporter\<close>: a handle to the same channel.\<close>

definition report :: "publisher \<Rightarrow> progress \<Rightarrow> speed \<Rightarrow> publisher" where
  "report pb p sp =
     publish_status pb ((status_new State_Downloading p (pb_info pb))\<lparr>ts_speed := sp\<rparr>)"

section \<open>The protocol of a task's status\<close>

text \<open>
  The lifecycle a receiver may rely on, as a step relation on states. A task whose runtime cannot
  run it, or that panics before it starts, fails without initializing.
\<close>

inductive state_step :: "status_state \<Rightarrow> status_state \<Rightarrow> bool" where
  start: "state_step State_Pending State_Initializing"
| begin_transfer: "state_step State_Initializing State_Downloading"
| sample: "state_step State_Downloading State_Downloading"
| finished: "state_step State_Downloading State_Finished"
| failed: "\<not> state_is_terminal s \<Longrightarrow> state_step s State_Failed"
| cancelled: "s \<in> {State_Initializing, State_Downloading} \<Longrightarrow> state_step s State_Cancelled"

code_pred state_step .

inductive_simps state_step_simps [simp]:
  "state_step State_Pending t"
  "state_step State_Initializing t"
  "state_step State_Downloading t"
  "state_step State_Finished t"
  "state_step State_Failed t"
  "state_step State_Cancelled t"

text \<open>What a single snapshot promises.\<close>

definition status_ok :: "task_status \<Rightarrow> bool" where
  "status_ok s \<longleftrightarrow>
     ((ts_error s \<noteq> None) = (ts_state s \<in> {State_Failed, State_Cancelled}))
     \<and> (ts_state s = State_Cancelled \<longrightarrow> ts_error s = Some Download_Cancelled)
     \<and> (ts_state s = State_Failed \<longrightarrow> ts_error s \<noteq> Some Download_Cancelled)
     \<and> (ts_state s \<in> {State_Pending, State_Initializing} \<longrightarrow> ts_info s = None)
     \<and> (ts_state s \<in> {State_Downloading, State_Finished} \<longrightarrow> ts_info s \<noteq> None)
     \<and> (ts_state s \<noteq> State_Downloading \<longrightarrow> ts_speed s = speed_default)
     \<and> (\<not> state_is_terminal (ts_state s) \<longrightarrow> ts_leftover s = None)"

definition publisher_inv :: "publisher \<Rightarrow> bool" where
  "publisher_inv pb \<longleftrightarrow>
     pb_sent pb \<noteq> []
     \<and> ts_state (hd (pb_sent pb)) = State_Pending
     \<and> successively (\<lambda>a b. state_step (ts_state a) (ts_state b)) (pb_sent pb)
     \<and> list_all status_ok (pb_sent pb)
     \<and> pb_terminal pb = status_is_terminal (current_status pb)
     \<and> (ts_state (current_status pb) = State_Downloading \<longrightarrow> pb_info pb \<noteq> None)
     \<and> (ts_state (current_status pb) \<in> {State_Pending, State_Initializing} \<longrightarrow> pb_info pb = None)"

definition publisher_state :: "publisher \<Rightarrow> status_state" where
  "publisher_state pb = ts_state (current_status pb)"

lemma successively_snoc:
  "xs \<noteq> [] \<Longrightarrow> successively P (xs @ [x]) = (successively P xs \<and> P (last xs) x)"
  by (auto simp: successively_append_iff)

lemma publisher_new_inv: "publisher_inv publisher_new"
  by (simp add: publisher_inv_def publisher_new_def status_new_def status_ok_def state_is_terminal_def
      current_status_def status_is_terminal_def)

lemma current_send [simp]: "current_status (send_status pb s) = s"
  by (simp add: current_status_def send_status_def)

lemma send_inv:
  assumes "publisher_inv pb" and "state_step (publisher_state pb) (ts_state s)" and "status_ok s"
    and "t = status_is_terminal s"
    and "ts_state s = State_Downloading \<longrightarrow> i \<noteq> None"
    and "ts_state s \<in> {State_Pending, State_Initializing} \<longrightarrow> i = None"
  shows "publisher_inv (send_status (pb\<lparr>pb_terminal := t, pb_info := i, pb_temp_file := f\<rparr>) s)"
  using assms
  by (auto simp: publisher_inv_def send_status_def current_status_def successively_snoc
      publisher_state_def hd_append)

lemma non_terminal_state:
  assumes "publisher_inv pb" and "publisher_state pb \<in> {State_Pending, State_Initializing, State_Downloading}"
  shows "\<not> pb_terminal pb"
  using assms
  by (auto simp: publisher_inv_def publisher_state_def status_is_terminal_def state_is_terminal_def)

lemma initializing_inv:
  assumes "publisher_inv pb" and "publisher_state pb = State_Pending"
  shows "publisher_inv (publish_initializing pb)
    \<and> publisher_state (publish_initializing pb) = State_Initializing
    \<and> pb_temp_file (publish_initializing pb) = pb_temp_file pb"
proof -
  have t: "\<not> pb_terminal pb" using non_terminal_state assms by auto
  have i: "pb_info pb = None" using assms by (auto simp: publisher_inv_def publisher_state_def)
  have "pb = pb\<lparr>pb_terminal := False, pb_info := None, pb_temp_file := pb_temp_file pb\<rparr>"
    using t i by (cases pb) simp
  then show ?thesis
    using send_inv [of pb "status_new State_Initializing progress_default None" False None "pb_temp_file pb"]
      assms t
    by (simp add: publish_initializing_def publish_status_def status_new_def status_ok_def
        state_is_terminal_def status_is_terminal_def publisher_state_def)
      (simp add: send_status_def)
qed

lemma downloading_inv:
  assumes "publisher_inv pb" and "publisher_state pb \<in> {State_Initializing, State_Downloading}"
  shows "publisher_inv (publish_downloading pb i f p)
    \<and> publisher_state (publish_downloading pb i f p) = State_Downloading
    \<and> pb_info (publish_downloading pb i f p) = Some i
    \<and> pb_temp_file (publish_downloading pb i f p) = (case pb_temp_file pb of None \<Rightarrow> Some f | Some g \<Rightarrow> Some g)
    \<and> pb_sent (publish_downloading pb i f p) = pb_sent pb @ [status_new State_Downloading p (Some i)]"
proof -
  have t: "\<not> pb_terminal pb" using non_terminal_state assms by auto
  let ?f = "case pb_temp_file pb of None \<Rightarrow> Some f | Some g \<Rightarrow> Some g"
  have "publish_downloading pb i f p =
      send_status (pb\<lparr>pb_terminal := False, pb_info := Some i, pb_temp_file := ?f\<rparr>)
        (status_new State_Downloading p (Some i))"
    using t by (cases pb) (simp add: publish_downloading_def publish_status_def send_status_def Let_def
        split: option.splits)
  then show ?thesis
    using send_inv [of pb "status_new State_Downloading p (Some i)" False "Some i" ?f] assms
    by (auto simp: status_new_def status_ok_def state_is_terminal_def status_is_terminal_def publisher_state_def)
      (auto simp: send_status_def)
qed

lemma report_inv:
  assumes "publisher_inv pb" and "publisher_state pb = State_Downloading"
  shows "publisher_inv (report pb p sp) \<and> publisher_state (report pb p sp) = State_Downloading
    \<and> pb_info (report pb p sp) = pb_info pb \<and> pb_temp_file (report pb p sp) = pb_temp_file pb
    \<and> (\<exists>s. pb_sent (report pb p sp) = pb_sent pb @ [s] \<and> ts_state s = State_Downloading
           \<and> ts_progress s = p \<and> ts_info s = pb_info pb)"
proof -
  have t: "\<not> pb_terminal pb" using non_terminal_state assms by auto
  have i: "pb_info pb \<noteq> None" using assms by (auto simp: publisher_inv_def publisher_state_def)
  have "report pb p sp = send_status
      (pb\<lparr>pb_terminal := False, pb_info := pb_info pb, pb_temp_file := pb_temp_file pb\<rparr>)
      ((status_new State_Downloading p (pb_info pb))\<lparr>ts_speed := sp\<rparr>)"
    using t by (cases pb) (simp add: report_def publish_status_def)
  then show ?thesis
    using send_inv [of pb "(status_new State_Downloading p (pb_info pb))\<lparr>ts_speed := sp\<rparr>" False
        "pb_info pb" "pb_temp_file pb"] assms i
    by (auto simp: status_new_def status_ok_def state_is_terminal_def status_is_terminal_def publisher_state_def)
      (auto simp: send_status_def)
qed

text \<open>What a transfer does to the status: it reports.\<close>

definition reported :: "publisher \<Rightarrow> publisher \<Rightarrow> bool" where
  "reported pb pb' \<longleftrightarrow> (\<exists>samples. pb' = foldl (\<lambda>pb (p, sp). report pb p sp) pb samples)"

lemma reported_refl [simp]: "reported pb pb"
  unfolding reported_def by (rule exI [of _ "[]"]) simp

lemma reported_report: "reported pb pb' \<Longrightarrow> reported pb (report pb' p sp)"
  unfolding reported_def
proof (elim exE)
  fix samples assume "pb' = foldl (\<lambda>pb (p, sp). report pb p sp) pb samples"
  then have "report pb' p sp = foldl (\<lambda>pb (p, sp). report pb p sp) pb (samples @ [(p, sp)])" by simp
  then show "\<exists>samples. report pb' p sp = foldl (\<lambda>pb (p, sp). report pb p sp) pb samples" by blast
qed

lemma reported_inv:
  assumes "reported pb pb'" and "publisher_inv pb" and "publisher_state pb = State_Downloading"
  shows "publisher_inv pb' \<and> publisher_state pb' = State_Downloading \<and> pb_info pb' = pb_info pb
    \<and> pb_temp_file pb' = pb_temp_file pb
    \<and> (\<exists>ss. pb_sent pb' = pb_sent pb @ ss
           \<and> (\<forall>s \<in> set ss. ts_state s = State_Downloading \<and> ts_info s = pb_info pb))"
proof -
  obtain samples where "pb' = foldl (\<lambda>pb (p, sp). report pb p sp) pb samples"
    using assms(1) by (auto simp: reported_def)
  then show ?thesis
  proof (induction samples arbitrary: pb' rule: rev_induct)
    case Nil
    then show ?case using assms(2,3) by simp
  next
    case (snoc x xs)
    obtain p sp where x: "x = (p, sp)" by fastforce
    let ?pb = "foldl (\<lambda>pb (p, sp). report pb p sp) pb xs"
    from snoc.IH [of ?pb] have ih: "publisher_inv ?pb" "publisher_state ?pb = State_Downloading"
      "pb_info ?pb = pb_info pb" "pb_temp_file ?pb = pb_temp_file pb"
      "\<exists>ss. pb_sent ?pb = pb_sent pb @ ss \<and> (\<forall>s \<in> set ss. ts_state s = State_Downloading \<and> ts_info s = pb_info pb)"
      by auto
    have pb': "pb' = report ?pb p sp" using snoc.prems x by simp
    obtain ss where ss: "pb_sent ?pb = pb_sent pb @ ss"
      "\<forall>s \<in> set ss. ts_state s = State_Downloading \<and> ts_info s = pb_info pb" using ih(5) by blast
    obtain s where s: "pb_sent pb' = pb_sent ?pb @ [s]" "ts_state s = State_Downloading" "ts_info s = pb_info pb"
      using report_inv [OF ih(1,2), of p sp] ih(3) pb' by auto
    have "pb_sent pb' = pb_sent pb @ (ss @ [s])" using s(1) ss(1) by simp
    moreover have "\<forall>s \<in> set (ss @ [s]). ts_state s = State_Downloading \<and> ts_info s = pb_info pb"
      using ss(2) s(2,3) by simp
    ultimately show ?case using report_inv [OF ih(1,2), of p sp] ih(3,4) pb' by metis
  qed
qed

text \<open>Whether a task in state \<open>s\<close> may end with \<open>result\<close>.\<close>

definition may_finish :: "status_state \<Rightarrow> download_error + unit \<Rightarrow> bool" where
  "may_finish s result \<longleftrightarrow>
     s = State_Downloading
     \<or> s = State_Initializing \<and> result \<noteq> Inr ()
     \<or> s = State_Pending \<and> result \<noteq> Inr () \<and> result \<noteq> Inl Download_Cancelled"

lemma finish_inv:
  assumes "publisher_inv pb" and "may_finish (publisher_state pb) result"
  shows "publisher_inv (publish_finish pb result p left) \<and> pb_terminal (publish_finish pb result p left)
    \<and> pb_sent (publish_finish pb result p left) =
        pb_sent pb @ [(status_new (fst (finish_state result)) p (pb_info pb))
                        \<lparr>ts_error := snd (finish_state result), ts_leftover := left\<rparr>]"
proof -
  have ps: "publisher_state pb \<in> {State_Pending, State_Initializing, State_Downloading}"
    using assms(2) by (auto simp: may_finish_def)
  then have t: "\<not> pb_terminal pb" using non_terminal_state assms by auto
  let ?s = "(status_new (fst (finish_state result)) p (pb_info pb))
              \<lparr>ts_error := snd (finish_state result), ts_leftover := left\<rparr>"
  have eq: "publish_finish pb result p left = send_status
      (pb\<lparr>pb_terminal := True, pb_info := pb_info pb, pb_temp_file := pb_temp_file pb\<rparr>) ?s"
    using t by (cases pb) (simp add: publish_finish_def Let_def split_beta)
  have fs: "fst (finish_state result) \<in> {State_Finished, State_Failed, State_Cancelled}"
    by (cases result rule: finish_state.cases) simp_all
  have inf: "publisher_state pb = State_Downloading \<longrightarrow> pb_info pb \<noteq> None"
    using assms(1) by (auto simp: publisher_inv_def publisher_state_def)
  have ok: "status_ok ?s"
    using assms(2) inf
    by (cases result rule: finish_state.cases)
      (auto simp: status_ok_def status_new_def may_finish_def state_is_terminal_def)
  have stp: "state_step (publisher_state pb) (ts_state ?s)"
    using assms(2) by (cases result rule: finish_state.cases)
      (auto simp: status_new_def may_finish_def state_is_terminal_def)
  have "publisher_inv (publish_finish pb result p left)"
    unfolding eq by (rule send_inv [OF assms(1) stp ok])
      (use fs in \<open>auto simp: status_new_def status_is_terminal_def state_is_terminal_def\<close>)
  then show ?thesis unfolding eq by (simp add: send_status_def)
qed

end
