(* ===== verification/Download_Loop.thy ===== *)
theory Download_Loop
  imports Runner_Manager Pending_Writer Task_Status
begin

text \<open>
  The event loop of one concurrent download attempt (\<open>concurrent_task/download_loop.rs\<close> and its
  modules) and the control of its strategies (\<open>strategy/mod.rs\<close>). Polling takes what its sources
  would yield (\<open>poll_inputs\<close>), handling an event takes what the environment answers (\<open>loop_env\<close>):
  whether a spawn is rejected, how the backend takes a write, how an error is displayed, and the
  readings of the clock.
\<close>

section \<open>The strategies\<close>

record strategy_control =
  sc_dynamic :: dynamic_strategy
  sc_cc :: cc_strategy

definition DEFAULT_STRATEGY_TICK_INTERVAL :: duration where
  "DEFAULT_STRATEGY_TICK_INTERVAL = from_millis 1500"

definition strategy_control_new :: "usize \<Rightarrow> strategy_control" where
  "strategy_control_new n = \<lparr>sc_dynamic = dynamic_default, sc_cc = cc_with_default_config n\<rparr>"

text \<open>\<open>f64 as u64\<close>: towards zero, saturating.\<close>

definition float_to_u64 :: "rat \<Rightarrow> u64" where
  "float_to_u64 x = (if x \<le> 0 then 0 else min (nat \<lfloor>x\<rfloor>) (u64_bound - 1))"

definition strategy_execute ::
  "strategy_control \<Rightarrow> usize \<Rightarrow> rat \<Rightarrow> rat \<Rightarrow> runner_manager \<Rightarrow> instant \<Rightarrow> instant \<Rightarrow> instant
   \<Rightarrow> ((rstr \<times> strategy_action list) option \<times> strategy_control \<times> runner_manager) run" where
  "strategy_execute s max_concurrency speed per_runner m now t1 t2 =
     (let active = get_active_runners_count (rm_planner m);
          ctx = \<lparr>cx_max_concurrency = max_concurrency, cx_active_runners = active,
                 cx_available_chunks = get_available_ranges (rm_planner m)\<rparr>
      in bind_run (cc_step (sc_cc s) ctx (rm_sampler m) now t1 t2)
           (\<lambda>(acts, cc, samp).
              (let s = s\<lparr>sc_cc := cc\<rparr>; m = m\<lparr>rm_sampler := samp\<rparr>
               in if acts \<noteq> [] then Done (Some (lit ''concurrency_control'', acts), s, m)
                  else
                    (let planned = float_to_u64 (speed * 2)
                     in (case find_chunk_to_split (rm_planner m) planned of
                           None \<Rightarrow> Done (None, s, m)
                         | Some (rid, suggested) \<Rightarrow>
                             if active < max_concurrency
                                \<and> planned \<le> sub64 (r_end suggested) (r_start suggested)
                             then
                               bind_run (expect_some
                                   ''A empty chunk is not processed by concurrency control'' rid)
                                 (\<lambda>i. (case dynamic_step
                                          \<lparr>dx_speed = speed, dx_per_runner_speed = per_runner,
                                           dx_current_concurrency = active,
                                           dx_max_concurrency = max_concurrency,
                                           dx_planned_chunk_size = planned, dx_largest_runner = i\<rparr>
                                          (sc_dynamic s) of
                                        (acts, d) \<Rightarrow>
                                          Done (if acts \<noteq> [] then Some (lit ''dynamic'', acts) else None,
                                                s\<lparr>sc_dynamic := d\<rparr>, m)))
                             else Done (None, s, m))))))"

section \<open>The state of the loop\<close>

record throughput =
  tp_sampler :: speed_sampler
  tp_write_sampler :: speed_sampler
  tp_written :: usize
  tp_speed :: rat
  tp_per_runner :: rat

definition throughput_new :: "instant \<Rightarrow> instant \<Rightarrow> throughput run" where
  "throughput_new t1 t2 =
     bind_run (sampler_new t1) (\<lambda>a. bind_run (sampler_new t2)
       (\<lambda>b. Done \<lparr>tp_sampler = a, tp_write_sampler = b, tp_written = 0, tp_speed = 0, tp_per_runner = 0\<rparr>))"

definition throughput_record_written :: "throughput \<Rightarrow> usize \<Rightarrow> throughput" where
  "throughput_record_written tp n = tp\<lparr>tp_written := add64 (tp_written tp) n\<rparr>"

definition throughput_sample ::
  "throughput \<Rightarrow> meter_snapshot \<Rightarrow> instant \<Rightarrow> instant \<Rightarrow> (rat \<times> rat) \<times> throughput" where
  "throughput_sample tp meters t1 t2 =
     (case sample_speed (tp_sampler tp) (ms_bytes meters) t1 of ((_, speed), sampler) \<Rightarrow>
     (case sample_speed (tp_write_sampler tp) (tp_written tp) t2 of ((_, write_speed), wsampler) \<Rightarrow>
        ((speed, write_speed),
         tp\<lparr>tp_sampler := sampler, tp_write_sampler := wsampler, tp_written := 0, tp_speed := speed,
            tp_per_runner := (if ms_runners meters = 0 then 0 else speed / of_nat (ms_runners meters))\<rparr>)))"

record download_loop =
  dl_manager :: runner_manager
  dl_strategy :: strategy_control
  dl_policy :: failure_policy
  dl_max_concurrency :: usize
  dl_writer :: pending_writer
  dl_deadline :: instant
  dl_throughput :: throughput
  dl_reporter :: publisher

definition DEFAULT_MAX_CONCURRENCY :: usize where
  "DEFAULT_MAX_CONCURRENCY = 4"

text \<open>
  \<open>new\<close>; \<open>parallelism\<close> is the number of CPUs, when the platform tells. The reporter is a handle
  to the status channel of the task, which is part of the state here.
\<close>

definition loop_new ::
  "u64 \<Rightarrow> usize option \<Rightarrow> usize \<Rightarrow> duration \<Rightarrow> instant \<Rightarrow> instant \<Rightarrow> instant \<Rightarrow> publisher
   \<Rightarrow> download_loop run" where
  "loop_new tot parallelism max_failures no_progress now t1 t2 reporter =
     (let n = (case parallelism of Some k \<Rightarrow> k | None \<Rightarrow> DEFAULT_MAX_CONCURRENCY);
          policy = policy_new max_failures no_progress now
      in bind_run (throughput_new t1 t2)
           (\<lambda>tp. Done \<lparr>dl_manager = manager_new tot n, dl_strategy = strategy_control_new n,
                       dl_policy = policy, dl_max_concurrency = n, dl_writer = writer_new n,
                       dl_deadline = policy_deadline policy, dl_throughput = tp, dl_reporter = reporter\<rparr>))"

record loop_env =
  en_spawn :: "range \<Rightarrow> runner_id \<Rightarrow> spawn_failed option"
  en_answer :: submit_answer
  en_display :: "file_writer_error \<Rightarrow> rstr"
  en_now :: instant
  en_t1 :: instant
  en_t2 :: instant
  en_observed :: bool

section \<open>The strategy tick\<close>

definition spawn_runner :: "loop_env \<Rightarrow> download_loop \<Rightarrow> range \<Rightarrow> download_loop run" where
  "spawn_runner env d r =
     (case spawn_runner_with_chunk (dl_manager d) r (en_spawn env r) of
        (ok, m) \<Rightarrow>
          bind_run (expect_some ''failed to allocate runner with chunk'' ok)
            (\<lambda>_. Done (d\<lparr>dl_manager := m\<rparr>)))"

definition split_runner :: "loop_env \<Rightarrow> download_loop \<Rightarrow> runner_id \<Rightarrow> range \<Rightarrow> download_loop run" where
  "split_runner env d i incomplete =
     (let half_size = sub64 (r_end incomplete) (r_start incomplete) div 2
      in bind_run (resize_runner (dl_manager d) i half_size)
           (\<lambda>(res, m).
              (case res of
                 Inl e \<Rightarrow> Done (d\<lparr>dl_manager := m\<rparr>)
               | Inr _ \<Rightarrow>
                   spawn_runner env (d\<lparr>dl_manager := m\<rparr>)
                     (Range (add64 (r_start incomplete) half_size) (r_end incomplete)))))"

fun split_all :: "loop_env \<Rightarrow> download_loop \<Rightarrow> (runner_id \<times> range) list \<Rightarrow> download_loop run" where
  "split_all env d [] = Done d"
| "split_all env d ((i, r) # xs) = bind_run (split_runner env d i r) (\<lambda>d. split_all env d xs)"

definition apply_action :: "loop_env \<Rightarrow> download_loop \<Rightarrow> strategy_action \<Rightarrow> download_loop run" where
  "apply_action env d a =
     (case a of
        Split_All_Task planned \<Rightarrow>
          bind_run (get_incomplete_states (rm_planner (dl_manager d)) (Some planned)) (split_all env d)
      | Split_Given_Task i \<Rightarrow>
          bind_run (expect_some ''task id not found''
                     (map_option incomplete_range (get_runner_state (rm_planner (dl_manager d)) i)))
            (split_runner env d i)
      | Change_Max_Concurrency n \<Rightarrow> Done (d\<lparr>dl_max_concurrency := n\<rparr>)
      | Create_Task r \<Rightarrow> spawn_runner env d r)"

fun apply_all :: "loop_env \<Rightarrow> download_loop \<Rightarrow> strategy_action list \<Rightarrow> download_loop run" where
  "apply_all env d [] = Done d"
| "apply_all env d (a # as) = bind_run (apply_action env d a) (\<lambda>d. apply_all env d as)"

definition on_strategy_tick :: "loop_env \<Rightarrow> download_loop \<Rightarrow> download_loop run" where
  "on_strategy_tick env d =
     bind_run (strategy_execute (dl_strategy d) (dl_max_concurrency d)
                 (tp_speed (dl_throughput d)) (tp_per_runner (dl_throughput d)) (dl_manager d)
                 (en_now env) (en_t1 env) (en_t2 env))
       (\<lambda>(res, s, m).
          (let d = d\<lparr>dl_strategy := s, dl_manager := m\<rparr>
           in (case res of None \<Rightarrow> Done d | Some (_, acts) \<Rightarrow> apply_all env d acts)))"

section \<open>Completions and throughput\<close>

definition range_debug :: "range \<Rightarrow> rstr" where
  "range_debug r = show_u64 (r_start r) @ lit ''..'' @ show_u64 (r_end r)"

fun check_completions ::
  "(file_writer_error \<Rightarrow> rstr) \<Rightarrow> usize \<Rightarrow> write_completion list \<Rightarrow> download_error + usize" where
  "check_completions disp written [] = Inr written"
| "check_completions disp written (c # cs) =
     (case w_result c of
        Inr _ \<Rightarrow>
          check_completions disp
            (add64 written (sub64 (r_end (w_range c)) (r_start (w_range c)))) cs
      | Inl e \<Rightarrow>
          Inl (transfer (Task_Other
                (lit ''write failed at '' @ range_debug (w_range c) @ lit '': '' @ disp e))))"

definition record_completions ::
  "loop_env \<Rightarrow> download_loop \<Rightarrow> write_completion list \<Rightarrow> (download_error + unit) \<times> download_loop" where
  "record_completions env d cs =
     (case check_completions (en_display env) 0 cs of
        Inl e \<Rightarrow> (Inl e, d)
      | Inr written \<Rightarrow>
          (Inr (), d\<lparr>dl_throughput := throughput_record_written (dl_throughput d) written,
                     dl_policy := policy_on_write_ok (dl_policy d) written\<rparr>))"

definition loop_progress :: "download_loop \<Rightarrow> progress" where
  "loop_progress d =
     progress_new (Some (manager_total (dl_manager d))) (get_total_downloaded (rm_planner (dl_manager d)))
       (get_downloaded_ranges (rm_planner (dl_manager d)))"

text \<open>The periodic sample; it is published unless nobody observes the status.\<close>

definition publish_progress :: "loop_env \<Rightarrow> download_loop \<Rightarrow> rat \<Rightarrow> rat \<Rightarrow> download_loop" where
  "publish_progress env d speed write_speed =
     (if \<not> en_observed env then d
      else d\<lparr>dl_reporter := report (dl_reporter d) (loop_progress d) (speed_new speed write_speed)\<rparr>)"

definition on_throughput_tick :: "loop_env \<Rightarrow> download_loop \<Rightarrow> download_loop" where
  "on_throughput_tick env d =
     (case take_meters_snapshot (dl_manager d) of (meters, m) \<Rightarrow>
     (case throughput_sample (dl_throughput d) meters (en_t1 env) (en_t2 env) of
        ((speed, write_speed), tp) \<Rightarrow>
          publish_progress env (d\<lparr>dl_manager := m, dl_throughput := tp\<rparr>) speed write_speed))"

definition on_deadline :: "loop_env \<Rightarrow> download_loop \<Rightarrow> (download_error + unit) \<times> download_loop" where
  "on_deadline env d =
     (case policy_check (dl_policy d) (en_now env) of
        Some e \<Rightarrow> (Inl (transfer e), d)
      | None \<Rightarrow> (Inr (), d\<lparr>dl_deadline := policy_deadline (dl_policy d)\<rparr>))"

section \<open>Runner ticks\<close>

definition range_unsupported :: "task_error \<Rightarrow> download_error option" where
  "range_unsupported e =
     (case e of
        Stream_Error (Unretryable cause) \<Rightarrow>
          (case cause of
             Range_Ignored \<Rightarrow> Some (Range_Unsupported Reason_Range_Ignored (Unretryable cause))
           | Range_Content_Coded _ \<Rightarrow> Some (Range_Unsupported Reason_Content_Coded (Unretryable cause))
           | Range_Body_Too_Long _ \<Rightarrow> Some (Range_Unsupported Reason_Content_Coded (Unretryable cause))
           | Range_Body_Too_Short _ _ \<Rightarrow> Some (Range_Unsupported Reason_Content_Coded (Unretryable cause))
           | Body_Undecodable _ \<Rightarrow> Some (Range_Unsupported Reason_Content_Coded (Unretryable cause))
           | _ \<Rightarrow> None)
      | _ \<Rightarrow> None)"

definition writer_full :: "write_chunk \<Rightarrow> download_error" where
  "writer_full c =
     transfer (Task_Other (lit ''writer full (invariant violation): '' @ range_debug (wc_range c)))"

definition accept_chunk ::
  "loop_env \<Rightarrow> download_loop \<Rightarrow> downloaded_chunk \<Rightarrow> (download_error + unit) \<times> download_loop" where
  "accept_chunk env d c =
     (let progressed = \<not> r_is_empty (dc_range c)
      in (case write_range (dl_writer d) (dc_range c) (dc_bytes c) (en_answer env) of
            (Inl rejected, w) \<Rightarrow> (Inl (writer_full rejected), d\<lparr>dl_writer := w\<rparr>)
          | (Inr _, w) \<Rightarrow>
              (Inr (), d\<lparr>dl_writer := w,
                         dl_policy := (if progressed then policy_on_progress (dl_policy d) (en_now env)
                                       else dl_policy d)\<rparr>)))"

text \<open>\<open>Inr True\<close> breaks the loop, \<open>Inr False\<close> continues it.\<close>

definition on_failure :: "download_loop \<Rightarrow> attempt_failure \<Rightarrow> (download_error + unit) \<times> download_loop" where
  "on_failure d f =
     (case range_unsupported (af_error f) of
        Some e \<Rightarrow> (Inl e, d)
      | None \<Rightarrow>
         (case policy_on_failure (dl_policy d) f (allocated_runner_count (dl_manager d)) of
            (Some e, p) \<Rightarrow> (Inl (transfer e), d\<lparr>dl_policy := p\<rparr>)
          | (None, p) \<Rightarrow> (Inr (), d\<lparr>dl_policy := p\<rparr>)))"

definition on_runner ::
  "loop_env \<Rightarrow> download_loop \<Rightarrow> runner_tick \<Rightarrow> (download_error + bool) \<times> download_loop" where
  "on_runner env d tick =
     (case (case tk_downloaded tick of None \<Rightarrow> (Inr (), d) | Some c \<Rightarrow> accept_chunk env d c) of
        (Inl e, d) \<Rightarrow> (Inl e, d)
      | (Inr _, d) \<Rightarrow>
         (case (case tk_failure tick of None \<Rightarrow> (Inr (), d) | Some f \<Rightarrow> on_failure d f) of
            (Inl e, d) \<Rightarrow> (Inl e, d)
          | (Inr _, d) \<Rightarrow> (Inr (tk_state tick = Task_Finished), d)))"

section \<open>The loop\<close>

datatype loop_event =
    Ev_Cancelled
  | Ev_Deadline
  | Ev_Writer_Completed "write_completion list option"
  | Ev_Strategy_Timer
  | Ev_Throughput_Timer
  | Ev_Runner runner_tick

text \<open>What the sources of one poll would yield.\<close>

record poll_inputs =
  in_reports :: "(nat \<times> write_result) list"
  in_cancelled :: bool
  in_deadline :: bool
  in_strategy :: bool
  in_throughput :: bool
  in_lifecycle :: "lifecycle_event group_event"
  in_data :: "chunk group_event"

definition poll_runner ::
  "loop_env \<Rightarrow> poll_inputs \<Rightarrow> download_loop \<Rightarrow> (loop_event option \<times> download_loop) run" where
  "poll_runner env ins d =
     bind_run (poll_tick (dl_manager d) (in_lifecycle ins) (in_data ins) (can_write (dl_writer d)) (en_now env))
       (\<lambda>(t, m). Done (map_option Ev_Runner t, d\<lparr>dl_manager := m\<rparr>))"

definition poll_event ::
  "loop_env \<Rightarrow> poll_inputs \<Rightarrow> download_loop \<Rightarrow> (loop_event option \<times> download_loop) run" where
  "poll_event env ins d =
     (if in_cancelled ins then Done (Some Ev_Cancelled, d)
      else if in_deadline ins then Done (Some Ev_Deadline, d)
      else
        bind_run (poll_completions (dl_writer d) (en_answer env))
          (\<lambda>(cs, w).
             (let d = d\<lparr>dl_writer := w\<rparr>
              in (case cs of
                    Some batch \<Rightarrow> Done (Some (Ev_Writer_Completed (Some batch)), d)
                  | None \<Rightarrow>
                      if in_strategy ins then Done (Some Ev_Strategy_Timer, d)
                      else if in_throughput ins then Done (Some Ev_Throughput_Timer, d)
                      else poll_runner env ins d))))"

definition handle_event ::
  "loop_env \<Rightarrow> download_loop \<Rightarrow> loop_event \<Rightarrow> ((download_error + bool) \<times> download_loop) run" where
  "handle_event env d ev =
     (case ev of
        Ev_Cancelled \<Rightarrow> Done (Inl Download_Cancelled, d)
      | Ev_Deadline \<Rightarrow>
          (case on_deadline env d of
             (Inl e, d) \<Rightarrow> Done (Inl e, d) | (Inr _, d) \<Rightarrow> Done (Inr False, d))
      | Ev_Writer_Completed None \<Rightarrow>
          Done (Inl (download_other (lit ''writer completion channel closed unexpectedly'')), d)
      | Ev_Writer_Completed (Some cs) \<Rightarrow>
          (case record_completions env d cs of
             (Inl e, d) \<Rightarrow> Done (Inl e, d) | (Inr _, d) \<Rightarrow> Done (Inr False, d))
      | Ev_Strategy_Timer \<Rightarrow> bind_run (on_strategy_tick env d) (\<lambda>d. Done (Inr False, d))
      | Ev_Throughput_Timer \<Rightarrow> Done (Inr False, on_throughput_tick env d)
      | Ev_Runner tick \<Rightarrow> Done (on_runner env d tick))"

text \<open>
  Between two polls the backend's workers report: each element is a report of some outstanding write
  (the number picks one modulo their count).
\<close>

definition workers_report :: "pending_writer \<Rightarrow> (nat \<times> write_result) list \<Rightarrow> pending_writer" where
  "workers_report w reports =
     foldl (\<lambda>w (n, result). worker_reports w (n mod max 1 (length (pw_outstanding w))) result) w reports"

text \<open>
  A turn of \<open>run\<close>: a poll, and the handling of the event it yields. The result is \<open>None\<close> while the
  loop goes on.
\<close>

definition loop_turn ::
  "loop_env \<Rightarrow> poll_inputs \<Rightarrow> download_loop \<Rightarrow> ((download_error + unit) option \<times> download_loop) run" where
  "loop_turn env ins d =
     bind_run (poll_event env ins (d\<lparr>dl_writer := workers_report (dl_writer d) (in_reports ins)\<rparr>))
       (\<lambda>(ev, d).
          (case ev of
             None \<Rightarrow> Done (None, d)
           | Some ev \<Rightarrow>
               bind_run (handle_event env d ev)
                 (\<lambda>(res, d).
                    Done (case res of
                            Inl e \<Rightarrow> Some (Inl e)
                          | Inr finished \<Rightarrow> if finished then Some (Inr ()) else None, d))))"

text \<open>\<open>run\<close>, over the polls the executor makes: a poll without an event waits for the next one.\<close>

fun loop_run ::
  "(loop_env \<times> poll_inputs) list \<Rightarrow> download_loop \<Rightarrow> ((download_error + unit) option \<times> download_loop) run" where
  "loop_run [] d = Done (None, d)"
| "loop_run ((env, ins) # polls) d =
     bind_run (loop_turn env ins d)
       (\<lambda>(res, d). case res of None \<Rightarrow> loop_run polls d | Some r \<Rightarrow> Done (Some r, d))"

text \<open>
  \<open>finish\<close>: after the workers have exited and the writer is flushed (\<open>completions\<close>), the first
  error takes precedence. The progress is taken before the manager is dropped.
\<close>

definition loop_finish ::
  "loop_env \<Rightarrow> download_loop \<Rightarrow> download_error + unit \<Rightarrow> write_completion list \<Rightarrow> progress
   \<Rightarrow> (download_error + unit) \<times> progress" where
  "loop_finish env d transfer_result completions prog =
     ((case transfer_result of
         Inl e \<Rightarrow> Inl e
       | Inr _ \<Rightarrow>
          (case check_completions (en_display env) 0 completions of Inl e \<Rightarrow> Inl e | Inr _ \<Rightarrow> Inr ())),
      prog\<lparr>pr_downloaded := get_total_downloaded (rm_planner (dl_manager d)),
           pr_chunks := get_downloaded_ranges (rm_planner (dl_manager d))\<rparr>)"

end
