(* ===== verification/Chunk_Planner_Props.thy ===== *)
theory Chunk_Planner_Props
  imports Chunk_Planner_Steps
begin

text \<open>
  The properties of the chunk planner, over the invariant of \<open>Chunk_Planner_Inv\<close> and the
  reachable planners of \<open>Chunk_Planner_Steps\<close>.
\<close>

section \<open>The bytes of a planner\<close>

abbreviation p_alloc :: "planner \<Rightarrow> nat set" where
  "p_alloc p \<equiv> alloc_bytes (p_chunks p)"

abbreviation p_downloaded :: "planner \<Rightarrow> nat set" where
  "p_downloaded p \<equiv> dl_bytes (p_chunks p)"

lemma foldl_resize_total:
  "p_total (foldl (\<lambda>q (i, sz). snd (resize_runner_state q i sz)) p rs) = p_total p"
  by (induction rs arbitrary: p)
    (auto simp: resize_runner_state_def split: option.splits)

lemma bt_values_entry: "c \<in> set (bt_values m) \<longleftrightarrow> (\<exists>k. (k, c) \<in> set m)"
  by (force simp: bt_values_def)

lemma planner_step_total: "p_total (planner_step a p) = p_total p"
proof (cases a)
  case (Op_Guarded rs ok)
  then show ?thesis
    by (simp add: guarded_def guard_new_def guard_drop_def guard_commit_def foldl_resize_total Let_def)
qed (auto simp: allocate_chunk_def allocate_pending_chunk_def allocate_idle_chunk_def
    allocate_chunk_inner_def update_progress_def mark_running_def mark_finished_def mark_failed_def
    split_chunk_def resize_runner_state_def forget_runner_def Let_def
    split: option.splits if_splits prod.splits)

lemma reachable_planner_total: "reachable_planner tot p \<Longrightarrow> p_total p = tot"
  by (induction rule: reachable_planner.induct) (auto simp: planner_step_total planner_new_def)

lemma planner_bytes:
  assumes "planner_inv p"
  shows "p_downloaded p \<subseteq> p_alloc p" and "p_alloc p \<subseteq> {0..<p_total p}"
    and "card (p_downloaded p) = p_accepted_bytes p"
  using assms layout_dl_bytes layout_alloc_bytes layout_dl_card
  by (auto simp: planner_inv_def)

text \<open>The bytes around one chunk: the others are elsewhere.\<close>

lemma planner_chunk_bytes:
  assumes inv: "planner_inv p" and p: "p_chunks p = xs @ (k, c) # ys"
  shows "(alloc_bytes xs \<union> alloc_bytes ys) \<inter> {k..<r_end (c_allocated c)} = {}"
    and "dl_bytes xs \<union> dl_bytes ys \<subseteq> alloc_bytes xs \<union> alloc_bytes ys"
proof -
  have l: "layout 0 xs k" "chunk_ok k c" "layout (r_end (c_allocated c)) ys (p_total p)"
    using inv p by (simp_all add: planner_inv_def)
  show "(alloc_bytes xs \<union> alloc_bytes ys) \<inter> {k..<r_end (c_allocated c)} = {}"
    using layout_alloc_bytes [OF l(1)] layout_alloc_bytes [OF l(3)] by fastforce
  show "dl_bytes xs \<union> dl_bytes ys \<subseteq> alloc_bytes xs \<union> alloc_bytes ys"
    using layout_dl_bytes [OF l(1)] layout_dl_bytes [OF l(3)] by blast
qed

section \<open>Reachable planners are sound\<close>

text \<open>
  C7: After any sequence of operations on a new planner (allocations, progress, starts, ends,
  failures, splits, resizes and guarded groups of resizes, committed or rolled back), with fresh
  ids for new runners, the chunks lie inside the file without overlapping, every downloaded byte
  is in an allocated range, and \<open>accepted_bytes\<close> is exactly the number of downloaded bytes.
\<close>

theorem planner_reachable_sound:
  assumes "reachable_planner tot p" and "tot < u64_bound"
  shows "planner_inv p \<and> p_total p = tot
    \<and> p_downloaded p \<subseteq> p_alloc p \<and> p_alloc p \<subseteq> {0..<tot}
    \<and> card (p_downloaded p) = get_total_downloaded p
    \<and> (\<forall>k c j d. bt_get k (p_chunks p) = Some c \<longrightarrow> bt_get j (p_chunks p) = Some d \<longrightarrow> k \<noteq> j \<longrightarrow>
         r_bytes (c_allocated c) \<inter> r_bytes (c_allocated d) = {})"
proof -
  have inv: "planner_inv p" and tot: "p_total p = tot"
    using assms reachable_planner_inv reachable_planner_total by blast+
  have lay: "layout 0 (p_chunks p) tot" using inv tot by (simp add: planner_inv_def)
  have "r_bytes (c_allocated c) \<inter> r_bytes (c_allocated d) = {}"
    if g: "bt_get k (p_chunks p) = Some c" "bt_get j (p_chunks p) = Some d" "k < j" for k c j d
  proof -
    have e: "(k, c) \<in> set (p_chunks p)" "(j, d) \<in> set (p_chunks p)"
      using g bt.entries_get [OF planner_inv_bt [OF inv]] by auto
    moreover have "r_start (c_allocated d) = j"
      using layout_entries [OF lay e(2)] by (simp add: chunk_ok_def)
    ultimately show ?thesis using layout_disjoint [OF lay e g(3)] by auto
  qed
  then have "r_bytes (c_allocated c) \<inter> r_bytes (c_allocated d) = {}"
    if "bt_get k (p_chunks p) = Some c" "bt_get j (p_chunks p) = Some d" "k \<noteq> j" for k c j d
    using that by (cases "k < j") (force, metis Int_commute linorder_neqE_nat)
  then show ?thesis
    using inv tot planner_bytes [OF inv] by (simp add: get_total_downloaded_def)
qed

lemma planner_reachable_sound_witness:
  "planner_inv (planner_step (Op_Progress 7 30)
     (planner_step (Op_Allocate (Range 0 100) (Some 7)) (planner_new 500)))"
proof -
  have "reachable_planner 500 (planner_step (Op_Progress 7 30)
     (planner_step (Op_Allocate (Range 0 100) (Some 7)) (planner_new 500)))"
    by (intro reachable_planner.intros) (simp_all add: planner_new_def)
  then show ?thesis using planner_reachable_sound [of 500] by (simp add: u64_bound_def)
qed

section \<open>The available ranges\<close>

abbreviation separated :: "range list \<Rightarrow> bool" where
  "separated rs \<equiv> (\<forall>r \<in> set rs. r_start r < r_end r)
     \<and> sorted_wrt (\<lambda>a b. r_end a < r_start b) rs"

lemma available_from_exact:
  "layout lo xs hi \<Longrightarrow>
   ranges_bytes (available_from lo (bt_values xs) hi) = {lo..<hi} - alloc_bytes xs
   \<and> separated (available_from lo (bt_values xs) hi)
   \<and> (\<forall>r \<in> set (available_from lo (bt_values xs) hi). lo \<le> r_start r)"
proof (induction lo xs hi rule: layout.induct)
  case (1 lo hi)
  then show ?case by simp
next
  case (2 lo k c xs hi)
  let ?e = "r_end (c_allocated c)"
  have k: "lo \<le> k" "r_start (c_allocated c) = k" "k < ?e" and lay: "layout ?e xs hi"
    using 2 by (auto simp: chunk_ok_def)
  note IH = "2.IH" [OF lay]
  have "?e \<le> hi" using lay by (rule layout_le)
  moreover have "alloc_bytes xs \<subseteq> {?e..<hi}" using lay by (rule layout_alloc_bytes)
  ultimately have "{lo..<k} \<union> ({?e..<hi} - alloc_bytes xs)
      = {lo..<hi} - ({k..<?e} \<union> alloc_bytes xs)"
    using k by (auto; fastforce)
  then show ?case using IH k by (auto simp: ranges_bytes_def)
qed

text \<open>
  C15: The available ranges are exactly the bytes of the file that no chunk is allocated, as
  non-empty ranges in order, none touching the next.
\<close>

theorem available_ranges_exact:
  assumes "planner_inv p"
  shows "ranges_bytes (get_available_ranges p) = {0..<p_total p} - p_alloc p
    \<and> separated (get_available_ranges p)"
  using available_from_exact [of 0 "p_chunks p" "p_total p"] assms
  by (simp add: planner_inv_def get_available_ranges_def)

lemma available_ranges_exact_witness:
  "ranges_bytes (get_available_ranges (snd (allocate_chunk (planner_new 500) (Range 100 200) (Some 1))))
     = {0..<500} - {100..<200}"
proof -
  let ?p = "snd (allocate_chunk (planner_new 500) (Range 100 200) (Some 1))"
  have "planner_inv ?p"
    by (rule allocate_chunk_inv) (simp_all add: planner_inv_new u64_bound_def, simp add: planner_new_def)
  then show ?thesis
    using available_ranges_exact [of ?p]
    by (simp add: allocate_chunk_def allocate_pending_chunk_def allocate_chunk_inner_def planner_new_def
        bt_last_below_def chunk_new_def)
qed

section \<open>Progress\<close>

text \<open>
  C16: Progress of a runner with a chunk never fails. It accepts exactly the next bytes of the
  chunk, at most as many as remain (a server that sends more is cut off), none of them downloaded
  before, and counts them once; the allocation is unchanged, and the chunk is finished exactly
  when it was or when its last byte has arrived.
\<close>

theorem update_progress_accepts:
  assumes inv: "planner_inv p" and st: "get_runner_state p i = Some c"
  shows "\<exists>r p' c'. update_progress p i n = (Inr r, p')
    \<and> r_start r = r_end (c_downloaded c)
    \<and> r_end r = r_start r + min n (r_len (incomplete_range c))
    \<and> r_bytes r \<inter> p_downloaded p = {}
    \<and> p_downloaded p' = p_downloaded p \<union> r_bytes r
    \<and> p_alloc p' = p_alloc p
    \<and> get_total_downloaded p' = get_total_downloaded p + r_len r
    \<and> get_runner_state p' i = Some c'
    \<and> c_status c' = (if r_end r = r_end (c_allocated c) then Finished else c_status c)
    \<and> planner_inv p'"
proof -
  obtain k where k: "p_runner_to_chunk p i = Some k" "bt_get k (p_chunks p) = Some c"
    using st by (auto simp: get_runner_state_Some)
  obtain xs ys where p: "p_chunks p = xs @ (k, c) # ys" and ok: "chunk_ok k c"
    and e: "r_end (c_allocated c) \<le> p_total p"
    using planner_runner_chunk [OF inv k(1)] k(2) by (metis option.inject)
  have e64: "r_end (c_allocated c) < u64_bound" using inv e by (simp add: planner_inv_def)
  obtain c' r where acc: "chunk_accept c n = (c', r)" by fastforce
  note a = chunk_accept_ok [OF ok e64 acc]
  let ?p' = "p\<lparr>p_chunks := bt_insert k c' (p_chunks p), p_accepted_bytes := p_accepted_bytes p + r_len r\<rparr>"
  have ins: "bt_insert k c' (p_chunks p) = xs @ (k, c') # ys"
    using bt_insert_here planner_inv_bt [OF inv] p by metis
  note around = planner_chunk_bytes [OF inv p]
  have r: "r_start r = r_end (c_downloaded c)" "r_end r = r_start r + min n (r_len (incomplete_range c))"
    using a(1) by (simp_all add: incomplete_range_def)
  have sub: "r_bytes r \<subseteq> {k..<r_end (c_allocated c)}"
    using a(1) ok by (auto simp: chunk_ok_def)
  have d: "r_bytes (c_downloaded c') = r_bytes (c_downloaded c) \<union> r_bytes r"
    using a(1,4) ok by (auto simp: chunk_ok_def)
  have "r_bytes r \<inter> p_downloaded p = {}"
    using around sub r(1) p by auto
  moreover have "p_downloaded ?p' = p_downloaded p \<union> r_bytes r"
    using d ins p by auto
  moreover have "p_alloc ?p' = p_alloc p" using a(2) ins p by simp
  moreover have "get_runner_state ?p' i = Some c'"
    using k bt_get_here [of xs k c' ys] ins bt.invar_insert [OF planner_inv_bt [OF inv], of k c']
    by (simp add: get_runner_state_Some)
  moreover have "c_status c' = (if r_end r = r_end (c_allocated c) then Finished else c_status c)"
    using acc a(1,4) ok by (auto simp: chunk_accept_def Let_def chunk_is_complete_def chunk_ok_def split: if_splits)
  ultimately show ?thesis
    using update_progress_spec [OF inv k acc] r by (auto simp: get_total_downloaded_def)
qed

lemma update_progress_accepts_witness:
  "\<exists>r p'. update_progress (snd (allocate_chunk (planner_new 500) (Range 100 200) (Some 1))) 1 250
     = (Inr r, p') \<and> r_start r = 100 \<and> r_end r = 200"
proof -
  let ?p = "snd (allocate_chunk (planner_new 500) (Range 100 200) (Some 1))"
  have "planner_inv ?p"
    by (rule allocate_chunk_inv) (simp_all add: planner_inv_new u64_bound_def, simp add: planner_new_def)
  moreover have "get_runner_state ?p 1 = Some (chunk_new (Range 100 200) (Some 1) Pending)"
    by (simp add: allocate_chunk_def allocate_pending_chunk_def allocate_chunk_inner_def planner_new_def
        bt_last_below_def get_runner_state_def bt_get_def)
  ultimately show ?thesis
    using update_progress_accepts [of ?p 1 _ 250] by (force simp: chunk_new_def incomplete_range_def)
qed

section \<open>A runner that fails\<close>

text \<open>
  C17: Marking a runner as failed gives back exactly the bytes of its chunk that were not
  downloaded: they become available again, no downloaded byte is lost, and the runner is gone.
\<close>

theorem mark_failed_releases:
  assumes inv: "planner_inv p" and st: "get_runner_state p i = Some c"
  shows "\<exists>p'. mark_failed p i = (Inr (incomplete_range c), p')
    \<and> p_downloaded p' = p_downloaded p
    \<and> p_alloc p' = p_alloc p - r_bytes (incomplete_range c)
    \<and> ranges_bytes (get_available_ranges p')
        = ranges_bytes (get_available_ranges p) \<union> r_bytes (incomplete_range c)
    \<and> get_total_downloaded p' = get_total_downloaded p
    \<and> get_runner_state p' i = None
    \<and> planner_inv p'"
proof -
  obtain k where k: "p_runner_to_chunk p i = Some k" "bt_get k (p_chunks p) = Some c"
    using st by (auto simp: get_runner_state_Some)
  obtain xs ys where p: "p_chunks p = xs @ (k, c) # ys" and ok: "chunk_ok k c"
    and e: "r_end (c_allocated c) \<le> p_total p"
    using planner_runner_chunk [OF inv k(1)] k(2) by (metis option.inject)
  note spec = mark_failed_spec [OF inv k]
  note around = planner_chunk_bytes [OF inv p]
  have bt: "bt_invar (xs @ (k, c) # ys)" using planner_inv_bt [OF inv] p by simp
  obtain p' where p': "mark_failed p i = (Inr (incomplete_range c), p')"
    and q: "p_total p' = p_total p" "p_accepted_bytes p' = p_accepted_bytes p"
      "p_runner_to_chunk p' i = None"
    and b: "p_downloaded p' = p_downloaded p" "p_alloc p' = p_alloc p - r_bytes (incomplete_range c)"
  proof (cases "r_end (c_downloaded c) = k")
    case True
    then have inc: "incomplete_range c = c_allocated c"
      using ok by (cases "c_allocated c") (simp add: incomplete_range_def chunk_ok_def)
    have "r_bytes (c_allocated c) = {k..<r_end (c_allocated c)}" "r_bytes (c_downloaded c) = {}"
      using ok True by (auto simp: chunk_ok_def)
    with that spec(1) [OF True] inc bt_remove_here [OF bt] p around show ?thesis by (simp; blast)
  next
    case False
    then have lt: "k < r_end (c_downloaded c)" using ok by (simp add: chunk_ok_def)
    let ?d = "c\<lparr>c_allocated := c_downloaded c, c_status := Finished, c_runner_id := None\<rparr>"
    have "r_bytes (c_allocated c) - r_bytes (incomplete_range c) = r_bytes (c_downloaded c)"
      "r_bytes (incomplete_range c) \<subseteq> {k..<r_end (c_allocated c)}"
      using ok by (auto simp: chunk_ok_def incomplete_range_def)
    with that spec(2) [OF lt] bt_insert_here [OF bt, of ?d] p around show ?thesis by (simp; blast)
  qed
  have inv': "planner_inv p'" using spec(3) p' by simp
  have "r_bytes (incomplete_range c) \<subseteq> {0..<p_total p}" "r_bytes (incomplete_range c) \<subseteq> p_alloc p"
    using ok e p by (auto simp: incomplete_range_def chunk_ok_def)
  then have "ranges_bytes (get_available_ranges p')
      = ranges_bytes (get_available_ranges p) \<union> r_bytes (incomplete_range c)"
    using available_from_exact [of 0 "p_chunks p" "p_total p"]
      available_from_exact [of 0 "p_chunks p'" "p_total p'"] inv inv' b q(1)
    by (auto simp: planner_inv_def get_available_ranges_def)
  with p' q b inv' show ?thesis by (simp add: get_total_downloaded_def get_runner_state_def)
qed

lemma mark_failed_releases_witness:
  "\<exists>p'. mark_failed (snd (allocate_chunk (planner_new 500) (Range 100 200) (Some 1))) 1
     = (Inr (Range 100 200), p') \<and> get_runner_state p' 1 = None"
proof -
  let ?p = "snd (allocate_chunk (planner_new 500) (Range 100 200) (Some 1))"
  have "planner_inv ?p"
    by (rule allocate_chunk_inv) (simp_all add: planner_inv_new u64_bound_def, simp add: planner_new_def)
  moreover have "get_runner_state ?p 1 = Some (chunk_new (Range 100 200) (Some 1) Pending)"
    by (simp add: allocate_chunk_def allocate_pending_chunk_def allocate_chunk_inner_def planner_new_def
        bt_last_below_def get_runner_state_def bt_get_def)
  ultimately show ?thesis
    using mark_failed_releases [of ?p 1] by (force simp: chunk_new_def incomplete_range_def)
qed

section \<open>Resizing\<close>

text \<open>
  C31: Resizing a runner's chunk can only give bytes up. When it succeeds with a new limit, the
  chunk ends \<open>sz\<close> bytes after its downloaded part, the limit is the chunk's new length, the
  bytes past it are available again, and no downloaded byte is lost; in every other case the
  planner is unchanged, and a size that would grow or empty the chunk is an error.
\<close>

theorem resize_only_shrinks:
  assumes inv: "planner_inv p" and st: "get_runner_state p i = Some c"
    and res: "resize_runner_state p i sz = (res, p')"
  shows "p_downloaded p' = p_downloaded p
    \<and> (case res of
        Inr (Shrunk limit) \<Rightarrow>
          (let e = r_end (c_downloaded c) + sz in
           e < r_end (c_allocated c) \<and> r_start (c_allocated c) < e
           \<and> limit = e - r_start (c_allocated c)
           \<and> p_alloc p' = p_alloc p - {e..<r_end (c_allocated c)}
           \<and> get_runner_state p' i = Some (c\<lparr>c_allocated := Range (r_start (c_allocated c)) e\<rparr>))
      | Inr Unchanged \<Rightarrow> p' = p \<and> sz = r_len (incomplete_range c)
      | Inl e \<Rightarrow> p' = p \<and> e = InvalidResize i sz
          \<and> (r_len (incomplete_range c) < sz \<or> sz = 0 \<and> r_bytes (c_downloaded c) = {}))"
proof -
  obtain k where k: "p_runner_to_chunk p i = Some k" "bt_get k (p_chunks p) = Some c"
    using st by (auto simp: get_runner_state_Some)
  obtain xs ys where p: "p_chunks p = xs @ (k, c) # ys" and ok: "chunk_ok k c"
    using planner_runner_chunk [OF inv k(1)] k(2) by (metis option.inject)
  have bt: "bt_invar (xs @ (k, c) # ys)" using planner_inv_bt [OF inv] p by simp
  have c: "r_start (c_allocated c) = k" "r_start (c_downloaded c) = k"
    "k \<le> r_end (c_downloaded c)" "r_end (c_downloaded c) \<le> r_end (c_allocated c)"
    using ok by (simp_all add: chunk_ok_def)
  let ?e = "r_end (c_downloaded c) + sz"
  consider (same) "?e = r_end (c_allocated c)" | (shrunk) "k < ?e" "?e < r_end (c_allocated c)"
    | (bad) "?e \<noteq> r_end (c_allocated c)" "\<not> (k < ?e \<and> ?e < r_end (c_allocated c))" by blast
  then show ?thesis
  proof cases
    case same
    then have "res = Inr Unchanged" "p' = p" using res resize_spec [OF inv k] by simp_all
    with same show ?thesis by (simp add: incomplete_range_def)
  next
    case shrunk
    let ?c = "c\<lparr>c_allocated := Range (r_start (c_allocated c)) ?e\<rparr>"
    have ins: "bt_insert k ?c (p_chunks p) = xs @ (k, ?c) # ys"
      using bt_insert_here [OF bt] p by simp
    have p': "res = Inr (Shrunk (?e - k))" "p' = p\<lparr>p_chunks := bt_insert k ?c (p_chunks p)\<rparr>"
      using shrunk res resize_spec [OF inv k] by (simp_all add: Let_def)
    have "{?e..<r_end (c_allocated c)} \<subseteq> {k..<r_end (c_allocated c)}" using shrunk(1) by simp
    then have "(alloc_bytes xs \<union> alloc_bytes ys) \<inter> {?e..<r_end (c_allocated c)} = {}"
      using planner_chunk_bytes(1) [OF inv p] by blast
    moreover have "{k..<?e} = {k..<r_end (c_allocated c)} - {?e..<r_end (c_allocated c)}"
      using shrunk by (auto simp: not_le)
    moreover have "p_alloc p' = alloc_bytes xs \<union> ({k..<?e} \<union> alloc_bytes ys)"
      using p' ins c by simp
    moreover have "p_alloc p = alloc_bytes xs \<union> ({k..<r_end (c_allocated c)} \<union> alloc_bytes ys)"
      using p c by simp
    ultimately have "p_alloc p' = p_alloc p - {?e..<r_end (c_allocated c)}" by blast
    moreover have "get_runner_state p' i = Some ?c"
      using p' k bt.get_insert [OF planner_inv_bt [OF inv], of k k ?c] by (simp add: get_runner_state_Some)
    moreover have "p_downloaded p' = p_downloaded p" using p' ins p by simp
    ultimately show ?thesis using p'(1) shrunk c by (simp add: Let_def)
  next
    case bad
    then have "res = Inl (InvalidResize i sz)" "p' = p"
      using res resize_spec [OF inv k] by (auto simp: Let_def split: if_splits)
    with bad c show ?thesis by (auto simp: incomplete_range_def)
  qed
qed

lemma resize_only_shrinks_witness:
  "\<exists>p'. resize_runner_state (snd (allocate_chunk (planner_new 500) (Range 100 200) (Some 1))) 1 40
     = (Inr (Shrunk 40), p') \<and> p_alloc p' = {100..<140}"
proof -
  let ?p = "snd (allocate_chunk (planner_new 500) (Range 100 200) (Some 1))"
  have "planner_inv ?p"
    by (rule allocate_chunk_inv) (simp_all add: planner_inv_new u64_bound_def, simp add: planner_new_def)
  moreover have "get_runner_state ?p 1 = Some (chunk_new (Range 100 200) (Some 1) Pending)"
    by (simp add: allocate_chunk_def allocate_pending_chunk_def allocate_chunk_inner_def planner_new_def
        bt_last_below_def get_runner_state_def bt_get_def)
  moreover have "fst (resize_runner_state ?p 1 40) = Inr (Shrunk 40)"
    by (simp add: allocate_chunk_def allocate_pending_chunk_def allocate_chunk_inner_def planner_new_def
        bt_last_below_def resize_runner_state_def bt_get_def chunk_new_def checked_add64_def
        u64_bound_def sub64_def)
  ultimately show ?thesis
    using resize_only_shrinks [of ?p 1 "chunk_new (Range 100 200) (Some 1) Pending" 40]
    by (cases "resize_runner_state ?p 1 40")
      (auto simp: chunk_new_def Let_def allocate_chunk_def allocate_pending_chunk_def
        allocate_chunk_inner_def planner_new_def bt_last_below_def)
qed

section \<open>The downloaded ranges\<close>

lemma merge_from_exact:
  assumes "sorted (map r_start (cur # rs))" and "\<forall>r \<in> set (cur # rs). r_start r < r_end r"
  shows "ranges_bytes (merge_from cur rs) = r_bytes cur \<union> ranges_bytes rs
    \<and> separated (merge_from cur rs) \<and> (\<forall>r \<in> set (merge_from cur rs). r_start cur \<le> r_start r)"
  using assms
proof (induction cur rs rule: merge_from.induct)
  case (1 cur)
  then show ?case by simp
next
  case (2 cur r rs)
  show ?case
  proof (cases "r_start r \<le> r_end cur")
    case True
    let ?m = "Range (r_start cur) (max (r_end cur) (r_end r))"
    have "r_bytes ?m = r_bytes cur \<union> r_bytes r" using 2(3,4) True by auto
    moreover have "ranges_bytes (merge_from ?m rs) = r_bytes ?m \<union> ranges_bytes rs
      \<and> separated (merge_from ?m rs) \<and> (\<forall>r \<in> set (merge_from ?m rs). r_start ?m \<le> r_start r)"
      using 2(3,4) by (intro "2.IH"(1) [OF True]) auto
    ultimately show ?thesis using True by auto
  next
    case False
    have "ranges_bytes (merge_from r rs) = r_bytes r \<union> ranges_bytes rs
      \<and> separated (merge_from r rs) \<and> (\<forall>q \<in> set (merge_from r rs). r_start r \<le> r_start q)"
      using 2(3,4) by (intro "2.IH"(2) [OF False]) auto
    with 2(3,4) False show ?thesis by fastforce
  qed
qed

lemma merge_adjacent_exact:
  assumes "\<forall>r \<in> set rs. r_start r < r_end r"
  shows "ranges_bytes (merge_adjacent_ranges rs) = ranges_bytes rs \<and> separated (merge_adjacent_ranges rs)"
proof (cases "sort_key r_start rs")
  case Nil
  then have "rs = []" by (metis length_0_conv length_sort)
  then show ?thesis by (simp add: merge_adjacent_ranges_def)
next
  case (Cons cur qs)
  have "set (cur # qs) = set rs" using Cons by (metis set_sort)
  moreover have "sorted (map r_start (cur # qs))" using Cons by (metis sorted_sort_key)
  ultimately show ?thesis
    using merge_from_exact [of cur qs] assms Cons
    by (auto simp: merge_adjacent_ranges_def ranges_bytes_def)
qed

text \<open>
  C32: The downloaded ranges the planner reports are exactly the downloaded bytes, merged into
  non-empty ranges in order of which none touches the next; together they have as many bytes as
  the reported total.
\<close>

theorem downloaded_ranges_exact:
  assumes "planner_inv p"
  shows "ranges_bytes (get_downloaded_ranges p) = p_downloaded p
    \<and> separated (get_downloaded_ranges p)
    \<and> card (ranges_bytes (get_downloaded_ranges p)) = get_total_downloaded p"
proof -
  define cs where "cs = filter (\<lambda>c. r_start (c_downloaded c) < r_end (c_downloaded c))
    (bt_values (p_chunks p))"
  define rs where "rs = sort_key r_start (map c_downloaded cs)"
  have "ranges_bytes rs = (\<Union>c \<in> set cs. r_bytes (c_downloaded c))"
    by (simp add: ranges_bytes_def rs_def)
  also have "\<dots> = p_downloaded p"
    unfolding dl_bytes_def cs_def by fastforce
  finally have "ranges_bytes rs = p_downloaded p" .
  moreover have "\<forall>r \<in> set rs. r_start r < r_end r" by (simp add: rs_def cs_def)
  moreover have "get_downloaded_ranges p = merge_adjacent_ranges rs"
    by (simp only: get_downloaded_ranges_def rs_def cs_def)
  ultimately show ?thesis
    using merge_adjacent_exact [of rs] planner_bytes(3) [OF assms]
    unfolding get_total_downloaded_def by metis
qed

lemma downloaded_ranges_exact_witness:
  "card (ranges_bytes (get_downloaded_ranges (planner_new 500))) = 0"
  using downloaded_ranges_exact [of "planner_new 500"] planner_inv_new [of 500]
  by (simp add: u64_bound_def get_total_downloaded_def planner_new_def)

section \<open>Completion\<close>

text \<open>
  C33: A planner that reports itself complete has no byte left to give: the chunks cover the
  whole file, none of them is idle, waiting or running, and if each finished chunk was completed
  by its data, the whole file is downloaded and counted.
\<close>

theorem planner_complete_covers:
  assumes inv: "planner_inv p" and "planner_is_complete p"
  shows "p_alloc p = {0..<p_total p} \<and> get_active_runners_count p = 0
    \<and> ((\<forall>c \<in> set (bt_values (p_chunks p)). chunk_is_complete c) \<longrightarrow>
         p_downloaded p = {0..<p_total p} \<and> get_total_downloaded p = p_total p)"
proof -
  have none: "get_available_ranges p = []" and fin: "\<forall>c \<in> set (bt_values (p_chunks p)). c_status c = Finished"
    using assms(2) by (simp_all add: planner_is_complete_def)
  have cover: "p_alloc p = {0..<p_total p}"
    using available_from_exact [of 0 "p_chunks p" "p_total p"] none planner_bytes(2) [OF inv] inv
    by (auto simp: planner_inv_def get_available_ranges_def)
  have "p_downloaded p = p_alloc p" if "\<forall>c \<in> set (bt_values (p_chunks p)). chunk_is_complete c"
  proof -
    have "r_bytes (c_downloaded c) = r_bytes (c_allocated c)" if c: "c \<in> set (bt_values (p_chunks p))" for c
    proof -
      obtain k where "(k, c) \<in> set (p_chunks p)" using c bt_values_entry by metis
      then have "chunk_ok k c" using inv layout_entries by (auto simp: planner_inv_def)
      moreover have "chunk_is_complete c" using c \<open>\<forall>c \<in> _. chunk_is_complete c\<close> by blast
      ultimately show ?thesis by (simp add: chunk_ok_def chunk_is_complete_def)
    qed
    then show ?thesis by (simp add: dl_bytes_def alloc_bytes_def)
  qed
  moreover have "get_active_runners_count p = 0"
    using fin by (auto simp: get_active_runners_count_def is_active_def filter_empty_conv)
  ultimately show ?thesis
    using cover planner_bytes(3) [OF inv] by (auto simp: get_total_downloaded_def)
qed

definition finished_planner :: planner where
  "finished_planner =
     planner_step (Op_Finished 1)
       (planner_step (Op_Progress 1 500)
         (planner_step (Op_Allocate (Range 0 500) (Some 1)) (planner_new 500)))"

lemma finished_planner_eq:
  "finished_planner =
     \<lparr>p_total = 500, p_min_chunk_size = DEFAULT_MIN_CHUNK_SIZE, p_max_chunk_count = None,
      p_chunks = [(0, \<lparr>c_allocated = Range 0 500, c_downloaded = Range 0 500,
                       c_runner_id = Some 1, c_status = Finished\<rparr>)],
      p_runner_to_chunk = Map.empty, p_accepted_bytes = 500\<rparr>"
  by (simp add: finished_planner_def planner_new_def allocate_chunk_def allocate_pending_chunk_def
      allocate_chunk_inner_def bt_last_below_def update_progress_def bt_get_def chunk_accept_def
      chunk_new_def remaining_def chunk_is_complete_def mark_finished_def forget_runner_def
      add64_def sub64_def u64_bound_def Let_def)

lemma planner_complete_covers_witness:
  "get_total_downloaded finished_planner = 500"
proof -
  have "planner_inv finished_planner"
    by (simp add: finished_planner_eq planner_inv_def u64_bound_def chunk_ok_def maps_ok_def bt_get_def
        is_active_def)
  then show ?thesis
    using planner_complete_covers [of finished_planner]
    by (simp add: finished_planner_eq planner_is_complete_def get_available_ranges_def chunk_is_complete_def)
qed

section \<open>The chunks that may be split\<close>

lemma runner_states_Done:
  "\<forall>c \<in> set cs. c_runner_id c \<noteq> None \<Longrightarrow>
   runner_states cs = Done (map (\<lambda>c. (the (c_runner_id c), incomplete_range c)) cs)"
  by (induction cs) auto

text \<open>The list is the splittable chunks with their ids: distinct runners, all of them active.\<close>

lemma splittable_state:
  assumes inv: "planner_inv p" and small: "2 * p_min_chunk_size p < u64_bound"
    and c: "c \<in> set (filter (splittable p sz) (bt_values (p_chunks p)))"
  shows "\<exists>i. c_runner_id c = Some i \<and> get_runner_state p i = Some c \<and> c_status c = Running
      \<and> 2 * p_min_chunk_size p \<le> r_len (incomplete_range c)
      \<and> r_start (incomplete_range c) < r_end (incomplete_range c)
      \<and> (\<forall>v. sz = Some v \<longrightarrow> v \<le> r_len (incomplete_range c))"
proof -
  obtain k where k: "(k, c) \<in> set (p_chunks p)" and sp: "splittable p sz c"
    using c bt_values_entry [of c "p_chunks p"] by auto
  have g: "bt_get k (p_chunks p) = Some c"
    using k bt.entries_get [OF planner_inv_bt [OF inv]] by auto
  have run: "c_status c = Running" using sp by (simp add: splittable_def)
  then obtain i where i: "c_runner_id c = Some i" "p_runner_to_chunk p i = Some k"
    using inv g maps_okD(2) unfolding planner_inv_def is_active_def by blast
  have "chunk_ok k c" "r_end (c_allocated c) < u64_bound"
    using inv k layout_entries by (fastforce simp: planner_inv_def)+
  then have "remaining c = r_len (incomplete_range c)"
    by (simp add: remaining_ok incomplete_range_def)
  then show ?thesis
    using i g run sp small
    by (auto simp: splittable_def get_runner_state_Some incomplete_range_def mul64_exact
        split: option.splits)
qed

lemma distinct_values:
  assumes "layout lo xs hi"
  shows "distinct (bt_values xs)"
  using assms
proof (induction lo xs hi rule: layout.induct)
  case (1 lo hi)
  then show ?case by simp
next
  case (2 lo k c xs hi)
  have "c \<notin> set (bt_values xs)"
  proof
    assume "c \<in> set (bt_values xs)"
    then obtain j where "(j, c) \<in> set xs" using bt_values_entry by metis
    then have "r_end (c_allocated c) \<le> r_start (c_allocated c)"
      using 2 layout_entries by (fastforce simp: chunk_ok_def)
    then show False using 2 by (simp add: chunk_ok_def)
  qed
  then show ?case using 2 by simp
qed

lemma incomplete_states_spec:
  assumes inv: "planner_inv p" and small: "2 * p_min_chunk_size p < u64_bound"
  shows "\<exists>xs. get_incomplete_states p sz = Done xs
    \<and> (\<forall>(i, r) \<in> set xs. \<exists>c. get_runner_state p i = Some c \<and> c_status c = Running
         \<and> r = incomplete_range c \<and> 2 * p_min_chunk_size p \<le> r_len r \<and> r_start r < r_end r
         \<and> (\<forall>v. sz = Some v \<longrightarrow> v \<le> r_len r))
    \<and> distinct (map fst xs) \<and> length xs \<le> get_active_runners_count p"
proof -
  define cs where "cs = filter (splittable p sz) (bt_values (p_chunks p))"
  define xs where "xs = map (\<lambda>c. (the (c_runner_id c), incomplete_range c)) cs"
  have each: "\<exists>i. c_runner_id c = Some i \<and> get_runner_state p i = Some c \<and> c_status c = Running
      \<and> 2 * p_min_chunk_size p \<le> r_len (incomplete_range c)
      \<and> r_start (incomplete_range c) < r_end (incomplete_range c)
      \<and> (\<forall>v. sz = Some v \<longrightarrow> v \<le> r_len (incomplete_range c))" if "c \<in> set cs" for c
    by (rule splittable_state [OF inv small]) (use that in \<open>simp only: cs_def\<close>)
  have "get_incomplete_states p sz = Done xs"
    unfolding get_incomplete_states_def xs_def cs_def [symmetric]
    by (rule runner_states_Done) (use each in force)
  moreover have "\<forall>(i, r) \<in> set xs. \<exists>c. get_runner_state p i = Some c \<and> c_status c = Running
         \<and> r = incomplete_range c \<and> 2 * p_min_chunk_size p \<le> r_len r \<and> r_start r < r_end r
         \<and> (\<forall>v. sz = Some v \<longrightarrow> v \<le> r_len r)"
    using each unfolding xs_def by fastforce
  moreover have "distinct (map fst xs)"
  proof -
    have "distinct cs" using distinct_values inv unfolding cs_def planner_inv_def by fastforce
    moreover have "inj_on (\<lambda>c. the (c_runner_id c)) (set cs)"
    proof (rule inj_onI)
      fix c d assume cd: "c \<in> set cs" "d \<in> set cs" "the (c_runner_id c) = the (c_runner_id d)"
      then show "c = d" using each [of c] each [of d] by auto
    qed
    ultimately show ?thesis by (simp add: xs_def comp_def distinct_map)
  qed
  moreover have "length xs \<le> get_active_runners_count p"
  proof -
    have "filter (splittable p sz) ys = filter (splittable p sz) (filter (\<lambda>c. is_active (c_status c)) ys)"
      for ys
      by (auto simp: splittable_def is_active_def intro!: filter_cong)
    then show ?thesis
      unfolding xs_def cs_def get_active_runners_count_def length_map by (metis length_filter_le)
  qed
  ultimately show ?thesis by blast
qed

text \<open>
  Listing the chunks that may be split never panics: a running chunk has its runner. Each
  entry is the unfinished range of a running chunk, under the id that the planner maps to it, with
  at least twice the minimal chunk size (and the requested size) left; no runner is listed twice.
\<close>

theorem incomplete_states_total:
  assumes inv: "planner_inv p" and small: "2 * p_min_chunk_size p < u64_bound"
  shows "\<exists>xs. get_incomplete_states p sz = Done xs \<and> distinct (map fst xs)
    \<and> (\<forall>(i, r) \<in> set xs. \<exists>c. get_runner_state p i = Some c \<and> c_status c = Running
         \<and> r = incomplete_range c \<and> 2 * p_min_chunk_size p \<le> r_len r \<and> r_start r < r_end r
         \<and> (\<forall>v. sz = Some v \<longrightarrow> v \<le> r_len r))"
  using incomplete_states_spec [OF assms, of sz] by blast

lemma incomplete_states_total_witness:
  "\<exists>xs. get_incomplete_states (planner_new 500) (Some 3) = Done xs"
proof -
  have "2 * p_min_chunk_size (planner_new 500) < u64_bound"
    by (simp add: planner_new_def DEFAULT_MIN_CHUNK_SIZE_def u64_bound_def)
  then show ?thesis
    using incomplete_states_total [of "planner_new 500" "Some 3"] planner_inv_new [of 500]
    by (fastforce simp: u64_bound_def)
qed

end
