(* ===== verification/Runner_View.thy ===== *)
theory Runner_View
  imports Chunk_Planner_Props
begin

text \<open>
  The planner as the runner manager sees it: a finite map from the runner ids to their chunks,
  \<open>get_runner_state\<close>. Each operation of the planner changes exactly one entry of it; the bytes of
  the chunks are the matter of \<open>Chunk_Planner_Props\<close>.
\<close>

lemma runner_state_dom: "planner_inv p \<Longrightarrow> dom (get_runner_state p) = dom (p_runner_to_chunk p)"
proof -
  assume inv: "planner_inv p"
  have "get_runner_state p i \<noteq> None \<longleftrightarrow> p_runner_to_chunk p i \<noteq> None" for i
  proof (cases "p_runner_to_chunk p i")
    case None
    then show ?thesis by (simp add: get_runner_state_def)
  next
    case (Some k)
    obtain c where "bt_get k (p_chunks p) = Some c" using planner_runner_entry [OF inv Some] .
    with Some show ?thesis by (simp add: get_runner_state_def)
  qed
  then show ?thesis by (auto simp: dom_def)
qed

lemma runner_state_chunk:
  assumes "planner_inv p" and "get_runner_state p i = Some c"
  obtains k where "p_runner_to_chunk p i = Some k" and "bt_get k (p_chunks p) = Some c"
    and "chunk_ok k c" and "r_end (c_allocated c) \<le> p_total p" and "r_end (c_allocated c) < u64_bound"
    and "c_runner_id c = Some i"
proof -
  obtain k where k: "p_runner_to_chunk p i = Some k" "bt_get k (p_chunks p) = Some c"
    using assms(2) by (auto simp: get_runner_state_Some)
  then show ?thesis using planner_runner_entry [OF assms(1) k(1)] that by (metis option.inject)
qed

lemma runner_state_replace:
  assumes inv: "planner_inv p" and k: "p_runner_to_chunk p i = Some k"
    and "p_chunks p' = bt_insert k c (p_chunks p)" and "p_runner_to_chunk p' = p_runner_to_chunk p"
  shows "get_runner_state p' = (get_runner_state p)(i \<mapsto> c)"
proof
  fix j
  have inj: "p_runner_to_chunk p j = Some k \<Longrightarrow> j = i" using planner_runner_inj [OF inv k] by blast
  have get: "bt_get l (p_chunks p') = (if l = k then Some c else bt_get l (p_chunks p))" for l
    unfolding assms(3) by (rule bt.get_insert [OF planner_inv_bt [OF inv]])
  show "get_runner_state p' j = ((get_runner_state p)(i \<mapsto> c)) j"
  proof (cases "p_runner_to_chunk p j")
    case None
    then show ?thesis using k assms(4) by (auto simp: get_runner_state_def)
  next
    case (Some l)
    then show ?thesis using k assms(4) get inj by (auto simp: get_runner_state_def)
  qed
qed

lemma runner_state_release:
  assumes inv: "planner_inv p" and k: "p_runner_to_chunk p i = Some k"
    and "p_chunks p' = bt_insert k c (p_chunks p) \<or> p_chunks p' = bt_remove k (p_chunks p)"
    and "p_runner_to_chunk p' = (p_runner_to_chunk p)(i := None)"
  shows "get_runner_state p' = (get_runner_state p)(i := None)"
proof
  fix j
  have inj: "p_runner_to_chunk p j = Some k \<Longrightarrow> j = i" using planner_runner_inj [OF inv k] by blast
  have get: "l \<noteq> k \<Longrightarrow> bt_get l (p_chunks p') = bt_get l (p_chunks p)" for l
    using assms(3)
  proof
    assume "l \<noteq> k" and "p_chunks p' = bt_insert k c (p_chunks p)"
    then show ?thesis by (simp add: bt.get_insert [OF planner_inv_bt [OF inv]])
  next
    assume "l \<noteq> k" and "p_chunks p' = bt_remove k (p_chunks p)"
    then show ?thesis by (simp add: bt.get_remove [OF planner_inv_bt [OF inv]])
  qed
  show "get_runner_state p' j = ((get_runner_state p)(i := None)) j"
  proof (cases "p_runner_to_chunk p j")
    case None
    then show ?thesis using assms(4) by (simp add: get_runner_state_def)
  next
    case (Some l)
    show ?thesis
    proof (cases "j = i")
      case True
      then show ?thesis using assms(4) by (simp add: get_runner_state_def)
    next
      case False
      then have "l \<noteq> k" using inj Some by auto
      then show ?thesis using assms(4) get [of l] Some False by (simp add: get_runner_state_def)
    qed
  qed
qed

section \<open>The operations on the view\<close>

lemma mark_failed_view:
  assumes inv: "planner_inv p" and c: "get_runner_state p i = Some c"
  shows "\<exists>p'. mark_failed p i = (Inr (incomplete_range c), p') \<and> planner_inv p'
    \<and> get_runner_state p' = (get_runner_state p)(i := None) \<and> p_total p' = p_total p
    \<and> p_max_chunk_count p' = p_max_chunk_count p \<and> p_min_chunk_size p' = p_min_chunk_size p"
proof -
  obtain k where k: "p_runner_to_chunk p i = Some k" "bt_get k (p_chunks p) = Some c" "chunk_ok k c"
    using runner_state_chunk [OF inv c] by metis
  note spec = mark_failed_spec [OF inv k(1,2)]
  show ?thesis
  proof (cases "r_end (c_downloaded c) = k")
    case True
    then have "incomplete_range c = c_allocated c"
      using k(3) by (cases "c_allocated c") (simp add: incomplete_range_def chunk_ok_def)
    moreover have "get_runner_state (p\<lparr>p_runner_to_chunk := (p_runner_to_chunk p)(i := None),
        p_chunks := bt_remove k (p_chunks p)\<rparr>) = (get_runner_state p)(i := None)"
      by (rule runner_state_release [OF inv k(1)]) simp_all
    ultimately show ?thesis using spec(1) [OF True] spec(3) by simp
  next
    case False
    then have lt: "k < r_end (c_downloaded c)" using k(3) by (simp add: chunk_ok_def)
    let ?d = "c\<lparr>c_allocated := c_downloaded c, c_status := Finished, c_runner_id := None\<rparr>"
    have "get_runner_state (p\<lparr>p_runner_to_chunk := (p_runner_to_chunk p)(i := None),
        p_chunks := bt_insert k ?d (p_chunks p)\<rparr>) = (get_runner_state p)(i := None)"
      by (rule runner_state_release [OF inv k(1), where c = ?d]) simp_all
    then show ?thesis using spec(2) [OF lt] spec(3) by simp
  qed
qed

lemma mark_finished_view:
  assumes inv: "planner_inv p" and c: "get_runner_state p i = Some c"
  shows "\<exists>p'. mark_finished p i = (Inr (), p') \<and> planner_inv p'
    \<and> get_runner_state p' = (get_runner_state p)(i := None) \<and> p_total p' = p_total p
    \<and> p_max_chunk_count p' = p_max_chunk_count p \<and> p_min_chunk_size p' = p_min_chunk_size p"
proof -
  obtain k where k: "p_runner_to_chunk p i = Some k" "bt_get k (p_chunks p) = Some c"
    using runner_state_chunk [OF inv c] by metis
  let ?p = "(forget_runner p i)\<lparr>p_chunks := bt_insert k (c\<lparr>c_status := Finished\<rparr>) (p_chunks p)\<rparr>"
  have eq: "mark_finished p i = (Inr (), ?p)"
    using k by (simp add: mark_finished_def forget_runner_def Let_def)
  have "get_runner_state ?p = (get_runner_state p)(i := None)"
    by (rule runner_state_release [OF inv k(1), where c = "c\<lparr>c_status := Finished\<rparr>"])
      (simp_all add: forget_runner_def)
  moreover have "planner_inv ?p" using mark_finished_inv [OF inv, of i] eq by simp
  ultimately show ?thesis using eq by (simp add: forget_runner_def)
qed

lemma mark_running_view:
  assumes inv: "planner_inv p" and c: "get_runner_state p i = Some c"
  shows "\<exists>p'. mark_running p i = (Inr (), p') \<and> planner_inv p'
    \<and> get_runner_state p' = (get_runner_state p)(i \<mapsto> c\<lparr>c_status := Running\<rparr>) \<and> p_total p' = p_total p
    \<and> p_max_chunk_count p' = p_max_chunk_count p \<and> p_min_chunk_size p' = p_min_chunk_size p"
proof -
  obtain k where k: "p_runner_to_chunk p i = Some k" "bt_get k (p_chunks p) = Some c"
    using runner_state_chunk [OF inv c] by metis
  let ?p = "p\<lparr>p_chunks := bt_insert k (c\<lparr>c_status := Running\<rparr>) (p_chunks p)\<rparr>"
  have eq: "mark_running p i = (Inr (), ?p)" using k by (simp add: mark_running_def)
  have "get_runner_state ?p = (get_runner_state p)(i \<mapsto> c\<lparr>c_status := Running\<rparr>)"
    by (rule runner_state_replace [OF inv k(1)]) simp_all
  moreover have "planner_inv ?p" using mark_running_inv [OF inv, of i] eq by simp
  ultimately show ?thesis using eq by simp
qed

lemma update_progress_view:
  assumes inv: "planner_inv p" and c: "get_runner_state p i = Some c"
  shows "\<exists>r p' c'. update_progress p i n = (Inr r, p') \<and> chunk_accept c n = (c', r) \<and> planner_inv p'
    \<and> get_runner_state p' = (get_runner_state p)(i \<mapsto> c') \<and> p_total p' = p_total p
    \<and> p_max_chunk_count p' = p_max_chunk_count p \<and> p_min_chunk_size p' = p_min_chunk_size p
    \<and> p_runner_to_chunk p' = p_runner_to_chunk p
    \<and> (c_status c' = c_status c \<or> c_status c' = Finished)
    \<and> r_start r \<le> r_end r \<and> r_end r \<le> r_start r + n \<and> r_end r \<le> p_total p"
proof -
  obtain k where k: "p_runner_to_chunk p i = Some k" "bt_get k (p_chunks p) = Some c" "chunk_ok k c"
    "r_end (c_allocated c) < u64_bound" "r_end (c_allocated c) \<le> p_total p"
    using runner_state_chunk [OF inv c] by metis
  obtain c' r where acc: "chunk_accept c n = (c', r)" by fastforce
  note a = chunk_accept_ok [OF k(3,4) acc]
  let ?p = "p\<lparr>p_chunks := bt_insert k c' (p_chunks p), p_accepted_bytes := p_accepted_bytes p + r_len r\<rparr>"
  have "get_runner_state ?p = (get_runner_state p)(i \<mapsto> c')"
    by (rule runner_state_replace [OF inv k(1)]) simp_all
  moreover have "r_end r \<le> p_total p" using a(4,6) k(5) a(2) by (simp add: chunk_ok_def)
  ultimately show ?thesis
    using update_progress_spec [OF inv k(1,2) acc] acc a(1,5) by auto
qed

lemma resize_view:
  assumes inv: "planner_inv p" and c: "get_runner_state p i = Some c"
  shows "(\<exists>limit p' e. resize_runner_state p i sz = (Inr (Shrunk limit), p') \<and> planner_inv p'
      \<and> e = r_end (c_downloaded c) + sz \<and> r_start (c_allocated c) < e \<and> e < r_end (c_allocated c)
      \<and> limit = e - r_start (c_allocated c)
      \<and> get_runner_state p' = (get_runner_state p)(i \<mapsto> c\<lparr>c_allocated := Range (r_start (c_allocated c)) e\<rparr>)
      \<and> p_runner_to_chunk p' = p_runner_to_chunk p \<and> p_total p' = p_total p
      \<and> p_max_chunk_count p' = p_max_chunk_count p \<and> p_min_chunk_size p' = p_min_chunk_size p
      \<and> p_alloc p' = p_alloc p - {e..<r_end (c_allocated c)}
      \<and> {e..<r_end (c_allocated c)} \<subseteq> p_alloc p)
    \<or> (r_end (c_downloaded c) + sz = r_end (c_allocated c) \<and> resize_runner_state p i sz = (Inr Unchanged, p))
    \<or> resize_runner_state p i sz = (Inl (InvalidResize i sz), p)"
proof -
  obtain k where k: "p_runner_to_chunk p i = Some k" "bt_get k (p_chunks p) = Some c" "chunk_ok k c"
    using runner_state_chunk [OF inv c] by metis
  let ?e = "r_end (c_downloaded c) + sz"
  show ?thesis
  proof (cases "k < ?e \<and> ?e < r_end (c_allocated c)")
    case False
    then show ?thesis by (auto simp: resize_spec [OF inv k(1,2)] Let_def)
  next
    case True
    let ?c = "c\<lparr>c_allocated := Range (r_start (c_allocated c)) ?e\<rparr>"
    let ?p = "p\<lparr>p_chunks := bt_insert k ?c (p_chunks p)\<rparr>"
    have eq: "resize_runner_state p i sz = (Inr (Shrunk (?e - k)), ?p)"
      using True by (simp add: resize_spec [OF inv k(1,2)] Let_def)
    have view: "get_runner_state ?p = (get_runner_state p)(i \<mapsto> ?c)"
      by (rule runner_state_replace [OF inv k(1)]) simp_all
    obtain xs ys where p: "p_chunks p = xs @ (k, c) # ys" using bt_split [OF k(2)] .
    have st: "r_start (c_allocated c) = k" using k(3) by (simp add: chunk_ok_def)
    have ins: "bt_insert k ?c (p_chunks p) = xs @ (k, ?c) # ys"
      using bt_insert_here planner_inv_bt [OF inv] p by metis
    have sub: "{?e..<r_end (c_allocated c)} \<subseteq> {k..<r_end (c_allocated c)}" using True by simp
    then have "(alloc_bytes xs \<union> alloc_bytes ys) \<inter> {?e..<r_end (c_allocated c)} = {}"
      using planner_chunk_bytes(1) [OF inv p] by blast
    moreover have "{k..<?e} = {k..<r_end (c_allocated c)} - {?e..<r_end (c_allocated c)}"
      using True by (auto simp: not_le)
    moreover have "p_alloc ?p = alloc_bytes xs \<union> ({k..<?e} \<union> alloc_bytes ys)" using ins st by simp
    moreover have pa: "p_alloc p = alloc_bytes xs \<union> ({k..<r_end (c_allocated c)} \<union> alloc_bytes ys)"
      using p st by simp
    ultimately have bytes: "p_alloc ?p = p_alloc p - {?e..<r_end (c_allocated c)}" by blast
    moreover have "{?e..<r_end (c_allocated c)} \<subseteq> p_alloc p" using sub pa by blast
    moreover have "planner_inv ?p" using resize_runner_state_inv [OF inv, of i sz] eq by simp
    ultimately show ?thesis using eq view True st by auto
  qed
qed

text \<open>Allocating a free range for a new runner succeeds.\<close>

lemma allocate_pending_view:
  assumes inv: "planner_inv p" and new: "get_runner_state p i = None"
    and r: "r_start r < r_end r" "r_end r \<le> p_total p"
    and free: "r_bytes r \<inter> p_alloc p = {}" and "p_max_chunk_count p = None"
  shows "\<exists>p'. allocate_pending_chunk p r i = (True, p') \<and> planner_inv p'
    \<and> get_runner_state p' = (get_runner_state p)(i \<mapsto> chunk_new r (Some i) Pending)
    \<and> p_total p' = p_total p \<and> p_max_chunk_count p' = None \<and> p_min_chunk_size p' = p_min_chunk_size p
    \<and> p_alloc p' = p_alloc p \<union> r_bytes r
    \<and> get_active_runners_count p' = Suc (get_active_runners_count p)"
proof -
  let ?c = "chunk_new r (Some i) Pending"
  let ?p = "p\<lparr>p_chunks := bt_insert (r_start r) ?c (p_chunks p),
              p_runner_to_chunk := (p_runner_to_chunk p)(i \<mapsto> r_start r)\<rparr>"
  have lay: "layout 0 (p_chunks p) (p_total p)" using inv by (simp add: planner_inv_def)
  have "\<not> r_start r < r_end (c_allocated d)" if "bt_last_below (r_end r) (p_chunks p) = Some (j, d)" for j d
  proof
    assume lt: "r_start r < r_end (c_allocated d)"
    have jd: "(j, d) \<in> set (p_chunks p)" "j < r_end r" using bt.last_below_Some [OF that] by auto
    have ok: "chunk_ok j d" using layout_entries [OF lay jd(1)] by simp
    have "d \<in> set (bt_values (p_chunks p))" using jd(1) bt_values_entry by metis
    then have sub: "r_bytes (c_allocated d) \<subseteq> p_alloc p" by (auto simp: alloc_bytes_def)
    let ?x = "max (r_start r) j"
    have "?x \<in> r_bytes r" "?x \<in> r_bytes (c_allocated d)"
      using lt jd(2) ok r(1) by (auto simp: chunk_ok_def)
    then show False using free sub by blast
  qed
  then have eq: "allocate_pending_chunk p r i = (True, ?p)"
    using r assms(6)
    by (auto simp: allocate_pending_chunk_def allocate_chunk_inner_def split: option.splits)
  have nomap: "p_runner_to_chunk p i = None"
    using new runner_state_dom [OF inv] by (metis domIff)
  have inv': "planner_inv ?p"
    using allocate_chunk_inner_inv [OF inv, of r "Some i" Pending ?p] eq nomap
    by (simp add: allocate_pending_chunk_def)
  have fresh: "bt_get (r_start r) (p_chunks p) = None"
  proof (rule ccontr)
    assume "bt_get (r_start r) (p_chunks p) \<noteq> None"
    then obtain d where d: "(r_start r, d) \<in> set (p_chunks p)"
      using bt.entries_get [OF planner_inv_bt [OF inv]] by blast
    then have "chunk_ok (r_start r) d" using layout_entries [OF lay] by blast
    moreover have "r_bytes (c_allocated d) \<subseteq> p_alloc p"
      using d bt_values_entry [of d "p_chunks p"] by (auto simp: alloc_bytes_def)
    ultimately have "r_start r \<in> p_alloc p" by (auto simp: chunk_ok_def)
    then show False using free r(1) by auto
  qed
  have get: "bt_get l (p_chunks ?p) = (if l = r_start r then Some ?c else bt_get l (p_chunks p))" for l
    by (simp add: bt.get_insert [OF planner_inv_bt [OF inv]])
  have "get_runner_state ?p j = ((get_runner_state p)(i \<mapsto> ?c)) j" for j
  proof (cases "p_runner_to_chunk p j")
    case None
    then show ?thesis using get by (simp add: get_runner_state_def)
  next
    case (Some l)
    have "l \<noteq> r_start r" using planner_runner_entry [OF inv Some] fresh by (metis option.distinct(1))
    then show ?thesis using Some get by (simp add: get_runner_state_def)
  qed
  then have view: "get_runner_state ?p = (get_runner_state p)(i \<mapsto> ?c)" by blast
  have ins: "set (bt_values (bt_insert (r_start r) ?c (p_chunks p))) = insert ?c (set (bt_values (p_chunks p)))"
  proof -
    have "set (bt_insert (r_start r) ?c (p_chunks p))
        = insert (r_start r, ?c) {e \<in> set (p_chunks p). fst e \<noteq> r_start r}"
      by (rule bt.entries_insert [OF planner_inv_bt [OF inv]])
    also have "{e \<in> set (p_chunks p). fst e \<noteq> r_start r} = set (p_chunks p)"
      using fresh bt.entries_get [OF planner_inv_bt [OF inv]] by force
    finally show ?thesis by (simp add: bt_values_def)
  qed
  have bytes: "p_alloc ?p = p_alloc p \<union> r_bytes r"
    using ins by (auto simp: alloc_bytes_def chunk_new_def)
  have "length (filter P (bt_values (bt_insert k c xs))) = (if P c then 1 else 0) + length (filter P (bt_values xs))"
    if "bt_get k xs = None" for P k and c :: chunk_state and xs
    using that by (induction k c xs rule: bt_insert.induct) (auto simp: bt_get_def split: if_splits)
  from this [OF fresh, of "\<lambda>c. is_active (c_status c)" ?c]
  have "get_active_runners_count ?p = Suc (get_active_runners_count p)"
    by (simp add: get_active_runners_count_def chunk_new_def is_active_def)
  then show ?thesis using eq inv' view bytes assms(6) by simp
qed

end
