(* ===== verification/Runner_Manager_Inv.thy ===== *)
theory Runner_Manager_Inv
  imports Runner_Manager Runner_View
begin

text \<open>
  What the runner manager keeps between events: the taken ids, the planner's runners and the
  limit mailboxes are the same set; each of them has a registered lifecycle stream or a rejected
  spawn to report; the connecting runners are the registered ones whose chunk is pending; data is
  polled only from runners that have started. With it no \<open>expect\<close> of a handler can fail.
\<close>

section \<open>The invariant\<close>

definition pending_ids :: "planner \<Rightarrow> runner_id set" where
  "pending_ids p = {i. \<exists>c. get_runner_state p i = Some c \<and> c_status c = Pending}"

definition sampler_ok :: "instant \<Rightarrow> outcome_sampler \<Rightarrow> bool" where
  "sampler_ok t s \<longleftrightarrow> outcomes_ok s t \<and> os_window s = from_secs 60 \<and> from_secs 60 \<le> t"

abbreviation spawn_failed_ids :: "runner_manager \<Rightarrow> runner_id set" where
  "spawn_failed_ids m \<equiv> fst ` set (rm_spawn_failures m)"

abbreviation taken_ids :: "runner_manager \<Rightarrow> runner_id set" where
  "taken_ids m \<equiv> gen_ids (rm_ids m)"

definition rm_inv :: "instant \<Rightarrow> runner_manager \<Rightarrow> bool" where
  "rm_inv t m \<longleftrightarrow>
     planner_inv (rm_planner m) \<and> p_max_chunk_count (rm_planner m) = None
     \<and> gen_inv (rm_ids m)
     \<and> dom (get_runner_state (rm_planner m)) = taken_ids m
     \<and> dom (rm_limits m) = taken_ids m
     \<and> rm_lifecycle m \<union> spawn_failed_ids m = taken_ids m
     \<and> rm_lifecycle m \<inter> spawn_failed_ids m = {}
     \<and> distinct (map fst (rm_spawn_failures m))
     \<and> rm_connecting m = rm_lifecycle m \<inter> pending_ids (rm_planner m)
     \<and> rm_data m \<subseteq> rm_lifecycle m - pending_ids (rm_planner m)
     \<and> spawn_failed_ids m \<subseteq> pending_ids (rm_planner m)
     \<and> sampler_ok t (rm_sampler m)
     \<and> bt_invar (rm_meters m) \<and> fst ` set (rm_meters m) \<subseteq> rm_lifecycle m"

lemma is_connecting_pending: "is_connecting m i \<longleftrightarrow> i \<in> pending_ids (rm_planner m)"
  by (auto simp: is_connecting_def pending_ids_def split: option.splits)

lemma pending_update:
  "get_runner_state p' = (get_runner_state p)(i := x) \<Longrightarrow>
   pending_ids p' = (case x of None \<Rightarrow> pending_ids p - {i}
     | Some c \<Rightarrow> if c_status c = Pending then insert i (pending_ids p) else pending_ids p - {i})"
  by (auto simp: pending_ids_def split: option.splits if_splits)

lemma rm_invD:
  assumes "rm_inv t m"
  shows "planner_inv (rm_planner m)" and "gen_inv (rm_ids m)"
    and "dom (get_runner_state (rm_planner m)) = taken_ids m"
    and "p_max_chunk_count (rm_planner m) = None"
    and "sampler_ok t (rm_sampler m)" and "rm_lifecycle m \<subseteq> taken_ids m"
    and "rm_data m \<subseteq> rm_lifecycle m" and "rm_data m \<inter> pending_ids (rm_planner m) = {}"
    and "rm_connecting m = rm_lifecycle m \<inter> pending_ids (rm_planner m)"
    and "spawn_failed_ids m \<subseteq> taken_ids m" and "dom (rm_limits m) = taken_ids m"
    and "spawn_failed_ids m \<subseteq> pending_ids (rm_planner m)"
proof -
  note * = assms [unfolded rm_inv_def]
  show "planner_inv (rm_planner m)" and "gen_inv (rm_ids m)"
    and "dom (get_runner_state (rm_planner m)) = taken_ids m"
    and "p_max_chunk_count (rm_planner m) = None"
    and "sampler_ok t (rm_sampler m)" and "dom (rm_limits m) = taken_ids m"
    and "rm_connecting m = rm_lifecycle m \<inter> pending_ids (rm_planner m)"
    and "spawn_failed_ids m \<subseteq> pending_ids (rm_planner m)"
    using * by - (elim conjE, assumption)+
  have u: "rm_lifecycle m \<union> spawn_failed_ids m = taken_ids m"
    and d: "rm_data m \<subseteq> rm_lifecycle m - pending_ids (rm_planner m)"
    using * by - (elim conjE, assumption)+
  show "rm_lifecycle m \<subseteq> taken_ids m" and "spawn_failed_ids m \<subseteq> taken_ids m" using u by blast+
  show "rm_data m \<subseteq> rm_lifecycle m" and "rm_data m \<inter> pending_ids (rm_planner m) = {}" using d by blast+
qed

lemma sample_ok:
  assumes "sampler_ok t s" and "t \<le> now"
  shows "\<exists>s'. record_outcome s x now = Done s' \<and> sampler_ok now s'"
  using record_outcome_ok [of s t now x] assms by (auto simp: sampler_ok_def)

lemma sampler_ok_later: "sampler_ok t s \<Longrightarrow> t \<le> now \<Longrightarrow> sampler_ok now s"
  by (force simp: sampler_ok_def outcomes_ok_def)

lemma rm_inv_later: "rm_inv t m \<Longrightarrow> t \<le> now \<Longrightarrow> rm_inv now m"
  unfolding rm_inv_def by (elim conjE, intro conjI) (assumption | erule (1) sampler_ok_later)+

lemma manager_new_inv:
  assumes "tot < u64_bound" and "2 * n < u64_bound" and "from_secs 60 \<le> t"
  shows "rm_inv t (manager_new tot n)"
  using assms gen_inv_new [of n] planner_inv_new [of tot]
  by (auto simp: rm_inv_def manager_new_def planner_new_def get_runner_state_def sampler_ok_def
      outcomes_ok_def outcome_sampler_default_def outcome_sampler_new_def pending_ids_def bt_invar_def)

section \<open>A runner that leaves\<close>

lemma bt_remove_keys: "fst ` set (bt_remove i m) = fst ` set m - {i}"
  by (auto simp: bt_remove_def)

text \<open>However a runner leaves, everything that belongs to it is released together.\<close>

lemma rm_inv_release:
  assumes inv: "rm_inv t m" and i: "i \<in> taken_ids m"
    and P: "planner_inv (rm_planner m')" "p_max_chunk_count (rm_planner m') = None"
      "get_runner_state (rm_planner m') = (get_runner_state (rm_planner m))(i := None)"
    and rel: "rm_ids m' = snd (gen_release (rm_ids m) i)" "rm_limits m' = (rm_limits m)(i := None)"
      "rm_lifecycle m' = rm_lifecycle m - {i}" "rm_connecting m' = rm_connecting m - {i}"
      "rm_data m' = rm_data m - {i}"
    and sf: "spawn_failed_ids m' = spawn_failed_ids m - {i}" "distinct (map fst (rm_spawn_failures m'))"
    and s: "sampler_ok now (rm_sampler m')"
    and mt: "bt_invar (rm_meters m')" "fst ` set (rm_meters m') = fst ` set (rm_meters m) - {i}"
  shows "rm_inv now m'"
proof -
  obtain b g where g: "gen_release (rm_ids m) i = (b, g)" by fastforce
  have ids: "gen_ids g = taken_ids m - {i}" "gen_inv g"
    using gp.free_id [OF rm_invD(2) [OF inv] g] by auto
  have pend: "pending_ids (rm_planner m') = pending_ids (rm_planner m) - {i}"
    using pending_update [OF P(3)] by simp
  have d: "dom (get_runner_state (rm_planner m')) = taken_ids m - {i}"
    using P(3) rm_invD(3) [OF inv] by auto
  have l: "dom (rm_limits m') = taken_ids m - {i}" using rel(2) rm_invD(11) [OF inv] by auto
  show ?thesis
    using inv P(1,2) rel sf s mt g ids pend d l unfolding rm_inv_def by auto
qed

lemma mark_failed_expect:
  assumes inv: "rm_inv t m" and i: "i \<in> taken_ids m" and P: "rm_planner m' = rm_planner m"
  shows "\<exists>r p. planner_expect m' (mark_failed (rm_planner m') i) = Done (r, m'\<lparr>rm_planner := p\<rparr>)
    \<and> planner_inv p \<and> p_max_chunk_count p = None
    \<and> get_runner_state p = (get_runner_state (rm_planner m))(i := None)"
proof -
  obtain c where "get_runner_state (rm_planner m) i = Some c" using i rm_invD(3) [OF inv] by blast
  from mark_failed_view [OF rm_invD(1) [OF inv] this] show ?thesis
    using P rm_invD(4) [OF inv] by (auto simp: planner_expect_def)
qed

lemma mark_finished_expect:
  assumes inv: "rm_inv t m" and i: "i \<in> taken_ids m" and P: "rm_planner m' = rm_planner m"
  shows "\<exists>p. planner_expect m' (mark_finished (rm_planner m') i) = Done ((), m'\<lparr>rm_planner := p\<rparr>)
    \<and> planner_inv p \<and> p_max_chunk_count p = None
    \<and> get_runner_state p = (get_runner_state (rm_planner m))(i := None)"
proof -
  obtain c where "get_runner_state (rm_planner m) i = Some c" using i rm_invD(3) [OF inv] by blast
  from mark_finished_view [OF rm_invD(1) [OF inv] this] show ?thesis
    using P rm_invD(4) [OF inv] by (auto simp: planner_expect_def)
qed

lemma sample_outcome_ok:
  assumes "sampler_ok t (rm_sampler m)" and "t \<le> now"
  shows "\<exists>s. sample_outcome m x now = Done (m\<lparr>rm_sampler := s\<rparr>) \<and> sampler_ok now s"
proof -
  obtain s where "record_outcome (rm_sampler m) x now = Done s" "sampler_ok now s"
    using sample_ok [OF assms] by blast
  then show ?thesis by (auto simp: sample_outcome_def)
qed

text \<open>The manager after \<open>release_runner\<close>, with the rest of the departure still to come.\<close>

definition departed :: "runner_manager \<Rightarrow> runner_id \<Rightarrow> runner_manager \<Rightarrow> bool" where
  "departed m i m' \<longleftrightarrow>
     rm_planner m' = rm_planner m \<and> rm_sampler m' = rm_sampler m
     \<and> rm_ids m' = snd (gen_release (rm_ids m) i) \<and> rm_limits m' = (rm_limits m)(i := None)
     \<and> rm_lifecycle m' = rm_lifecycle m - {i} \<and> rm_connecting m' = rm_connecting m - {i}
     \<and> rm_data m' = rm_data m - {i}
     \<and> spawn_failed_ids m' = spawn_failed_ids m - {i} \<and> distinct (map fst (rm_spawn_failures m'))
     \<and> bt_invar (rm_meters m') \<and> fst ` set (rm_meters m') = fst ` set (rm_meters m) - {i}"

lemma departed_inv:
  assumes "rm_inv t m" and "i \<in> taken_ids m" and "departed m i m'"
    and "planner_inv p" and "p_max_chunk_count p = None"
    and "get_runner_state p = (get_runner_state (rm_planner m))(i := None)" and "sampler_ok now s"
  shows "rm_inv now (m'\<lparr>rm_planner := p, rm_sampler := s\<rparr>)"
  by (rule rm_inv_release [OF assms(1,2)]) (use assms in \<open>simp_all add: departed_def\<close>)

lemma departed_inv_same:
  assumes "rm_inv t m" and "i \<in> taken_ids m" and "departed m i m'"
    and "planner_inv p" and "p_max_chunk_count p = None"
    and "get_runner_state p = (get_runner_state (rm_planner m))(i := None)" and "t \<le> now"
  shows "rm_inv now (m'\<lparr>rm_planner := p\<rparr>)"
  by (rule rm_inv_release [OF assms(1,2)])
    (use assms sampler_ok_later [OF rm_invD(5) [OF assms(1)] assms(7)] in \<open>simp_all add: departed_def\<close>)

text \<open>Whether a tick reports the failure of runner \<open>i\<close>.\<close>

definition tick_ok :: "runner_id \<Rightarrow> runner_tick \<Rightarrow> bool" where
  "tick_ok i t \<longleftrightarrow> t = tick_downloading \<or> t = tick_finished
     \<or> (\<exists>e. \<not> task_error_is_cancelled e \<and> t = tick_with_failure
           \<lparr>af_runner_id = i, af_error = e, af_retryable = is_attempt_retryable e\<rparr>)"

lemma handle_connect_failed_ok:
  assumes "rm_inv t m" and "i \<in> taken_ids m" and "departed m i m'" and "t \<le> now"
  shows "\<exists>tk m''. handle_connect_failed m' i e now = Done (tk, m'') \<and> rm_inv now m'' \<and> tick_ok i tk"
proof -
  have P: "rm_planner m' = rm_planner m" "rm_sampler m' = rm_sampler m"
    using assms(3) by (simp_all add: departed_def)
  obtain r p where p: "planner_expect m' (mark_failed (rm_planner m') i) = Done (r, m'\<lparr>rm_planner := p\<rparr>)"
    "planner_inv p" "p_max_chunk_count p = None"
    "get_runner_state p = (get_runner_state (rm_planner m))(i := None)"
    using mark_failed_expect [OF assms(1,2) P(1)] by blast
  have s: "sampler_ok t (rm_sampler m)" by (rule rm_invD(5) [OF assms(1)])
  show ?thesis
  proof (cases "task_error_is_cancelled e")
    case True
    have "rm_inv now (m'\<lparr>rm_planner := p\<rparr>)"
      by (rule departed_inv_same [OF assms(1-3) p(2-4) assms(4)])
    then show ?thesis using True p(1) P(2) by (simp add: handle_connect_failed_def tick_ok_def)
  next
    case False
    obtain q where q: "sample_outcome (m'\<lparr>rm_planner := p\<rparr>) (Connect_Failed (failure_kind_of (is_attempt_retryable e))) now
        = Done (m'\<lparr>rm_planner := p\<rparr>\<lparr>rm_sampler := q\<rparr>)" "sampler_ok now q"
      using sample_outcome_ok [of t "m'\<lparr>rm_planner := p\<rparr>" now] s P(2) assms(4) by auto
    then show ?thesis
      using False p(1) departed_inv [OF assms(1-3) p(2-4) q(2)]
      by (auto simp: handle_connect_failed_def tick_ok_def Let_def)
  qed
qed

lemma departed_release:
  assumes "rm_inv t m" and "i \<notin> spawn_failed_ids m"
  shows "departed m i (release_runner (m\<lparr>rm_meters := bt_remove i (rm_meters m)\<rparr>) i)"
proof -
  have "bt_invar (bt_remove i (rm_meters m))"
    using assms(1) bt.invar_remove by (auto simp: rm_inv_def)
  moreover have "distinct (map fst (rm_spawn_failures m))" using assms(1) by (simp add: rm_inv_def)
  ultimately show ?thesis
    using assms(2) by (auto simp: departed_def release_runner_def bt_remove_keys)
qed

lemma handle_stopped_ok:
  assumes inv: "rm_inv t m" and i: "i \<in> rm_lifecycle m" and "t \<le> now"
  shows "\<exists>tk m'. handle_stopped m i reason now = Done (tk, m') \<and> rm_inv now m' \<and> tick_ok i tk
    \<and> (tk = tick_finished \<longrightarrow> planner_is_complete (rm_planner m'))"
proof -
  let ?m = "release_runner (m\<lparr>rm_meters := bt_remove i (rm_meters m)\<rparr>) i"
  have taken: "i \<in> taken_ids m" using rm_invD(6) [OF inv] i by blast
  have "i \<notin> spawn_failed_ids m" using inv i by (auto simp: rm_inv_def)
  then have dep: "departed m i ?m" by (rule departed_release [OF inv])
  then have P: "rm_planner ?m = rm_planner m" "rm_sampler ?m = rm_sampler m" by (simp_all add: departed_def)
  have s: "sampler_ok t (rm_sampler m)" by (rule rm_invD(5) [OF inv])
  obtain r p where p: "planner_expect ?m (mark_failed (rm_planner ?m) i) = Done (r, ?m\<lparr>rm_planner := p\<rparr>)"
    "planner_inv p" "p_max_chunk_count p = None"
    "get_runner_state p = (get_runner_state (rm_planner m))(i := None)"
    using mark_failed_expect [OF inv taken P(1)] by blast
  obtain f where f: "planner_expect ?m (mark_finished (rm_planner ?m) i) = Done ((), ?m\<lparr>rm_planner := f\<rparr>)"
    "planner_inv f" "p_max_chunk_count f = None"
    "get_runner_state f = (get_runner_state (rm_planner m))(i := None)"
    using mark_finished_expect [OF inv taken P(1)] by blast
  have samp: "\<exists>q. sample_outcome (?m\<lparr>rm_planner := x\<rparr>) out now = Done (?m\<lparr>rm_planner := x\<rparr>\<lparr>rm_sampler := q\<rparr>)
      \<and> sampler_ok now q" for x out
    using sample_outcome_ok [of t "?m\<lparr>rm_planner := x\<rparr>" now] s P(2) assms(3) by auto
  show ?thesis
  proof (cases "is_connecting m i")
    case True
    let ?e = "case reason of Stop_Failed e \<Rightarrow> e | Stop_Finished \<Rightarrow> Channel_Closed"
    have "handle_stopped m i reason now = handle_connect_failed ?m i ?e now"
      using True by (simp add: handle_stopped_def Let_def)
    moreover obtain tk m' where "handle_connect_failed ?m i ?e now = Done (tk, m')" "rm_inv now m'" "tick_ok i tk"
      using handle_connect_failed_ok [OF inv taken dep assms(3)] by blast
    moreover from this have "tk \<noteq> tick_finished"
      by (auto simp: handle_connect_failed_def planner_expect_def sample_outcome_def bind_run_Done Let_def
          tick_downloading_def tick_finished_def tick_with_failure_def split: if_splits)
    ultimately show ?thesis by auto
  next
    case run: False
    show ?thesis
    proof (cases "reason = Stop_Finished \<or> reason = Stop_Failed Exceeded_Total_Size")
      case True
      obtain q where q: "sample_outcome (?m\<lparr>rm_planner := f\<rparr>) Completed now = Done (?m\<lparr>rm_planner := f\<rparr>\<lparr>rm_sampler := q\<rparr>)"
        "sampler_ok now q" using samp by blast
      then show ?thesis
        using True run f(1) departed_inv [OF inv taken dep f(2-4) q(2)]
        by (auto simp: handle_stopped_def mark_runner_completed_def Let_def tick_ok_def
            tick_downloading_def tick_finished_def)
    next
      case False
      then obtain e where e: "reason = Stop_Failed e" "e \<noteq> Exceeded_Total_Size"
        by (cases reason) auto
      show ?thesis
      proof (cases "task_error_is_cancelled e")
        case True
        have "rm_inv now (?m\<lparr>rm_planner := p\<rparr>)"
          by (rule departed_inv_same [OF inv taken dep p(2-4) assms(3)])
        then show ?thesis
          using True run e p(1) P(2)
          by (simp add: handle_stopped_def Let_def tick_ok_def tick_downloading_def tick_finished_def)
      next
        case nc: False
        obtain q where q: "sample_outcome (?m\<lparr>rm_planner := p\<rparr>) (Stream_Closed (failure_kind_of (is_retryable e))) now
            = Done (?m\<lparr>rm_planner := p\<rparr>\<lparr>rm_sampler := q\<rparr>)" "sampler_ok now q" using samp by blast
        then show ?thesis
          using nc run e p(1) departed_inv [OF inv taken dep p(2-4) q(2)]
          by (auto simp: handle_stopped_def Let_def tick_ok_def tick_with_failure_def tick_finished_def)
      qed
    qed
  qed
qed

lemma handle_runner_lost_ok:
  assumes inv: "rm_inv t m" and i: "i \<in> rm_lifecycle m" and now: "t \<le> now"
  shows "\<exists>tk m'. handle_runner_lost (m\<lparr>rm_lifecycle := rm_lifecycle m - {i}\<rparr>) i now = Done (tk, m')
    \<and> rm_inv now m' \<and> tick_ok i tk \<and> (tk = tick_finished \<longrightarrow> planner_is_complete (rm_planner m'))"
proof -
  let ?m = "m\<lparr>rm_lifecycle := rm_lifecycle m - {i}, rm_meters := bt_remove i (rm_meters m)\<rparr>"
  have taken: "i \<in> taken_ids m" using rm_invD(6) [OF inv] i by blast
  have sf: "i \<notin> spawn_failed_ids m" using inv i by (auto simp: rm_inv_def)
  obtain r p where p: "planner_expect ?m (mark_failed (rm_planner ?m) i) = Done (r, ?m\<lparr>rm_planner := p\<rparr>)"
    "planner_inv p" "p_max_chunk_count p = None"
    "get_runner_state p = (get_runner_state (rm_planner m))(i := None)"
    using mark_failed_expect [OF inv taken, of ?m] by auto
  let ?out = "if is_connecting (m\<lparr>rm_lifecycle := rm_lifecycle m - {i}\<rparr>) i
              then Connect_Failed Fail_Retryable else Stream_Closed Fail_Retryable"
  obtain q where q: "sample_outcome (?m\<lparr>rm_planner := p\<rparr>) ?out now = Done (?m\<lparr>rm_planner := p\<rparr>\<lparr>rm_sampler := q\<rparr>)"
    "sampler_ok now q"
    using sample_outcome_ok [of t "?m\<lparr>rm_planner := p\<rparr>" now ?out] rm_invD(5) [OF inv] now by auto
  let ?m' = "release_runner (?m\<lparr>rm_planner := p\<rparr>\<lparr>rm_sampler := q\<rparr>) i"
  have "rm_inv now ?m'"
  proof (rule rm_inv_release [OF inv taken])
    show "bt_invar (rm_meters ?m')"
      using inv bt.invar_remove by (auto simp: rm_inv_def release_runner_def)
    show "distinct (map fst (rm_spawn_failures ?m'))" using inv by (simp add: rm_inv_def release_runner_def)
  qed (use p q sf in \<open>auto simp: release_runner_def bt_remove_keys\<close>)
  then show ?thesis
    using p(1) q(1)
    by (auto simp: handle_runner_lost_def Let_def tick_ok_def task_error_is_cancelled_def
        is_attempt_retryable_def tick_with_failure_def tick_finished_def)
qed

lemma handle_spawn_failed_ok:
  assumes inv: "rm_inv t m" and sf: "rm_spawn_failures m = (i, e) # rest" and now: "t \<le> now"
  shows "\<exists>tk m'. handle_spawn_failed (m\<lparr>rm_spawn_failures := rest\<rparr>) i e now = Done (tk, m')
    \<and> rm_inv now m' \<and> tick_ok i tk"
proof -
  let ?m = "release_runner (m\<lparr>rm_spawn_failures := rest\<rparr>) i"
  have taken: "i \<in> taken_ids m" using rm_invD(10) [OF inv] sf by auto
  have dist: "distinct (map fst (rm_spawn_failures m))" using inv by (simp add: rm_inv_def)
  then have i: "i \<notin> fst ` set rest" "distinct (map fst rest)" using sf by auto
  have "i \<notin> rm_lifecycle m" using inv sf by (auto simp: rm_inv_def)
  then have "i \<notin> fst ` set (rm_meters m)" "bt_invar (rm_meters m)" using inv by (auto simp: rm_inv_def)
  then have "departed m i ?m" using i sf by (auto simp: departed_def release_runner_def)
  then show ?thesis
    using handle_connect_failed_ok [OF inv taken _ now, of ?m] by (simp add: handle_spawn_failed_def)
qed

end
