(* ===== verification/Runner_Manager_Props.thy ===== *)
theory Runner_Manager_Props
  imports Runner_Manager_Inv
begin

text \<open>
  The properties of the runner manager: polling never panics and keeps the invariant whatever the
  runners report; a chunk handed to the writer carries exactly the bytes of its range; spawning
  on free bytes succeeds exactly when an id is free; a resize lowers the planner's chunk and the
  runner's limit together, or neither.
\<close>

section \<open>Starting and data\<close>

lemma handle_started_ok:
  assumes inv: "rm_inv t m" and i: "i \<in> rm_lifecycle m" "is_connecting m i" and now: "t \<le> now"
  shows "\<exists>m'. handle_started m i = Done (tick_downloading, m') \<and> rm_inv now m'"
proof -
  have pend: "i \<in> pending_ids (rm_planner m)" using i(2) by (simp add: is_connecting_pending)
  then obtain c where c: "get_runner_state (rm_planner m) i = Some c" by (auto simp: pending_ids_def)
  obtain p where p: "mark_running (rm_planner m) i = (Inr (), p)" "planner_inv p"
    "get_runner_state p = (get_runner_state (rm_planner m))(i \<mapsto> c\<lparr>c_status := Running\<rparr>)"
    "p_max_chunk_count p = p_max_chunk_count (rm_planner m)"
    using mark_running_view [OF rm_invD(1) [OF inv] c] by blast
  have conn: "i \<in> rm_connecting m" using rm_invD(9) [OF inv] i(1) pend by blast
  let ?m = "m\<lparr>rm_planner := p, rm_connecting := rm_connecting m - {i}, rm_data := insert i (rm_data m)\<rparr>"
  have pend': "pending_ids p = pending_ids (rm_planner m) - {i}" using pending_update [OF p(3)] by simp
  have dom': "dom (get_runner_state p) = dom (get_runner_state (rm_planner m))"
    using p(3) c by auto
  have "i \<notin> spawn_failed_ids m" using inv i(1) by (auto simp: rm_inv_def)
  then have "rm_inv now ?m"
    using rm_inv_later [OF inv now] p(2,4) pend' dom' i(1) unfolding rm_inv_def by auto
  then show ?thesis using p(1) conn by (simp add: handle_started_def planner_expect_def)
qed

lemma handle_data_frame_ok:
  assumes inv: "rm_inv t m" and i: "i \<in> rm_data m" and now: "t \<le> now"
  shows "\<exists>c m'. handle_data_frame m i frame = Done (c, m') \<and> rm_inv now m'
    \<and> dc_bytes c = take (r_len (dc_range c)) frame \<and> length (dc_bytes c) = r_len (dc_range c)
    \<and> r_start (dc_range c) \<le> r_end (dc_range c) \<and> r_end (dc_range c) \<le> manager_total m
    \<and> update_progress (rm_planner m) i (length frame) = (Inr (dc_range c), rm_planner m')"
proof -
  note P = rm_invD(1) [OF inv]
  have l: "i \<in> rm_lifecycle m" using rm_invD(7) [OF inv] i by blast
  then have "i \<in> dom (get_runner_state (rm_planner m))" using rm_invD(3,6) [OF inv] by blast
  then obtain c where c: "get_runner_state (rm_planner m) i = Some c" by blast
  have np: "i \<notin> pending_ids (rm_planner m)" using rm_invD(8) [OF inv] i by blast
  then have nc: "c_status c \<noteq> Pending" using c by (auto simp: pending_ids_def)
  obtain r p c' where u: "update_progress (rm_planner m) i (length frame) = (Inr r, p)" "planner_inv p"
    "get_runner_state p = (get_runner_state (rm_planner m))(i \<mapsto> c')"
    "p_max_chunk_count p = p_max_chunk_count (rm_planner m)"
    "c_status c' = c_status c \<or> c_status c' = Finished"
    "r_start r \<le> r_end r" "r_end r \<le> r_start r + length frame" "r_end r \<le> p_total (rm_planner m)"
    using update_progress_view [OF P c, of "length frame"] by blast
  have "c_status c' \<noteq> Pending" using u(5) nc by auto
  then have pend': "pending_ids p = pending_ids (rm_planner m)" using pending_update [OF u(3)] np by simp
  have dom': "dom (get_runner_state p) = dom (get_runner_state (rm_planner m))" using u(3) c by auto
  define mt where "mt = bt_insert i (add64 (case bt_get i (rm_meters m) of None \<Rightarrow> 0 | Some n \<Rightarrow> n)
      (length frame)) (rm_meters m)"
  let ?m = "m\<lparr>rm_meters := mt, rm_planner := p\<rparr>"
  have mt: "bt_invar mt" "fst ` set mt \<subseteq> rm_lifecycle m"
  proof -
    have "bt_invar (rm_meters m)" "fst ` set (rm_meters m) \<subseteq> rm_lifecycle m"
      using inv by (simp_all add: rm_inv_def)
    then show "bt_invar mt" "fst ` set mt \<subseteq> rm_lifecycle m"
      unfolding mt_def bt_insert_keys using l by (simp_all add: bt.invar_insert)
  qed
  have "rm_inv now ?m"
    using rm_inv_later [OF inv now] u(2,4) pend' dom' mt by (simp add: rm_inv_def)
  moreover have "sub64 (r_end r) (r_start r) = r_len r"
    using u(6,8) P by (intro sub64_exact) (auto simp: planner_inv_def)
  moreover have "planner_expect (m\<lparr>rm_meters := mt\<rparr>) (update_progress (rm_planner m) i (length frame))
      = Done (r, ?m)"
    using u(1) by (simp add: planner_expect_def)
  ultimately have eq: "handle_data_frame m i frame
      = Done (\<lparr>dc_range = r, dc_bytes = take (r_len r) frame\<rparr>, ?m)"
    unfolding handle_data_frame_def Let_def mt_def [symmetric] by simp
  have "r_len r \<le> length frame" using u(7) by simp
  then show ?thesis
    using eq \<open>rm_inv now ?m\<close> u(1,6,8) by (simp add: manager_total_def)
qed

section \<open>Polling\<close>

text \<open>
  What the streams may yield: an event of a registered stream, and \<open>Started\<close> only from a runner
  that is connecting. The runner guarantees the latter: it sends \<open>Started\<close> once, first.
\<close>

fun legal_lifecycle :: "runner_manager \<Rightarrow> lifecycle_event group_event \<Rightarrow> bool" where
  "legal_lifecycle m Group_Pending \<longleftrightarrow> True"
| "legal_lifecycle m (Group_Item i e) \<longleftrightarrow> i \<in> rm_lifecycle m \<and> (e = Started \<longrightarrow> is_connecting m i)"
| "legal_lifecycle m (Group_Closed i) \<longleftrightarrow> i \<in> rm_lifecycle m"

fun legal_data :: "runner_manager \<Rightarrow> chunk group_event \<Rightarrow> bool" where
  "legal_data m (Group_Item i frame) \<longleftrightarrow> i \<in> rm_data m"
| "legal_data m _ \<longleftrightarrow> True"

lemma connect_failed_tick: "handle_connect_failed m i e now = Done (tk, m') \<Longrightarrow> tk \<noteq> tick_finished"
  by (auto simp: handle_connect_failed_def bind_run_Done Let_def tick_downloading_def tick_finished_def
      tick_with_failure_def split: if_splits)

lemma poll_lifecycle_ok:
  assumes inv: "rm_inv t m" and now: "t \<le> now" and ev: "legal_lifecycle m ev"
  shows "\<exists>tk m'. poll_lifecycle m ev now = Done (tk, m') \<and> rm_inv now m'
    \<and> (tk = None \<longrightarrow> m' = m)
    \<and> (\<forall>k. tk = Some k \<longrightarrow> (\<exists>i. tick_ok i k) \<and> tk_downloaded k = None)
    \<and> (tk = Some tick_finished \<longrightarrow> planner_is_complete (rm_planner m'))"
proof (cases "rm_spawn_failures m")
  case (Cons f rest)
  obtain i e where f: "f = (i, e)" by (cases f)
  obtain tk m' where h: "handle_spawn_failed (m\<lparr>rm_spawn_failures := rest\<rparr>) i e now = Done (tk, m')"
    "rm_inv now m'" "tick_ok i tk"
    using handle_spawn_failed_ok [OF inv _ now, of i e rest] Cons f by auto
  moreover have "tk \<noteq> tick_finished" using h by (auto simp: handle_spawn_failed_def dest: connect_failed_tick)
  ultimately show ?thesis
    using Cons f
    by (auto simp: poll_lifecycle_def tick_ok_def tick_downloading_def tick_finished_def
        tick_with_failure_def)
next
  case Nil
  have dl: "tick_ok i k \<Longrightarrow> tk_downloaded k = None" for i k
    by (auto simp: tick_ok_def tick_downloading_def tick_finished_def tick_with_failure_def)
  show ?thesis
  proof (cases "rm_lifecycle m = {} \<or> ev = Group_Pending")
    case True
    then show ?thesis using Nil rm_inv_later [OF inv now] by (auto simp: poll_lifecycle_def)
  next
    case False
    then consider (item) i e where "ev = Group_Item i e" "i \<in> rm_lifecycle m" "e = Started \<longrightarrow> is_connecting m i"
      | (closed) i where "ev = Group_Closed i" "i \<in> rm_lifecycle m"
      using ev by (cases ev) auto
    then show ?thesis
    proof cases
      case item
      obtain tk m' where h: "handle_lifecycle m i e now = Done (tk, m')" "rm_inv now m'" "tick_ok i tk"
        "tk = tick_finished \<longrightarrow> planner_is_complete (rm_planner m')"
      proof (cases e)
        case Started
        then obtain m' where m': "handle_started m i = Done (tick_downloading, m')" "rm_inv now m'"
          using handle_started_ok [OF inv item(2) _ now] item(3) by blast
        show ?thesis
          by (rule that [of tick_downloading m'])
            (use m' Started in \<open>simp_all add: handle_lifecycle_def tick_ok_def tick_downloading_def tick_finished_def\<close>)
      next
        case (Stopped reason)
        then show ?thesis
          using that handle_stopped_ok [OF inv item(2) now, of reason] by (auto simp: handle_lifecycle_def)
      qed
      then show ?thesis using Nil item False dl by (auto simp: poll_lifecycle_def)
    next
      case closed
      obtain tk m' where "handle_runner_lost (m\<lparr>rm_lifecycle := rm_lifecycle m - {i}\<rparr>) i now = Done (tk, m')"
        "rm_inv now m'" "tick_ok i tk" "tk = tick_finished \<longrightarrow> planner_is_complete (rm_planner m')"
        using handle_runner_lost_ok [OF inv closed(2) now] by blast
      then show ?thesis using Nil closed False dl by (auto simp: poll_lifecycle_def)
    qed
  qed
qed

lemma poll_data_ok:
  assumes inv: "rm_inv t m" and now: "t \<le> now" and ev: "legal_data m ev"
  shows "\<exists>tk m'. poll_data m ev = Done (tk, m') \<and> rm_inv now m'
    \<and> (\<forall>k. tk = Some k \<longrightarrow> tk_state k = Downloading \<and> tk_failure k = None)
    \<and> (\<forall>k c. tk = Some k \<longrightarrow> tk_downloaded k = Some c \<longrightarrow>
         length (dc_bytes c) = r_len (dc_range c) \<and> r_end (dc_range c) \<le> manager_total m
         \<and> (\<exists>i frame. ev = Group_Item i frame \<and> dc_bytes c = take (r_len (dc_range c)) frame
              \<and> update_progress (rm_planner m) i (length frame) = (Inr (dc_range c), rm_planner m')))"
proof (cases "rm_data m = {} \<or> ev = Group_Pending")
  case True
  then show ?thesis using rm_inv_later [OF inv now] by (auto simp: poll_data_def)
next
  case False
  then consider (item) i frame where "ev = Group_Item i frame" "i \<in> rm_data m" | (closed) i where "ev = Group_Closed i"
    using ev by (cases ev) auto
  then show ?thesis
  proof cases
    case item
    obtain c m' where "handle_data_frame m i frame = Done (c, m')" "rm_inv now m'"
      "dc_bytes c = take (r_len (dc_range c)) frame" "length (dc_bytes c) = r_len (dc_range c)"
      "r_end (dc_range c) \<le> manager_total m"
      "update_progress (rm_planner m) i (length frame) = (Inr (dc_range c), rm_planner m')"
      using handle_data_frame_ok [OF inv item(2) now, of frame] by blast
    then show ?thesis using item False by (auto simp: poll_data_def tick_with_chunk_def)
  next
    case closed
    have "rm_inv now (m\<lparr>rm_data := rm_data m - {i}\<rparr>)"
      using rm_inv_later [OF inv now] unfolding rm_inv_def by auto
    then show ?thesis using closed False by (auto simp: poll_data_def tick_downloading_def)
  qed
qed

lemma poll_tick_ok:
  assumes "rm_inv t m" and "t \<le> now" and "legal_lifecycle m lev" and "legal_data m dev"
  shows "\<exists>tk m'. poll_tick m lev dev enabled now = Done (tk, m') \<and> rm_inv now m'
    \<and> (tk = None \<longrightarrow> m' = m)
    \<and> (\<not> enabled \<longrightarrow> (\<forall>k. tk = Some k \<longrightarrow> tk_downloaded k = None))
    \<and> (\<forall>k c. tk = Some k \<longrightarrow> tk_downloaded k = Some c \<longrightarrow>
         length (dc_bytes c) = r_len (dc_range c) \<and> r_end (dc_range c) \<le> manager_total m)
    \<and> (\<forall>k. tk = Some k \<longrightarrow> tk_state k = Task_Finished \<longrightarrow> planner_is_complete (rm_planner m'))
    \<and> (\<forall>k f. tk = Some k \<longrightarrow> tk_failure k = Some f \<longrightarrow>
         af_retryable f = is_attempt_retryable (af_error f) \<and> af_error f \<noteq> Task_Cancelled)"
proof -
  obtain tk m1 where l: "poll_lifecycle m lev now = Done (tk, m1)" "rm_inv now m1" "tk = None \<longrightarrow> m1 = m"
    "\<forall>k. tk = Some k \<longrightarrow> (\<exists>i. tick_ok i k) \<and> tk_downloaded k = None"
    "tk = Some tick_finished \<longrightarrow> planner_is_complete (rm_planner m1)"
    using poll_lifecycle_ok [OF assms(1-3)] by blast
  have fin: "tick_ok i k \<Longrightarrow> tk_state k = Task_Finished \<Longrightarrow> k = tick_finished" for i k
    by (auto simp: tick_ok_def tick_downloading_def tick_finished_def tick_with_failure_def)
  have fail: "tick_ok i k \<Longrightarrow> tk_failure k = Some f \<Longrightarrow>
      af_retryable f = is_attempt_retryable (af_error f) \<and> af_error f \<noteq> Task_Cancelled" for i k f
    by (auto simp: tick_ok_def tick_downloading_def tick_finished_def tick_with_failure_def
        task_error_is_cancelled_def)
  show ?thesis
  proof (cases tk)
    case (Some k)
    then show ?thesis using l fail fin by (auto simp: poll_tick_def)
  next
    case None
    then have m1: "m1 = m" using l(3) by simp
    obtain tk' m' where d: "poll_data m dev = Done (tk', m')" "rm_inv now m'"
      "\<forall>k. tk' = Some k \<longrightarrow> tk_state k = Downloading \<and> tk_failure k = None"
      "\<forall>k c. tk' = Some k \<longrightarrow> tk_downloaded k = Some c \<longrightarrow>
         length (dc_bytes c) = r_len (dc_range c) \<and> r_end (dc_range c) \<le> manager_total m"
      using poll_data_ok [OF assms(1,2,4)] by blast
    have "tk' = None \<longrightarrow> m' = m"
      using d(1) by (auto simp: poll_data_def bind_run_Done split: if_splits group_event.splits)
    then show ?thesis using None l(1,2) m1 d by (cases enabled) (auto simp: poll_tick_def)
  qed
qed


section \<open>Spawning\<close>

lemma allocate_runner_Some:
  assumes "rm_inv t m" and "allocate_runner m = (Some (i, s), m')"
  shows "i \<notin> taken_ids m" and "s = limit_mailbox"
    and "\<exists>g. gen_next (rm_ids m) = (Some i, g) \<and> gen_inv g \<and> gen_ids g = insert i (taken_ids m)
      \<and> gen_capacity g = gen_capacity (rm_ids m)
      \<and> m' = m\<lparr>rm_ids := g, rm_limits := (rm_limits m)(i \<mapsto> limit_mailbox)\<rparr>"
  using assms gp.alloc_Some [OF rm_invD(2) [OF assms(1)]]
  by (auto simp: allocate_runner_def split: prod.splits option.splits)

text \<open>An id handed out for a range that cannot be allocated is given back.\<close>

lemma spawn_refused:
  assumes inv: "rm_inv t m" and a: "allocate_runner m = (Some (i, s), m1)"
    and p: "allocate_pending_chunk (rm_planner m1) r i = (False, p)"
  shows "\<exists>g. spawn_runner_with_chunk m r spawn = (None, m\<lparr>rm_ids := g\<rparr>) \<and> rm_inv t (m\<lparr>rm_ids := g\<rparr>)"
proof -
  note a' = allocate_runner_Some [OF inv a]
  obtain g where g: "gen_inv g" "gen_ids g = insert i (taken_ids m)"
    "m1 = m\<lparr>rm_ids := g, rm_limits := (rm_limits m)(i \<mapsto> limit_mailbox)\<rparr>"
    using a'(3) by blast
  obtain b g' where g': "gen_release g i = (b, g')" by fastforce
  have ids: "gen_ids g' = taken_ids m" "gen_inv g'"
    using gp.free_id [OF g(1) g'] g(2) a'(1) by auto
  have pp: "p = rm_planner m1"
    using p allocate_chunk_inner_False by (auto simp: allocate_pending_chunk_def)
  have no: "i \<notin> rm_lifecycle m" "i \<notin> rm_connecting m" "i \<notin> rm_data m" "rm_limits m i = None"
    using a'(1) rm_invD(6,7,9,11) [OF inv] by auto
  then have "(rm_limits m)(i := None) = rm_limits m" by auto
  then have "release_runner (m1\<lparr>rm_planner := p\<rparr>) i = m\<lparr>rm_ids := g'\<rparr>"
    using no g(3) g' pp by (simp add: release_runner_def)
  moreover have "rm_inv t (m\<lparr>rm_ids := g'\<rparr>)" using inv ids unfolding rm_inv_def by simp
  ultimately show ?thesis using a p by (auto simp: spawn_runner_with_chunk_def)
qed

lemma spawn_accepted:
  assumes inv: "rm_inv t m" and a: "allocate_runner m = (Some (i, s), m1)"
    and r: "r_start r < r_end r" "r_end r \<le> p_total (rm_planner m)"
    and free: "r_bytes r \<inter> p_alloc (rm_planner m) = {}"
  shows "\<exists>m'. spawn_runner_with_chunk m r spawn = (Some (), m') \<and> rm_inv t m'
    \<and> taken_ids m' = insert i (taken_ids m) \<and> i \<notin> taken_ids m
    \<and> gen_capacity (rm_ids m') = gen_capacity (rm_ids m)
    \<and> get_runner_state (rm_planner m')
        = (get_runner_state (rm_planner m))(i \<mapsto> chunk_new r (Some i) Pending)
    \<and> p_alloc (rm_planner m') = p_alloc (rm_planner m) \<union> r_bytes r
    \<and> p_total (rm_planner m') = p_total (rm_planner m)
    \<and> p_min_chunk_size (rm_planner m') = p_min_chunk_size (rm_planner m)
    \<and> get_active_runners_count (rm_planner m') = Suc (get_active_runners_count (rm_planner m))"
proof -
  note a' = allocate_runner_Some [OF inv a]
  obtain g where g: "gen_inv g" "gen_ids g = insert i (taken_ids m)" "gen_capacity g = gen_capacity (rm_ids m)"
    "m1 = m\<lparr>rm_ids := g, rm_limits := (rm_limits m)(i \<mapsto> limit_mailbox)\<rparr>"
    using a'(3) by blast
  have none: "get_runner_state (rm_planner m) i = None" using rm_invD(3) [OF inv] a'(1) by auto
  obtain p where p: "allocate_pending_chunk (rm_planner m) r i = (True, p)" "planner_inv p"
    "get_runner_state p = (get_runner_state (rm_planner m))(i \<mapsto> chunk_new r (Some i) Pending)"
    "p_max_chunk_count p = None" "p_alloc p = p_alloc (rm_planner m) \<union> r_bytes r"
    "p_total p = p_total (rm_planner m)" "p_min_chunk_size p = p_min_chunk_size (rm_planner m)"
    "get_active_runners_count p = Suc (get_active_runners_count (rm_planner m))"
    using allocate_pending_view [OF rm_invD(1) [OF inv] none r free rm_invD(4) [OF inv]] by blast
  let ?m = "m1\<lparr>rm_planner := p\<rparr>"
  let ?m' = "case spawn i of None \<Rightarrow> register_runner_channels ?m i
      | Some failed \<Rightarrow> ?m\<lparr>rm_spawn_failures := rm_spawn_failures ?m @ [(i, failed)]\<rparr>"
  have eq: "spawn_runner_with_chunk m r spawn = (Some (), ?m')"
  proof -
    have "rm_planner m1 = rm_planner m" using g(4) by simp
    then show ?thesis using a p(1) by (simp add: spawn_runner_with_chunk_def Let_def)
  qed
  have pend: "pending_ids p = insert i (pending_ids (rm_planner m))"
    using pending_update [OF p(3)] by (simp add: chunk_new_def)
  have no: "i \<notin> rm_lifecycle m" "i \<notin> rm_data m" "i \<notin> spawn_failed_ids m"
    using a'(1) rm_invD(6,7,10) [OF inv] by auto
  have dom': "dom (get_runner_state p) = insert i (taken_ids m)" using p(3) rm_invD(3) [OF inv] by auto
  have doml: "dom ((rm_limits m)(i \<mapsto> limit_mailbox)) = insert i (taken_ids m)"
    using rm_invD(11) [OF inv] by auto
  have "rm_inv t ?m'"
  proof (cases "spawn i")
    case None
    have "is_connecting (?m\<lparr>rm_lifecycle := insert i (rm_lifecycle ?m)\<rparr>) i"
      using pend by (simp add: is_connecting_pending)
    then have "?m' = ?m\<lparr>rm_lifecycle := insert i (rm_lifecycle m), rm_connecting := insert i (rm_connecting m)\<rparr>"
      using None g(4) by (simp add: register_runner_channels_def)
    then show ?thesis
      using inv p(2,4) g pend no dom' doml unfolding rm_inv_def by auto
  next
    case (Some e)
    then show ?thesis
      using inv p(2,4) g pend no dom' doml unfolding rm_inv_def by auto
  qed
  moreover have "rm_planner ?m' = p" "rm_ids ?m' = g"
    using g(4) by (simp_all add: register_runner_channels_def Let_def split: option.splits)
  ultimately show ?thesis using eq p g a'(1) by simp
qed

text \<open>
  C34: Spawning a runner on a non-empty free range of the file succeeds exactly when fewer runners
  than the capacity hold an id. It then takes one fresh id and exactly the bytes of the range,
  and the runner is connecting (or its rejected spawn waits to be reported); otherwise nothing of
  it is left behind.
\<close>

theorem spawn_takes_one_id_and_its_range:
  assumes inv: "rm_inv t m" and r: "r_start r < r_end r" "r_end r \<le> manager_total m"
    and free: "r_bytes r \<inter> p_alloc (rm_planner m) = {}"
    and res: "spawn_runner_with_chunk m r spawn = (ok, m')"
  shows "rm_inv t m'
    \<and> (ok = None \<longleftrightarrow> allocated_runner_count m = gen_capacity (rm_ids m))
    \<and> (ok = None \<longrightarrow> taken_ids m' = taken_ids m \<and> rm_planner m' = rm_planner m)
    \<and> (ok \<noteq> None \<longrightarrow> (\<exists>i. i \<notin> taken_ids m \<and> taken_ids m' = insert i (taken_ids m)
        \<and> p_alloc (rm_planner m') = p_alloc (rm_planner m) \<union> r_bytes r
        \<and> is_connecting m' i \<and> allocated_runner_count m' = allocated_runner_count m + 1))"
proof -
  have count: "allocated_runner_count x = card (taken_ids x)" if "rm_inv t x" for x
    using rm_invD(2) [OF that] by (simp add: allocated_runner_count_def gen_allocated_count_def gen_inv_def)
  show ?thesis
  proof (cases "allocate_runner m")
    case (Pair a m1)
    show ?thesis
    proof (cases a)
      case None
      then have "fst (gen_next (rm_ids m)) = None" and m1: "m1 = m"
        using Pair gp.alloc_None [OF rm_invD(2) [OF inv]]
        by (auto simp: allocate_runner_def split: prod.splits option.splits)
      then have "card (taken_ids m) = gen_capacity (rm_ids m)"
        using gp.alloc_iff [OF rm_invD(2) [OF inv]] by simp
      then show ?thesis using res Pair None inv count [OF inv] m1
        by (auto simp: spawn_runner_with_chunk_def)
    next
      case (Some pr)
      obtain i s where "pr = (i, s)" by (cases pr)
      then have a: "allocate_runner m = (Some (i, s), m1)" using Pair Some by simp
      obtain m2 where m2: "spawn_runner_with_chunk m r spawn = (Some (), m2)" "rm_inv t m2"
        "taken_ids m2 = insert i (taken_ids m)" "i \<notin> taken_ids m"
        "get_runner_state (rm_planner m2)
          = (get_runner_state (rm_planner m))(i \<mapsto> chunk_new r (Some i) Pending)"
        "p_alloc (rm_planner m2) = p_alloc (rm_planner m) \<union> r_bytes r"
        using spawn_accepted [OF inv a r(1) _ free, of spawn] r(2) unfolding manager_total_def by metis
      have "fst (gen_next (rm_ids m)) \<noteq> None"
        using a by (auto simp: allocate_runner_def split: prod.splits option.splits)
      then have "card (taken_ids m) \<noteq> gen_capacity (rm_ids m)"
        using gp.alloc_iff [OF rm_invD(2) [OF inv]] by simp
      moreover have "is_connecting m2 i"
        using m2(5) by (simp add: is_connecting_def chunk_new_def)
      moreover have "allocated_runner_count m2 = allocated_runner_count m + 1"
        using count [OF inv] count [OF m2(2)] m2(3,4) by simp
      ultimately show ?thesis using res m2 count [OF inv] by auto
    qed
  qed
qed

lemma spawn_takes_one_id_and_its_range_witness:
  "\<exists>m'. spawn_runner_with_chunk (manager_new 500 2) (Range 0 500) (\<lambda>_. None) = (Some (), m')
    \<and> p_alloc (rm_planner m') = {0..<500}"
proof -
  obtain ok m' where res: "spawn_runner_with_chunk (manager_new 500 2) (Range 0 500) (\<lambda>_. None) = (ok, m')"
    by fastforce
  have "rm_inv (from_secs 60) (manager_new 500 2)"
    by (rule manager_new_inv) (simp_all add: u64_bound_def)
  moreover have "allocated_runner_count (manager_new 500 2) \<noteq> gen_capacity (rm_ids (manager_new 500 2))"
    by (simp add: manager_new_def allocated_runner_count_def gen_allocated_count_def gen_new_def gen_capacity_def)
  ultimately show ?thesis
    using spawn_takes_one_id_and_its_range [OF _ _ _ _ res] res
    by (auto simp: manager_new_def planner_new_def manager_total_def)
qed


end
