(* ===== verification/Strategy_Control.thy ===== *)
theory Strategy_Control
  imports Download_Loop Runner_Manager_Props
begin

text \<open>
  What the strategies decide, over the planner's invariant: the control never panics, the limit it
  sets stays between one and the initial one, and every action it returns can be applied: ranges
  to create are free, a runner to split is running and has bytes to give.
\<close>

section \<open>Active chunks and active runners\<close>

definition active_ids :: "planner \<Rightarrow> runner_id set" where
  "active_ids p = {i. \<exists>c. get_runner_state p i = Some c \<and> is_active (c_status c)}"

lemma filter_values_card:
  "distinct (map fst xs) \<Longrightarrow> length (filter P (bt_values xs)) = card {k. \<exists>c. (k, c) \<in> set xs \<and> P c}"
proof (induction xs)
  case Nil
  then show ?case by simp
next
  case (Cons e xs)
  obtain k c where e: "e = (k, c)" by (cases e)
  let ?S = "{j. \<exists>d. (j, d) \<in> set xs \<and> P d}"
  have fin: "finite ?S" by (rule finite_subset [of _ "fst ` set xs"]) force+
  have "k \<notin> ?S" using Cons.prems e by force
  moreover have "{j. \<exists>d. (j, d) \<in> set (e # xs) \<and> P d} = (if P c then insert k ?S else ?S)"
    using e Cons.prems by (auto; force)
  ultimately show ?case using Cons fin e by simp
qed

lemma active_count_card:
  assumes inv: "planner_inv p"
  shows "get_active_runners_count p = card (active_ids p)"
proof -
  let ?K = "{k. \<exists>c. (k, c) \<in> set (p_chunks p) \<and> is_active (c_status c)}"
  have get: "(k, c) \<in> set (p_chunks p) \<longleftrightarrow> bt_get k (p_chunks p) = Some c" for k c
    using bt.entries_get [OF planner_inv_bt [OF inv]] .
  have "bij_betw (\<lambda>i. the (p_runner_to_chunk p i)) (active_ids p) ?K"
  proof (rule bij_betw_imageI)
    show "inj_on (\<lambda>i. the (p_runner_to_chunk p i)) (active_ids p)"
      using planner_runner_inj [OF inv]
      by (auto simp: inj_on_def active_ids_def get_runner_state_Some)
    show "(\<lambda>i. the (p_runner_to_chunk p i)) ` active_ids p = ?K"
    proof
      show "(\<lambda>i. the (p_runner_to_chunk p i)) ` active_ids p \<subseteq> ?K"
        using get by (auto simp: active_ids_def get_runner_state_Some)
      show "?K \<subseteq> (\<lambda>i. the (p_runner_to_chunk p i)) ` active_ids p"
      proof
        fix k assume "k \<in> ?K"
        then obtain c where c: "bt_get k (p_chunks p) = Some c" "is_active (c_status c)" using get by blast
        then obtain i where "p_runner_to_chunk p i = Some k"
          using inv maps_okD(2) unfolding planner_inv_def by blast
        with c have "i \<in> active_ids p" "the (p_runner_to_chunk p i) = k"
          by (auto simp: active_ids_def get_runner_state_Some)
        then show "k \<in> (\<lambda>i. the (p_runner_to_chunk p i)) ` active_ids p" by blast
      qed
    qed
  qed
  then have "card (active_ids p) = card ?K" by (rule bij_betw_same_card)
  moreover have "distinct (map fst (p_chunks p))"
    using bt.entries_distinct [OF planner_inv_bt [OF inv]] .
  ultimately show ?thesis
    using filter_values_card [of "p_chunks p" "\<lambda>c. is_active (c_status c)"]
    by (simp add: get_active_runners_count_def)
qed

lemma active_ids_taken: "rm_inv t m \<Longrightarrow> active_ids (rm_planner m) \<subseteq> taken_ids m"
  using rm_invD(3) [of t m] by (auto simp: active_ids_def)

lemma active_le_taken:
  assumes "rm_inv t m"
  shows "get_active_runners_count (rm_planner m) \<le> card (taken_ids m)"
    and "card (taken_ids m) \<le> gen_capacity (rm_ids m)"
  using active_count_card [OF rm_invD(1) [OF assms]] card_mono [OF gen_ids_finite active_ids_taken [OF assms]]
    gp.ids_card [OF rm_invD(2) [OF assms]] by simp_all

section \<open>The chunk to split\<close>

lemma pick_available_None: "pick_available sz best rs = None \<longleftrightarrow> best = None \<and> rs = []"
  by (induction sz best rs rule: pick_available.induct) (auto split: option.splits)

lemma find_chunk_None_id:
  "find_chunk_to_split p sz = Some (None, r) \<Longrightarrow> get_available_ranges p \<noteq> []"
  unfolding find_chunk_to_split_def
  by (auto simp: pick_available_None split: option.splits dest!: max_by_key_Some)

lemma find_chunk_Some_id:
  assumes inv: "planner_inv p" and f: "find_chunk_to_split p sz = Some (Some i, r)"
  shows "\<exists>c. get_runner_state p i = Some c \<and> c_status c = Running
    \<and> p_min_chunk_size p \<le> r_len (incomplete_range c)"
proof -
  obtain c where "max_by_key remaining (filter (\<lambda>c. c_status c = Running \<and> c_runner_id c \<noteq> None
        \<and> p_min_chunk_size p \<le> remaining c) (bt_values (p_chunks p))) = Some c" "c_runner_id c = Some i"
    using f unfolding find_chunk_to_split_def by (auto split: option.splits)
  then have c: "c \<in> set (bt_values (p_chunks p))" "c_status c = Running" "p_min_chunk_size p \<le> remaining c"
    "c_runner_id c = Some i"
    by (auto dest!: max_by_key_Some)
  obtain k where k: "(k, c) \<in> set (p_chunks p)" using c(1) bt_values_entry by metis
  have g: "bt_get k (p_chunks p) = Some c" using k bt.entries_get [OF planner_inv_bt [OF inv]] by auto
  have "is_active (c_status c)" using c(2) by (simp add: is_active_def)
  then have "p_runner_to_chunk p i = Some k"
    using inv g c(4) maps_okD(2) unfolding planner_inv_def by fastforce
  moreover have "chunk_ok k c" "r_end (c_allocated c) < u64_bound"
    using inv k layout_entries by (fastforce simp: planner_inv_def)+
  ultimately show ?thesis
    using c g by (auto simp: get_runner_state_Some remaining_ok incomplete_range_def)
qed

section \<open>The control's limit\<close>

text \<open>The control as the task builds it, with every limit it has set at most the initial one.\<close>

definition control_ok :: "usize \<Rightarrow> cc_strategy \<Rightarrow> bool" where
  "control_ok n s \<longleftrightarrow>
     cc_config s = cc_config_default \<and> cc_initial_max s = n \<and> 1 \<le> n \<and> n + 1 < u64_bound
     \<and> (\<forall>k. cc_target (cc_state s) = Some k \<longrightarrow> 1 \<le> k \<and> k \<le> n)"

lemma control_ok_new: "1 \<le> n \<Longrightarrow> n + 1 < u64_bound \<Longrightarrow> control_ok n (cc_with_default_config n)"
  by (simp add: control_ok_def cc_with_default_config_def cc_new_def cc_target_def)

lemma control_ok_inv: "control_ok n s \<Longrightarrow> cc_inv s"
  by (auto simp: control_ok_def cc_inv_def cc_config_default_def)

lemma cc_dispatch_bound:
  assumes ok: "control_ok n s" and mx: "cx_max_concurrency ctx \<le> n"
    and d: "cc_dispatch s ctx st now = (acts, s')"
  shows "control_ok n s'"
proof (cases "cc_state s")
  case Normal_State
  with assms show ?thesis
    by (auto simp: cc_dispatch_def handle_normal_state_def control_ok_def cc_target_def Let_def
        saturating_sub64_def cc_config_default_def split: if_splits)
next
  case (Degraded target since)
  with assms show ?thesis
    by (auto simp: cc_dispatch_def handle_degraded_state_def control_ok_def cc_target_def Let_def
        cc_config_default_def split: if_splits)
next
  case (Recovering trial since failures)
  with assms show ?thesis
    by (auto simp: cc_dispatch_def handle_recovering_state_def control_ok_def cc_target_def Let_def
        saturating_sub64_def cc_config_default_def add64_exact split: if_splits)
qed

lemma has_recent_ok:
  "has_recent_unretryable s w now = (b, s') \<Longrightarrow>
   os_records s' = os_records s \<and> os_window s' = os_window s \<and> os_max_records s' = os_max_records s"
  by (auto simp: has_recent_unretryable_def split: option.splits if_splits)

lemma sampler_stats_ok:
  assumes "sampler_ok t s" and "t \<le> now"
  shows "\<exists>st s'. sampler_stats s now = Done (st, s') \<and> sampler_ok now s'"
proof -
  have "outcomes_ok s t" "os_window s \<le> now" using assms by (auto simp: sampler_ok_def)
  then obtain s' where "cleanup_expired s now = Done s'" "outcomes_ok s' now" "os_window s' = os_window s"
    using cleanup_expired_ok [of s t now] assms(2) by blast
  then show ?thesis using assms by (auto simp: sampler_stats_def sampler_ok_def)
qed

text \<open>A step of the control, as the task runs it.\<close>

lemma cc_step_total:
  assumes ok: "control_ok n s" and mx: "cx_max_concurrency ctx \<le> n" and act: "cx_active_runners ctx \<le> n"
    and samp: "sampler_ok t sm" and "t \<le> t2"
  shows "\<exists>acts s' sm'. cc_step s ctx sm now t1 t2 = Done (acts, s', sm') \<and> control_ok n s'
    \<and> \<not> cc_first_execute s'
    \<and> sampler_ok t2 sm' \<and> (\<forall>k. acts = [Change_Max_Concurrency k] \<longrightarrow> 1 \<le> k \<and> k \<le> n)
    \<and> actions_ok ctx (if cc_first_execute s then cx_max_concurrency ctx
         else cx_max_concurrency ctx - cx_active_runners ctx) acts
    \<and> (acts = [] \<longrightarrow> (if cc_first_execute s then cx_max_concurrency ctx = 0
         else cx_max_concurrency ctx \<le> cx_active_runners ctx) \<or> cx_available_chunks ctx = [])"
proof (cases "cc_first_execute s")
  case True
  have "control_ok n (s\<lparr>cc_first_execute := False\<rparr>)" using ok by (simp add: control_ok_def)
  with True show ?thesis
    using sampler_ok_later [OF samp assms(5)] by (auto simp: cc_step_def actions_ok_def)
next
  case False
  have n: "n < u64_bound" using ok by (simp add: control_ok_def)
  obtain b s1 where h: "has_recent_unretryable sm (cfg_detection_window (cc_config s)) t1 = (b, s1)"
    by fastforce
  have s1: "sampler_ok t s1" using has_recent_ok [OF h] samp by (simp add: sampler_ok_def outcomes_ok_def)
  show ?thesis
  proof (cases b)
    case True
    let ?k = "max (max (cx_active_runners ctx) 1) 1"
    have "cc_step s ctx sm now t1 t2
        = Done ([Change_Max_Concurrency ?k], s\<lparr>cc_state := Degraded ?k now\<rparr>, s1)"
      using False True h ok
      by (simp add: cc_step_def handle_immediate_degradation_def control_ok_def cc_config_default_def Let_def)
    moreover have "control_ok n (s\<lparr>cc_state := Degraded ?k now\<rparr>)"
      using ok act by (simp add: control_ok_def cc_target_def)
    ultimately show ?thesis
      using False sampler_ok_later [OF s1 assms(5)] ok act by (auto simp: actions_ok_def control_ok_def)
  next
    case b: False
    obtain st s2 where st: "sampler_stats s1 t2 = Done (st, s2)" "sampler_ok t2 s2"
      using sampler_stats_ok [OF s1 assms(5)] by blast
    obtain a s' where d: "cc_dispatch s ctx st now = (a, s')" by fastforce
    have ok': "control_ok n s'" by (rule cc_dispatch_bound [OF ok mx d])
    have "cx_max_concurrency ctx < u64_bound" using mx n by simp
    note da = cc_dispatch_ok [OF control_ok_inv [OF ok] this d]
    have a: "a = [] \<or> (\<exists>k. a = [Change_Max_Concurrency k] \<and> 1 \<le> k \<and> k \<le> n)"
      using da ok' by (auto simp: control_ok_def)
    show ?thesis
    proof (cases "a = []")
      case True
      have sub: "cx_active_runners ctx < cx_max_concurrency ctx \<Longrightarrow>
          sub64 (cx_max_concurrency ctx) (cx_active_runners ctx) = cx_max_concurrency ctx - cx_active_runners ctx"
        using mx n by (simp add: sub64_exact)
      show ?thesis
      proof (cases "cx_active_runners ctx < cx_max_concurrency ctx")
        case less: True
        then show ?thesis
          using True False b h st d ok' da sub by (auto simp: cc_step_def actions_ok_def)
      next
        case nless: False
        then show ?thesis
          using True False b h st d ok' da by (auto simp: cc_step_def actions_ok_def)
      qed
    next
      case nonempty: False
      then show ?thesis
        using False b h st d ok' da a by (auto simp: cc_step_def actions_ok_def)
    qed
  qed
qed

section \<open>Executing the strategies\<close>

text \<open>When an action can be applied to the planner it was made for.\<close>

definition action_ok :: "usize \<Rightarrow> planner \<Rightarrow> usize \<Rightarrow> strategy_action list \<Rightarrow> bool" where
  "action_ok n p mx acts \<longleftrightarrow>
     acts = []
     \<or> (\<exists>k. acts = [Change_Max_Concurrency k] \<and> 1 \<le> k \<and> k \<le> n)
     \<or> (\<exists>k. acts = map Create_Task (take k (get_available_ranges p)) \<and> k + get_active_runners_count p \<le> n)
     \<or> (\<exists>sz. acts = [Split_All_Task sz] \<and> 2 * get_active_runners_count p \<le> n)
     \<or> (\<exists>i c. acts = [Split_Given_Task i] \<and> get_active_runners_count p + 1 \<le> n
          \<and> get_runner_state p i = Some c \<and> c_status c = Running
          \<and> p_min_chunk_size p \<le> r_len (incomplete_range c))"

lemma strategy_execute_total:
  assumes inv: "rm_inv t m" and ok: "control_ok n (sc_cc s)" and n: "n = gen_capacity (rm_ids m)"
    and mx: "mx \<le> n" and first_tick: "cc_first_execute (sc_cc s) \<longrightarrow> get_active_runners_count (rm_planner m) = 0"
    and clock: "t \<le> now" "t \<le> t2"
  shows "\<exists>res s' m'. strategy_execute s mx speed per m now t1 t2 = Done (res, s', m')
    \<and> control_ok n (sc_cc s') \<and> \<not> cc_first_execute (sc_cc s')
    \<and> (\<exists>sm. m' = m\<lparr>rm_sampler := sm\<rparr> \<and> sampler_ok t2 sm)
    \<and> (\<forall>name acts. res = Some (name, acts) \<longrightarrow> action_ok n (rm_planner m) mx acts)"
proof -
  let ?p = "rm_planner m"
  let ?active = "get_active_runners_count ?p"
  let ?ctx = "\<lparr>cx_max_concurrency = mx, cx_active_runners = ?active,
               cx_available_chunks = get_available_ranges ?p\<rparr>"
  have act: "?active \<le> n" using active_le_taken [OF inv] n by simp
  obtain acts cc sm where step: "cc_step (sc_cc s) ?ctx (rm_sampler m) now t1 t2 = Done (acts, cc, sm)"
    and cc: "control_ok n cc" "\<not> cc_first_execute cc" "sampler_ok t2 sm"
    and chg: "\<forall>k. acts = [Change_Max_Concurrency k] \<longrightarrow> 1 \<le> k \<and> k \<le> n"
    and shape: "actions_ok ?ctx (if cc_first_execute (sc_cc s) then mx else mx - ?active) acts"
    and none: "acts = [] \<longrightarrow> (if cc_first_execute (sc_cc s) then mx = 0 else mx \<le> ?active)
        \<or> get_available_ranges ?p = []"
    using cc_step_total [OF ok, of ?ctx t "rm_sampler m" t2 now t1] mx act rm_invD(5) [OF inv] clock(2)
    by (auto cong: if_cong)
  show ?thesis
  proof (cases "acts = []")
    case False
    have "action_ok n ?p mx acts"
    proof -
      let ?room = "if cc_first_execute (sc_cc s) then mx else mx - ?active"
      consider k where "acts = [Change_Max_Concurrency k]"
        | "acts = map Create_Task (take ?room (get_available_ranges ?p))" "0 < ?room"
      proof -
        assume *: "\<And>k. acts = [Change_Max_Concurrency k] \<Longrightarrow> thesis"
          "acts = map Create_Task (take ?room (get_available_ranges ?p)) \<Longrightarrow> 0 < ?room \<Longrightarrow> thesis"
        have "acts = map Create_Task (take ?room (get_available_ranges ?p)) \<Longrightarrow> ?room \<noteq> 0"
          using False by (metis list.map_disc_iff take_0)
        then show thesis using shape False * by (auto simp: actions_ok_def)
      qed
      then show ?thesis
      proof cases
        case 1
        then show ?thesis using chg by (auto simp: action_ok_def)
      next
        case 2
        then have "?room + ?active \<le> n" using first_tick mx by auto
        then show ?thesis using 2(1) unfolding action_ok_def by blast
      qed
    qed
    then show ?thesis using False step cc by (auto simp: strategy_execute_def Let_def)
  next
    case True
    let ?planned = "float_to_u64 (speed * 2)"
    show ?thesis
    proof (cases "find_chunk_to_split ?p ?planned")
      case None
      then show ?thesis using True step cc by (auto simp: strategy_execute_def Let_def)
    next
      case (Some f)
      obtain rid r where f: "f = (rid, r)" by (cases f)
      show ?thesis
      proof (cases "?active < mx \<and> ?planned \<le> sub64 (r_end r) (r_start r)")
        case False
        then show ?thesis using True step cc Some f by (auto simp: strategy_execute_def Let_def)
      next
        case room: True
        have "rid \<noteq> None"
        proof
          assume "rid = None"
          then have "get_available_ranges ?p \<noteq> []" using find_chunk_None_id Some f by blast
          then show False using none True room first_tick by (auto split: if_splits)
        qed
        then obtain i where i: "rid = Some i" by blast
        obtain c where c: "get_runner_state ?p i = Some c" "c_status c = Running"
          "p_min_chunk_size ?p \<le> r_len (incomplete_range c)"
          using find_chunk_Some_id [OF rm_invD(1) [OF inv]] Some f i by blast
        let ?dx = "\<lparr>dx_speed = speed, dx_per_runner_speed = per, dx_current_concurrency = ?active,
            dx_max_concurrency = mx, dx_planned_chunk_size = ?planned, dx_largest_runner = i\<rparr>"
        obtain das ds where d: "dynamic_step ?dx (sc_dynamic s) = (das, ds)" by fastforce
        have u: "mx < u64_bound" using ok mx by (simp add: control_ok_def)
        have dyn: "das = [] \<or> das = [Split_All_Task ?planned] \<and> 2 * ?active < mx
            \<or> das = [Split_Given_Task i] \<and> ?active + 1 < mx"
          using dynamic_step_bounded [of ?dx "sc_dynamic s" das ds] u d by auto
        then have "action_ok n ?p mx das" using c mx unfolding action_ok_def by auto
        then show ?thesis
          using True step cc Some f i room d
          by (auto simp: strategy_execute_def Let_def)
      qed
    qed
  qed
qed

end
