(* ===== verification/Download_Loop_Inv.thy ===== *)
theory Download_Loop_Inv
  imports Strategy_Control
begin

text \<open>
  Applying what the strategies decide: creating runners on the available ranges, splitting a
  runner's chunk. While every taken id belongs to an active chunk, there are ids enough for every
  action, and none of the loop's \<open>expect\<close>s can fail.
\<close>

section \<open>Resizing a runner\<close>

lemma resize_runner_ok:
  assumes inv: "rm_inv t m" and c: "get_runner_state (rm_planner m) i = Some c"
  shows "\<exists>res m'. resize_runner m i sz = Done (res, m') \<and> rm_inv t m'
    \<and> (case res of
         Inl _ \<Rightarrow> m' = m
       | Inr _ \<Rightarrow>
          (m' = m \<and> r_end (c_downloaded c) + sz = r_end (c_allocated c))
          \<or> (\<exists>p s e. m' = m\<lparr>rm_planner := p, rm_limits := (rm_limits m)(i \<mapsto> s)\<rparr>
               \<and> e = r_end (c_downloaded c) + sz \<and> e < r_end (c_allocated c)
               \<and> sl_unread s = Some (e - r_start (c_allocated c))
               \<and> get_runner_state p = (get_runner_state (rm_planner m))
                    (i \<mapsto> c\<lparr>c_allocated := Range (r_start (c_allocated c)) e\<rparr>)
               \<and> p_alloc p = p_alloc (rm_planner m) - {e..<r_end (c_allocated c)}
               \<and> p_total p = p_total (rm_planner m)
               \<and> p_min_chunk_size p = p_min_chunk_size (rm_planner m)))"
proof -
  note P = rm_invD(1) [OF inv]
  obtain k where tot: "r_end (c_allocated c) < u64_bound"
    using runner_state_chunk [OF P c] by metis
  consider (err) "resize_runner_state (rm_planner m) i sz = (Inl (InvalidResize i sz), rm_planner m)"
    | (same) "r_end (c_downloaded c) + sz = r_end (c_allocated c)"
        "resize_runner_state (rm_planner m) i sz = (Inr Unchanged, rm_planner m)"
    | (shrunk) limit p e where "resize_runner_state (rm_planner m) i sz = (Inr (Shrunk limit), p)"
        "planner_inv p" "e = r_end (c_downloaded c) + sz" "r_start (c_allocated c) < e"
        "e < r_end (c_allocated c)" "limit = e - r_start (c_allocated c)"
        "get_runner_state p = (get_runner_state (rm_planner m))
           (i \<mapsto> c\<lparr>c_allocated := Range (r_start (c_allocated c)) e\<rparr>)"
        "p_total p = p_total (rm_planner m)" "p_max_chunk_count p = p_max_chunk_count (rm_planner m)"
        "p_min_chunk_size p = p_min_chunk_size (rm_planner m)"
        "p_alloc p = p_alloc (rm_planner m) - {e..<r_end (c_allocated c)}"
    using resize_view [OF P c, of sz] by blast
  then show ?thesis
  proof cases
    case err
    then show ?thesis using inv by (simp add: resize_runner_def guard_new_def guard_drop_def)
  next
    case same
    then show ?thesis using inv by (simp add: resize_runner_def guard_new_def guard_drop_def)
  next
    case shrunk
    have "i \<in> taken_ids m" using c rm_invD(3) [OF inv] by blast
    then obtain s where s: "rm_limits m i = Some s" using rm_invD(11) [OF inv] by blast
    show ?thesis
    proof (cases "sl_receiver s")
      case False
      have "limit \<noteq> u64_bound - 1" using shrunk(4-6) tot by linarith
      then show ?thesis
        using inv shrunk(1) s False by (simp add: resize_runner_def guard_new_def guard_drop_def limit_send_def)
    next
      case True
      let ?s = "s\<lparr>sl_unread := Some limit\<rparr>"
      let ?m = "m\<lparr>rm_planner := p, rm_limits := (rm_limits m)(i \<mapsto> ?s)\<rparr>"
      have "limit \<noteq> u64_bound - 1" using shrunk(4-6) tot by linarith
      then have eq: "resize_runner m i sz = Done (Inr (), ?m)"
        using shrunk(1) s True
        by (simp add: resize_runner_def guard_new_def guard_commit_def guard_drop_def limit_send_def)
      have pend: "pending_ids p = pending_ids (rm_planner m)"
        using pending_update [OF shrunk(7)] c by (auto simp: pending_ids_def)
      have dom': "dom (get_runner_state p) = taken_ids m" using shrunk(7) c rm_invD(3) [OF inv] by auto
      have doml: "dom ((rm_limits m)(i \<mapsto> ?s)) = taken_ids m" using s rm_invD(11) [OF inv] by auto
      have "rm_inv t ?m"
        using inv shrunk(2,9) pend dom' doml by (simp add: rm_inv_def)
      moreover have "\<exists>q u f. ?m = m\<lparr>rm_planner := q, rm_limits := (rm_limits m)(i \<mapsto> u)\<rparr>
               \<and> f = r_end (c_downloaded c) + sz \<and> f < r_end (c_allocated c)
               \<and> sl_unread u = Some (f - r_start (c_allocated c))
               \<and> get_runner_state q = (get_runner_state (rm_planner m))
                    (i \<mapsto> c\<lparr>c_allocated := Range (r_start (c_allocated c)) f\<rparr>)
               \<and> p_alloc q = p_alloc (rm_planner m) - {f..<r_end (c_allocated c)}
               \<and> p_total q = p_total (rm_planner m)
               \<and> p_min_chunk_size q = p_min_chunk_size (rm_planner m)"
        by (rule exI [of _ p], rule exI [of _ ?s], rule exI [of _ e]) (use shrunk in simp)
      ultimately show ?thesis using eq by (intro exI [of _ "Inr ()"] exI [of _ ?m]) simp
    qed
  qed
qed

section \<open>Spawning from the loop\<close>

text \<open>What stays the same while actions are applied.\<close>

definition same_setup :: "runner_manager \<Rightarrow> runner_manager \<Rightarrow> bool" where
  "same_setup m m' \<longleftrightarrow>
     gen_capacity (rm_ids m') = gen_capacity (rm_ids m)
     \<and> p_total (rm_planner m') = p_total (rm_planner m)
     \<and> p_min_chunk_size (rm_planner m') = p_min_chunk_size (rm_planner m)"

lemma same_setup_trans: "same_setup a b \<Longrightarrow> same_setup b c \<Longrightarrow> same_setup a c"
  by (simp add: same_setup_def)

lemma spawn_runner_ok:
  assumes inv: "rm_inv t (dl_manager d)" and room: "card (taken_ids (dl_manager d)) < gen_capacity (rm_ids (dl_manager d))"
    and r: "r_start r < r_end r" "r_end r \<le> p_total (rm_planner (dl_manager d))"
    and free: "r_bytes r \<inter> p_alloc (rm_planner (dl_manager d)) = {}"
  shows "\<exists>m i. spawn_runner env d r = Done (d\<lparr>dl_manager := m\<rparr>) \<and> rm_inv t m
    \<and> same_setup (dl_manager d) m
    \<and> taken_ids m = insert i (taken_ids (dl_manager d)) \<and> i \<notin> taken_ids (dl_manager d)
    \<and> get_runner_state (rm_planner m)
        = (get_runner_state (rm_planner (dl_manager d)))(i \<mapsto> chunk_new r (Some i) Pending)
    \<and> p_alloc (rm_planner m) = p_alloc (rm_planner (dl_manager d)) \<union> r_bytes r"
proof -
  let ?m = "dl_manager d"
  have "fst (gen_next (rm_ids ?m)) \<noteq> None"
    using gp.alloc_iff [OF rm_invD(2) [OF inv]] room by simp
  then obtain i g where "gen_next (rm_ids ?m) = (Some i, g)" by (cases "gen_next (rm_ids ?m)") auto
  then obtain m1 where a: "allocate_runner ?m = (Some (i, limit_mailbox), m1)"
    by (simp add: allocate_runner_def)
  from spawn_accepted [OF inv a r free, of "en_spawn env r"] obtain m' where
    m': "spawn_runner_with_chunk ?m r (en_spawn env r) = (Some (), m')" "rm_inv t m'"
    "taken_ids m' = insert i (taken_ids ?m)" "i \<notin> taken_ids ?m"
    "gen_capacity (rm_ids m') = gen_capacity (rm_ids ?m)"
    "get_runner_state (rm_planner m') = (get_runner_state (rm_planner ?m))(i \<mapsto> chunk_new r (Some i) Pending)"
    "p_alloc (rm_planner m') = p_alloc (rm_planner ?m) \<union> r_bytes r"
    "p_total (rm_planner m') = p_total (rm_planner ?m)"
    "p_min_chunk_size (rm_planner m') = p_min_chunk_size (rm_planner ?m)"
    by blast
  then show ?thesis
    by (intro exI [of _ m'] exI [of _ i]) (simp add: spawn_runner_def same_setup_def)
qed

lemma create_all_ok:
  assumes "rm_inv t (dl_manager d)"
    and "card (taken_ids (dl_manager d)) + length rs \<le> gen_capacity (rm_ids (dl_manager d))"
    and "\<forall>r \<in> set rs. r_start r < r_end r \<and> r_end r \<le> p_total (rm_planner (dl_manager d))
           \<and> r_bytes r \<inter> p_alloc (rm_planner (dl_manager d)) = {}"
    and "sorted_wrt (\<lambda>a b. r_bytes a \<inter> r_bytes b = {}) rs"
  shows "\<exists>m. apply_all env d (map Create_Task rs) = Done (d\<lparr>dl_manager := m\<rparr>) \<and> rm_inv t m
    \<and> same_setup (dl_manager d) m"
  using assms
proof (induction rs arbitrary: d)
  case Nil
  then show ?case by (auto simp: same_setup_def intro: exI [of _ "dl_manager d"])
next
  case (Cons r rs)
  obtain m i where m: "spawn_runner env d r = Done (d\<lparr>dl_manager := m\<rparr>)" "rm_inv t m"
    "same_setup (dl_manager d) m" "taken_ids m = insert i (taken_ids (dl_manager d))"
    "i \<notin> taken_ids (dl_manager d)"
    "p_alloc (rm_planner m) = p_alloc (rm_planner (dl_manager d)) \<union> r_bytes r"
    using spawn_runner_ok [OF Cons.prems(1), of r env] Cons.prems(2,3) by auto
  let ?d = "d\<lparr>dl_manager := m\<rparr>"
  have "\<exists>m'. apply_all env ?d (map Create_Task rs) = Done (?d\<lparr>dl_manager := m'\<rparr>) \<and> rm_inv t m'
      \<and> same_setup (dl_manager ?d) m'"
  proof (rule Cons.IH)
    show "card (taken_ids (dl_manager ?d)) + length rs \<le> gen_capacity (rm_ids (dl_manager ?d))"
      using Cons.prems(2) m(3-5) by (simp add: same_setup_def)
    show "\<forall>q \<in> set rs. r_start q < r_end q \<and> r_end q \<le> p_total (rm_planner (dl_manager ?d))
           \<and> r_bytes q \<inter> p_alloc (rm_planner (dl_manager ?d)) = {}"
      using Cons.prems(3,4) m(3,6) by (auto simp: same_setup_def)
  qed (use m Cons.prems(4) in simp_all)
  then show ?case
    using m(1,3) same_setup_trans [OF m(3)] by (auto simp: apply_action_def)
qed

section \<open>Splitting\<close>

lemma split_runner_ok:
  assumes inv: "rm_inv t (dl_manager d)" and c: "get_runner_state (rm_planner (dl_manager d)) i = Some c"
    and big: "2 \<le> r_len (incomplete_range c)"
    and room: "card (taken_ids (dl_manager d)) < gen_capacity (rm_ids (dl_manager d))"
  shows "\<exists>m. split_runner env d i (incomplete_range c) = Done (d\<lparr>dl_manager := m\<rparr>) \<and> rm_inv t m
    \<and> same_setup (dl_manager d) m
    \<and> card (taken_ids m) \<le> card (taken_ids (dl_manager d)) + 1
    \<and> (\<forall>j. j \<noteq> i \<longrightarrow> j \<in> taken_ids (dl_manager d) \<longrightarrow>
          get_runner_state (rm_planner m) j = get_runner_state (rm_planner (dl_manager d)) j
          \<and> j \<in> taken_ids m)"
proof -
  let ?m = "dl_manager d"
  let ?half = "r_len (incomplete_range c) div 2"
  let ?e = "r_end (c_downloaded c) + ?half"
  have ok: "r_end (c_allocated c) \<le> p_total (rm_planner ?m)" "r_end (c_allocated c) < u64_bound"
    using runner_state_chunk [OF rm_invD(1) [OF inv] c] by metis+
  have len: "r_len (incomplete_range c) = r_end (c_allocated c) - r_end (c_downloaded c)"
    by (simp add: incomplete_range_def)
  have lt: "?e < r_end (c_allocated c)" using big len by linarith
  have half: "sub64 (r_end (incomplete_range c)) (r_start (incomplete_range c)) div 2 = ?half"
    using big ok(2) by (simp add: incomplete_range_def sub64_exact)
  have mid: "add64 (r_start (incomplete_range c)) ?half = ?e"
    using lt ok(2) by (simp add: incomplete_range_def add64_exact)
  obtain res m1 where r: "resize_runner ?m i ?half = Done (res, m1)" "rm_inv t m1"
    and case_res: "case res of
         Inl _ \<Rightarrow> m1 = ?m
       | Inr _ \<Rightarrow>
          (m1 = ?m \<and> r_end (c_downloaded c) + ?half = r_end (c_allocated c))
          \<or> (\<exists>p s e. m1 = ?m\<lparr>rm_planner := p, rm_limits := (rm_limits ?m)(i \<mapsto> s)\<rparr>
               \<and> e = r_end (c_downloaded c) + ?half \<and> e < r_end (c_allocated c)
               \<and> sl_unread s = Some (e - r_start (c_allocated c))
               \<and> get_runner_state p = (get_runner_state (rm_planner ?m))
                    (i \<mapsto> c\<lparr>c_allocated := Range (r_start (c_allocated c)) e\<rparr>)
               \<and> p_alloc p = p_alloc (rm_planner ?m) - {e..<r_end (c_allocated c)}
               \<and> p_total p = p_total (rm_planner ?m)
               \<and> p_min_chunk_size p = p_min_chunk_size (rm_planner ?m))"
    using resize_runner_ok [OF inv c, of ?half] by blast
  show ?thesis
  proof (cases res)
    case (Inl e)
    then have "split_runner env d i (incomplete_range c) = Done (d\<lparr>dl_manager := ?m\<rparr>)"
      using r(1) half case_res by (simp add: split_runner_def)
    then show ?thesis using inv by (intro exI [of _ ?m]) (simp add: same_setup_def)
  next
    case (Inr u)
    then obtain p s where p: "m1 = ?m\<lparr>rm_planner := p, rm_limits := (rm_limits ?m)(i \<mapsto> s)\<rparr>"
      "get_runner_state p = (get_runner_state (rm_planner ?m))
          (i \<mapsto> c\<lparr>c_allocated := Range (r_start (c_allocated c)) ?e\<rparr>)"
      "p_alloc p = p_alloc (rm_planner ?m) - {?e..<r_end (c_allocated c)}"
      "p_total p = p_total (rm_planner ?m)" "p_min_chunk_size p = p_min_chunk_size (rm_planner ?m)"
      using case_res lt by auto
    let ?d = "d\<lparr>dl_manager := m1\<rparr>" and ?r = "Range ?e (r_end (c_allocated c))"
    have "rm_ids m1 = rm_ids ?m" "rm_planner m1 = p" using p(1) by simp_all
    then obtain m i' where m: "spawn_runner env ?d ?r = Done (?d\<lparr>dl_manager := m\<rparr>)" "rm_inv t m"
      "same_setup m1 m" "taken_ids m = insert i' (taken_ids ?m)" "i' \<notin> taken_ids ?m"
      "get_runner_state (rm_planner m) = (get_runner_state p)(i' \<mapsto> chunk_new ?r (Some i') Pending)"
      using spawn_runner_ok [of t ?d ?r env] r(2) room lt ok(1) p(3,4) by fastforce
    have "split_runner env d i (incomplete_range c) = Done (d\<lparr>dl_manager := m\<rparr>)"
      using r(1) half mid Inr m(1) by (simp add: split_runner_def incomplete_range_def)
    moreover have "same_setup ?m m"
      using m(3) p(1,4,5) by (simp add: same_setup_def)
    moreover have "get_runner_state (rm_planner m) j = get_runner_state (rm_planner ?m) j \<and> j \<in> taken_ids m"
      if "j \<noteq> i" "j \<in> taken_ids ?m" for j
      using that m(4-6) p(2) by auto
    ultimately show ?thesis using m by auto
  qed
qed

lemma split_all_ok:
  assumes "rm_inv t (dl_manager d)" and "distinct (map fst xs)"
    and "card (taken_ids (dl_manager d)) + length xs \<le> gen_capacity (rm_ids (dl_manager d))"
    and "\<forall>(i, r) \<in> set xs. \<exists>c. get_runner_state (rm_planner (dl_manager d)) i = Some c
           \<and> r = incomplete_range c \<and> 2 \<le> r_len r"
  shows "\<exists>m. split_all env d xs = Done (d\<lparr>dl_manager := m\<rparr>) \<and> rm_inv t m \<and> same_setup (dl_manager d) m"
  using assms
proof (induction xs arbitrary: d)
  case Nil
  then show ?case by (auto simp: same_setup_def intro: exI [of _ "dl_manager d"])
next
  case (Cons x xs)
  obtain i r where x: "x = (i, r)" by (cases x)
  then obtain c where c: "get_runner_state (rm_planner (dl_manager d)) i = Some c" "r = incomplete_range c"
    "2 \<le> r_len (incomplete_range c)" using Cons.prems(4) by auto
  obtain m where m: "split_runner env d i r = Done (d\<lparr>dl_manager := m\<rparr>)" "rm_inv t m"
    "same_setup (dl_manager d) m" "card (taken_ids m) \<le> card (taken_ids (dl_manager d)) + 1"
    "\<forall>j. j \<noteq> i \<longrightarrow> j \<in> taken_ids (dl_manager d) \<longrightarrow>
          get_runner_state (rm_planner m) j = get_runner_state (rm_planner (dl_manager d)) j
          \<and> j \<in> taken_ids m"
    using split_runner_ok [OF Cons.prems(1) c(1,3), of env] Cons.prems(3) c(2) by auto
  let ?d = "d\<lparr>dl_manager := m\<rparr>"
  have "\<exists>m'. split_all env ?d xs = Done (?d\<lparr>dl_manager := m'\<rparr>) \<and> rm_inv t m' \<and> same_setup (dl_manager ?d) m'"
  proof (rule Cons.IH)
    show "card (taken_ids (dl_manager ?d)) + length xs \<le> gen_capacity (rm_ids (dl_manager ?d))"
      using Cons.prems(3) m(3,4) by (simp add: same_setup_def)
    have "get_runner_state (rm_planner m) j = get_runner_state (rm_planner (dl_manager d)) j"
      if "(j, q) \<in> set xs" for j q
    proof -
      have "j \<noteq> i" using that Cons.prems(2) x by force
      moreover have "j \<in> taken_ids (dl_manager d)"
        using that Cons.prems(4) rm_invD(3) [OF Cons.prems(1)] by force
      ultimately show ?thesis using m(5) by blast
    qed
    then show "\<forall>(j, q) \<in> set xs. \<exists>c. get_runner_state (rm_planner (dl_manager ?d)) j = Some c
           \<and> q = incomplete_range c \<and> 2 \<le> r_len q"
      using Cons.prems(4) by fastforce
  qed (use m Cons.prems(2) in simp_all)
  then show ?case using x m(1) same_setup_trans [OF m(3)] by auto
qed

end
