(* ===== verification/Download_Loop_Props.thy ===== *)
theory Download_Loop_Props
  imports Download_Loop_Inv
begin

text \<open>
  The properties of the event loop: a strategy tick applies what it decides without panicking, a
  turn of the loop keeps the loop's invariant and gives every accepted chunk to the writer, and
  the failures that end an attempt.
\<close>

section \<open>What no event changes\<close>

lemma same_setup_planner_expect:
  assumes "planner_expect m res = Done (x, m')"
    and "p_total (snd res) = p_total (rm_planner m)" and "p_min_chunk_size (snd res) = p_min_chunk_size (rm_planner m)"
  shows "same_setup m m'"
  using assms by (auto simp: planner_expect_def same_setup_def bind_run_Done)

lemma planner_marks_setup:
  "p_total (snd (mark_running p i)) = p_total p" "p_min_chunk_size (snd (mark_running p i)) = p_min_chunk_size p"
  "p_total (snd (mark_finished p i)) = p_total p" "p_min_chunk_size (snd (mark_finished p i)) = p_min_chunk_size p"
  "p_total (snd (mark_failed p i)) = p_total p" "p_min_chunk_size (snd (mark_failed p i)) = p_min_chunk_size p"
  "p_total (snd (update_progress p i n)) = p_total p"
  "p_min_chunk_size (snd (update_progress p i n)) = p_min_chunk_size p"
  by (simp_all add: mark_running_def mark_finished_def mark_failed_def update_progress_def forget_runner_def
      Let_def split: option.splits prod.splits)

lemma expect_setup:
  "planner_expect m (mark_running (rm_planner m) i) = Done (x, m') \<Longrightarrow> same_setup m m'"
  "planner_expect m (mark_finished (rm_planner m) i) = Done (x, m') \<Longrightarrow> same_setup m m'"
  "planner_expect m (mark_failed (rm_planner m) i) = Done (y, m') \<Longrightarrow> same_setup m m'"
  "planner_expect (m\<lparr>rm_meters := a\<rparr>) (mark_failed (rm_planner m) i) = Done (y, m') \<Longrightarrow> same_setup m m'"
  "planner_expect (m\<lparr>rm_meters := a\<rparr>) (update_progress (rm_planner m) i n) = Done (y, m') \<Longrightarrow> same_setup m m'"
  by (drule same_setup_planner_expect; simp add: planner_marks_setup same_setup_def)+

lemma sample_setup: "sample_outcome m x now = Done m' \<Longrightarrow> same_setup m m'"
  by (auto simp: sample_outcome_def bind_run_Done same_setup_def)

lemma release_capacity: "gen_capacity (snd (gen_release g i)) = gen_capacity g"
  by (simp add: gen_release_def gen_capacity_def split: if_splits)

lemma release_setup: "same_setup m (release_runner m i)"
  by (simp add: same_setup_def release_runner_def release_capacity)

lemma same_setup_simps:
  "same_setup m m" "same_setup (m\<lparr>rm_meters := a\<rparr>) m' = same_setup m m'"
  "same_setup (m\<lparr>rm_lifecycle := b\<rparr>) m' = same_setup m m'"
  "same_setup (m\<lparr>rm_spawn_failures := c\<rparr>) m' = same_setup m m'"
  "same_setup m (m'\<lparr>rm_data := d\<rparr>) = same_setup m m'"
  "same_setup m (m'\<lparr>rm_connecting := e\<rparr>) = same_setup m m'"
  "same_setup (release_runner m i) m' = same_setup m m'"
  by (simp_all add: same_setup_def release_runner_def release_capacity)

lemma connect_failed_setup: "handle_connect_failed m i e now = Done (t, m') \<Longrightarrow> same_setup m m'"
  by (auto simp: handle_connect_failed_def bind_run_Done Let_def split: if_splits
      intro: same_setup_trans dest!: expect_setup sample_setup)

lemma started_setup: "handle_started m i = Done (t, m') \<Longrightarrow> same_setup m m'"
  by (auto simp: handle_started_def bind_run_Done same_setup_simps split: if_splits dest!: expect_setup)

lemma completed_setup: "mark_runner_completed m i now = Done (t, m') \<Longrightarrow> same_setup m m'"
  by (auto simp: mark_runner_completed_def bind_run_Done
      intro: same_setup_trans dest!: expect_setup sample_setup)

lemma stopped_setup: "handle_stopped m i r now = Done (t, m') \<Longrightarrow> same_setup m m'"
  by (auto simp: handle_stopped_def bind_run_Done Let_def same_setup_simps
      split: if_splits stopped_reason.splits intro: same_setup_trans
      dest!: connect_failed_setup completed_setup expect_setup sample_setup)

lemma lost_setup: "handle_runner_lost m i now = Done (t, m') \<Longrightarrow> same_setup m m'"
  by (auto simp: handle_runner_lost_def bind_run_Done Let_def same_setup_simps
      intro!: same_setup_trans [OF _ release_setup] intro: same_setup_trans
      dest!: expect_setup sample_setup)

lemma poll_lifecycle_setup: "poll_lifecycle m ev now = Done (t, m') \<Longrightarrow> same_setup m m'"
  by (auto simp: poll_lifecycle_def bind_run_Done handle_spawn_failed_def handle_lifecycle_def same_setup_simps
      split: list.splits if_splits group_event.splits lifecycle_event.splits
      dest!: connect_failed_setup started_setup stopped_setup lost_setup)

lemma poll_data_setup: "poll_data m ev = Done (t, m') \<Longrightarrow> same_setup m m'"
  by (auto simp: poll_data_def bind_run_Done handle_data_frame_def Let_def same_setup_simps
      split: if_splits group_event.splits dest!: expect_setup)

lemma poll_tick_setup: "poll_tick m lev dev b now = Done (t, m') \<Longrightarrow> same_setup m m'"
  by (auto simp: poll_tick_def bind_run_Done same_setup_simps split: if_splits intro: same_setup_trans
      dest!: poll_lifecycle_setup poll_data_setup)

section \<open>The strategy tick\<close>

text \<open>The loop between turns; \<open>n\<close> is the number of runner ids.\<close>

definition loop_inv :: "usize \<Rightarrow> instant \<Rightarrow> download_loop \<Rightarrow> bool" where
  "loop_inv n t d \<longleftrightarrow>
     rm_inv t (dl_manager d) \<and> writer_inv (dl_writer d) \<and> control_ok n (sc_cc (dl_strategy d))
     \<and> gen_capacity (rm_ids (dl_manager d)) = n
     \<and> p_min_chunk_size (rm_planner (dl_manager d)) = DEFAULT_MIN_CHUNK_SIZE
     \<and> 1 \<le> dl_max_concurrency d \<and> dl_max_concurrency d \<le> n
     \<and> (cc_first_execute (sc_cc (dl_strategy d)) \<longrightarrow> taken_ids (dl_manager d) = {})"

text \<open>Every id belongs to a runner that connects or downloads.\<close>

definition all_active :: "runner_manager \<Rightarrow> bool" where
  "all_active m \<longleftrightarrow> taken_ids m = active_ids (rm_planner m)"

lemma available_spec:
  assumes P: "planner_inv p"
  shows "ranges_bytes (get_available_ranges p) = {0..<p_total p} - p_alloc p"
    and "separated (get_available_ranges p)"
proof -
  have "layout 0 (p_chunks p) (p_total p)" using P by (simp add: planner_inv_def)
  note * = available_from_exact [OF this]
  show "ranges_bytes (get_available_ranges p) = {0..<p_total p} - p_alloc p"
    using * unfolding get_available_ranges_def by (elim conjE)
  show "separated (get_available_ranges p)"
    using * unfolding get_available_ranges_def by (elim conjE) (intro conjI)
qed

lemma available_range:
  assumes P: "planner_inv p" and r: "r \<in> set (get_available_ranges p)"
  shows "r_start r < r_end r \<and> r_end r \<le> p_total p \<and> r_bytes r \<inter> p_alloc p = {}"
proof -
  have "r_bytes r \<subseteq> ranges_bytes (get_available_ranges p)" using r unfolding ranges_bytes_def by blast
  then have b: "r_bytes r \<subseteq> {0..<p_total p} - p_alloc p" using available_spec(1) [OF P] by simp
  have lt: "r_start r < r_end r" using available_spec(2) [OF P] r by blast
  then have "r_end r - 1 \<in> r_bytes r" by simp
  then have "r_end r - 1 \<in> {0..<p_total p}" using b by blast
  then have "r_end r \<le> p_total p" by simp
  then show ?thesis using b lt by blast
qed

lemma available_disjoint:
  assumes "planner_inv p"
  shows "sorted_wrt (\<lambda>a b. r_bytes a \<inter> r_bytes b = {}) (take k (get_available_ranges p))"
proof (rule sorted_wrt_mono_rel [of _ "\<lambda>a b. r_end a < r_start b"])
  have "sorted_wrt (\<lambda>a b. r_end a < r_start b) (take k rs)"
    if "sorted_wrt (\<lambda>a b. r_end a < r_start b) rs" for rs :: "range list"
    using that by (metis append_take_drop_id sorted_wrt_append)
  then show "sorted_wrt (\<lambda>a b. r_end a < r_start b) (take k (get_available_ranges p))"
    using available_spec(2) [OF assms] by blast
next
  fix a b :: range
  assume "r_end a < r_start b"
  then show "r_bytes a \<inter> r_bytes b = {}" by auto
qed

lemma create_actions_ok:
  assumes inv: "rm_inv t (dl_manager d)" and all: "all_active (dl_manager d)"
    and room: "k + get_active_runners_count (rm_planner (dl_manager d)) \<le> gen_capacity (rm_ids (dl_manager d))"
  shows "\<exists>m. apply_all env d (map Create_Task (take k (get_available_ranges (rm_planner (dl_manager d)))))
        = Done (d\<lparr>dl_manager := m\<rparr>) \<and> rm_inv t m \<and> same_setup (dl_manager d) m"
proof (rule create_all_ok [OF inv])
  let ?p = "rm_planner (dl_manager d)"
  note P = rm_invD(1) [OF inv]
  have "card (taken_ids (dl_manager d)) = get_active_runners_count ?p"
    using all active_count_card [OF P] by (simp add: all_active_def)
  moreover have "length (take k (get_available_ranges ?p)) \<le> k" by simp
  ultimately show "card (taken_ids (dl_manager d)) + length (take k (get_available_ranges ?p))
      \<le> gen_capacity (rm_ids (dl_manager d))"
    using room by linarith
  show "\<forall>r \<in> set (take k (get_available_ranges ?p)).
      r_start r < r_end r \<and> r_end r \<le> p_total ?p \<and> r_bytes r \<inter> p_alloc ?p = {}"
    using available_range [OF P] by (meson in_set_takeD)
  show "sorted_wrt (\<lambda>a b. r_bytes a \<inter> r_bytes b = {}) (take k (get_available_ranges ?p))"
    by (rule available_disjoint [OF P])
qed

lemma split_all_action_ok:
  assumes inv: "rm_inv t (dl_manager d)" and all: "all_active (dl_manager d)"
    and msz: "p_min_chunk_size (rm_planner (dl_manager d)) = DEFAULT_MIN_CHUNK_SIZE"
    and room: "2 * get_active_runners_count (rm_planner (dl_manager d)) \<le> gen_capacity (rm_ids (dl_manager d))"
  shows "\<exists>m. apply_action env d (Split_All_Task sz) = Done (d\<lparr>dl_manager := m\<rparr>) \<and> rm_inv t m
    \<and> same_setup (dl_manager d) m"
proof -
  let ?p = "rm_planner (dl_manager d)"
  note P = rm_invD(1) [OF inv]
  have "2 * p_min_chunk_size ?p < u64_bound" using msz by (simp add: DEFAULT_MIN_CHUNK_SIZE_def u64_bound_def)
  then obtain xs where xs: "get_incomplete_states ?p (Some sz) = Done xs" "distinct (map fst xs)"
    "length xs \<le> get_active_runners_count ?p"
    "\<forall>(i, r) \<in> set xs. \<exists>c. get_runner_state ?p i = Some c \<and> c_status c = Running
         \<and> r = incomplete_range c \<and> 2 * p_min_chunk_size ?p \<le> r_len r \<and> r_start r < r_end r
         \<and> (\<forall>v. Some sz = Some v \<longrightarrow> v \<le> r_len r)"
    using incomplete_states_spec [OF P, of "Some sz"] by blast
  have "card (taken_ids (dl_manager d)) = get_active_runners_count ?p"
    using all active_count_card [OF P] by (simp add: all_active_def)
  then have "card (taken_ids (dl_manager d)) + length xs \<le> gen_capacity (rm_ids (dl_manager d))"
    using room xs(3) by simp
  moreover have "\<forall>(i, r) \<in> set xs. \<exists>c. get_runner_state ?p i = Some c \<and> r = incomplete_range c \<and> 2 \<le> r_len r"
    using xs(4) msz by (fastforce simp: DEFAULT_MIN_CHUNK_SIZE_def)
  ultimately show ?thesis
    using split_all_ok [OF inv xs(2)] xs(1) by (simp add: apply_action_def)
qed

lemma apply_actions_ok:
  assumes inv: "rm_inv t (dl_manager d)" and all: "all_active (dl_manager d)"
    and msz: "p_min_chunk_size (rm_planner (dl_manager d)) = DEFAULT_MIN_CHUNK_SIZE"
    and ok: "action_ok (gen_capacity (rm_ids (dl_manager d))) (rm_planner (dl_manager d)) mx acts"
  shows "\<exists>m k. apply_all env d acts = Done (d\<lparr>dl_manager := m, dl_max_concurrency := k\<rparr>) \<and> rm_inv t m
    \<and> same_setup (dl_manager d) m
    \<and> (k = dl_max_concurrency d \<or> 1 \<le> k \<and> k \<le> gen_capacity (rm_ids (dl_manager d)))"
proof -
  let ?p = "rm_planner (dl_manager d)" and ?n = "gen_capacity (rm_ids (dl_manager d))"
  note P = rm_invD(1) [OF inv]
  have keep: ?thesis if "apply_all env d acts = Done (d\<lparr>dl_manager := m\<rparr>)" "rm_inv t m"
    "same_setup (dl_manager d) m" for m
    using that by (intro exI [of _ m] exI [of _ "dl_max_concurrency d"]) simp
  from ok consider (none) "acts = []"
    | (limit) k where "acts = [Change_Max_Concurrency k]" "1 \<le> k" "k \<le> ?n"
    | (create) k where "acts = map Create_Task (take k (get_available_ranges ?p))"
        "k + get_active_runners_count ?p \<le> ?n"
    | (all) sz where "acts = [Split_All_Task sz]" "2 * get_active_runners_count ?p \<le> ?n"
    | (given) i c where "acts = [Split_Given_Task i]" "get_active_runners_count ?p + 1 \<le> ?n"
        "get_runner_state ?p i = Some c" "p_min_chunk_size ?p \<le> r_len (incomplete_range c)"
    unfolding action_ok_def by blast
  then show ?thesis
  proof cases
    case none
    then show ?thesis using keep [of "dl_manager d"] inv by (simp add: same_setup_def)
  next
    case limit
    then show ?thesis
      using inv by (intro exI [of _ "dl_manager d"] exI [of _ k]) (simp add: apply_action_def same_setup_def)
  next
    case create
    obtain m where "apply_all env d acts = Done (d\<lparr>dl_manager := m\<rparr>)" "rm_inv t m"
      "same_setup (dl_manager d) m"
      using create_actions_ok [OF inv assms(2) create(2), of env] create(1) by blast
    then show ?thesis by (rule keep)
  next
    case all
    then show ?thesis
      using split_all_action_ok [OF inv assms(2) msz all(2), of env sz] keep by auto
  next
    case given
    have "card (taken_ids (dl_manager d)) = get_active_runners_count ?p"
      using assms(2) active_count_card [OF P] by (simp add: all_active_def)
    then have "\<exists>m. split_runner env d i (incomplete_range c) = Done (d\<lparr>dl_manager := m\<rparr>) \<and> rm_inv t m
        \<and> same_setup (dl_manager d) m"
      using split_runner_ok [OF inv given(3), of env] given(2,4) msz
      by (fastforce simp: DEFAULT_MIN_CHUNK_SIZE_def)
    then show ?thesis using given(1,3) keep by (auto simp: apply_action_def)
  qed
qed

lemma loop_invD:
  assumes "loop_inv n t d"
  shows "rm_inv t (dl_manager d)" and "writer_inv (dl_writer d)" and "control_ok n (sc_cc (dl_strategy d))"
    and "gen_capacity (rm_ids (dl_manager d)) = n"
    and "p_min_chunk_size (rm_planner (dl_manager d)) = DEFAULT_MIN_CHUNK_SIZE"
    and "1 \<le> dl_max_concurrency d" and "dl_max_concurrency d \<le> n"
    and "cc_first_execute (sc_cc (dl_strategy d)) \<Longrightarrow> taken_ids (dl_manager d) = {}"
  using assms by (simp_all add: loop_inv_def)

lemma rm_inv_sampler: "rm_inv t m \<Longrightarrow> sampler_ok t' sm \<Longrightarrow> rm_inv t' (m\<lparr>rm_sampler := sm\<rparr>)"
  by (simp add: rm_inv_def)

lemma strategy_tick_ok:
  assumes inv: "loop_inv n t d" and all: "all_active (dl_manager d)"
    and clock: "t \<le> en_now env" "t \<le> en_t2 env"
  shows "\<exists>d'. on_strategy_tick env d = Done d' \<and> loop_inv n (en_t2 env) d'
    \<and> dl_writer d' = dl_writer d \<and> dl_policy d' = dl_policy d
    \<and> manager_total (dl_manager d') = manager_total (dl_manager d)"
proof -
  note D = loop_invD [OF inv]
  let ?m = "dl_manager d"
  have "get_active_runners_count (rm_planner ?m) = card (taken_ids ?m)"
    using active_count_card [OF rm_invD(1) [OF D(1)]] all by (simp add: all_active_def)
  then have first_tick: "cc_first_execute (sc_cc (dl_strategy d)) \<longrightarrow> get_active_runners_count (rm_planner ?m) = 0"
    using D(8) by auto
  obtain res s m sm where x: "strategy_execute (dl_strategy d) (dl_max_concurrency d)
        (tp_speed (dl_throughput d)) (tp_per_runner (dl_throughput d)) ?m (en_now env) (en_t1 env) (en_t2 env)
      = Done (res, s, m)"
    and s: "control_ok n (sc_cc s)" "\<not> cc_first_execute (sc_cc s)"
    and m: "m = ?m\<lparr>rm_sampler := sm\<rparr>" "sampler_ok (en_t2 env) sm"
    and acts: "\<forall>name as. res = Some (name, as) \<longrightarrow> action_ok n (rm_planner ?m) (dl_max_concurrency d) as"
    using strategy_execute_total [OF D(1,3) D(4) [symmetric] D(7) first_tick clock] by blast
  let ?d = "d\<lparr>dl_strategy := s, dl_manager := m\<rparr>"
  have rm: "rm_inv (en_t2 env) m" unfolding m(1) by (rule rm_inv_sampler [OF D(1) m(2)])
  have rest: "loop_inv n (en_t2 env) (?d\<lparr>dl_manager := m', dl_max_concurrency := k\<rparr>)"
    if "rm_inv (en_t2 env) m'" "same_setup m m'" "k = dl_max_concurrency d \<or> 1 \<le> k \<and> k \<le> n" for m' k
    using that s D m(1) by (auto simp: loop_inv_def same_setup_def)
  show ?thesis
  proof (cases res)
    case None
    have "loop_inv n (en_t2 env) (?d\<lparr>dl_manager := m, dl_max_concurrency := dl_max_concurrency d\<rparr>)"
      by (rule rest [OF rm]) (simp_all add: same_setup_def)
    then show ?thesis using x None m(1) by (simp add: on_strategy_tick_def manager_total_def)
  next
    case (Some na)
    obtain name as where na: "na = (name, as)" by (cases na)
    have "action_ok (gen_capacity (rm_ids (dl_manager ?d))) (rm_planner (dl_manager ?d)) (dl_max_concurrency d) as"
      using acts Some na m(1) D(4) by simp
    moreover have "all_active (dl_manager ?d)" using all m(1) by (simp add: all_active_def)
    moreover have "p_min_chunk_size (rm_planner (dl_manager ?d)) = DEFAULT_MIN_CHUNK_SIZE"
      using D(5) m(1) by simp
    moreover have "rm_inv (en_t2 env) (dl_manager ?d)" using rm by simp
    ultimately obtain m' k where a: "apply_all env ?d as = Done (?d\<lparr>dl_manager := m', dl_max_concurrency := k\<rparr>)"
      "rm_inv (en_t2 env) m'" "same_setup m m'" "k = dl_max_concurrency d \<or> 1 \<le> k \<and> k \<le> n"
      using apply_actions_ok [of "en_t2 env" ?d "dl_max_concurrency d" as env] D(4) m(1) by auto
    then show ?thesis
      using rest [OF a(2-4)] x Some na m(1)
      by (simp add: on_strategy_tick_def manager_total_def same_setup_def)
  qed
qed

text \<open>
  The ids of runners whose chunk is complete stay taken until the manager has seen them stop, but the
  strategies count only runners that connect or download. So with no id left a strategy that still asks
  for a runner makes the loop panic: the hypothesis \<open>all_active\<close> of the next theorem is needed.
\<close>

lemma spawn_runner_without_id:
  assumes "gen_inv (rm_ids (dl_manager d))" and "gen_ids (rm_ids (dl_manager d)) = {..<gen_capacity (rm_ids (dl_manager d))}"
  shows "spawn_runner env d r = Panicked ''failed to allocate runner with chunk''"
proof -
  have "fst (gen_next (rm_ids (dl_manager d))) = None"
  proof (rule ccontr)
    assume "fst (gen_next (rm_ids (dl_manager d))) \<noteq> None"
    then obtain i g where g: "gen_next (rm_ids (dl_manager d)) = (Some i, g)"
      by (cases "gen_next (rm_ids (dl_manager d))") auto
    have n: "i \<notin> gen_ids (rm_ids (dl_manager d))" "i \<in> gen_ids g" "gen_capacity g = gen_capacity (rm_ids (dl_manager d))"
      using gen_next_Some [OF assms(1) g] by (auto simp: gen_capacity_def)
    have "i < gen_capacity g" using n(2) by (simp add: gen_ids_def gen_is_allocated_def gen_capacity_def)
    then show False using n(1,3) assms(2) by simp
  qed
  then show ?thesis
    by (cases "gen_next (rm_ids (dl_manager d))")
      (simp add: spawn_runner_def spawn_runner_with_chunk_def allocate_runner_def expect_some_def)
qed

text \<open>
  While every runner id belongs to a runner that connects or downloads, a strategy tick never
  panics, whatever the speeds and the spawner's answers: the control's choice always names a runner
  to split, the ids suffice for every runner to create, and every range that is handed out is free.
  It keeps the loop's invariant (the limit stays between one and the number of ids), the task's
  size, and does not touch the writer or the failure count.
\<close>

theorem strategy_tick_is_applied:
  assumes "loop_inv n t d" and "all_active (dl_manager d)"
    and "t \<le> en_now env" and "t \<le> en_t2 env"
  shows "\<exists>d'. on_strategy_tick env d = Done d' \<and> loop_inv n (en_t2 env) d'
    \<and> dl_writer d' = dl_writer d \<and> dl_policy d' = dl_policy d
    \<and> manager_total (dl_manager d') = manager_total (dl_manager d)"
  by (rule strategy_tick_ok [OF assms])

lemma loop_new_inv:
  assumes "tot < u64_bound" and "1 \<le> k" and "2 * k + 2 < u64_bound"
    and "from_secs 60 \<le> t" and "loop_new tot (Some k) mf np now t1 t2 rep = Done d"
  shows "loop_inv k t d \<and> all_active (dl_manager d)"
proof -
  have d: "dl_manager d = manager_new tot k" "dl_writer d = writer_new k"
    "dl_strategy d = strategy_control_new k" "dl_max_concurrency d = k"
    using assms(5) by (auto simp: loop_new_def Let_def bind_run_Done)
  have "rm_inv t (manager_new tot k)" using assms by (intro manager_new_inv) simp_all
  moreover have "writer_inv (writer_new k)" using writer_inv_new [of k] assms(3) by simp
  moreover have "control_ok k (cc_with_default_config k)" using assms by (intro control_ok_new) simp_all
  moreover have "gen_ids (gen_new k) = {}" using gen_inv_new [of k] assms(3) by simp
  moreover have "gen_capacity (gen_new k) = k" by (simp add: gen_capacity_def gen_new_def)
  moreover have "active_ids (planner_new tot) = {}"
    by (simp add: active_ids_def planner_new_def get_runner_state_def)
  ultimately show ?thesis
    using assms(2) unfolding loop_inv_def all_active_def d
    by (simp add: strategy_control_new_def manager_new_def planner_new_def)
qed

lemma new_loop:
  "\<exists>d. loop_new tot (Some k) mf np now t1 t2 rep = Done d"
  by (simp add: loop_new_def throughput_new_def sampler_new_def sampler_with_alpha_def DEFAULT_EMA_ALPHA_def Let_def)

text \<open>A loop at its start, for the witnesses.\<close>

lemma new_loop_inv:
  "\<exists>d. loop_new 500 (Some 3) 5 60 (from_secs 60) 0 0 publisher_new = Done d \<and> loop_inv 3 (from_secs 60) d
    \<and> all_active (dl_manager d)"
proof -
  obtain d where "loop_new 500 (Some 3) 5 60 (from_secs 60) 0 0 publisher_new = Done d" using new_loop by blast
  moreover from this have "loop_inv 3 (from_secs 60) d \<and> all_active (dl_manager d)"
    by (rule loop_new_inv [rotated 4]) (simp_all add: u64_bound_def)
  ultimately show ?thesis by blast
qed

definition some_env :: loop_env where
  "some_env = \<lparr>en_spawn = (\<lambda>_ _. None), en_answer = Queue_Accepts, en_display = (\<lambda>_. []),
     en_now = from_secs 61, en_t1 = from_secs 61, en_t2 = from_secs 61,
     en_observed = True\<rparr>"

lemma some_env_clock: "from_secs 60 \<le> en_now some_env" "from_secs 60 \<le> en_t2 some_env"
  "en_now some_env \<le> en_t2 some_env"
  by (simp_all add: some_env_def from_secs_def)

lemma strategy_tick_is_applied_witness:
  "\<exists>d d'. loop_new 500 (Some 3) 5 60 (from_secs 60) 0 0 publisher_new = Done d \<and> on_strategy_tick some_env d = Done d'"
proof -
  obtain d where d: "loop_new 500 (Some 3) 5 60 (from_secs 60) 0 0 publisher_new = Done d" "loop_inv 3 (from_secs 60) d"
    "all_active (dl_manager d)" using new_loop_inv by blast
  with strategy_tick_is_applied [OF d(2,3) some_env_clock(1,2)] show ?thesis by blast
qed

section \<open>A turn of the loop\<close>

lemma poll_completions_ok:
  assumes "writer_inv w"
  shows "\<exists>cs w'. poll_completions w ans = Done (cs, w') \<and> writer_inv w'
    \<and> owed w = owed w' + mset (map w_range (case cs of None \<Rightarrow> [] | Some b \<Rightarrow> b))
    \<and> (cs = None \<longrightarrow> w' = w)"
proof (cases "pw_in_flight w = 0 \<or> pw_queue w = []")
  case True
  then show ?thesis using assms by (auto simp: poll_completions_def)
next
  case False
  then show ?thesis using settle_ok [OF assms, of ans] by (auto simp: poll_completions_def)
qed

lemma poll_runner_ok:
  assumes inv: "loop_inv n t d" and clock: "t \<le> en_now env"
    and legal: "legal_lifecycle (dl_manager d) (in_lifecycle ins)" "legal_data (dl_manager d) (in_data ins)"
  shows "\<exists>ev d'. poll_runner env ins d = Done (ev, d') \<and> loop_inv n (en_now env) d'
    \<and> (\<exists>m. d' = d\<lparr>dl_manager := m\<rparr>)
    \<and> (ev = None \<or> (\<exists>tick. ev = Some (Ev_Runner tick)
        \<and> (\<forall>c. tk_downloaded tick = Some c \<longrightarrow> can_write (dl_writer d) \<and> length (dc_bytes c) = r_len (dc_range c)
              \<and> r_end (dc_range c) \<le> manager_total (dl_manager d))
        \<and> (tk_state tick = Task_Finished \<longrightarrow> planner_is_complete (rm_planner (dl_manager d')))))"
proof -
  note D = loop_invD [OF inv]
  obtain tk m where p: "poll_tick (dl_manager d) (in_lifecycle ins) (in_data ins) (can_write (dl_writer d))
      (en_now env) = Done (tk, m)" "rm_inv (en_now env) m"
    "tk = None \<longrightarrow> m = dl_manager d"
    "\<not> can_write (dl_writer d) \<longrightarrow> (\<forall>k. tk = Some k \<longrightarrow> tk_downloaded k = None)"
    "\<forall>k c. tk = Some k \<longrightarrow> tk_downloaded k = Some c \<longrightarrow>
       length (dc_bytes c) = r_len (dc_range c) \<and> r_end (dc_range c) \<le> manager_total (dl_manager d)"
    "\<forall>k. tk = Some k \<longrightarrow> tk_state k = Task_Finished \<longrightarrow> planner_is_complete (rm_planner m)"
    using poll_tick_ok [OF D(1) clock legal, of "can_write (dl_writer d)"] by blast
  have keeps: "same_setup (dl_manager d) m" by (rule poll_tick_setup [OF p(1)])
  have "tk = None" if "taken_ids (dl_manager d) = {}"
  proof -
    have l: "rm_lifecycle (dl_manager d) = {}" "rm_data (dl_manager d) = {}"
      using that rm_invD(6,7) [OF D(1)] by blast+
    have "rm_spawn_failures (dl_manager d) = []" using that rm_invD(10) [OF D(1)] by auto
    then show ?thesis using l p(1) by (auto simp: poll_tick_def poll_lifecycle_def poll_data_def split: if_splits)
  qed
  then have "loop_inv n (en_now env) (d\<lparr>dl_manager := m\<rparr>)"
    using D p(2,3) keeps by (auto simp: loop_inv_def same_setup_def)
  then show ?thesis
    using p(1,4-6) by (cases tk) (auto simp: poll_runner_def)
qed

lemma loop_inv_later: "loop_inv n t d \<Longrightarrow> t \<le> t' \<Longrightarrow> loop_inv n t' d"
  unfolding loop_inv_def using rm_inv_later by blast

lemma accept_chunk_ok:
  assumes inv: "loop_inv n t d" and room: "can_write (dl_writer d)"
  shows "\<exists>d'. accept_chunk env d c = (Inr (), d') \<and> loop_inv n t d' \<and> dl_manager d' = dl_manager d
    \<and> owed (dl_writer d') = owed (dl_writer d) + {#dc_range c#}"
proof -
  obtain r w where w: "write_range (dl_writer d) (dc_range c) (dc_bytes c) (en_answer env) = (r, w)" by fastforce
  note ok = write_range_ok [OF loop_invD(2) [OF inv] w]
  obtain s where "r = Inr s" using ok(2) [OF room] by blast
  then show ?thesis
    using ok(1) ok(4) [OF room] w inv by (simp add: accept_chunk_def loop_inv_def Let_def)
qed

lemma on_failure_ok:
  assumes "loop_inv n t d"
  shows "\<exists>res d'. on_failure d f = (res, d') \<and> loop_inv n t d' \<and> dl_manager d' = dl_manager d
    \<and> dl_writer d' = dl_writer d"
  using assms by (auto simp: on_failure_def loop_inv_def split: option.splits prod.splits)

lemma on_runner_ok:
  assumes inv: "loop_inv n t d" and room: "tk_downloaded tick \<noteq> None \<Longrightarrow> can_write (dl_writer d)"
  shows "\<exists>res d'. on_runner env d tick = (res, d') \<and> loop_inv n t d' \<and> dl_manager d' = dl_manager d
    \<and> (\<forall>b. res = Inr b \<longrightarrow> b = (tk_state tick = Task_Finished))
    \<and> (\<forall>c. tk_downloaded tick = Some c \<longrightarrow> owed (dl_writer d') = owed (dl_writer d) + {#dc_range c#})"
proof -
  obtain d1 where a: "(case tk_downloaded tick of None \<Rightarrow> (Inr (), d) | Some c \<Rightarrow> accept_chunk env d c) = (Inr (), d1)"
    "loop_inv n t d1" "dl_manager d1 = dl_manager d"
    "\<forall>c. tk_downloaded tick = Some c \<longrightarrow> owed (dl_writer d1) = owed (dl_writer d) + {#dc_range c#}"
    using inv accept_chunk_ok [OF inv room] by (cases "tk_downloaded tick") fastforce+
  show ?thesis
  proof (cases "tk_failure tick")
    case None
    then show ?thesis using a by (auto simp: on_runner_def)
  next
    case (Some f)
    then show ?thesis using a on_failure_ok [OF a(2), of f]
      by (auto simp: on_runner_def split: sum.splits)
  qed
qed

lemma record_completions_ok:
  assumes "loop_inv n t d"
  shows "\<exists>res d'. record_completions env d cs = (res, d') \<and> loop_inv n t d' \<and> dl_manager d' = dl_manager d
    \<and> dl_writer d' = dl_writer d"
  using assms by (auto simp: record_completions_def loop_inv_def split: sum.splits)

lemma on_deadline_ok:
  assumes "loop_inv n t d"
  shows "\<exists>res d'. on_deadline env d = (res, d') \<and> loop_inv n t d'"
  using assms by (auto simp: on_deadline_def loop_inv_def split: option.splits)

lemma meters_snapshot_inv:
  assumes "rm_inv t m"
  shows "rm_inv t (snd (take_meters_snapshot m))"
proof -
  let ?z = "map (\<lambda>(i, n). (i, 0::nat)) (rm_meters m)"
  have keys: "map fst (map (\<lambda>(i, n). (i, 0::nat)) xs) = map fst xs" for xs :: "(nat \<times> nat) list"
    by (induction xs) auto
  have "bt_invar (rm_meters m)" "fst ` set (rm_meters m) \<subseteq> rm_lifecycle m"
    using assms by (simp_all add: rm_inv_def)
  then have "bt_invar ?z" "fst ` set ?z \<subseteq> rm_lifecycle m"
    using keys [of "rm_meters m"] unfolding bt_invar_def by (metis list.set_map)+
  then show ?thesis using assms by (simp add: rm_inv_def take_meters_snapshot_def)
qed

lemma throughput_tick_ok:
  assumes "loop_inv n t d"
  shows "loop_inv n t (on_throughput_tick env d) \<and> dl_writer (on_throughput_tick env d) = dl_writer d"
proof -
  obtain ms m where m: "take_meters_snapshot (dl_manager d) = (ms, m)" by fastforce
  have "rm_inv t m" using meters_snapshot_inv [OF loop_invD(1) [OF assms]] m by simp
  moreover have "rm_planner m = rm_planner (dl_manager d)" "rm_ids m = rm_ids (dl_manager d)"
    using m by (auto simp: take_meters_snapshot_def)
  ultimately show ?thesis
    using assms m by (auto simp: on_throughput_tick_def publish_progress_def loop_inv_def split: prod.splits)
qed

lemma loop_turn_ok:
  assumes inv: "loop_inv n t d" and clock: "t \<le> en_now env" "en_now env \<le> en_t2 env"
    and legal: "legal_lifecycle (dl_manager d) (in_lifecycle ins)" "legal_data (dl_manager d) (in_data ins)"
    and active: "in_strategy ins \<longrightarrow> all_active (dl_manager d)"
  shows "\<exists>ev d1. poll_event env ins d = Done (ev, d1)
    \<and> (in_cancelled ins \<longrightarrow> ev = Some Ev_Cancelled)
    \<and> (\<forall>cs. ev = Some (Ev_Writer_Completed (Some cs)) \<longrightarrow>
          owed (dl_writer d) = owed (dl_writer d1) + mset (map w_range cs))
    \<and> (case ev of
          None \<Rightarrow> loop_inv n (en_t2 env) d1
        | Some e \<Rightarrow>
            \<exists>res d2. handle_event env d1 e = Done (res, d2) \<and> loop_inv n (en_t2 env) d2
              \<and> (e = Ev_Cancelled \<longrightarrow> res = Inl Download_Cancelled)
              \<and> (res = Inr True \<longrightarrow> planner_is_complete (rm_planner (dl_manager d2)))
              \<and> (\<forall>tick c. e = Ev_Runner tick \<longrightarrow> tk_downloaded tick = Some c \<longrightarrow>
                   length (dc_bytes c) = r_len (dc_range c)
                   \<and> owed (dl_writer d2) = owed (dl_writer d1) + {#dc_range c#}))"
proof -
  have t2: "t \<le> en_t2 env" using clock by simp
  have inv2: "loop_inv n (en_t2 env) d" by (rule loop_inv_later [OF inv t2])
  obtain cs w where p: "poll_completions (dl_writer d) (en_answer env) = Done (cs, w)" "writer_inv w"
    "owed (dl_writer d) = owed w + mset (map w_range (case cs of None \<Rightarrow> [] | Some b \<Rightarrow> b))"
    "cs = None \<longrightarrow> w = dl_writer d"
    using poll_completions_ok [OF loop_invD(2) [OF inv]] by blast
  consider (cancelled) "in_cancelled ins" | (deadline) "\<not> in_cancelled ins" "in_deadline ins"
    | (completed) b where "\<not> in_cancelled ins" "\<not> in_deadline ins" "cs = Some b"
    | (strategy) "\<not> in_cancelled ins" "\<not> in_deadline ins" "cs = None" "in_strategy ins"
    | (throughput) "\<not> in_cancelled ins" "\<not> in_deadline ins" "cs = None" "\<not> in_strategy ins" "in_throughput ins"
    | (runner) "\<not> in_cancelled ins" "\<not> in_deadline ins" "cs = None" "\<not> in_strategy ins" "\<not> in_throughput ins"
    by (cases cs) auto
  then show ?thesis
  proof cases
    case cancelled
    then show ?thesis using inv2 by (simp add: poll_event_def handle_event_def)
  next
    case deadline
    then show ?thesis using on_deadline_ok [OF inv2, of env]
      by (auto simp: poll_event_def handle_event_def split: sum.splits)
  next
    case completed
    have "loop_inv n (en_t2 env) (d\<lparr>dl_writer := w\<rparr>)" using inv2 p(2) by (simp add: loop_inv_def)
    then show ?thesis using record_completions_ok [of n "en_t2 env" "d\<lparr>dl_writer := w\<rparr>" env b] completed p(1,3)
      by (auto simp: poll_event_def handle_event_def split: sum.splits)
  next
    case strategy
    then show ?thesis using strategy_tick_ok [OF inv _ clock(1) t2] active p(1,4)
      by (auto simp: poll_event_def handle_event_def)
  next
    case throughput
    then show ?thesis using throughput_tick_ok [OF inv2, of env] p(1,4)
      by (auto simp: poll_event_def handle_event_def)
  next
    case runner
    then have eq: "poll_event env ins d = poll_runner env ins d" using p(1,4) by (simp add: poll_event_def)
    obtain ev d1 where r: "poll_runner env ins d = Done (ev, d1)" "loop_inv n (en_now env) d1"
      "dl_writer d1 = dl_writer d"
      and tick: "ev = None \<or> (\<exists>tick. ev = Some (Ev_Runner tick)
        \<and> (\<forall>c. tk_downloaded tick = Some c \<longrightarrow> can_write (dl_writer d) \<and> length (dc_bytes c) = r_len (dc_range c)
              \<and> r_end (dc_range c) \<le> manager_total (dl_manager d))
        \<and> (tk_state tick = Task_Finished \<longrightarrow> planner_is_complete (rm_planner (dl_manager d1))))"
      using poll_runner_ok [OF inv clock(1) legal] by fastforce
    have inv1: "loop_inv n (en_t2 env) d1" by (rule loop_inv_later [OF r(2) clock(2)])
    show ?thesis
    proof (cases ev)
      case None
      then show ?thesis using eq r(1) runner(1) inv1 by simp
    next
      case (Some e)
      then obtain k where k: "e = Ev_Runner k"
        "\<forall>c. tk_downloaded k = Some c \<longrightarrow> can_write (dl_writer d) \<and> length (dc_bytes c) = r_len (dc_range c)"
        "tk_state k = Task_Finished \<longrightarrow> planner_is_complete (rm_planner (dl_manager d1))"
        using tick by auto
      have "tk_downloaded k \<noteq> None \<Longrightarrow> can_write (dl_writer d1)" using k(2) r(3) by auto
      then obtain res d2 where "on_runner env d1 k = (res, d2)" "loop_inv n (en_t2 env) d2"
        "dl_manager d2 = dl_manager d1" "\<forall>b. res = Inr b \<longrightarrow> b = (tk_state k = Task_Finished)"
        "\<forall>c. tk_downloaded k = Some c \<longrightarrow> owed (dl_writer d2) = owed (dl_writer d1) + {#dc_range c#}"
        using on_runner_ok [OF inv1] by blast
      then show ?thesis using eq r(1) runner(1) Some k by (simp add: handle_event_def)
    qed
  qed
qed



end
