(* ===== verification/Http.thy ===== *)
theory Http
  imports Errors
begin

text \<open>
  The HTTP contract of the adapters (\<open>bolt-load-http\<close>): classifying a status, parsing
  \<open>Retry-After\<close> and \<open>Content-Encoding\<close>, proving from the headers that a response carries the
  requested bytes, and holding its body to exactly those bytes.
\<close>

section \<open>Statuses\<close>

definition MAX_RETRY_AFTER :: duration where
  "MAX_RETRY_AFTER = from_secs 120"

definition classify_status :: "nat \<Rightarrow> duration option \<Rightarrow> adapter_error" where
  "classify_status status retry_after =
     (if status = 401 \<or> status = 403
      then Unretryable (Unauthorized status
             (if status = 401 then lit ''unauthorized'' else lit ''forbidden''))
      else if status = 404 \<or> status = 410 then Unretryable (Not_Found status)
      else if status = 408 then Retryable (Retryable_Status status)
      else if status = 416 then Unretryable (Range_Not_Satisfiable None)
      else if status = 429 \<or> status = 503
      then Unretryable (Congestion status (map_option (\<lambda>d. min d MAX_RETRY_AFTER) retry_after))
      else if 500 \<le> status \<and> status \<le> 599 then Retryable (Retryable_Status status)
      else Unretryable (Unretryable_Status status))"

text \<open>
  \<open>parse_retry_after\<close>; \<open>parse_http_date\<close> (of the \<open>httpdate\<close> crate) is a parameter, a time is
  its nanoseconds after the epoch.
\<close>

definition parse_retry_after :: "(rstr \<Rightarrow> nat option) \<Rightarrow> rstr \<Rightarrow> nat \<Rightarrow> duration option" where
  "parse_retry_after parse_http_date value now =
     (let v = trim value
      in if v \<noteq> [] \<and> list_all is_ascii_digit v
         then Some (from_secs (case parse_u64 v of Some n \<Rightarrow> n | None \<Rightarrow> u64_bound - 1))
         else (case parse_http_date v of None \<Rightarrow> None | Some at \<Rightarrow> Some (at - now)))"

section \<open>Content codings\<close>

datatype content_coding = Gzip | Deflate | Brotli | Zstd | Other_Coding rstr

definition coding_from_name :: "rstr \<Rightarrow> content_coding" where
  "coding_from_name raw =
     (let name = to_ascii_lowercase raw
      in if name = lit ''gzip'' \<or> name = lit ''x-gzip'' then Gzip
         else if name = lit ''deflate'' then Deflate
         else if name = lit ''br'' then Brotli
         else if name = lit ''zstd'' then Zstd
         else Other_Coding name)"

definition parse_list :: "rstr \<Rightarrow> content_coding list" where
  "parse_list value =
     map coding_from_name
       (filter (\<lambda>name. name \<noteq> [] \<and> \<not> eq_ignore_ascii_case name (lit ''identity''))
         (map trim (split_char (of_char (CHR '','')) value)))"

fun coding_as_str :: "content_coding \<Rightarrow> rstr" where
  "coding_as_str Gzip = lit ''gzip''"
| "coding_as_str Deflate = lit ''deflate''"
| "coding_as_str Brotli = lit ''br''"
| "coding_as_str Zstd = lit ''zstd''"
| "coding_as_str (Other_Coding name) = name"

fun coding_formats :: "content_coding \<Rightarrow> rstr list" where
  "coding_formats Gzip = [lit ''application/gzip'', lit ''application/x-gzip'']"
| "coding_formats Deflate = [lit ''application/zlib'']"
| "coding_formats Zstd = [lit ''application/zstd'']"
| "coding_formats Brotli = []"
| "coding_formats (Other_Coding _) = []"

definition media_type :: "rstr \<Rightarrow> rstr" where
  "media_type value = trim (hd (split_char (of_char (CHR '';'')) value))"

definition is_format_of :: "content_coding \<Rightarrow> rstr \<Rightarrow> bool" where
  "is_format_of c content_type \<longleftrightarrow>
     list_ex (\<lambda>format. eq_ignore_ascii_case (media_type content_type) format) (coding_formats c)"

definition check_content_coding :: "rstr option \<Rightarrow> rstr option \<Rightarrow> adapter_error + unit" where
  "check_content_coding content_encoding content_type =
     (case content_encoding of
        None \<Rightarrow> Inr ()
      | Some enc \<Rightarrow>
         (let is_format =
            (case parse_list enc of
               [] \<Rightarrow> True
             | [only] \<Rightarrow> (case content_type of None \<Rightarrow> False | Some ct \<Rightarrow> is_format_of only ct)
             | _ \<Rightarrow> False)
          in if is_format then Inr () else Inl (Unretryable (Content_Coded enc))))"

section \<open>Range responses\<close>

record range_headers =
  h_content_range :: "rstr option"
  h_content_type :: "rstr option"
  h_content_encoding :: "rstr option"
  h_retry_after :: "duration option"

definition is_multipart :: "rstr \<Rightarrow> bool" where
  "is_multipart content_type \<longleftrightarrow>
     list_ex (\<lambda>value. eq_ignore_ascii_case (media_type value) (lit ''multipart/byteranges''))
       (split_char (of_char (CHR '','')) content_type)"

definition check_partial ::
  "range_headers \<Rightarrow> range \<Rightarrow> u64 option \<Rightarrow> adapter_error + content_range" where
  "check_partial headers requested expected_total =
     (let got = Option.bind (h_content_range headers) content_range_from_str;
          multipart = (case h_content_type headers of None \<Rightarrow> False | Some ct \<Rightarrow> is_multipart ct);
          mismatch = Inl (Unretryable (Range_Mismatch requested got))
      in (case got of
            None \<Rightarrow> mismatch
          | Some g \<Rightarrow>
             if \<not> multipart \<and> cr_first g = r_start requested \<and> cr_last g < r_end requested
                \<and> (case (cr_complete g, expected_total) of
                     (Some compl, Some tot) \<Rightarrow> compl = tot
                   | _ \<Rightarrow> True)
             then
               (case h_content_encoding headers of
                  None \<Rightarrow> Inr g
                | Some coding \<Rightarrow>
                   if parse_list coding \<noteq> []
                   then Inl (Unretryable (Range_Content_Coded coding)) else Inr g)
             else mismatch))"

definition validate_range_response ::
  "nat \<Rightarrow> range_headers \<Rightarrow> range \<Rightarrow> u64 option \<Rightarrow> adapter_error + content_range" where
  "validate_range_response status headers requested expected_total =
     (if status = 206 then check_partial headers requested expected_total
      else if status = 200 then Inl (Unretryable Range_Ignored)
      else if status = 416
      then Inl (Unretryable (Range_Not_Satisfiable
             (Option.bind (h_content_range headers) unsatisfied_complete)))
      else if 400 \<le> status \<and> status \<le> 599
      then Inl (classify_status status (h_retry_after headers))
      else Inl (Unretryable (Unretryable_Status status)))"

section \<open>The body of a range response\<close>

text \<open>
  A byte stream is what its polls will return: \<open>Poll_Pending\<close>, a chunk or an error; it ends
  (\<open>Ready(None)\<close>) when the list is exhausted.
\<close>

datatype 'a poll = Poll_Pending | Poll_Ready 'a

type_synonym stream_item = "adapter_error + chunk"
type_synonym byte_stream = "stream_item poll list"

fun stream_next :: "'a poll list \<Rightarrow> 'a option poll \<times> 'a poll list" where
  "stream_next [] = (Poll_Ready None, [])"
| "stream_next (Poll_Pending # s) = (Poll_Pending, s)"
| "stream_next (Poll_Ready x # s) = (Poll_Ready (Some x), s)"

record range_body =
  rb_body :: "byte_stream option"
  rb_got :: content_range
  rb_remaining :: u64

definition covered_bytes :: "content_range \<Rightarrow> u64" where
  "covered_bytes got = add64 (sub64 (cr_last got) (cr_first got)) 1"

definition limit_range_body :: "byte_stream \<Rightarrow> content_range \<Rightarrow> range_body" where
  "limit_range_body body got =
     \<lparr>rb_body = Some body, rb_got = got, rb_remaining = covered_bytes got\<rparr>"

definition range_body_poll :: "range_body \<Rightarrow> stream_item option poll \<times> range_body" where
  "range_body_poll b =
     (case rb_body b of
        None \<Rightarrow> (Poll_Ready None, b)
      | Some body \<Rightarrow>
         (case stream_next body of
            (Poll_Pending, body') \<Rightarrow> (Poll_Pending, b\<lparr>rb_body := Some body'\<rparr>)
          | (Poll_Ready (Some (Inr chunk)), body') \<Rightarrow>
             (case checked_sub64 (rb_remaining b) (length chunk) of
                Some left \<Rightarrow>
                  (Poll_Ready (Some (Inr chunk)), b\<lparr>rb_body := Some body', rb_remaining := left\<rparr>)
              | None \<Rightarrow>
                  (Poll_Ready (Some (Inl (Unretryable (Range_Body_Too_Long (rb_got b))))),
                   b\<lparr>rb_body := None\<rparr>))
          | (Poll_Ready (Some (Inl e)), body') \<Rightarrow>
              (Poll_Ready (Some (Inl e)), b\<lparr>rb_body := Some body'\<rparr>)
          | (Poll_Ready None, body') \<Rightarrow>
              if 0 < rb_remaining b
              then (Poll_Ready (Some (Inl (Unretryable (Range_Body_Too_Short (rb_got b)
                      (sub64 (covered_bytes (rb_got b)) (rb_remaining b)))))),
                    b\<lparr>rb_body := None\<rparr>)
              else (Poll_Ready None, b\<lparr>rb_body := Some body'\<rparr>)))"

text \<open>The reader of the body polls until it sees an error or the end.\<close>

datatype body_end = Clean_End | Failed_With adapter_error

fun read_body :: "nat \<Rightarrow> range_body \<Rightarrow> (chunk \<times> body_end) option" where
  "read_body 0 b = None"
| "read_body (Suc fuel) b =
     (case range_body_poll b of
        (Poll_Pending, b') \<Rightarrow> read_body fuel b'
      | (Poll_Ready None, b') \<Rightarrow> Some ([], Clean_End)
      | (Poll_Ready (Some (Inl e)), b') \<Rightarrow> Some ([], Failed_With e)
      | (Poll_Ready (Some (Inr chunk)), b') \<Rightarrow>
          map_option (\<lambda>(bytes, e). (chunk @ bytes, e)) (read_body fuel b'))"

fun stream_bytes :: "byte_stream \<Rightarrow> chunk" where
  "stream_bytes [] = []"
| "stream_bytes (Poll_Ready (Inr c) # s) = c @ stream_bytes s"
| "stream_bytes (_ # s) = stream_bytes s"

section \<open>Lemmas\<close>

lemma covered_bytes_exact:
  "cr_first got \<le> cr_last got \<Longrightarrow> cr_last got + 1 < u64_bound \<Longrightarrow>
   covered_bytes got = cr_last got - cr_first got + 1"
  by (simp add: covered_bytes_def sub64_exact add64_exact)

lemma read_body_spec:
  assumes "rb_body b = Some body" and "length body < fuel"
  shows "\<exists>bytes e rest. read_body fuel b = Some (bytes, e)
    \<and> stream_bytes body = bytes @ rest \<and> length bytes \<le> rb_remaining b
    \<and> (e = Clean_End \<longrightarrow> length bytes = rb_remaining b \<and> rest = [])"
  using assms
proof (induction fuel arbitrary: b body)
  case 0
  then show ?case by simp
next
  case (Suc fuel)
  show ?case
  proof (cases body)
    case Nil
    then show ?thesis using Suc.prems by (simp add: range_body_poll_def)
  next
    case (Cons x xs)
    show ?thesis
    proof (cases x)
      case Poll_Pending
      then show ?thesis
        using Suc.IH [of "b\<lparr>rb_body := Some xs\<rparr>" xs] Suc.prems Cons by (simp add: range_body_poll_def)
    next
      case (Poll_Ready item)
      show ?thesis
      proof (cases item)
        case (Inl e)
        then show ?thesis using Suc.prems Cons Poll_Ready by (simp add: range_body_poll_def)
      next
        case (Inr chunk)
        show ?thesis
        proof (cases "length chunk \<le> rb_remaining b")
          case True
          let ?b = "b\<lparr>rb_body := Some xs, rb_remaining := rb_remaining b - length chunk\<rparr>"
          obtain bytes e rest where IH: "read_body fuel ?b = Some (bytes, e)"
            "stream_bytes xs = bytes @ rest" "length bytes \<le> rb_remaining ?b"
            "e = Clean_End \<longrightarrow> length bytes = rb_remaining ?b \<and> rest = []"
            using Suc.IH [of ?b xs] Suc.prems Cons by auto
          have "read_body (Suc fuel) b = Some (chunk @ bytes, e)"
            using Suc.prems Cons Poll_Ready Inr True IH(1)
            by (simp add: range_body_poll_def checked_sub64_def)
          then show ?thesis using IH(2-4) Cons Poll_Ready Inr True by auto
        next
          case False
          then show ?thesis
            using Suc.prems Cons Poll_Ready Inr by (simp add: range_body_poll_def checked_sub64_def)
        qed
      qed
    qed
  qed
qed

text \<open>
  C18: A range response is accepted only when it proves it carries requested bytes: status 206, a
  well-formed single-part \<open>Content-Range\<close> that starts at the requested start and ends before the
  requested end, names the expected total when both are known, and no content coding. In
  particular no decoded, multipart, whole-file or error response passes.
\<close>

theorem accepted_range_response_is_proved:
  assumes "validate_range_response status headers requested expected = Inr got"
  shows "status = 206 \<and> content_range_ok got
    \<and> Option.bind (h_content_range headers) content_range_from_str = Some got
    \<and> cr_first got = r_start requested \<and> cr_last got < r_end requested
    \<and> (\<forall>n m. cr_complete got = Some n \<longrightarrow> expected = Some m \<longrightarrow> n = m)
    \<and> (\<forall>ct. h_content_type headers = Some ct \<longrightarrow> \<not> is_multipart ct)
    \<and> (\<forall>enc. h_content_encoding headers = Some enc \<longrightarrow> parse_list enc = [])"
proof -
  have chk: "status = 206" "check_partial headers requested expected = Inr got"
    using assms by (auto simp: validate_range_response_def split: if_splits)
  have parse: "content_range_from_str s = Some q \<Longrightarrow> content_range_ok q" for s q
    using number_bound
    by (fastforce simp: content_range_from_str_def content_range_ok_def not_le not_less
        split: option.splits prod.splits if_splits)
  show ?thesis
    using chk parse
    by (auto simp: check_partial_def Let_def bind_eq_Some_conv split: option.splits if_splits)
qed

lemma accepted_range_response_is_proved_witness:
  "\<exists>got. validate_range_response 206
      \<lparr>h_content_range = Some (lit ''bytes 10-19/100''), h_content_type = None,
       h_content_encoding = Some (lit ''identity''), h_retry_after = None\<rparr>
      (Range 10 50) (Some 100) = Inr got \<and> content_range_ok got \<and> cr_last got = 19"
proof -
  let ?h = "\<lparr>h_content_range = Some (lit ''bytes 10-19/100''), h_content_type = None,
       h_content_encoding = Some (lit ''identity''), h_retry_after = None\<rparr>"
  let ?g = "\<lparr>cr_first = 10, cr_last = 19, cr_complete = Some 100\<rparr>"
  have "content_range_from_str (lit ''bytes 10-19/100'') = Some ?g"
    by (simp add: u64_bound_def content_range_from_str_def byte_range_def lit_def trim_def
      is_whitespace_def is_ascii_whitespace_def eq_ignore_ascii_case_def to_ascii_lowercase_def
      ascii_lower_def number_def is_ascii_digit_def parse_u64_def push_digit_def checked_mul64_def
      checked_add64_def)
  moreover have "parse_list (lit ''identity'') = []"
    by (simp add: parse_list_def lit_def trim_def is_whitespace_def eq_ignore_ascii_case_def)
  ultimately have "validate_range_response 206 ?h (Range 10 50) (Some 100) = Inr ?g"
    by (simp add: validate_range_response_def check_partial_def)
  then show ?thesis
    using accepted_range_response_is_proved [of 206 ?h "Range 10 50" "Some 100" ?g] by simp
qed



text \<open>
  The classification the task relies on: an error response is retryable exactly for 408 and
  the 5xx statuses other than 503; congestion is exactly 429 and 503, with a \<open>Retry-After\<close> of at
  most two minutes; and no error status is ever accepted as a range.
\<close>

theorem status_classification:
  "(\<exists>e. classify_status status ra = Retryable e)
      = (status = 408 \<or> 500 \<le> status \<and> status \<le> 599 \<and> status \<noteq> 503)
   \<and> (\<exists>d. classify_status status ra = Unretryable (Congestion status d)
          \<and> (case d of None \<Rightarrow> ra = None | Some x \<Rightarrow> x \<le> MAX_RETRY_AFTER))
      = (status = 429 \<or> status = 503)
   \<and> ((\<exists>e. validate_range_response status headers requested expected = Inl e) \<or> status = 206)"
proof -
  have "(\<exists>e. classify_status status ra = Retryable e)
      = (status = 408 \<or> 500 \<le> status \<and> status \<le> 599 \<and> status \<noteq> 503)"
    by (auto simp: classify_status_def)
  moreover have "(\<exists>d. classify_status status ra = Unretryable (Congestion status d)
          \<and> (case d of None \<Rightarrow> ra = None | Some x \<Rightarrow> x \<le> MAX_RETRY_AFTER))
      = (status = 429 \<or> status = 503)"
    by (cases ra) (auto simp: classify_status_def)
  moreover have "(\<exists>e. validate_range_response status headers requested expected = Inl e) \<or> status = 206"
    by (simp add: validate_range_response_def)
  ultimately show ?thesis by blast
qed

end
