(* ===== verification/Runner.thy ===== *)
theory Runner
  imports Http
begin

text \<open>
  The runner of one chunk (\<open>runner/mod.rs\<close>, \<open>builder.rs\<close>, \<open>control.rs\<close> and \<open>run_loop\<close>): a state
  machine that connects, publishes \<open>Started\<close>, streams the body in buffers, waits for the delivered
  data to be drained and publishes \<open>Stopped\<close>. What a poll of a timer, of the cancellation token, of
  the control source and of the two ring buffers answers is an input (\<open>runner_ins\<close>); the body is a
  list of polls, as in \<open>Http\<close>.
\<close>

section \<open>The runner and its phases\<close>

datatype task_run_error = Run_Cancelled | Run_Failed task_error

datatype control_event = Limit_Total u64

datatype runner_input = Connected byte_stream | Connecting_Input | Abandoned

record task_runner =
  rn_total :: "u64 option"
  rn_downloaded :: u64
  rn_input :: runner_input
  rn_data_open :: bool
  rn_frames :: "chunk list"
  rn_events :: "lifecycle_event list"

definition BUFFER_SIZE :: usize where
  "BUFFER_SIZE = 32 * 1024"

text \<open>The frames and events are those pushed so far, in order.\<close>

datatype runner_builder_error =
    Stream_Not_Set | Runner_Id_Not_Set | Control_Signal_Not_Set | Cancel_Token_Not_Set

record runner_builder =
  rb_total :: "u64 option"
  rb_input :: "runner_input option"
  rb_runner_id :: "usize option"
  rb_control :: bool
  rb_cancel_token :: bool

definition builder_default :: runner_builder where
  "builder_default =
     \<lparr>rb_total = None, rb_input = None, rb_runner_id = None, rb_control = False, rb_cancel_token = False\<rparr>"

definition runner_build :: "runner_builder \<Rightarrow> runner_builder_error + task_runner" where
  "runner_build b =
     (if rb_runner_id b = None then Inl Runner_Id_Not_Set
      else
        (case rb_input b of
           None \<Rightarrow> Inl Stream_Not_Set
         | Some input \<Rightarrow>
             if \<not> rb_control b then Inl Control_Signal_Not_Set
             else if \<not> rb_cancel_token b then Inl Cancel_Token_Not_Set
             else Inr \<lparr>rn_total = rb_total b, rn_downloaded = 0, rn_input = input, rn_data_open = True,
                       rn_frames = [], rn_events = []\<rparr>))"

text \<open>The builder calls of the spawner for a range.\<close>

definition spawner_runner :: "range \<Rightarrow> usize \<Rightarrow> runner_builder_error + task_runner" where
  "spawner_runner r i =
     runner_build (builder_default\<lparr>rb_total := Some (sub64 (r_end r) (r_start r)),
        rb_input := Some Connecting_Input, rb_runner_id := Some i, rb_control := True,
        rb_cancel_token := True\<rparr>)"

type_synonym run_result = "task_run_error + unit"

text \<open>\<open>Inl\<close>: the push failed; \<open>Inr (Some e)\<close>: it succeeded, but a control signal failed meanwhile.\<close>

type_synonym emit_result = "task_run_error + task_run_error option"

datatype continuation = Resume_Item | Validate | Then_Idle_Timeout | Then_Stream_Error adapter_error

record emission =
  em_frame :: "chunk option"
  em_deferred :: "task_run_error option"
  em_control_open :: bool

definition emission_new :: "chunk \<Rightarrow> emission" where
  "emission_new data = \<lparr>em_frame = Some data, em_deferred = None, em_control_open = True\<rparr>"

record item_cursor =
  ic_bytes :: chunk
  ic_offset :: usize

record streaming_state =
  st_buffer :: chunk
  st_item :: "item_cursor option"
  st_staged :: "(emission \<times> continuation) option"

definition streaming_new :: streaming_state where
  "streaming_new = \<lparr>st_buffer = [], st_item = None, st_staged = None\<rparr>"

definition is_emitting :: "streaming_state \<Rightarrow> bool" where
  "is_emitting st \<longleftrightarrow> st_staged st \<noteq> None"

datatype drain_outcome = Drained | Drain_Cancelled | Drain_Timed_Out

datatype phase =
    Connecting
  | Publishing_Started
  | Streaming streaming_state
  | Draining run_result
  | Publishing_Stopped "lifecycle_event option"
  | Phase_Stopped

datatype step =
    Step_Connected "adapter_error + byte_stream"
  | Step_Connect_Timeout
  | Step_Started run_result
  | Step_Cancelled
  | Step_Control "task_run_error + control_event"
  | Step_Idle_Timeout
  | Step_Download "stream_item option"
  | Step_Emitted emit_result
  | Step_Drained drain_outcome
  | Step_Stopped_Published

record runner_loop =
  lp_runner :: task_runner
  lp_phase :: phase

definition runner_loop_new :: "task_runner \<Rightarrow> runner_loop" where
  "runner_loop_new r =
     \<lparr>lp_runner = r,
      lp_phase = (case rn_input r of
                    Connected _ \<Rightarrow> Publishing_Started
                  | Connecting_Input \<Rightarrow> Connecting
                  | Abandoned \<Rightarrow> Phase_Stopped)\<rparr>"

section \<open>Size limits\<close>

definition apply_control :: "u64 option \<Rightarrow> control_event \<Rightarrow> (task_error + unit) \<times> u64 option" where
  "apply_control tot signal =
     (case signal of
        Limit_Total new_total \<Rightarrow>
          (case tot of
             None \<Rightarrow> (Inr (), tot)
           | Some current \<Rightarrow>
               if new_total < current then (Inr (), Some new_total)
               else (Inl Exceeded_Total_Size, tot)))"

definition apply_limit :: "task_runner \<Rightarrow> control_event \<Rightarrow> (task_run_error + unit) \<times> task_runner" where
  "apply_limit r signal =
     (case apply_control (rn_total r) signal of
        (res, tot) \<Rightarrow>
          ((case res of Inl e \<Rightarrow> Inl (Run_Failed e) | Inr _ \<Rightarrow> Inr ()), r\<lparr>rn_total := tot\<rparr>))"

definition allowance :: "task_runner \<Rightarrow> chunk \<Rightarrow> usize" where
  "allowance r buff =
     (case rn_total r of
        None \<Rightarrow> u64_bound - 1
      | Some tot \<Rightarrow> saturating_sub64 tot (add64 (rn_downloaded r) (length buff)))"

definition validate_size :: "task_runner \<Rightarrow> run_result" where
  "validate_size r =
     (case rn_total r of
        Some tot \<Rightarrow>
          if tot = rn_downloaded r then Inr ()
          else if rn_downloaded r < tot then Inl (Run_Failed Smaller_Than_Total_Size)
          else Inl (Run_Failed Exceeded_Total_Size)
      | None \<Rightarrow> if 0 < rn_downloaded r then Inr () else Inl (Run_Failed Task_Empty))"

section \<open>Stopping\<close>

fun should_wait_data_drain :: "run_result \<Rightarrow> bool" where
  "should_wait_data_drain (Inr _) = True"
| "should_wait_data_drain (Inl (Run_Failed Exceeded_Total_Size)) = True"
| "should_wait_data_drain (Inl (Run_Failed (Stream_Error _))) = True"
| "should_wait_data_drain (Inl (Run_Failed Task_Timeout)) = True"
| "should_wait_data_drain _ = False"

definition stopped_event :: "run_result \<Rightarrow> lifecycle_event" where
  "stopped_event result =
     (case result of
        Inr _ \<Rightarrow> Stopped Stop_Finished
      | Inl Run_Cancelled \<Rightarrow> lifecycle_failed Task_Cancelled
      | Inl (Run_Failed e) \<Rightarrow> lifecycle_failed e)"

definition publish_stopped :: "runner_loop \<Rightarrow> run_result \<Rightarrow> runner_loop" where
  "publish_stopped l result = l\<lparr>lp_phase := Publishing_Stopped (Some (stopped_event result))\<rparr>"

definition begin_stop :: "runner_loop \<Rightarrow> run_result \<Rightarrow> runner_loop" where
  "begin_stop l result =
     (let l = (if lp_phase l = Connecting
               then l\<lparr>lp_runner := (lp_runner l)\<lparr>rn_input := Abandoned\<rparr>\<rparr> else l)
      in if should_wait_data_drain result then l\<lparr>lp_phase := Draining result\<rparr>
         else publish_stopped l result)"

definition finish_drain :: "runner_loop \<Rightarrow> drain_outcome \<Rightarrow> runner_loop run" where
  "finish_drain l outcome =
     (case lp_phase l of
        Draining result \<Rightarrow>
          Done (publish_stopped l
                  (case outcome of
                     Drained \<Rightarrow> result
                   | Drain_Cancelled \<Rightarrow> Inl Run_Cancelled
                   | Drain_Timed_Out \<Rightarrow> Inl (Run_Failed Task_Timeout)))
      | _ \<Rightarrow> Panicked ''not draining'')"

section \<open>Buffering and emitting\<close>

text \<open>\<open>bytes[from..to]\<close> panics unless \<open>from \<le> to \<le> len\<close>.\<close>

definition slice :: "chunk \<Rightarrow> nat \<Rightarrow> nat \<Rightarrow> chunk option" where
  "slice bs from to = (if from \<le> to \<and> to \<le> length bs then Some (take (to - from) (drop from bs)) else None)"

definition stage :: "runner_loop \<Rightarrow> streaming_state \<Rightarrow> continuation \<Rightarrow> runner_loop" where
  "stage l st cont =
     l\<lparr>lp_phase := Streaming (st\<lparr>st_buffer := [], st_staged := Some (emission_new (st_buffer st), cont)\<rparr>)\<rparr>"

text \<open>What \<open>buffer_item\<close> does with its state before it flushes: nothing more, or a flush.\<close>

datatype buffered = Buffered streaming_state | Flush_Then streaming_state continuation | Buffer_Panic string

definition buffer_step :: "task_runner \<Rightarrow> streaming_state \<Rightarrow> buffered" where
  "buffer_step r st =
     (let allowed = allowance r (st_buffer st)
      in if allowed = 0 then Flush_Then st Validate
         else
           (case st_item st of
              None \<Rightarrow> Buffer_Panic ''an item is being buffered''
            | Some item \<Rightarrow>
                if ic_offset item = length (ic_bytes item) then Buffered (st\<lparr>st_item := None\<rparr>)
                else
                  (let writable = min (sub64 (length (ic_bytes item)) (ic_offset item)) allowed
                   in if add64 (length (st_buffer st)) writable \<le> BUFFER_SIZE
                      then
                        (case slice (ic_bytes item) (ic_offset item) (add64 (ic_offset item) writable) of
                           None \<Rightarrow> Buffer_Panic ''slice out of range''
                         | Some part \<Rightarrow>
                             (let st' = st\<lparr>st_buffer := st_buffer st @ part\<rparr>
                              in if writable = allowed then Flush_Then st' Validate
                                 else Buffered (st'\<lparr>st_item := None\<rparr>)))
                      else
                        (let k = sub64 BUFFER_SIZE (length (st_buffer st))
                         in (case slice (ic_bytes item) (ic_offset item) (add64 (ic_offset item) k) of
                               None \<Rightarrow> Buffer_Panic ''slice out of range''
                             | Some part \<Rightarrow>
                                 Flush_Then
                                   (st\<lparr>st_buffer := st_buffer st @ part,
                                       st_item := Some (item\<lparr>ic_offset := add64 (ic_offset item) k\<rparr>)\<rparr>)
                                   Resume_Item)))))"

text \<open>
  \<open>resume_after_emit\<close>, \<open>resume_item\<close>, \<open>buffer_item\<close> and \<open>flush\<close> call each other; they end because
  an item is resumed only after a full buffer, which \<open>flush\<close> stages instead of going on.
\<close>

datatype resume_call = Call_Resume continuation emit_result | Call_Buffer | Call_Flush continuation

fun on_streaming :: "runner_loop \<Rightarrow> streaming_state option" where
  "on_streaming l = (case lp_phase l of Streaming st \<Rightarrow> Some st | _ \<Rightarrow> None)"

function resume_calls :: "resume_call \<Rightarrow> runner_loop \<Rightarrow> runner_loop run" where
  "resume_calls (Call_Resume cont (Inl e)) l = Done (begin_stop l (Inl e))"
| "resume_calls (Call_Resume (Then_Stream_Error source) (Inr deferred)) l =
     Done (begin_stop l (Inl (Run_Failed (Stream_Error source))))"
| "resume_calls (Call_Resume Resume_Item (Inr (Some e))) l = Done (begin_stop l (Inl e))"
| "resume_calls (Call_Resume Validate (Inr (Some e))) l = Done (begin_stop l (Inl e))"
| "resume_calls (Call_Resume Then_Idle_Timeout (Inr (Some e))) l = Done (begin_stop l (Inl e))"
| "resume_calls (Call_Resume Resume_Item (Inr None)) l = resume_calls Call_Buffer l"
| "resume_calls (Call_Resume Validate (Inr None)) l = Done (begin_stop l (validate_size (lp_runner l)))"
| "resume_calls (Call_Resume Then_Idle_Timeout (Inr None)) l =
     Done (begin_stop l (Inl (Run_Failed Task_Timeout)))"
| "resume_calls Call_Buffer l =
     (case on_streaming l of
        None \<Rightarrow> Panicked ''not streaming''
      | Some st \<Rightarrow>
         (case buffer_step (lp_runner l) st of
            Buffer_Panic m \<Rightarrow> Panicked m
          | Buffered st' \<Rightarrow> Done (l\<lparr>lp_phase := Streaming st'\<rparr>)
          | Flush_Then st' cont \<Rightarrow> resume_calls (Call_Flush cont) (l\<lparr>lp_phase := Streaming st'\<rparr>)))"
| "resume_calls (Call_Flush cont) l =
     (case on_streaming l of
        None \<Rightarrow> Panicked ''not streaming''
      | Some st \<Rightarrow>
          if st_buffer st = [] then resume_calls (Call_Resume cont (Inr None)) l
          else Done (stage l st cont))"
  by pat_completeness auto

lemma slice_nonempty:
  assumes "slice bs from (add64 from k) = Some part" and "0 < k" and "k < u64_bound"
  shows "part \<noteq> []"
proof -
  have *: "from \<le> add64 from k" "add64 from k \<le> length bs" "part = take (add64 from k - from) (drop from bs)"
    using assms(1) by (auto simp: slice_def split: if_splits)
  have "from < u64_bound" using *(1) mod_less_divisor [of u64_bound "from + k"]
    by (simp add: add64_def u64_bound_def)
  then have "add64 from k \<noteq> from" using assms(2,3)
    by (auto simp: add64_def mod_if)
  then have "from < add64 from k" using *(1) by simp
  then show ?thesis using *(2,3) by simp
qed

lemma buffer_step_resume:
  assumes "buffer_step r st = Flush_Then st' Resume_Item"
  shows "st_buffer st' \<noteq> []"
proof -
  obtain item :: item_cursor and part where part: "slice (ic_bytes item) (ic_offset item)
        (add64 (ic_offset item) (sub64 BUFFER_SIZE (length (st_buffer st)))) = Some part"
    and st': "st_buffer st' = st_buffer st @ part"
    using assms by (auto simp: buffer_step_def Let_def split: if_splits option.splits)
  show ?thesis
  proof (cases "st_buffer st = []")
    case True
    then have "part \<noteq> []" using slice_nonempty [OF part]
      by (simp add: BUFFER_SIZE_def sub64_exact u64_bound_def)
    then show ?thesis using st' by simp
  qed (simp add: st')
qed

lemma buffer_step_cont:
  "buffer_step r st = Flush_Then st' cont \<Longrightarrow> cont = Resume_Item \<or> cont = Validate"
  by (auto simp: buffer_step_def Let_def split: if_splits option.splits)

text \<open>How many calls may still follow.\<close>

fun calls_left :: "resume_call \<times> runner_loop \<Rightarrow> nat" where
  "calls_left (Call_Resume cont res, l) = (if cont = Resume_Item then 4 else 0)"
| "calls_left (Call_Buffer, l) = 3"
| "calls_left (Call_Flush cont, l) =
     (if cont = Resume_Item \<and> (\<forall>st. on_streaming l = Some st \<longrightarrow> st_buffer st = []) then 5 else 1)"

termination resume_calls
proof (relation "measure calls_left")
  fix l :: runner_loop and x2 st' cont
  assume "buffer_step (lp_runner l) x2 = Flush_Then st' cont"
  then show "((Call_Flush cont, l\<lparr>lp_phase := Streaming st'\<rparr>), Call_Buffer, l) \<in> measure calls_left"
    using buffer_step_resume by auto
qed auto

declare resume_calls.simps [simp del]

definition resume_after_emit :: "runner_loop \<Rightarrow> continuation \<Rightarrow> emit_result \<Rightarrow> runner_loop run" where
  "resume_after_emit l cont result = resume_calls (Call_Resume cont result) l"

definition buffer_item :: "runner_loop \<Rightarrow> runner_loop run" where
  "buffer_item l = resume_calls Call_Buffer l"

definition runner_flush :: "runner_loop \<Rightarrow> continuation \<Rightarrow> runner_loop run" where
  "runner_flush l cont = resume_calls (Call_Flush cont) l"

section \<open>Emitting a frame\<close>

text \<open>
  What the sources answer when they are polled once: the token, the timers, the connection, the
  \<open>poll_ready\<close> of the two ring buffers (\<open>Poll_Ready False\<close> when the consumer is gone) and whether
  \<open>try_push\<close> then succeeds, whether the data channel is drained, and the control signals that are
  ready, in order (\<open>None\<close>: the sender is gone). Only an emission takes more than the first.
\<close>

record runner_ins =
  ri_cancelled :: bool
  ri_controls :: "control_event option list"
  ri_connect_timeout :: bool
  ri_connect :: "(adapter_error + byte_stream) option"
  ri_idle :: bool
  ri_lifecycle_ready :: "bool poll"
  ri_data_ready :: "bool poll"
  ri_push :: bool
  ri_drained :: bool
  ri_drain_timeout :: bool

definition control_signal :: "control_event option \<Rightarrow> task_run_error + control_event" where
  "control_signal signal =
     (case signal of Some e \<Rightarrow> Inr e | None \<Rightarrow> Inl (Run_Failed Channel_Closed))"

definition poll_control :: "runner_ins \<Rightarrow> (task_run_error + control_event) poll" where
  "poll_control ins =
     (case ri_controls ins of [] \<Rightarrow> Poll_Pending | signal # _ \<Rightarrow> Poll_Ready (control_signal signal))"

definition emission_on_control ::
  "emission \<Rightarrow> task_runner \<Rightarrow> task_run_error + control_event \<Rightarrow> emission \<times> task_runner" where
  "emission_on_control em r ev =
     (let (err, closed, r') =
        (case ev of
           Inr e \<Rightarrow> (case apply_limit r e of
                        (Inl err, r') \<Rightarrow> (Some err, False, r') | (Inr _, r') \<Rightarrow> (None, False, r'))
         | Inl err \<Rightarrow> (Some err, True, r))
      in (em\<lparr>em_control_open := (em_control_open em \<and> \<not> closed),
             em_deferred := (if em_deferred em = None then err else em_deferred em)\<rparr>, r'))"

fun emission_controls ::
  "control_event option list \<Rightarrow> emission \<Rightarrow> task_runner \<Rightarrow> emission \<times> task_runner" where
  "emission_controls [] em r = (em, r)"
| "emission_controls (signal # signals) em r =
     (if em_control_open em
      then (case emission_on_control em r (control_signal signal) of
              (em, r) \<Rightarrow> emission_controls signals em r)
      else (em, r))"

definition emission_push ::
  "runner_ins \<Rightarrow> emission \<Rightarrow> task_runner
   \<Rightarrow> ((task_run_error + unit) poll \<times> emission \<times> task_runner) run" where
  "emission_push ins em r =
     (case ri_data_ready ins of
        Poll_Pending \<Rightarrow> Done (Poll_Pending, em, r)
      | Poll_Ready False \<Rightarrow> Done (Poll_Ready (Inl (Run_Failed Channel_Closed)), em, r)
      | Poll_Ready True \<Rightarrow>
          bind_run (expect_some ''a frame is pushed once'' (em_frame em))
            (\<lambda>frame.
               if ri_push ins
               then Done (Poll_Ready (Inr ()), em\<lparr>em_frame := None\<rparr>,
                          r\<lparr>rn_frames := rn_frames r @ [frame],
                            rn_downloaded := add64 (rn_downloaded r) (length frame)\<rparr>)
               else Panicked ''a vacant slot was filled by another producer''))"

definition emission_poll ::
  "runner_ins \<Rightarrow> emission \<Rightarrow> task_runner \<Rightarrow> (emit_result poll \<times> emission \<times> task_runner) run" where
  "emission_poll ins em r =
     (if \<not> rn_data_open r then Done (Poll_Ready (Inl (Run_Failed Channel_Closed)), em, r)
      else if ri_cancelled ins then Done (Poll_Ready (Inl Run_Cancelled), em, r)
      else
        (case emission_controls (ri_controls ins) em r of
           (em, r) \<Rightarrow>
             bind_run (emission_push ins em r)
               (\<lambda>(pushed, em, r).
                  (case pushed of
                     Poll_Pending \<Rightarrow> Done (Poll_Pending, em, r)
                   | Poll_Ready (Inl e) \<Rightarrow> Done (Poll_Ready (Inl e), em, r)
                   | Poll_Ready (Inr _) \<Rightarrow>
                       Done (Poll_Ready (Inr (em_deferred em)), em\<lparr>em_deferred := None\<rparr>, r)))))"

section \<open>Polling a phase\<close>

text \<open>\<open>Poll_Ready False\<close>: the consumer of the lifecycle channel is gone.\<close>

definition poll_publish ::
  "runner_ins \<Rightarrow> lifecycle_event option \<Rightarrow> task_runner \<Rightarrow> (bool poll \<times> task_runner) run" where
  "poll_publish ins event r =
     (case ri_lifecycle_ready ins of
        Poll_Pending \<Rightarrow> Done (Poll_Pending, r)
      | Poll_Ready opened \<Rightarrow>
          bind_run (expect_some ''an event is published once'' event)
            (\<lambda>e. if \<not> opened then Done (Poll_Ready False, r)
                 else if ri_push ins
                 then Done (Poll_Ready True, r\<lparr>rn_events := rn_events r @ [e]\<rparr>)
                 else Panicked ''a vacant slot was filled by another producer''))"

definition poll_drain :: "runner_ins \<Rightarrow> task_runner \<Rightarrow> drain_outcome poll" where
  "poll_drain ins r =
     (if \<not> rn_data_open r then Poll_Ready Drained
      else if ri_cancelled ins then Poll_Ready Drain_Cancelled
      else if ri_drained ins then Poll_Ready Drained
      else if ri_drain_timeout ins then Poll_Ready Drain_Timed_Out
      else Poll_Pending)"

definition poll_connecting :: "runner_ins \<Rightarrow> runner_loop \<Rightarrow> (step poll \<times> runner_loop) run" where
  "poll_connecting ins l =
     (if ri_cancelled ins then Done (Poll_Ready Step_Cancelled, l)
      else
        (case poll_control ins of
           Poll_Ready ev \<Rightarrow> Done (Poll_Ready (Step_Control ev), l)
         | Poll_Pending \<Rightarrow>
             if ri_connect_timeout ins then Done (Poll_Ready Step_Connect_Timeout, l)
             else if rn_input (lp_runner l) \<noteq> Connecting_Input
             then Panicked ''connecting a connected runner''
             else
               (case ri_connect ins of
                  None \<Rightarrow> Done (Poll_Pending, l)
                | Some res \<Rightarrow> Done (Poll_Ready (Step_Connected res), l))))"

definition poll_reading :: "runner_ins \<Rightarrow> runner_loop \<Rightarrow> (step poll \<times> runner_loop) run" where
  "poll_reading ins l =
     (if ri_cancelled ins then Done (Poll_Ready Step_Cancelled, l)
      else
        (case poll_control ins of
           Poll_Ready ev \<Rightarrow> Done (Poll_Ready (Step_Control ev), l)
         | Poll_Pending \<Rightarrow>
             if ri_idle ins then Done (Poll_Ready Step_Idle_Timeout, l)
             else
               (case rn_input (lp_runner l) of
                  Connected stream \<Rightarrow>
                    (case stream_next stream of
                       (res, stream') \<Rightarrow>
                         (let l = l\<lparr>lp_runner := (lp_runner l)\<lparr>rn_input := Connected stream'\<rparr>\<rparr>
                          in (case res of
                                Poll_Pending \<Rightarrow> Done (Poll_Pending, l)
                              | Poll_Ready item \<Rightarrow> Done (Poll_Ready (Step_Download item), l))))
                | _ \<Rightarrow> Panicked ''streaming before connecting'')))"

definition poll_emit :: "runner_ins \<Rightarrow> runner_loop \<Rightarrow> streaming_state \<Rightarrow> (step poll \<times> runner_loop) run" where
  "poll_emit ins l st =
     bind_run (expect_some ''a buffer was staged'' (st_staged st))
       (\<lambda>(em, cont).
          bind_run (emission_poll ins em (lp_runner l))
            (\<lambda>(res, em, r).
               (let l = l\<lparr>lp_runner := r, lp_phase := Streaming (st\<lparr>st_staged := Some (em, cont)\<rparr>)\<rparr>
                in Done (case res of Poll_Pending \<Rightarrow> Poll_Pending | Poll_Ready x \<Rightarrow> Poll_Ready (Step_Emitted x), l))))"

definition poll_step :: "runner_ins \<Rightarrow> runner_loop \<Rightarrow> (step poll \<times> runner_loop) run" where
  "poll_step ins l =
     (case lp_phase l of
        Connecting \<Rightarrow> poll_connecting ins l
      | Publishing_Started \<Rightarrow>
          bind_run (poll_publish ins (Some Started) (lp_runner l))
            (\<lambda>(opened, r).
               Done (case opened of
                       Poll_Pending \<Rightarrow> Poll_Pending
                     | Poll_Ready b \<Rightarrow>
                         Poll_Ready (Step_Started (if b then Inr () else Inl (Run_Failed Channel_Closed))),
                     l\<lparr>lp_runner := r\<rparr>))
      | Streaming st \<Rightarrow> if is_emitting st then poll_emit ins l st else poll_reading ins l
      | Draining _ \<Rightarrow>
          Done (case poll_drain ins (lp_runner l) of
                  Poll_Pending \<Rightarrow> Poll_Pending | Poll_Ready x \<Rightarrow> Poll_Ready (Step_Drained x), l)
      | Publishing_Stopped event \<Rightarrow>
          bind_run (poll_publish ins event (lp_runner l))
            (\<lambda>(opened, r).
               (case opened of
                  Poll_Pending \<Rightarrow> Done (Poll_Pending, l\<lparr>lp_runner := r\<rparr>)
                | Poll_Ready _ \<Rightarrow>
                    Done (Poll_Ready Step_Stopped_Published,
                          l\<lparr>lp_runner := r, lp_phase := Publishing_Stopped None\<rparr>)))
      | Phase_Stopped \<Rightarrow> Panicked ''a stopped runner is not polled'')"

section \<open>Handling a step\<close>

definition on_item :: "runner_loop \<Rightarrow> chunk \<Rightarrow> runner_loop run" where
  "on_item l item =
     (case on_streaming l of
        None \<Rightarrow> Panicked ''not streaming''
      | Some st \<Rightarrow>
          buffer_item (l\<lparr>lp_phase := Streaming (st\<lparr>st_item := Some \<lparr>ic_bytes = item, ic_offset = 0\<rparr>\<rparr>)\<rparr>))"

definition on_emitted :: "runner_loop \<Rightarrow> emit_result \<Rightarrow> runner_loop run" where
  "on_emitted l result =
     (case on_streaming l of
        None \<Rightarrow> Panicked ''not streaming''
      | Some st \<Rightarrow>
          bind_run (expect_some ''a buffer was staged'' (st_staged st))
            (\<lambda>(_, cont).
               resume_after_emit (l\<lparr>lp_phase := Streaming (st\<lparr>st_staged := None\<rparr>)\<rparr>) cont result))"

definition on_control :: "runner_loop \<Rightarrow> task_run_error + control_event \<Rightarrow> runner_loop" where
  "on_control l ev =
     (case ev of
        Inl e \<Rightarrow> begin_stop l (Inl e)
      | Inr e \<Rightarrow>
         (case apply_limit (lp_runner l) e of
            (Inl err, r) \<Rightarrow> begin_stop (l\<lparr>lp_runner := r\<rparr>) (Inl err)
          | (Inr _, r) \<Rightarrow> l\<lparr>lp_runner := r\<rparr>))"

definition handle_step :: "runner_loop \<Rightarrow> step \<Rightarrow> runner_loop run" where
  "handle_step l s =
     (case s of
        Step_Connected (Inr stream) \<Rightarrow>
          Done (l\<lparr>lp_runner := (lp_runner l)\<lparr>rn_input := Connected stream\<rparr>, lp_phase := Publishing_Started\<rparr>)
      | Step_Connected (Inl source) \<Rightarrow> Done (begin_stop l (Inl (Run_Failed (Stream_Error source))))
      | Step_Connect_Timeout \<Rightarrow> Done (begin_stop l (Inl (Run_Failed Task_Timeout)))
      | Step_Started (Inr _) \<Rightarrow> Done (l\<lparr>lp_phase := Streaming streaming_new\<rparr>)
      | Step_Started (Inl e) \<Rightarrow> Done (begin_stop l (Inl e))
      | Step_Cancelled \<Rightarrow> Done (begin_stop l (Inl Run_Cancelled))
      | Step_Control ev \<Rightarrow> Done (on_control l ev)
      | Step_Idle_Timeout \<Rightarrow> runner_flush l Then_Idle_Timeout
      | Step_Download None \<Rightarrow> runner_flush l Validate
      | Step_Download (Some (Inl source)) \<Rightarrow> runner_flush l (Then_Stream_Error source)
      | Step_Download (Some (Inr item)) \<Rightarrow> on_item l item
      | Step_Emitted result \<Rightarrow> on_emitted l result
      | Step_Drained outcome \<Rightarrow> finish_drain l outcome
      | Step_Stopped_Published \<Rightarrow>
          Done (l\<lparr>lp_runner := (lp_runner l)\<lparr>rn_data_open := False\<rparr>, lp_phase := Phase_Stopped\<rparr>))"

text \<open>
  \<open>run\<close>: one element of the list for each turn of the loop in \<open>poll_run\<close>; a pending turn waits for
  the next. The turns that follow the stop are not taken.
\<close>

fun runner_run :: "runner_ins list \<Rightarrow> runner_loop \<Rightarrow> runner_loop run" where
  "runner_run [] l = Done l"
| "runner_run (ins # rest) l =
     (if lp_phase l = Phase_Stopped then Done l
      else
        bind_run (poll_step ins l)
          (\<lambda>(s, l).
             (case s of
                Poll_Pending \<Rightarrow> runner_run rest l
              | Poll_Ready s \<Rightarrow> bind_run (handle_step l s) (runner_run rest))))"

text \<open>
  \<open>run_after_started\<close>: \<open>poll_until_started\<close>, whose result is what remains of the turns when
  \<open>Started\<close> was published (\<open>None\<close>: not yet, or the runner stopped before); then, once the consumer
  is ready, the step that was held back is handled.
\<close>

fun runner_until_started :: "runner_ins list \<Rightarrow> runner_loop \<Rightarrow> (runner_ins list option \<times> runner_loop) run" where
  "runner_until_started [] l = Done (None, l)"
| "runner_until_started (ins # rest) l =
     (if lp_phase l = Phase_Stopped then Done (None, l)
      else
        bind_run (poll_step ins l)
          (\<lambda>(s, l).
             (case s of
                Poll_Pending \<Rightarrow> runner_until_started rest l
              | Poll_Ready s \<Rightarrow>
                  if s = Step_Started (Inr ()) then Done (Some rest, l)
                  else bind_run (handle_step l s) (runner_until_started rest))))"

definition run_after_started :: "runner_ins list \<Rightarrow> runner_loop \<Rightarrow> runner_loop run" where
  "run_after_started polls l =
     bind_run (runner_until_started polls l)
       (\<lambda>(rest, l).
          (case rest of
             None \<Rightarrow> Done l
           | Some rest \<Rightarrow> bind_run (handle_step l (Step_Started (Inr ()))) (runner_run rest)))"

end
