(* ===== verification/Runner_Inv.thy ===== *)
theory Runner_Inv
  imports Runner
begin

text \<open>
  What a runner keeps from turn to turn: the bytes of the body are, in order, in the pushed frames,
  the staged frame, the buffer, the rest of the item being buffered and the rest of the stream; the
  count is exact; the lifecycle events are those of its phase.
\<close>

section \<open>The invariant\<close>

definition item_rest :: "streaming_state \<Rightarrow> chunk" where
  "item_rest st = (case st_item st of None \<Rightarrow> [] | Some it \<Rightarrow> drop (ic_offset it) (ic_bytes it))"

definition frame_ok :: "chunk \<Rightarrow> bool" where
  "frame_ok f \<longleftrightarrow> f \<noteq> [] \<and> length f \<le> BUFFER_SIZE"

definition runner_ok :: "chunk \<Rightarrow> task_runner \<Rightarrow> bool" where
  "runner_ok body r \<longleftrightarrow>
     rn_downloaded r = length (concat (rn_frames r))
     \<and> (\<exists>rest. body = concat (rn_frames r) @ rest)
     \<and> (\<forall>f \<in> set (rn_frames r). frame_ok f)
     \<and> length body + BUFFER_SIZE < u64_bound"

text \<open>
  The buffer may be flushed with a continuation: what the runner holds is the rest of the body,
  unless it stops at its size limit.
\<close>

definition whole_body :: "chunk \<Rightarrow> task_runner \<Rightarrow> chunk \<Rightarrow> streaming_state \<Rightarrow> byte_stream \<Rightarrow> continuation \<Rightarrow> bool" where
  "whole_body body r held st s cont \<longleftrightarrow>
     (if cont = Validate
      then \<exists>rest. body = concat (rn_frames r) @ held @ rest \<and> (rn_total r = None \<longrightarrow> rest = [])
      else body = concat (rn_frames r) @ held @ item_rest st @ stream_bytes s
           \<and> (cont = Resume_Item \<longrightarrow> st_item st \<noteq> None))"

definition streaming_ok :: "chunk \<Rightarrow> task_runner \<Rightarrow> streaming_state \<Rightarrow> bool" where
  "streaming_ok body r st \<longleftrightarrow>
     (\<exists>s. rn_input r = Connected s
        \<and> length (st_buffer st) \<le> BUFFER_SIZE
        \<and> (\<forall>it. st_item st = Some it \<longrightarrow> ic_offset it \<le> length (ic_bytes it) \<and> length (ic_bytes it) \<le> length body)
        \<and> (case st_staged st of
              None \<Rightarrow> body = concat (rn_frames r) @ st_buffer st @ item_rest st @ stream_bytes s
            | Some (em, cont) \<Rightarrow>
                st_buffer st = []
                \<and> (\<exists>f. em_frame em = Some f \<and> frame_ok f \<and> whole_body body r f st s cont)))"

definition flushable :: "chunk \<Rightarrow> task_runner \<Rightarrow> streaming_state \<Rightarrow> continuation \<Rightarrow> bool" where
  "flushable body r st cont \<longleftrightarrow>
     st_staged st = None \<and> length (st_buffer st) \<le> BUFFER_SIZE
     \<and> (\<forall>it. st_item st = Some it \<longrightarrow> ic_offset it \<le> length (ic_bytes it) \<and> length (ic_bytes it) \<le> length body)
     \<and> (\<exists>s. rn_input r = Connected s \<and> whole_body body r (st_buffer st) st s cont)"

definition finished_ok :: "chunk \<Rightarrow> task_runner \<Rightarrow> bool" where
  "finished_ok body r \<longleftrightarrow>
     (case rn_total r of
        Some t \<Rightarrow> length (concat (rn_frames r)) = t
      | None \<Rightarrow> concat (rn_frames r) = body \<and> body \<noteq> [])"

definition before_stop :: "task_runner \<Rightarrow> bool" where
  "before_stop r \<longleftrightarrow> rn_events r = [] \<and> rn_frames r = [] \<or> rn_events r = [Started]"

fun phase_ok :: "chunk \<Rightarrow> task_runner \<Rightarrow> phase \<Rightarrow> bool" where
  "phase_ok body r Connecting \<longleftrightarrow> rn_frames r = [] \<and> rn_events r = [] \<and> rn_input r = Connecting_Input"
| "phase_ok body r Publishing_Started \<longleftrightarrow>
     rn_frames r = [] \<and> rn_events r = [] \<and> (\<exists>s. rn_input r = Connected s \<and> stream_bytes s = body)"
| "phase_ok body r (Streaming st) \<longleftrightarrow>
     rn_events r = [Started] \<and> streaming_ok body r st \<and> (st_staged st = None \<longrightarrow> st_item st = None)"
| "phase_ok body r (Draining res) \<longleftrightarrow>
     before_stop r \<and> (\<forall>u. res = Inr u \<longrightarrow> finished_ok body r \<and> rn_events r = [Started])"
| "phase_ok body r (Publishing_Stopped ev) \<longleftrightarrow>
     before_stop r
     \<and> (\<exists>reason. ev = Some (Stopped reason)
          \<and> (reason = Stop_Finished \<longrightarrow> finished_ok body r \<and> rn_events r = [Started]))"
| "phase_ok body r Phase_Stopped \<longleftrightarrow>
     (rn_events r = [] \<and> rn_frames r = []) \<or> rn_events r = [Started]
     \<or> (\<exists>reason. rn_events r = [Stopped reason] \<and> reason \<noteq> Stop_Finished \<and> rn_frames r = [])
     \<or> (\<exists>reason. rn_events r = [Started, Stopped reason] \<and> (reason = Stop_Finished \<longrightarrow> finished_ok body r))"

definition runner_inv :: "chunk \<Rightarrow> runner_loop \<Rightarrow> bool" where
  "runner_inv body l \<longleftrightarrow> runner_ok body (lp_runner l) \<and> phase_ok body (lp_runner l) (lp_phase l)"

section \<open>Stopping\<close>

lemma stopped_event_reason:
  "\<exists>reason. stopped_event res = Stopped reason \<and> (reason = Stop_Finished \<longleftrightarrow> (\<exists>u. res = Inr u))"
  by (cases res) (auto simp: stopped_event_def lifecycle_failed_def split: task_run_error.splits)

lemma publish_stopped_inv:
  assumes "runner_ok body (lp_runner l)" and "before_stop (lp_runner l)"
    and "\<And>u. res = Inr u \<Longrightarrow> finished_ok body (lp_runner l) \<and> rn_events (lp_runner l) = [Started]"
  shows "runner_inv body (publish_stopped l res)"
  using assms stopped_event_reason [of res] by (auto simp: runner_inv_def publish_stopped_def)

lemma runner_ok_input [simp]:
  "runner_ok body (r\<lparr>rn_input := x\<rparr>) = runner_ok body r"
  "before_stop (r\<lparr>rn_input := x\<rparr>) = before_stop r"
  "finished_ok body (r\<lparr>rn_input := x\<rparr>) = finished_ok body r"
  by (simp_all add: runner_ok_def before_stop_def finished_ok_def split: option.splits)

lemma begin_stop_inv:
  assumes "runner_ok body (lp_runner l)" and "before_stop (lp_runner l)"
    and "\<And>u. res = Inr u \<Longrightarrow> finished_ok body (lp_runner l) \<and> rn_events (lp_runner l) = [Started]"
  shows "runner_inv body (begin_stop l res)"
proof -
  let ?l = "if lp_phase l = Connecting then l\<lparr>lp_runner := (lp_runner l)\<lparr>rn_input := Abandoned\<rparr>\<rparr> else l"
  have l: "runner_ok body (lp_runner ?l)" "before_stop (lp_runner ?l)"
    "\<And>u. res = Inr u \<Longrightarrow> finished_ok body (lp_runner ?l) \<and> rn_events (lp_runner ?l) = [Started]"
    using assms by auto
  show ?thesis
  proof (cases "should_wait_data_drain res")
    case True
    then have "begin_stop l res = ?l\<lparr>lp_phase := Draining res\<rparr>" by (simp add: begin_stop_def Let_def)
    then show ?thesis using l by (auto simp: runner_inv_def)
  next
    case False
    then have "begin_stop l res = publish_stopped ?l res" by (simp add: begin_stop_def Let_def)
    then show ?thesis using publish_stopped_inv [OF l] by simp
  qed
qed

lemma begin_stop_error:
  "runner_ok body (lp_runner l) \<Longrightarrow> before_stop (lp_runner l) \<Longrightarrow> runner_inv body (begin_stop l (Inl e))"
  by (rule begin_stop_inv) simp_all

lemma begin_stop_validate:
  assumes ok: "runner_ok body (lp_runner l)" and ev: "rn_events (lp_runner l) = [Started]"
    and none: "rn_total (lp_runner l) = None \<Longrightarrow> body = concat (rn_frames (lp_runner l))"
  shows "runner_inv body (begin_stop l (validate_size (lp_runner l)))"
proof (rule begin_stop_inv [OF ok])
  show "before_stop (lp_runner l)" using ev by (simp add: before_stop_def)
  fix u assume "validate_size (lp_runner l) = Inr u"
  then show "finished_ok body (lp_runner l) \<and> rn_events (lp_runner l) = [Started]"
    using ok ev none by (auto simp: validate_size_def finished_ok_def runner_ok_def split: option.splits if_splits)
qed

section \<open>Buffering\<close>

lemma stage_inv:
  assumes "runner_ok body (lp_runner l)" and "rn_events (lp_runner l) = [Started]"
    and "flushable body (lp_runner l) st cont" and "st_buffer st \<noteq> []"
  shows "runner_inv body (stage l st cont)"
proof -
  obtain s where "rn_input (lp_runner l) = Connected s"
    "whole_body body (lp_runner l) (st_buffer st) st s cont"
    using assms(3) unfolding flushable_def by blast
  moreover have "whole_body body r h (st\<lparr>st_buffer := x, st_staged := y\<rparr>) s cont = whole_body body r h st s cont"
    for r h x y by (simp add: whole_body_def item_rest_def)
  ultimately show ?thesis
    using assms
    by (auto simp: runner_inv_def stage_def streaming_ok_def emission_new_def frame_ok_def flushable_def)
qed

lemma flush_inv:
  assumes ph: "lp_phase l = Streaming st" and ok: "runner_ok body (lp_runner l)"
    and ev: "rn_events (lp_runner l) = [Started]"
    and fl: "flushable body (lp_runner l) st cont"
    and item: "cont = Resume_Item \<Longrightarrow> st_buffer st \<noteq> []"
  shows "\<exists>l'. runner_flush l cont = Done l' \<and> runner_inv body l'"
proof (cases "st_buffer st = []")
  case True
  have before: "before_stop (lp_runner l)" using ev by (simp add: before_stop_def)
  show ?thesis
  proof (cases cont)
    case Resume_Item
    then show ?thesis using item True by simp
  next
    case Validate
    then have "rn_total (lp_runner l) = None \<Longrightarrow> body = concat (rn_frames (lp_runner l))"
      using fl True by (auto simp: flushable_def whole_body_def)
    then show ?thesis using Validate True ph begin_stop_validate [OF ok ev]
      by (simp add: runner_flush_def resume_calls.simps)
  next
    case Then_Idle_Timeout
    then show ?thesis using True ph begin_stop_error [OF ok before]
      by (simp add: runner_flush_def resume_calls.simps)
  next
    case (Then_Stream_Error e)
    then show ?thesis using True ph begin_stop_error [OF ok before]
      by (simp add: runner_flush_def resume_calls.simps)
  qed
next
  case False
  then have "runner_flush l cont = Done (stage l st cont)"
    using ph by (simp add: runner_flush_def resume_calls.simps)
  then show ?thesis using stage_inv [OF ok ev fl False] by simp
qed

lemma streaming_flushable:
  assumes "streaming_ok body r st" and "st_staged st = None"
    and "cont = Resume_Item \<Longrightarrow> st_item st \<noteq> None"
    and "cont = Validate \<Longrightarrow> rn_total r = None \<Longrightarrow>
      item_rest st = [] \<and> (\<exists>s. rn_input r = Connected s \<and> stream_bytes s = [])"
  shows "flushable body r st cont"
  using assms unfolding flushable_def streaming_ok_def whole_body_def by auto

text \<open>Moving \<open>k\<close> bytes of the item into the buffer.\<close>

lemma move_bytes:
  assumes st: "streaming_ok body r st" "st_item st = Some it" "st_staged st = None"
    and k: "k \<le> length (ic_bytes it) - ic_offset it" "length (st_buffer st) + k \<le> BUFFER_SIZE"
    and ok: "runner_ok body r"
  shows "slice (ic_bytes it) (ic_offset it) (add64 (ic_offset it) k)
           = Some (take k (drop (ic_offset it) (ic_bytes it)))"
    and "streaming_ok body r (st\<lparr>st_buffer := st_buffer st @ take k (drop (ic_offset it) (ic_bytes it)),
           st_item := Some (it\<lparr>ic_offset := add64 (ic_offset it) k\<rparr>)\<rparr>)"
    and "k = length (ic_bytes it) - ic_offset it \<Longrightarrow>
         streaming_ok body r (st\<lparr>st_buffer := st_buffer st @ take k (drop (ic_offset it) (ic_bytes it)),
           st_item := None\<rparr>)"
proof -
  have it: "ic_offset it \<le> length (ic_bytes it)" "length (ic_bytes it) \<le> length body"
    using st by (auto simp: streaming_ok_def)
  have "length body < u64_bound" using ok by (simp add: runner_ok_def)
  then have add: "add64 (ic_offset it) k = ic_offset it + k" using it k(1) by (intro add64_exact) linarith
  show "slice (ic_bytes it) (ic_offset it) (add64 (ic_offset it) k)
           = Some (take k (drop (ic_offset it) (ic_bytes it)))"
    using it k(1) by (simp add: slice_def add)
  have split: "drop (ic_offset it) (ic_bytes it)
      = take k (drop (ic_offset it) (ic_bytes it)) @ drop (ic_offset it + k) (ic_bytes it)"
    by (metis append_take_drop_id drop_drop add.commute)
  obtain s where s: "rn_input r = Connected s"
    "body = concat (rn_frames r) @ st_buffer st @ drop (ic_offset it) (ic_bytes it) @ stream_bytes s"
    using st by (auto simp: streaming_ok_def item_rest_def)
  have "body = concat (rn_frames r) @ (st_buffer st @ take k (drop (ic_offset it) (ic_bytes it)))
      @ drop (ic_offset it + k) (ic_bytes it) @ stream_bytes s"
    using s(2) split by simp
  then show "streaming_ok body r (st\<lparr>st_buffer := st_buffer st @ take k (drop (ic_offset it) (ic_bytes it)),
           st_item := Some (it\<lparr>ic_offset := add64 (ic_offset it) k\<rparr>)\<rparr>)"
    using s(1) it k st(3) by (auto simp: streaming_ok_def item_rest_def add)
  show "streaming_ok body r (st\<lparr>st_buffer := st_buffer st @ take k (drop (ic_offset it) (ic_bytes it)),
           st_item := None\<rparr>)" if "k = length (ic_bytes it) - ic_offset it"
    using s k st(3) that by (auto simp: streaming_ok_def item_rest_def)
qed

lemma buffer_flush:
  assumes "lp_phase l = Streaming st" and "buffer_step (lp_runner l) st = Flush_Then st' cont"
  shows "buffer_item l = runner_flush (l\<lparr>lp_phase := Streaming st'\<rparr>) cont"
  using assms by (simp add: buffer_item_def runner_flush_def resume_calls.simps(9))

lemma buffer_item_inv:
  assumes ph: "lp_phase l = Streaming st" and ok: "runner_ok body (lp_runner l)"
    and ev: "rn_events (lp_runner l) = [Started]"
    and st: "streaming_ok body (lp_runner l) st" "st_staged st = None" "st_item st = Some it"
  shows "\<exists>l'. buffer_item l = Done l' \<and> runner_inv body l'"
proof -
  let ?r = "lp_runner l" and ?allowed = "allowance (lp_runner l) (st_buffer st)"
  let ?rest = "length (ic_bytes it) - ic_offset it"
  have it: "ic_offset it \<le> length (ic_bytes it)" "length (ic_bytes it) \<le> length body"
    using st by (auto simp: streaming_ok_def)
  have len: "length body + BUFFER_SIZE < u64_bound" using ok by (simp add: runner_ok_def)
  have buf: "length (st_buffer st) \<le> BUFFER_SIZE" using st by (auto simp: streaming_ok_def)
  have sub: "sub64 (length (ic_bytes it)) (ic_offset it) = ?rest" using it len by (intro sub64_exact) linarith+
  have unlimited: "?allowed = u64_bound - 1" if "rn_total ?r = None" using that by (simp add: allowance_def)
  have flush: "\<exists>l'. buffer_item l = Done l' \<and> runner_inv body l'"
    if "buffer_step ?r st = Flush_Then st' cont" "flushable body ?r st' cont"
      "cont = Resume_Item \<Longrightarrow> st_buffer st' \<noteq> []" for st' cont
    unfolding buffer_flush [OF ph that(1)]
    by (rule flush_inv [where st = st']) (use that ok ev in auto)
  show ?thesis
  proof (cases "?allowed = 0")
    case True
    then have "rn_total ?r \<noteq> None" using unlimited by (auto simp: u64_bound_def)
    then have "flushable body ?r st Validate" by (intro streaming_flushable [OF st(1,2)]) simp_all
    moreover have "buffer_step ?r st = Flush_Then st Validate" using True by (simp add: buffer_step_def)
    ultimately show ?thesis using flush by simp
  next
    case allowed: False
    show ?thesis
    proof (cases "ic_offset it = length (ic_bytes it)")
      case True
      then have "buffer_step ?r st = Buffered (st\<lparr>st_item := None\<rparr>)"
        using allowed st(3) by (simp add: buffer_step_def)
      then have "buffer_item l = Done (l\<lparr>lp_phase := Streaming (st\<lparr>st_item := None\<rparr>)\<rparr>)"
        using ph by (simp add: buffer_item_def resume_calls.simps(9))
      moreover have "streaming_ok body ?r (st\<lparr>st_item := None\<rparr>)"
        using st True by (auto simp: streaming_ok_def item_rest_def)
      ultimately show ?thesis using ok ev st(2) by (simp add: runner_inv_def)
    next
      case more: False
      define k where "k = min ?rest ?allowed"
      have kle: "k \<le> ?rest" by (simp add: k_def)
      have addb: "add64 (length (st_buffer st)) k = length (st_buffer st) + k"
        using buf kle it len by (intro add64_exact) linarith
      show ?thesis
      proof (cases "length (st_buffer st) + k \<le> BUFFER_SIZE")
        case fits: True
        note mv = move_bytes [OF st(1,3,2) kle fits ok]
        let ?b = "st_buffer st @ take k (drop (ic_offset it) (ic_bytes it))"
        show ?thesis
        proof (cases "k = ?allowed")
          case True
          have tot: "rn_total ?r \<noteq> None"
          proof
            assume "rn_total ?r = None"
            then have "u64_bound - 1 \<le> length (ic_bytes it)" using unlimited True kle by simp
            then show False using it len by (simp add: BUFFER_SIZE_def)
          qed
          have bs: "buffer_step ?r st = Flush_Then (st\<lparr>st_buffer := ?b\<rparr>) Validate"
            using allowed more st(3) fits mv(1) addb True sub k_def
            by (simp add: buffer_step_def Let_def)
          have "flushable body ?r (st\<lparr>st_buffer := ?b, st_item := Some (it\<lparr>ic_offset := add64 (ic_offset it) k\<rparr>)\<rparr>) Validate"
            by (rule streaming_flushable [OF mv(2)]) (use st(2) tot in auto)
          then have "flushable body ?r (st\<lparr>st_buffer := ?b\<rparr>) Validate"
            using it st(3) by (auto simp: flushable_def whole_body_def)
          then show ?thesis using flush [OF bs] by simp
        next
          case False
          then have kr: "k = ?rest" by (simp add: k_def min_def split: if_splits)
          have "buffer_step ?r st = Buffered (st\<lparr>st_buffer := ?b, st_item := None\<rparr>)"
            using allowed more st(3) fits mv(1) addb False sub k_def
            by (simp add: buffer_step_def Let_def)
          then show ?thesis using ph ok ev st(2) mv(3) [OF kr]
            by (simp add: buffer_item_def resume_calls.simps(9) runner_inv_def)
        qed
      next
        case full: False
        define j where "j = BUFFER_SIZE - length (st_buffer st)"
        have j: "j \<le> ?rest" "length (st_buffer st) + j \<le> BUFFER_SIZE"
          using full kle buf by (auto simp: j_def)
        have subj: "sub64 BUFFER_SIZE (length (st_buffer st)) = j"
          unfolding j_def using buf len by (intro sub64_exact) simp_all
        note mv = move_bytes [OF st(1,3,2) j ok]
        let ?st = "st\<lparr>st_buffer := st_buffer st @ take j (drop (ic_offset it) (ic_bytes it)),
            st_item := Some (it\<lparr>ic_offset := add64 (ic_offset it) j\<rparr>)\<rparr>"
        have bs: "buffer_step ?r st = Flush_Then ?st Resume_Item"
          using allowed more st(3) full mv(1) addb sub subj k_def
          by (simp add: buffer_step_def Let_def)
        show ?thesis
          by (rule flush [OF bs streaming_flushable [OF mv(2)]]) (use st(2) buffer_step_resume [OF bs] in auto)
      qed
    qed
  qed
qed

section \<open>Emitting\<close>

text \<open>What a control signal may change: it lowers a known limit.\<close>

definition lowers :: "task_runner \<Rightarrow> task_runner \<Rightarrow> bool" where
  "lowers r r' \<longleftrightarrow>
     r' = r\<lparr>rn_total := rn_total r'\<rparr> \<and> (rn_total r' = None \<longleftrightarrow> rn_total r = None)
     \<and> (\<forall>a b. rn_total r = Some a \<longrightarrow> rn_total r' = Some b \<longrightarrow> b \<le> a)"

lemma lowers_refl [simp]: "lowers r r"
  by (simp add: lowers_def)

lemma lowers_trans:
  assumes "lowers r s" and "lowers s t"
  shows "lowers r t"
proof -
  have "t = r\<lparr>rn_total := rn_total t\<rparr>"
    using assms unfolding lowers_def by (metis task_runner.update_convs(1) task_runner.surjective task_runner.select_convs(1))
  moreover have "b \<le> a" if "rn_total r = Some a" "rn_total t = Some b" for a b
    using that assms by (cases "rn_total s") (auto simp: lowers_def dest: le_trans)
  ultimately show ?thesis using assms by (simp add: lowers_def)
qed

lemma apply_limit_lowers: "apply_limit r e = (res, r') \<Longrightarrow> lowers r r'"
  by (cases e) (auto simp: apply_limit_def apply_control_def lowers_def split: option.splits if_splits)

lemma emission_on_control_lowers:
  "emission_on_control em r ev = (em', r') \<Longrightarrow> em_frame em' = em_frame em \<and> lowers r r'"
  by (auto simp: emission_on_control_def dest: apply_limit_lowers split: sum.splits prod.splits)

lemma emission_controls_lowers:
  "emission_controls signals em r = (em', r') \<Longrightarrow> em_frame em' = em_frame em \<and> lowers r r'"
proof (induction signals em r rule: emission_controls.induct)
  case (2 signal signals em r)
  then show ?case
    by (auto split: if_splits prod.splits dest!: emission_on_control_lowers intro: lowers_trans)
qed simp

lemma lowers_fields:
  assumes "lowers r r'"
  shows "rn_frames r' = rn_frames r" and "rn_downloaded r' = rn_downloaded r" and "rn_input r' = rn_input r"
    and "rn_events r' = rn_events r" and "rn_data_open r' = rn_data_open r"
    and "rn_total r' = None \<longleftrightarrow> rn_total r = None"
proof -
  have *: "r' = r\<lparr>rn_total := rn_total r'\<rparr>" using assms by (simp add: lowers_def)
  show "rn_frames r' = rn_frames r" by (subst *) simp
  show "rn_downloaded r' = rn_downloaded r" by (subst *) simp
  show "rn_input r' = rn_input r" by (subst *) simp
  show "rn_events r' = rn_events r" by (subst *) simp
  show "rn_data_open r' = rn_data_open r" by (subst *) simp
  show "rn_total r' = None \<longleftrightarrow> rn_total r = None" using assms by (simp add: lowers_def)
qed

lemma lowers_keeps:
  assumes "lowers r r'"
  shows "runner_ok body r' = runner_ok body r" and "before_stop r' = before_stop r"
    and "whole_body body r' h st s cont = whole_body body r h st s cont"
    and "streaming_ok body r' st = streaming_ok body r st"
  unfolding runner_ok_def before_stop_def whole_body_def streaming_ok_def lowers_fields [OF assms] by (rule refl)+

text \<open>A poll of the emission keeps the frame, fails, or pushes it.\<close>

definition push_frame :: "chunk \<Rightarrow> task_runner \<Rightarrow> task_runner" where
  "push_frame f r = r\<lparr>rn_frames := rn_frames r @ [f], rn_downloaded := add64 (rn_downloaded r) (length f)\<rparr>"

lemma emission_poll_ok:
  assumes f: "em_frame em = Some f" and push: "ri_push ins"
  shows "\<exists>res em' r1 r'. emission_poll ins em r = Done (res, em', r') \<and> lowers r r1
    \<and> (case res of
          Poll_Pending \<Rightarrow> em_frame em' = Some f \<and> r' = r1
        | Poll_Ready (Inl e) \<Rightarrow> r' = r1
        | Poll_Ready (Inr d) \<Rightarrow> r' = push_frame f r1)"
proof (cases "\<not> rn_data_open r \<or> ri_cancelled ins")
  case True
  then have "\<exists>e. emission_poll ins em r = Done (Poll_Ready (Inl e), em, r)"
    by (auto simp: emission_poll_def)
  then show ?thesis using lowers_refl [of r] by force
next
  case False
  obtain em1 r1 where c: "emission_controls (ri_controls ins) em r = (em1, r1)" by fastforce
  have em1: "em_frame em1 = Some f" "lowers r r1" using emission_controls_lowers [OF c] f by auto
  have open': "rn_data_open r" "\<not> ri_cancelled ins" using False by simp_all
  consider (pending) "ri_data_ready ins = Poll_Pending" | (closed) "ri_data_ready ins = Poll_Ready False"
    | (ready) "ri_data_ready ins = Poll_Ready True"
    by (metis (full_types) poll.exhaust)
  then show ?thesis
  proof cases
    case pending
    then have "emission_poll ins em r = Done (Poll_Pending, em1, r1)"
      using open' c by (simp add: emission_poll_def emission_push_def)
    then show ?thesis using em1 by (intro exI conjI) auto
  next
    case closed
    then have "emission_poll ins em r = Done (Poll_Ready (Inl (Run_Failed Channel_Closed)), em1, r1)"
      using open' c by (simp add: emission_poll_def emission_push_def)
    then show ?thesis using em1 by (intro exI conjI) auto
  next
    case ready
    then have "\<exists>d em2. emission_poll ins em r = Done (Poll_Ready (Inr d), em2, push_frame f r1)"
      using open' c em1 push by (simp add: emission_poll_def emission_push_def push_frame_def)
    then obtain d em2 where "emission_poll ins em r = Done (Poll_Ready (Inr d), em2, push_frame f r1)" by blast
    then show ?thesis using em1(2) by (intro exI conjI) auto
  qed
qed

section \<open>A turn of the loop\<close>

text \<open>One turn: the phase is polled and what it selects is handled.\<close>

definition runner_turn :: "runner_ins \<Rightarrow> runner_loop \<Rightarrow> runner_loop run" where
  "runner_turn ins l =
     bind_run (poll_step ins l)
       (\<lambda>(s, l). case s of Poll_Pending \<Rightarrow> Done l | Poll_Ready s \<Rightarrow> handle_step l s)"

lemma runner_run_turn:
  "runner_run (ins # rest) l =
     (if lp_phase l = Phase_Stopped then Done l else bind_run (runner_turn ins l) (runner_run rest))"
  by (cases "poll_step ins l") (auto simp: runner_turn_def split: poll.splits)

text \<open>What the inputs may be: a push into a vacant slot succeeds; the body is the one connected.\<close>

definition turn_ok :: "chunk \<Rightarrow> runner_ins \<Rightarrow> bool" where
  "turn_ok body ins \<longleftrightarrow>
     ri_push ins \<and> (\<forall>s. ri_connect ins = Some (Inr s) \<longrightarrow> stream_bytes s = body)"

lemma on_control_inv:
  assumes inv: "runner_inv body l"
    and ph: "lp_phase l = Connecting \<or> (\<exists>st. lp_phase l = Streaming st \<and> st_staged st = None)"
  shows "runner_inv body (on_control l ev)"
proof -
  have ok: "runner_ok body (lp_runner l)" and before: "before_stop (lp_runner l)"
    using inv ph by (auto simp: runner_inv_def before_stop_def)
  show ?thesis
  proof (cases ev)
    case (Inl e)
    then show ?thesis using begin_stop_error [OF ok before] by (simp add: on_control_def)
  next
    case (Inr e)
    obtain res r where a: "apply_limit (lp_runner l) e = (res, r)" by fastforce
    have lo: "lowers (lp_runner l) r" by (rule apply_limit_lowers [OF a])
    show ?thesis
    proof (cases res)
      case (Inl err)
      then show ?thesis using Inr a begin_stop_error [of body "l\<lparr>lp_runner := r\<rparr>"] ok before lowers_keeps [OF lo]
        by (simp add: on_control_def)
    next
      case (Inr u)
      have "runner_inv body (l\<lparr>lp_runner := r\<rparr>)"
        using inv ph lowers_keeps [OF lo] lowers_fields [OF lo] by (auto simp: runner_inv_def)
      then show ?thesis using \<open>ev = Inr e\<close> Inr a by (simp add: on_control_def)
    qed
  qed
qed

lemma turn_connecting:
  assumes inv: "runner_inv body l" and ph: "lp_phase l = Connecting" and ins: "turn_ok body ins"
  shows "\<exists>l'. runner_turn ins l = Done l' \<and> runner_inv body l'"
proof -
  have ok: "runner_ok body (lp_runner l)" "before_stop (lp_runner l)" "rn_input (lp_runner l) = Connecting_Input"
    "rn_frames (lp_runner l) = []" "rn_events (lp_runner l) = []"
    using inv ph by (auto simp: runner_inv_def before_stop_def)
  have stop: "runner_inv body (begin_stop l (Inl e))" for e by (rule begin_stop_error [OF ok(1,2)])
  have ctrl: "runner_inv body (on_control l ev)" for ev by (rule on_control_inv [OF inv]) (simp add: ph)
  have conn: "runner_inv body (l\<lparr>lp_runner := (lp_runner l)\<lparr>rn_input := Connected s\<rparr>, lp_phase := Publishing_Started\<rparr>)"
    if "stream_bytes s = body" for s
    using that ok by (auto simp: runner_inv_def)
  show ?thesis
    using ph ok(3) stop ctrl conn ins inv
    by (auto simp: runner_turn_def poll_step_def poll_connecting_def handle_step_def turn_ok_def
        split: poll.splits option.splits sum.splits)
qed

lemma turn_publishing_started:
  assumes inv: "runner_inv body l" and ph: "lp_phase l = Publishing_Started" and ins: "turn_ok body ins"
  shows "\<exists>l'. runner_turn ins l = Done l' \<and> runner_inv body l'"
proof -
  obtain s where ok: "runner_ok body (lp_runner l)" "before_stop (lp_runner l)"
    "rn_frames (lp_runner l) = []" "rn_events (lp_runner l) = []" "rn_input (lp_runner l) = Connected s" "stream_bytes s = body"
    using inv ph by (auto simp: runner_inv_def before_stop_def)
  have stop: "runner_inv body (begin_stop l (Inl e))" for e by (rule begin_stop_error [OF ok(1,2)])
  have "runner_inv body (l\<lparr>lp_runner := (lp_runner l)\<lparr>rn_events := [Started]\<rparr>, lp_phase := Streaming streaming_new\<rparr>)"
    using ok by (auto simp: runner_inv_def runner_ok_def streaming_new_def streaming_ok_def item_rest_def)
  then show ?thesis
    using ph stop inv ins ok(4)
    by (auto simp: runner_turn_def poll_step_def poll_publish_def handle_step_def turn_ok_def
        split: poll.splits)
qed

lemma turn_draining:
  assumes inv: "runner_inv body l" and ph: "lp_phase l = Draining res"
  shows "\<exists>l'. runner_turn ins l = Done l' \<and> runner_inv body l'"
proof -
  have ok: "runner_ok body (lp_runner l)" "before_stop (lp_runner l)"
    "\<And>u. res = Inr u \<Longrightarrow> finished_ok body (lp_runner l) \<and> rn_events (lp_runner l) = [Started]"
    using inv ph by (auto simp: runner_inv_def)
  have pub: "runner_inv body (publish_stopped l res)" by (rule publish_stopped_inv [OF ok])
  have err: "runner_inv body (publish_stopped l (Inl e))" for e by (rule publish_stopped_inv [OF ok(1,2)]) simp
  show ?thesis
    using ph pub err inv
    by (auto simp: runner_turn_def poll_step_def handle_step_def finish_drain_def
        split: poll.splits drain_outcome.splits)
qed

lemma turn_publishing_stopped:
  assumes inv: "runner_inv body l" and ph: "lp_phase l = Publishing_Stopped ev" and ins: "turn_ok body ins"
  shows "\<exists>l'. runner_turn ins l = Done l' \<and> runner_inv body l'"
proof -
  obtain reason where ok: "runner_ok body (lp_runner l)" "before_stop (lp_runner l)" "ev = Some (Stopped reason)"
    "reason = Stop_Finished \<longrightarrow> finished_ok body (lp_runner l) \<and> rn_events (lp_runner l) = [Started]"
    using inv ph by (auto simp: runner_inv_def)
  let ?gone = "l\<lparr>lp_runner := (lp_runner l)\<lparr>rn_data_open := False\<rparr>, lp_phase := Phase_Stopped\<rparr>"
  let ?sent = "l\<lparr>lp_runner := (lp_runner l)\<lparr>rn_events := rn_events (lp_runner l) @ [Stopped reason], rn_data_open := False\<rparr>,
      lp_phase := Phase_Stopped\<rparr>"
  have "runner_inv body ?gone"
    using ok by (auto simp: runner_inv_def before_stop_def runner_ok_def)
  moreover have "runner_inv body ?sent"
    using ok by (auto simp: runner_inv_def before_stop_def runner_ok_def finished_ok_def split: option.splits)
  ultimately show ?thesis
    using ph ok(3) ins inv
    by (auto simp: runner_turn_def poll_step_def poll_publish_def handle_step_def turn_ok_def
        split: poll.splits)
qed

lemma turn_emitting:
  assumes inv: "runner_inv body l" and ph: "lp_phase l = Streaming st" and em: "is_emitting st"
    and ins: "turn_ok body ins"
  shows "\<exists>l'. runner_turn ins l = Done l' \<and> runner_inv body l'"
proof -
  let ?r = "lp_runner l"
  obtain e cont where staged: "st_staged st = Some (e, cont)" using em by (auto simp: is_emitting_def)
  have ok: "runner_ok body ?r" "rn_events ?r = [Started]" "streaming_ok body ?r st"
    using inv ph by (auto simp: runner_inv_def)
  obtain f s where f: "em_frame e = Some f" "frame_ok f" "st_buffer st = []" "rn_input ?r = Connected s"
    "whole_body body ?r f st s cont"
    and item: "\<And>it. st_item st = Some it \<Longrightarrow> ic_offset it \<le> length (ic_bytes it) \<and> length (ic_bytes it) \<le> length body"
    using ok(3) staged by (auto simp: streaming_ok_def)
  have "ri_push ins" using ins by (simp add: turn_ok_def)
  from emission_poll_ok [OF f(1) this, of ?r] obtain res e' r1 r' where p:
    "emission_poll ins e ?r = Done (res, e', r')" "lowers ?r r1"
    "case res of Poll_Pending \<Rightarrow> em_frame e' = Some f \<and> r' = r1
       | Poll_Ready (Inl e) \<Rightarrow> r' = r1 | Poll_Ready (Inr d) \<Rightarrow> r' = push_frame f r1" by blast
  note lo = lowers_keeps [OF p(2)] lowers_fields [OF p(2)]
  let ?st = "st\<lparr>st_staged := Some (e', cont)\<rparr>"
  have turn: "runner_turn ins l
      = (case res of Poll_Pending \<Rightarrow> Done (l\<lparr>lp_runner := r', lp_phase := Streaming ?st\<rparr>)
         | Poll_Ready x \<Rightarrow> resume_after_emit
             (l\<lparr>lp_runner := r', lp_phase := Streaming (st\<lparr>st_staged := None\<rparr>)\<rparr>) cont x)"
    using ph em staged p(1)
    by (cases res) (auto simp: runner_turn_def poll_step_def poll_emit_def handle_step_def on_emitted_def)
  show ?thesis
  proof (cases res)
    case Poll_Pending
    have "streaming_ok body r1 ?st"
      using Poll_Pending p(3) f lo(3,7) item by (auto simp: streaming_ok_def whole_body_def item_rest_def)
    then show ?thesis using turn Poll_Pending p(3) ok lo by (simp add: runner_inv_def)
  next
    case (Poll_Ready x)
    show ?thesis
    proof (cases x)
      case (Inl err)
      then show ?thesis
        using turn Poll_Ready p(3) ok lo begin_stop_error
        by (simp add: resume_after_emit_def resume_calls.simps before_stop_def)
    next
      case (Inr d)
      let ?l = "l\<lparr>lp_runner := r', lp_phase := Streaming (st\<lparr>st_staged := None\<rparr>)\<rparr>"
      have r': "r' = push_frame f r1" using Poll_Ready Inr p(3) by simp
      have flen: "length (concat (rn_frames r1)) + length f \<le> length body"
        using f(5) lo(5) by (auto simp: whole_body_def split: if_splits)
      have rok: "runner_ok body r'"
      proof -
        have "runner_ok body r1" using ok lo by simp
        moreover from this have "add64 (rn_downloaded r1) (length f) = rn_downloaded r1 + length f"
          using flen by (intro add64_exact) (auto simp: runner_ok_def)
        moreover have "\<exists>rest. body = (concat (rn_frames r1) @ f) @ rest"
          using f(5) lo(5) by (auto simp: whole_body_def split: if_splits)
        ultimately show ?thesis using f(2) by (auto simp: r' push_frame_def runner_ok_def)
      qed
      have ev: "rn_events r' = [Started]" using ok(2) lo r' by (simp add: push_frame_def)
      have inp: "rn_input r' = Connected s" using f(4) lo r' by (simp add: push_frame_def)
      have tot: "rn_total r' = None \<longleftrightarrow> rn_total ?r = None" using lo r' by (simp add: push_frame_def)
      have frames: "concat (rn_frames r') = concat (rn_frames ?r) @ f" using lo r' by (simp add: push_frame_def)
      have before: "before_stop r'" using ev by (simp add: before_stop_def)
      have stop: "runner_inv body (begin_stop ?l (Inl e))" for e
        using begin_stop_error [of body ?l] rok before by simp
      have resume: "\<exists>l'. resume_after_emit ?l cont (Inr None) = Done l' \<and> runner_inv body l'"
      proof (cases cont)
        case Resume_Item
        then obtain it where it: "st_item st = Some it" using f(5) by (auto simp: whole_body_def)
        have "streaming_ok body r' (st\<lparr>st_staged := None\<rparr>)"
          using f Resume_Item item frames inp by (auto simp: streaming_ok_def whole_body_def item_rest_def)
        then have "\<exists>l'. buffer_item ?l = Done l' \<and> runner_inv body l'"
          by (intro buffer_item_inv [where st = "st\<lparr>st_staged := None\<rparr>" and it = it]) (use rok ev it in simp_all)
        then show ?thesis using Resume_Item by (simp add: resume_after_emit_def resume_calls.simps(6) buffer_item_def)
      next
        case Validate
        have "rn_total r' = None \<Longrightarrow> body = concat (rn_frames r')"
          using f(5) Validate tot frames by (auto simp: whole_body_def)
        then show ?thesis using Validate begin_stop_validate [of body ?l] rok ev
          by (simp add: resume_after_emit_def resume_calls.simps)
      qed (use stop in \<open>auto simp: resume_after_emit_def resume_calls.simps\<close>)
      have "\<exists>l'. resume_after_emit ?l cont (Inr d) = Done l' \<and> runner_inv body l'"
      proof (cases d)
        case (Some err)
        then show ?thesis using stop by (cases cont) (auto simp: resume_after_emit_def resume_calls.simps)
      qed (use resume in simp)
      then show ?thesis using turn Poll_Ready Inr by simp
    qed
  qed
qed

lemma turn_reading:
  assumes inv: "runner_inv body l" and ph: "lp_phase l = Streaming st" and em: "\<not> is_emitting st"
  shows "\<exists>l'. runner_turn ins l = Done l' \<and> runner_inv body l'"
proof -
  let ?r = "lp_runner l"
  have none: "st_staged st = None" using em by (simp only: is_emitting_def not_not)
  have ok: "runner_ok body ?r" "rn_events ?r = [Started]" "streaming_ok body ?r st" "st_item st = None"
    "before_stop ?r"
    using inv ph none by (auto simp: runner_inv_def before_stop_def)
  obtain s where s: "rn_input ?r = Connected s" "length (st_buffer st) \<le> BUFFER_SIZE"
    "body = concat (rn_frames ?r) @ st_buffer st @ stream_bytes s"
    using ok(3,4) none by (auto simp: streaming_ok_def item_rest_def)
  obtain res s' where n: "stream_next s = (res, s')" by fastforce
  let ?l = "l\<lparr>lp_runner := ?r\<lparr>rn_input := Connected s'\<rparr>\<rparr>"
  have l: "lp_phase ?l = Streaming st" "runner_ok body (lp_runner ?l)" "rn_events (lp_runner ?l) = [Started]"
    using ph ok by simp_all
  have keep: "streaming_ok body (lp_runner ?l) st" if "stream_bytes s' = stream_bytes s"
    using that s none ok(4) by (simp add: streaming_ok_def item_rest_def)
  have flush: "\<exists>l'. runner_flush l0 cont = Done l' \<and> runner_inv body l'"
    if "lp_phase l0 = Streaming st" "runner_ok body (lp_runner l0)" "rn_events (lp_runner l0) = [Started]"
      "streaming_ok body (lp_runner l0) st" "cont = Then_Idle_Timeout \<or> (\<exists>e. cont = Then_Stream_Error e)" for l0 cont
    by (rule flush_inv [OF that(1-3) streaming_flushable [OF that(4) none]]) (use that(5) in auto)
  consider (cancel) "ri_cancelled ins" | (control) ev where "\<not> ri_cancelled ins" "poll_control ins = Poll_Ready ev"
    | (idle) "\<not> ri_cancelled ins" "poll_control ins = Poll_Pending" "ri_idle ins"
    | (read) "\<not> ri_cancelled ins" "poll_control ins = Poll_Pending" "\<not> ri_idle ins"
    by (cases "poll_control ins") auto
  then show ?thesis
  proof cases
    case cancel
    then show ?thesis using ph em begin_stop_error [OF ok(1,5)]
      by (simp add: runner_turn_def poll_step_def poll_reading_def handle_step_def)
  next
    case control
    then show ?thesis using ph em none on_control_inv [OF inv]
      by (simp add: runner_turn_def poll_step_def poll_reading_def handle_step_def)
  next
    case idle
    then show ?thesis using ph em flush [OF ph ok(1,2,3), of Then_Idle_Timeout]
      by (simp add: runner_turn_def poll_step_def poll_reading_def handle_step_def)
  next
    case read
    then have turn: "runner_turn ins l = (case res of Poll_Pending \<Rightarrow> Done ?l
        | Poll_Ready x \<Rightarrow> handle_step ?l (Step_Download x))"
      using ph em s(1) n
      by (simp add: runner_turn_def poll_step_def poll_reading_def Let_def split: poll.splits)
    consider (pending) "res = Poll_Pending" "stream_bytes s' = stream_bytes s"
      | (ended) "res = Poll_Ready None" "s = []" "s' = []"
      | (error) e where "res = Poll_Ready (Some (Inl e))" "stream_bytes s' = stream_bytes s"
      | (item) c where "res = Poll_Ready (Some (Inr c))" "stream_bytes s = c @ stream_bytes s'"
    proof (cases s rule: stream_next.cases)
      case (3 x t)
      then show ?thesis using n that by (cases x) auto
    qed (use n that in auto)
    then show ?thesis
    proof cases
      case pending
      then show ?thesis using turn l keep ok(4) none by (simp add: runner_inv_def)
    next
      case ended
      have "flushable body (lp_runner ?l) st Validate"
        by (rule streaming_flushable [OF keep none]) (use ended ok(4) in \<open>simp_all add: item_rest_def\<close>)
      from flush_inv [OF l this] show ?thesis using turn ended by (simp add: handle_step_def)
    next
      case error
      then show ?thesis using turn flush [OF l keep] by (simp add: handle_step_def)
    next
      case item
      let ?st = "st\<lparr>st_item := Some \<lparr>ic_bytes = c, ic_offset = 0\<rparr>\<rparr>"
      have "length c \<le> length body" using s(3) item(2) by simp
      then have "streaming_ok body (lp_runner ?l) ?st"
        using s item(2) none by (simp add: streaming_ok_def item_rest_def)
      then have "\<exists>l'. buffer_item (?l\<lparr>lp_phase := Streaming ?st\<rparr>) = Done l' \<and> runner_inv body l'"
        by (intro buffer_item_inv [where st = ?st and it = "\<lparr>ic_bytes = c, ic_offset = 0\<rparr>"])
          (use l none in simp_all)
      then show ?thesis using turn item ph by (simp add: handle_step_def on_item_def)
    qed
  qed
qed

lemma runner_turn_ok:
  assumes inv: "runner_inv body l" and ins: "turn_ok body ins" and ph: "lp_phase l \<noteq> Phase_Stopped"
  shows "\<exists>l'. runner_turn ins l = Done l' \<and> runner_inv body l'"
  using turn_connecting [OF inv _ ins] turn_publishing_started [OF inv _ ins] turn_draining [OF inv]
    turn_publishing_stopped [OF inv _ ins] turn_emitting [OF inv _ _ ins] turn_reading [OF inv] ph
  by (cases "lp_phase l") blast+

lemma runner_run_ok:
  "runner_inv body l \<Longrightarrow> \<forall>ins \<in> set polls. turn_ok body ins \<Longrightarrow>
   \<exists>l'. runner_run polls l = Done l' \<and> runner_inv body l'"
proof (induction polls arbitrary: l)
  case (Cons ins rest)
  show ?case
  proof (cases "lp_phase l = Phase_Stopped")
    case False
    then obtain l1 where "runner_turn ins l = Done l1" "runner_inv body l1"
      using runner_turn_ok [OF Cons.prems(1)] Cons.prems(2) by auto
    then show ?thesis using Cons.IH [of l1] Cons.prems(2) False by (simp add: runner_run_turn del: runner_run.simps)
  qed (use Cons.prems in simp)
qed simp

section \<open>From the builder\<close>

lemma built_runner_inv:
  assumes "runner_build b = Inr r"
    and "rb_input b = Some Connecting_Input \<or> (\<exists>s. rb_input b = Some (Connected s) \<and> stream_bytes s = body)"
    and "length body + BUFFER_SIZE < u64_bound"
  shows "runner_inv body (runner_loop_new r)"
  using assms
  by (auto simp: runner_build_def runner_inv_def runner_loop_new_def runner_ok_def split: if_splits option.splits)

end
