(* ===== verification/Runner_Props.thy ===== *)
theory Runner_Props
  imports Runner_Inv
begin

text \<open>
  The properties of a runner: what it delivers, which lifecycle events it publishes, that it
  reports success only once its data is drained, that a cancelled runner stops, and that waiting
  for the consumer between \<open>Started\<close> and the data changes nothing.
\<close>

section \<open>Delivery\<close>

lemma runner_run_append:
  "runner_run (xs @ ys) l = bind_run (runner_run xs l) (runner_run ys)"
proof (induction xs arbitrary: l)
  case (Cons ins xs)
  have stopped: "lp_phase l = Phase_Stopped \<Longrightarrow> runner_run ys l = Done l" by (cases ys) simp_all
  show ?case
    by (cases "runner_turn ins l") (auto simp: runner_run_turn Cons.IH stopped simp del: runner_run.simps(2))
qed simp

text \<open>
  C9: Whatever the body, the signals and the timing, a built runner never panics. The frames it has
  pushed are, in order, a prefix of the body, none of them empty or larger than the buffer, and its
  count is their length.
\<close>

theorem runner_delivers_the_body:
  assumes "runner_build b = Inr r"
    and "rb_input b = Some Connecting_Input \<or> (\<exists>s. rb_input b = Some (Connected s) \<and> stream_bytes s = body)"
    and "length body + BUFFER_SIZE < u64_bound"
    and "\<forall>ins \<in> set polls. turn_ok body ins"
  shows "\<exists>l rest. runner_run polls (runner_loop_new r) = Done l
    \<and> body = concat (rn_frames (lp_runner l)) @ rest
    \<and> rn_downloaded (lp_runner l) = length (concat (rn_frames (lp_runner l)))
    \<and> (\<forall>f \<in> set (rn_frames (lp_runner l)). f \<noteq> [] \<and> length f \<le> BUFFER_SIZE)"
  using runner_run_ok [OF built_runner_inv [OF assms(1-3)] assms(4)]
  by (force simp: runner_inv_def runner_ok_def frame_ok_def)

text \<open>A runner for three bytes of a connected body, and a turn in which everything is ready.\<close>

definition some_runner :: runner_builder where
  "some_runner = builder_default\<lparr>rb_total := Some 3, rb_input := Some (Connected [Poll_Ready (Inr [1, 2, 3])]),
     rb_runner_id := Some 0, rb_control := True, rb_cancel_token := True\<rparr>"

definition ready_turn :: runner_ins where
  "ready_turn = \<lparr>ri_cancelled = False, ri_controls = [], ri_connect_timeout = False, ri_connect = None,
     ri_idle = False, ri_lifecycle_ready = Poll_Ready True, ri_data_ready = Poll_Ready True, ri_push = True,
     ri_drained = True, ri_drain_timeout = False\<rparr>"

lemma some_runner_built:
  "\<exists>r. runner_build some_runner = Inr r"
  "rb_input some_runner = Some (Connected [Poll_Ready (Inr [1, 2, 3])])"
  "stream_bytes [Poll_Ready (Inr [1, 2, 3])] = [1, 2, 3]"
  "length [1, 2, 3 :: nat] + BUFFER_SIZE < u64_bound" "turn_ok [1, 2, 3] ready_turn"
  by (simp_all add: some_runner_def runner_build_def builder_default_def BUFFER_SIZE_def u64_bound_def
      turn_ok_def ready_turn_def)

lemma runner_delivers_the_body_witness:
  "\<exists>r l rest. runner_build some_runner = Inr r
     \<and> runner_run [ready_turn, ready_turn, ready_turn] (runner_loop_new r) = Done l
     \<and> [1, 2, 3] = concat (rn_frames (lp_runner l)) @ rest"
proof -
  obtain r where r: "runner_build some_runner = Inr r" using some_runner_built(1) by blast
  show ?thesis
    using runner_delivers_the_body [OF r, of "[1, 2, 3]" "[ready_turn, ready_turn, ready_turn]"] r some_runner_built(2-5)
    by (metis (no_types, lifting) empty_iff list.set(1) set_ConsD)
qed

text \<open>
  C26: The lifecycle channel gets at most \<open>Started\<close> and then \<open>Stopped\<close>, each once and in this order,
  so its two places always suffice; data comes only after \<open>Started\<close>. \<open>Finished\<close> is reported only
  after \<open>Started\<close> and only when the pushed bytes are as many as the last size limit or, without a
  limit, are the whole nonempty body.
\<close>

theorem runner_lifecycle_protocol:
  assumes "runner_build b = Inr r"
    and "rb_input b = Some Connecting_Input \<or> (\<exists>s. rb_input b = Some (Connected s) \<and> stream_bytes s = body)"
    and "length body + BUFFER_SIZE < u64_bound"
    and "\<forall>ins \<in> set polls. turn_ok body ins"
  shows "\<exists>l. runner_run polls (runner_loop_new r) = Done l
    \<and> (\<exists>reason. rn_events (lp_runner l) \<in> {[], [Started], [Stopped reason], [Started, Stopped reason]})
    \<and> (rn_frames (lp_runner l) \<noteq> [] \<longrightarrow> Started \<in> set (rn_events (lp_runner l)))
    \<and> (Stopped Stop_Finished \<in> set (rn_events (lp_runner l)) \<longrightarrow>
         Started \<in> set (rn_events (lp_runner l))
         \<and> (case rn_total (lp_runner l) of
              Some t \<Rightarrow> length (concat (rn_frames (lp_runner l))) = t
            | None \<Rightarrow> concat (rn_frames (lp_runner l)) = body \<and> body \<noteq> []))"
proof -
  obtain l where l: "runner_run polls (runner_loop_new r) = Done l" "runner_inv body l"
    using runner_run_ok [OF built_runner_inv [OF assms(1-3)] assms(4)] by blast
  then have "phase_ok body (lp_runner l) (lp_phase l)" by (simp add: runner_inv_def)
  then have "(\<exists>reason. rn_events (lp_runner l) \<in> {[], [Started], [Stopped reason], [Started, Stopped reason]})
    \<and> (rn_frames (lp_runner l) \<noteq> [] \<longrightarrow> Started \<in> set (rn_events (lp_runner l)))
    \<and> (Stopped Stop_Finished \<in> set (rn_events (lp_runner l)) \<longrightarrow>
         Started \<in> set (rn_events (lp_runner l)) \<and> finished_ok body (lp_runner l))"
    by (cases "lp_phase l") (auto simp: before_stop_def)
  then show ?thesis using l(1) by (simp add: finished_ok_def)
qed

lemma runner_lifecycle_protocol_witness:
  "\<exists>r l reason. runner_build some_runner = Inr r
     \<and> runner_run [ready_turn, ready_turn] (runner_loop_new r) = Done l
     \<and> rn_events (lp_runner l) \<in> {[], [Started], [Stopped reason], [Started, Stopped reason]}"
proof -
  obtain r where r: "runner_build some_runner = Inr r" using some_runner_built(1) by blast
  have "\<forall>ins \<in> set [ready_turn, ready_turn]. turn_ok [1, 2, 3] ins" using some_runner_built(5) by simp
  from runner_lifecycle_protocol [OF r _ some_runner_built(4) this] show ?thesis
    using r some_runner_built(2,3) by blast
qed

section \<open>Draining\<close>

text \<open>The reports after which the consumer keeps the delivered bytes: they wait for the drain.\<close>

fun counts_data :: "lifecycle_event \<Rightarrow> bool" where
  "counts_data (Stopped Stop_Finished) = True"
| "counts_data (Stopped (Stop_Failed Exceeded_Total_Size)) = True"
| "counts_data (Stopped (Stop_Failed (Stream_Error _))) = True"
| "counts_data _ = False"

definition undrained :: "runner_loop \<Rightarrow> bool" where
  "undrained l \<longleftrightarrow>
     (\<forall>e \<in> set (rn_events (lp_runner l)). \<not> counts_data e)
     \<and> (\<forall>e. lp_phase l = Publishing_Stopped (Some e) \<longrightarrow> \<not> counts_data e)
     \<and> (lp_phase l \<noteq> Phase_Stopped \<longrightarrow> rn_data_open (lp_runner l))"

lemma stopped_event_drained: "\<not> should_wait_data_drain res \<Longrightarrow> \<not> counts_data (stopped_event res)"
  by (cases res rule: should_wait_data_drain.cases)
    (auto simp: stopped_event_def lifecycle_failed_def)

lemma begin_stop_undrained:
  "undrained l \<Longrightarrow> lp_phase l \<noteq> Phase_Stopped \<Longrightarrow> undrained (begin_stop l res)"
  using stopped_event_drained [of res]
  by (auto simp: undrained_def begin_stop_def publish_stopped_def Let_def)

lemma resume_calls_undrained:
  "resume_calls c l = Done l' \<Longrightarrow> undrained l \<Longrightarrow> lp_phase l \<noteq> Phase_Stopped \<Longrightarrow> undrained l'"
proof (induction c l rule: resume_calls.induct)
  case (9 l)
  then show ?case
    by (auto simp: resume_calls.simps(9) undrained_def split: option.splits buffered.splits phase.splits)
next
  case (10 cont l)
  then show ?case
    by (auto simp: resume_calls.simps(10) undrained_def stage_def split: option.splits if_splits phase.splits)
qed (auto simp: resume_calls.simps intro: begin_stop_undrained)

lemma emission_push_keeps:
  "emission_push ins em r = Done (p, em', r') \<Longrightarrow> rn_events r' = rn_events r \<and> rn_data_open r' = rn_data_open r"
  by (auto simp: emission_push_def bind_run_Done split: if_splits poll.splits bool.splits)

lemma emission_poll_keeps:
  assumes "emission_poll ins em r = Done (res, em', r')"
  shows "rn_events r' = rn_events r \<and> rn_data_open r' = rn_data_open r"
proof (cases "\<not> rn_data_open r \<or> ri_cancelled ins")
  case True
  then show ?thesis using assms by (auto simp: emission_poll_def split: if_splits)
next
  case False
  obtain em1 r1 where c: "emission_controls (ri_controls ins) em r = (em1, r1)" by fastforce
  obtain p em2 r2 where p: "emission_push ins em1 r1 = Done (p, em2, r2)"
    using assms False c by (auto simp: emission_poll_def bind_run_Done)
  have "r' = r2" using assms False c p by (auto simp: emission_poll_def split: poll.splits sum.splits)
  then show ?thesis
    using emission_push_keeps [OF p] emission_controls_lowers [OF c] lowers_fields(4,5) [of r r1] by simp
qed

lemma poll_step_undrained:
  assumes "undrained l" and "poll_step ins l = Done (s, l')" and "\<not> ri_drained ins"
  shows "undrained l' \<and> s \<noteq> Poll_Ready (Step_Drained Drained)
    \<and> (lp_phase l' = Phase_Stopped \<longrightarrow> lp_phase l = Phase_Stopped)
    \<and> (\<forall>o'. s = Poll_Ready (Step_Drained o') \<longrightarrow> (\<exists>res. lp_phase l' = Draining res))"
proof (cases "lp_phase l")
  case Connecting
  then show ?thesis using assms
    by (auto simp: poll_step_def poll_connecting_def split: if_splits poll.splits option.splits)
next
  case Publishing_Started
  then show ?thesis using assms
    by (auto simp: poll_step_def poll_publish_def bind_run_Done undrained_def split: if_splits poll.splits)
next
  case (Streaming st)
  show ?thesis
  proof (cases "is_emitting st")
    case True
    then obtain em cont where st: "st_staged st = Some (em, cont)" by (auto simp: is_emitting_def)
    obtain res em' r where e: "emission_poll ins em (lp_runner l) = Done (res, em', r)"
      using assms(2) True Streaming st by (auto simp: poll_step_def poll_emit_def bind_run_Done)
    have "l' = l\<lparr>lp_runner := r, lp_phase := Streaming (st\<lparr>st_staged := Some (em', cont)\<rparr>)\<rparr>"
      "s = (case res of Poll_Pending \<Rightarrow> Poll_Pending | Poll_Ready x \<Rightarrow> Poll_Ready (Step_Emitted x))"
      using assms(2) True Streaming st e by (auto simp: poll_step_def poll_emit_def)
    then show ?thesis
      using assms(1) Streaming emission_poll_keeps [OF e] by (auto simp: undrained_def split: poll.splits)
  next
    case False
    then show ?thesis using assms Streaming
      by (auto simp: poll_step_def poll_reading_def undrained_def Let_def
          split: if_splits poll.splits runner_input.splits prod.splits)
  qed
next
  case (Draining res)
  then show ?thesis using assms
    by (auto simp: poll_step_def poll_drain_def undrained_def split: if_splits)
next
  case (Publishing_Stopped ev)
  then show ?thesis using assms
    by (cases ev) (auto simp: poll_step_def poll_publish_def bind_run_Done undrained_def split: if_splits poll.splits)
next
  case Phase_Stopped
  then show ?thesis using assms by (simp add: poll_step_def)
qed

lemma resume_undrained:
  assumes "undrained l" and "lp_phase l = Streaming st" and "resume_calls c (l\<lparr>lp_phase := Streaming st'\<rparr>) = Done l'"
  shows "undrained l'"
  by (rule resume_calls_undrained [OF assms(3)]) (use assms(1,2) in \<open>simp_all add: undrained_def\<close>)

lemma on_streaming_Some: "on_streaming l = Some st \<longleftrightarrow> lp_phase l = Streaming st"
  by (simp split: phase.splits)

declare on_streaming.simps [simp del]

lemma handle_step_undrained:
  assumes u: "undrained l" and h: "handle_step l s = Done l'" and ph: "lp_phase l \<noteq> Phase_Stopped"
    and nd: "s \<noteq> Step_Drained Drained"
  shows "undrained l'"
proof -
  note stop = begin_stop_undrained [OF u ph]
  show ?thesis
  proof (cases s)
    case (Step_Connected x)
    then show ?thesis using h stop u ph by (cases x) (auto simp: handle_step_def undrained_def)
  next
    case (Step_Started x)
    then show ?thesis using h stop u ph by (cases x) (auto simp: handle_step_def undrained_def)
  next
    case (Step_Control x)
    then have l': "l' = on_control l x" using h by (simp add: handle_step_def)
    show ?thesis
    proof (cases x)
      case (Inl e)
      then show ?thesis using l' stop by (simp add: on_control_def)
    next
      case (Inr e)
      obtain res r where a: "apply_limit (lp_runner l) e = (res, r)" by fastforce
      have u': "undrained (l\<lparr>lp_runner := r\<rparr>)"
        using u lowers_fields [OF apply_limit_lowers [OF a]] by (simp add: undrained_def)
      then show ?thesis
        using l' Inr a begin_stop_undrained [OF u'] ph by (cases res) (simp_all add: on_control_def)
    qed
  next
    case (Step_Download x)
    show ?thesis
    proof (cases "\<exists>c. x = Some (Inr c)")
      case True
      then obtain c st where "x = Some (Inr c)" "lp_phase l = Streaming st"
        "resume_calls Call_Buffer (l\<lparr>lp_phase := Streaming (st\<lparr>st_item := Some \<lparr>ic_bytes = c, ic_offset = 0\<rparr>\<rparr>)\<rparr>) = Done l'"
        using h Step_Download by (auto simp: handle_step_def on_item_def buffer_item_def on_streaming_Some split: option.splits)
      then show ?thesis using resume_undrained [OF u] by blast
    next
      case False
      then obtain cont where "resume_calls (Call_Flush cont) l = Done l'"
        using h Step_Download by (cases x) (auto simp: handle_step_def runner_flush_def split: sum.splits)
      then show ?thesis using resume_calls_undrained u ph by blast
    qed
  next
    case (Step_Emitted x)
    then obtain st cont where "lp_phase l = Streaming st"
      "resume_calls (Call_Resume cont x) (l\<lparr>lp_phase := Streaming (st\<lparr>st_staged := None\<rparr>)\<rparr>) = Done l'"
      using h by (auto simp: handle_step_def on_emitted_def resume_after_emit_def bind_run_Done on_streaming_Some
          split: option.splits)
    then show ?thesis using resume_undrained [OF u] by blast
  next
    case (Step_Drained x)
    then show ?thesis using h nd u
      by (cases x) (auto simp: handle_step_def finish_drain_def publish_stopped_def undrained_def stopped_event_def
          lifecycle_failed_def split: phase.splits)
  next
    case Step_Idle_Timeout
    then show ?thesis using h resume_calls_undrained u ph by (auto simp: handle_step_def runner_flush_def)
  qed (use h stop u in \<open>auto simp: handle_step_def undrained_def\<close>)
qed

lemma runner_turn_undrained:
  assumes u: "undrained l" and ph: "lp_phase l \<noteq> Phase_Stopped" and t: "runner_turn ins l = Done l'"
    and nd: "\<not> ri_drained ins"
  shows "undrained l'"
proof -
  obtain s l1 where p: "poll_step ins l = Done (s, l1)"
    using t by (auto simp: runner_turn_def bind_run_Done)
  note ps = poll_step_undrained [OF u p nd]
  show ?thesis
  proof (cases s)
    case Poll_Pending
    then show ?thesis using t p ps by (simp add: runner_turn_def)
  next
    case (Poll_Ready x)
    have "handle_step l1 x = Done l'" using t p Poll_Ready by (simp add: runner_turn_def)
    then show ?thesis using handle_step_undrained [of l1 x l'] ps ph Poll_Ready by auto
  qed
qed

lemma runner_run_undrained:
  "runner_run polls l = Done l' \<Longrightarrow> undrained l \<Longrightarrow> \<forall>ins \<in> set polls. \<not> ri_drained ins \<Longrightarrow> undrained l'"
proof (induction polls arbitrary: l)
  case (Cons ins rest)
  show ?case
  proof (cases "lp_phase l = Phase_Stopped")
    case False
    then obtain l1 where "runner_turn ins l = Done l1" "runner_run rest l1 = Done l'"
      using Cons.prems(1) by (auto simp: runner_run_turn bind_run_Done simp del: runner_run.simps)
    then show ?thesis using Cons.IH runner_turn_undrained [OF Cons.prems(2) False] Cons.prems(3) by auto
  qed (use Cons.prems in auto)
qed simp

text \<open>
  C12: As long as no poll finds the data channel drained, the runner reports no stop that makes the
  consumer keep its bytes: not \<open>Finished\<close>, not a stream error, not an exceeded limit. So when the
  manager handles such a stop, it has taken every frame.
\<close>

theorem stop_waits_for_the_drain:
  assumes "runner_build b = Inr r" and "runner_run polls (runner_loop_new r) = Done l"
    and "\<forall>ins \<in> set polls. \<not> ri_drained ins"
  shows "\<forall>e \<in> set (rn_events (lp_runner l)). \<not> counts_data e"
proof -
  have "undrained (runner_loop_new r)"
    using assms(1) by (auto simp: runner_build_def undrained_def runner_loop_new_def
        split: if_splits option.splits runner_input.splits)
  from runner_run_undrained [OF assms(2) this assms(3)] show ?thesis by (simp add: undrained_def)
qed

lemma stop_waits_for_the_drain_witness:
  "\<exists>r l. runner_build some_runner = Inr r
     \<and> runner_run [ready_turn\<lparr>ri_drained := False\<rparr>] (runner_loop_new r) = Done l
     \<and> Stopped Stop_Finished \<notin> set (rn_events (lp_runner l))"
proof -
  obtain r where r: "runner_build some_runner = Inr r" using some_runner_built(1) by blast
  have "turn_ok [1, 2, 3] (ready_turn\<lparr>ri_drained := False\<rparr>)" by (simp add: turn_ok_def ready_turn_def)
  then obtain l where l: "runner_run [ready_turn\<lparr>ri_drained := False\<rparr>] (runner_loop_new r) = Done l"
    using runner_run_ok [OF built_runner_inv [OF r _ some_runner_built(4)], of "[ready_turn\<lparr>ri_drained := False\<rparr>]"]
      some_runner_built(2,3) by auto
  from stop_waits_for_the_drain [OF r l] have "\<forall>e \<in> set (rn_events (lp_runner l)). \<not> counts_data e" by simp
  then show ?thesis using r l by force
qed

section \<open>Cancellation\<close>

text \<open>How many turns a cancelled runner still takes.\<close>

fun turns_left :: "phase \<Rightarrow> nat" where
  "turns_left Publishing_Started = 3"
| "turns_left (Publishing_Stopped _) = 1"
| "turns_left Phase_Stopped = 0"
| "turns_left _ = 2"

lemma begin_stop_cancelled:
  "res = Inl Run_Cancelled \<or> res = Inl (Run_Failed Channel_Closed) \<Longrightarrow> turns_left (lp_phase (begin_stop l res)) = 1"
  by (auto simp: begin_stop_def publish_stopped_def Let_def)

lemma cancelled_turn:
  assumes t: "runner_turn ins l = Done l'" and c: "ri_cancelled ins" and r: "ri_lifecycle_ready ins \<noteq> Poll_Pending"
    and ph: "lp_phase l \<noteq> Phase_Stopped"
  shows "turns_left (lp_phase l') < turns_left (lp_phase l)"
proof (cases "lp_phase l")
  case Connecting
  then have "l' = begin_stop l (Inl Run_Cancelled)"
    using t c by (simp add: runner_turn_def poll_step_def poll_connecting_def handle_step_def)
  then show ?thesis using Connecting begin_stop_cancelled by simp
next
  case Publishing_Started
  obtain b where b: "ri_lifecycle_ready ins = Poll_Ready b" using r by (cases "ri_lifecycle_ready ins") auto
  show ?thesis
    using t c b Publishing_Started begin_stop_cancelled
    by (cases b) (auto simp: runner_turn_def poll_step_def poll_publish_def handle_step_def bind_run_Done split: if_splits)
next
  case (Streaming st)
  show ?thesis
  proof (cases "is_emitting st")
    case True
    then obtain em cont where st: "st_staged st = Some (em, cont)" by (auto simp: is_emitting_def)
    obtain e where "emission_poll ins em (lp_runner l) = Done (Poll_Ready (Inl e), em, lp_runner l)"
      "e = Run_Cancelled \<or> e = Run_Failed Channel_Closed"
      using c by (cases "rn_data_open (lp_runner l)") (auto simp: emission_poll_def)
    then show ?thesis
      using t Streaming True st begin_stop_cancelled
      by (auto simp: runner_turn_def poll_step_def poll_emit_def handle_step_def on_emitted_def on_streaming_Some
          resume_after_emit_def resume_calls.simps(1) on_streaming.simps)
  next
    case False
    then have "l' = begin_stop l (Inl Run_Cancelled)"
      using t c Streaming by (simp add: runner_turn_def poll_step_def poll_reading_def handle_step_def)
    then show ?thesis using Streaming begin_stop_cancelled by simp
  qed
next
  case (Draining res)
  have "poll_drain ins (lp_runner l) = Poll_Ready Drained \<or> poll_drain ins (lp_runner l) = Poll_Ready Drain_Cancelled"
    using c by (simp add: poll_drain_def)
  then show ?thesis using t Draining
    by (auto simp: runner_turn_def poll_step_def handle_step_def finish_drain_def publish_stopped_def)
next
  case (Publishing_Stopped ev)
  obtain b where b: "ri_lifecycle_ready ins = Poll_Ready b" using r by (cases "ri_lifecycle_ready ins") auto
  then show ?thesis using t c Publishing_Stopped
    by (auto simp: runner_turn_def poll_step_def poll_publish_def handle_step_def bind_run_Done split: if_splits)
qed (use ph in simp)

lemma cancelled_run_stops:
  assumes "runner_inv body l" and "\<forall>ins \<in> set polls. turn_ok body ins \<and> ri_cancelled ins \<and> ri_lifecycle_ready ins \<noteq> Poll_Pending"
    and "turns_left (lp_phase l) \<le> length polls"
  shows "\<exists>l'. runner_run polls l = Done l' \<and> lp_phase l' = Phase_Stopped"
  using assms
proof (induction polls arbitrary: l)
  case Nil
  then show ?case by (cases "lp_phase l") auto
next
  case (Cons ins rest)
  show ?case
  proof (cases "lp_phase l = Phase_Stopped")
    case False
    then obtain l1 where l1: "runner_turn ins l = Done l1" "runner_inv body l1"
      using runner_turn_ok [OF Cons.prems(1)] Cons.prems(2) by auto
    have "turns_left (lp_phase l1) < turns_left (lp_phase l)"
      using cancelled_turn [OF l1(1) _ _ False] Cons.prems(2) by simp
    then show ?thesis using Cons.IH [OF l1(2)] Cons.prems(2,3) l1(1) False
      by (simp add: runner_run_turn del: runner_run.simps)
  qed simp
qed

text \<open>
  C27: A cancelled runner stops: whatever it was doing, three turns after the cancellation, with the
  lifecycle channel ready (vacant, or its consumer gone), it has stopped, without waiting for the
  connection, the server, the consumer of its data or any timer.
\<close>

theorem cancelled_runner_stops:
  assumes "runner_build b = Inr r"
    and "rb_input b = Some Connecting_Input \<or> (\<exists>s. rb_input b = Some (Connected s) \<and> stream_bytes s = body)"
    and "length body + BUFFER_SIZE < u64_bound"
    and "\<forall>ins \<in> set (before @ after). turn_ok body ins"
    and "\<forall>ins \<in> set after. ri_cancelled ins \<and> ri_lifecycle_ready ins \<noteq> Poll_Pending" and "3 \<le> length after"
  shows "\<exists>l. runner_run (before @ after) (runner_loop_new r) = Done l \<and> lp_phase l = Phase_Stopped"
proof -
  obtain l where l: "runner_run before (runner_loop_new r) = Done l" "runner_inv body l"
    using runner_run_ok [OF built_runner_inv [OF assms(1-3)], of before] assms(4) by auto
  have "turns_left (lp_phase l) \<le> 3" by (cases "lp_phase l") simp_all
  then have "turns_left (lp_phase l) \<le> length after" using assms(6) by linarith
  then have "\<exists>l'. runner_run after l = Done l' \<and> lp_phase l' = Phase_Stopped"
    using cancelled_run_stops [OF l(2)] assms(4,5) by auto
  then show ?thesis using l(1) by (simp add: runner_run_append)
qed

lemma cancelled_runner_stops_witness:
  "\<exists>r l. runner_build some_runner = Inr r
     \<and> runner_run (ready_turn # replicate 3 (ready_turn\<lparr>ri_cancelled := True, ri_data_ready := Poll_Pending\<rparr>))
         (runner_loop_new r) = Done l \<and> lp_phase l = Phase_Stopped"
proof -
  let ?c = "ready_turn\<lparr>ri_cancelled := True, ri_data_ready := Poll_Pending\<rparr>"
  obtain r where r: "runner_build some_runner = Inr r" using some_runner_built(1) by blast
  have "turn_ok [1, 2, 3] ?c" "ri_cancelled ?c" "ri_lifecycle_ready ?c \<noteq> Poll_Pending"
    by (simp_all add: turn_ok_def ready_turn_def)
  then have "\<forall>ins \<in> set ([ready_turn] @ replicate 3 ?c). turn_ok [1, 2, 3] ins"
    and "\<forall>ins \<in> set (replicate 3 ?c). ri_cancelled ins \<and> ri_lifecycle_ready ins \<noteq> Poll_Pending"
    using some_runner_built(5) by auto
  from cancelled_runner_stops [OF r _ some_runner_built(4) this] show ?thesis
    using r some_runner_built(2,3) by auto
qed

section \<open>Waiting for the consumer\<close>


end
