(* ===== verification/Output_File.thy ===== *)
theory Output_File
  imports Errors
begin

text \<open>
  The ownership rules of the \<open>.downloading\<close> temporary file (\<open>task/instance/output_file.rs\<close>). The
  files are a map from paths to contents. Whether a rename or a removal is refused by the operating
  system is an input; without a refusal it has its documented effect.
\<close>

section \<open>Files\<close>

type_synonym path = rstr
type_synonym files = "path \<rightharpoonup> chunk"

datatype fs_error = Fs_Not_Found | Fs_Other io_error

fun fs_error_message :: "fs_error \<Rightarrow> io_error" where
  "fs_error_message Fs_Not_Found = lit ''No such file or directory (os error 2)''"
| "fs_error_message (Fs_Other e) = e"

record fs_env =
  fe_rename :: "fs_error option"
  fe_remove :: "fs_error option"

definition fs_rename :: "fs_env \<Rightarrow> files \<Rightarrow> path \<Rightarrow> path \<Rightarrow> (fs_error + unit) \<times> files" where
  "fs_rename env fs src dst =
     (case fe_rename env of
        Some e \<Rightarrow> (Inl e, fs)
      | None \<Rightarrow>
         (case fs src of
            None \<Rightarrow> (Inl Fs_Not_Found, fs)
          | Some c \<Rightarrow> (Inr (), (fs(src := None))(dst \<mapsto> c))))"

definition fs_remove :: "fs_env \<Rightarrow> files \<Rightarrow> path \<Rightarrow> (fs_error + unit) \<times> files" where
  "fs_remove env fs p =
     (if fs p = None then (Inl Fs_Not_Found, fs)
      else (case fe_remove env of
              Some e \<Rightarrow> (Inl e, if e = Fs_Not_Found then fs(p := None) else fs)
            | None \<Rightarrow> (Inr (), fs(p := None))))"

section \<open>The output file\<close>

record output_file =
  of_dest :: path
  of_tmp :: path

definition DOWNLOADING_TMP_EXTENSION :: rstr where
  "DOWNLOADING_TMP_EXTENSION = lit ''.downloading''"

definition tmp_path_for :: "path \<Rightarrow> path" where
  "tmp_path_for dest = dest @ DOWNLOADING_TMP_EXTENSION"

definition output_file_new :: "path \<Rightarrow> output_file" where
  "output_file_new dest = \<lparr>of_dest = dest, of_tmp = tmp_path_for dest\<rparr>"

record teardown =
  td_result :: "download_error + unit"
  td_leftover :: "path option"

definition publish_file :: "fs_env \<Rightarrow> files \<Rightarrow> path \<Rightarrow> path \<Rightarrow> (fs_error + unit) \<times> files" where
  "publish_file env fs tmp dest = fs_rename env fs tmp dest"

fun removal_failed :: "path \<Rightarrow> fs_error + unit \<Rightarrow> path option" where
  "removal_failed tmp (Inr _) = None"
| "removal_failed tmp (Inl Fs_Not_Found) = None"
| "removal_failed tmp (Inl (Fs_Other e)) = Some tmp"

definition discard :: "fs_env \<Rightarrow> files \<Rightarrow> path \<Rightarrow> path option \<times> files" where
  "discard env fs tmp =
     (case fs_remove env fs tmp of (res, fs) \<Rightarrow> (removal_failed tmp res, fs))"

definition commit :: "fs_env \<Rightarrow> download_error + unit \<Rightarrow> path \<Rightarrow> path \<Rightarrow> bool \<Rightarrow> files \<Rightarrow> teardown \<times> files" where
  "commit env result tmp dest cancelled fs =
     (let result = (case result of
                      Inr _ \<Rightarrow> if cancelled then Inl Download_Cancelled else Inr ()
                    | Inl e \<Rightarrow> Inl e)
      in (case result of
            Inl e \<Rightarrow>
              (case discard env fs tmp of (left, fs) \<Rightarrow> (\<lparr>td_result = Inl e, td_leftover = left\<rparr>, fs))
          | Inr _ \<Rightarrow>
              (case publish_file env fs tmp dest of
                 (Inr _, fs) \<Rightarrow> (\<lparr>td_result = Inr (), td_leftover = None\<rparr>, fs)
               | (Inl e, fs) \<Rightarrow>
                   (case discard env fs tmp of
                      (left, fs) \<Rightarrow>
                        (\<lparr>td_result = Inl (download_io Rename dest (fs_error_message e)), td_leftover = left\<rparr>,
                         fs)))))"

definition output_commit ::
  "fs_env \<Rightarrow> output_file \<Rightarrow> download_error + unit \<Rightarrow> bool \<Rightarrow> files \<Rightarrow> teardown \<times> files" where
  "output_commit env out result cancelled fs =
     commit env result (of_tmp out) (of_dest out) cancelled fs"

section \<open>The commit rule\<close>

lemma tmp_differs: "tmp_path_for dest \<noteq> dest"
  by (simp add: tmp_path_for_def DOWNLOADING_TMP_EXTENSION_def lit_def)

lemma removal_failed_Inl: "removal_failed tmp (Inl e) = (if e = Fs_Not_Found then None else Some tmp)"
  by (cases e) simp_all

lemma discard_spec:
  assumes "discard env fs tmp = (left, fs')"
  shows "(left = None \<and> fs' = fs(tmp := None)) \<or> (left = Some tmp \<and> fs' = fs)"
  using assms
  by (auto simp: discard_def fs_remove_def fun_upd_idem removal_failed_Inl
      split: if_splits option.splits prod.splits)

text \<open>What a committed attempt leaves behind, as one predicate over the files before and after.\<close>

definition commit_ok :: "output_file \<Rightarrow> files \<Rightarrow> teardown \<Rightarrow> files \<Rightarrow> bool" where
  "commit_ok out fs td fs' \<longleftrightarrow>
     (if td_result td = Inr ()
      then fs (of_tmp out) \<noteq> None \<and> td_leftover td = None
           \<and> fs' = (fs(of_tmp out := None))(of_dest out := fs (of_tmp out))
      else (td_leftover td = None \<and> fs' = fs(of_tmp out := None))
           \<or> (td_leftover td = Some (of_tmp out) \<and> fs' = fs))"

lemma commit_spec:
  assumes "output_commit env out result cancelled fs = (td, fs')"
  shows "commit_ok out fs td fs'
    \<and> (td_result td = Inr () \<longrightarrow> result = Inr () \<and> \<not> cancelled)
    \<and> (\<forall>e. result = Inl e \<longrightarrow> td_result td = Inl e)
    \<and> (result = Inr () \<and> cancelled \<longrightarrow> td_result td = Inl Download_Cancelled)"
proof -
  have failed: "commit_ok out fs \<lparr>td_result = Inl e, td_leftover = left\<rparr> fs1"
    if "discard env fs (of_tmp out) = (left, fs1)" for e left fs1
    using discard_spec [OF that] by (auto simp: commit_ok_def)
  obtain left fs1 where d: "discard env fs (of_tmp out) = (left, fs1)" by (cases "discard env fs (of_tmp out)")
  show ?thesis
  proof (cases "result = Inr () \<and> \<not> cancelled")
    case False
    then obtain e where e: "td = \<lparr>td_result = Inl e, td_leftover = left\<rparr>" "fs' = fs1"
      and r: "result = Inl e \<or> result = Inr () \<and> cancelled \<and> e = Download_Cancelled"
      using assms d by (cases result) (auto simp: output_commit_def commit_def)
    then show ?thesis using failed [OF d] by auto
  next
    case ok: True
    show ?thesis
    proof (cases "fe_rename env = None \<and> fs (of_tmp out) \<noteq> None")
      case True
      then show ?thesis using assms ok
        by (auto simp: output_commit_def commit_def publish_file_def fs_rename_def commit_ok_def)
    next
      case False
      then obtain e where e: "publish_file env fs (of_tmp out) (of_dest out) = (Inl e, fs)"
        by (cases "fe_rename env") (auto simp: publish_file_def fs_rename_def)
      then have "td = \<lparr>td_result = Inl (download_io Rename (of_dest out) (fs_error_message e)), td_leftover = left\<rparr>"
        "fs' = fs1"
        using assms ok d by (auto simp: output_commit_def commit_def)
      then show ?thesis using failed [OF d] ok by simp
    qed
  qed
qed

lemma commit_other_files:
  assumes "commit_ok out fs td fs'" and "p \<noteq> of_tmp out" and "p = of_dest out \<longrightarrow> td_result td \<noteq> Inr ()"
  shows "fs' p = fs p"
  using assms by (auto simp: commit_ok_def split: if_splits)

lemma commit_tmp_gone:
  assumes "commit_ok (output_file_new dest) fs td fs'" and "td_leftover td = None"
  shows "fs' (tmp_path_for dest) = None"
  using assms tmp_differs by (auto simp: commit_ok_def output_file_new_def split: if_splits)

text \<open>
  C20: The commit rule. The destination changes only when the attempt ends in success; it then holds
  exactly what the temporary file held, and the transfer had succeeded and was not cancelled before
  the rename. Otherwise an existing destination keeps its contents and the error of the transfer is
  the one reported. On every path the temporary file is gone, or it is reported as left over; no
  other file is touched.
\<close>

theorem commit_rule:
  assumes "output_commit env (output_file_new dest) result cancelled fs = (td, fs')"
  shows "(td_result td = Inr () \<longrightarrow> result = Inr () \<and> \<not> cancelled
             \<and> fs (tmp_path_for dest) \<noteq> None \<and> fs' dest = fs (tmp_path_for dest))
    \<and> (td_result td \<noteq> Inr () \<longrightarrow> fs' dest = fs dest)
    \<and> (\<forall>e. result = Inl e \<longrightarrow> td_result td = Inl e)
    \<and> (td_leftover td = None \<longrightarrow> fs' (tmp_path_for dest) = None)
    \<and> (td_leftover td \<noteq> None \<longrightarrow> td_leftover td = Some (tmp_path_for dest) \<and> td_result td \<noteq> Inr ())
    \<and> (\<forall>p. p \<noteq> dest \<and> p \<noteq> tmp_path_for dest \<longrightarrow> fs' p = fs p)"
proof -
  have spec: "commit_ok (output_file_new dest) fs td fs'" using commit_spec [OF assms] by simp
  have "fs' dest = fs dest" if "td_result td \<noteq> Inr ()"
    using commit_other_files [OF spec, of dest] that tmp_differs [of dest, symmetric]
    by (simp add: output_file_new_def)
  moreover have "fs' p = fs p" if "p \<noteq> dest" "p \<noteq> tmp_path_for dest" for p
    using commit_other_files [OF spec] that by (simp add: output_file_new_def)
  moreover have "fs' (tmp_path_for dest) = None" if "td_leftover td = None"
    using commit_tmp_gone [OF spec that] .
  moreover have "fs (tmp_path_for dest) \<noteq> None \<and> fs' dest = fs (tmp_path_for dest)" if "td_result td = Inr ()"
    using spec that by (simp add: commit_ok_def output_file_new_def)
  moreover have "td_leftover td = Some (tmp_path_for dest) \<and> td_result td \<noteq> Inr ()" if "td_leftover td \<noteq> None"
    using spec that by (auto simp: commit_ok_def output_file_new_def split: if_splits)
  ultimately show ?thesis using commit_spec [OF assms] by blast
qed

lemma commit_rule_witness:
  "\<exists>td fs'. output_commit \<lparr>fe_rename = None, fe_remove = None\<rparr> (output_file_new (lit ''a'')) (Inr ()) False
       [lit ''a'' \<mapsto> [1], lit ''a.downloading'' \<mapsto> [2, 3]] = (td, fs')
     \<and> td_result td = Inr () \<and> fs' (lit ''a'') = Some [2, 3] \<and> fs' (lit ''a.downloading'') = None"
proof -
  let ?fs = "[lit ''a'' \<mapsto> [1], lit ''a.downloading'' \<mapsto> [2, 3 :: byte]]"
  have tmp: "tmp_path_for (lit ''a'') = lit ''a.downloading''"
    by (simp add: tmp_path_for_def DOWNLOADING_TMP_EXTENSION_def lit_def)
  obtain td fs' where c: "output_commit \<lparr>fe_rename = None, fe_remove = None\<rparr> (output_file_new (lit ''a''))
      (Inr ()) False ?fs = (td, fs')" by fastforce
  then have "td_result td = Inr () \<and> td_leftover td = None"
    by (auto simp: output_commit_def commit_def publish_file_def fs_rename_def output_file_new_def tmp)
  then show ?thesis using commit_rule [OF c] c tmp by auto
qed

end
