(* ===== verification/Destination.thy ===== *)
theory Destination
  imports Task_Status Output_File
begin

text \<open>
  Where a task saves its output (\<open>task/destination.rs\<close>): the configured destination, the checks of
  \<open>spawn\<close> and of the initialization, and the reduction of a suggested file name to one safe path
  component. The first section is the part of \<open>std::path\<close> these use, for Unix paths: a path is its
  text, its components skip empty segments and inner dots, and \<open>parent\<close> cuts the text before the
  last component. What \<open>metadata\<close> answers for a path is a parameter.
\<close>

section \<open>Paths\<close>

definition SEP :: nat where "SEP = 47"
definition DOT :: nat where "DOT = 46"

datatype path_component = Root_Dir | Cur_Dir | Parent_Dir | Normal rstr

definition parse_component :: "rstr \<Rightarrow> path_component option" where
  "parse_component c =
     (if c = [] \<or> c = [DOT] then None else if c = [DOT, DOT] then Some Parent_Dir else Some (Normal c))"

definition has_root :: "path \<Rightarrow> bool" where
  "has_root p \<longleftrightarrow> p \<noteq> [] \<and> hd p = SEP"

definition leading_dot :: "path \<Rightarrow> bool" where
  "leading_dot p \<longleftrightarrow> p = [DOT] \<or> take 2 p = [DOT, SEP]"

definition path_components :: "path \<Rightarrow> path_component list" where
  "path_components p =
     (if has_root p then [Root_Dir] else if leading_dot p then [Cur_Dir] else [])
     @ List.map_filter parse_component
         (split_char SEP (if has_root p \<or> leading_dot p then drop 1 p else p))"

definition file_name :: "path \<Rightarrow> rstr option" where
  "file_name p =
     (if path_components p = [] then None
      else (case last (path_components p) of Normal n \<Rightarrow> Some n | _ \<Rightarrow> None))"

text \<open>The last segment of the text after the first \<open>n\<close> characters, with the separator before it.\<close>

definition last_segment :: "nat \<Rightarrow> path \<Rightarrow> rstr" where
  "last_segment n p = rev (takeWhile (\<lambda>c. c \<noteq> SEP) (rev (drop n p)))"

definition without_last :: "nat \<Rightarrow> path \<Rightarrow> path" where
  "without_last n p =
     take (length p - (length (last_segment n p) + (if SEP \<in> set (drop n p) then 1 else 0))) p"

lemma without_last_shorter:
  assumes "n < length p"
  shows "length (without_last n p) < length p"
proof -
  have "0 < length (last_segment n p) + (if SEP \<in> set (drop n p) then 1 else 0)"
  proof (cases "SEP \<in> set (drop n p)")
    case False
    then have "takeWhile (\<lambda>c. c \<noteq> SEP) (rev (drop n p)) = rev (drop n p)"
      by (auto simp: takeWhile_eq_all_conv)
    then have "last_segment n p = drop n p" by (simp only: last_segment_def rev_rev_ident)
    then show ?thesis using assms by simp
  qed simp
  moreover define k where "k = length (last_segment n p) + (if SEP \<in> set (drop n p) then 1 else 0)"
  ultimately have "0 < k" by simp
  moreover have "length (without_last n p) = length p - k" by (simp add: without_last_def k_def)
  ultimately show ?thesis using assms by linarith
qed

function trim_right :: "nat \<Rightarrow> path \<Rightarrow> path" where
  "trim_right n p =
     (if length p \<le> n \<or> parse_component (last_segment n p) \<noteq> None then p
      else trim_right n (without_last n p))"
  by auto
termination trim_right
  by (relation "measure (\<lambda>(n, p). length p)") (simp_all add: without_last_shorter)

declare trim_right.simps [simp del]

definition path_parent :: "path \<Rightarrow> path option" where
  "path_parent p =
     (let n = (if has_root p \<or> leading_dot p then 1 else 0);
          q = trim_right n p
      in if n < length q then Some (trim_right n (without_last n q))
         else if has_root p then None
         else if leading_dot p then Some []
         else None)"

definition path_join :: "path \<Rightarrow> rstr \<Rightarrow> path" where
  "path_join dir p =
     (if has_root p then p else if dir \<noteq> [] \<and> last dir \<noteq> SEP then dir @ [SEP] @ p else dir @ p)"

section \<open>Destinations\<close>

datatype build_error =
    Missing_Runtime
  | Missing_Destination
  | Invalid_Options rstr
  | Build_Invalid_Destination path rstr

datatype metadata = Is_Dir | Is_Other | No_Metadata fs_error

datatype destination = Dest_File path | Dest_Dir path

definition NOT_A_DIR :: rstr where
  "NOT_A_DIR = lit ''the directory does not exist or is not a directory''"

definition PARENT_NOT_A_DIR :: rstr where
  "PARENT_NOT_A_DIR = lit ''the parent directory does not exist or is not a directory''"

definition IS_A_DIR :: rstr where
  "IS_A_DIR = lit ''the path is a directory''"

definition NO_FILE_NAME :: rstr where
  "NO_FILE_NAME = lit ''the path has no file name''"

definition parent_dir :: "path \<Rightarrow> path" where
  "parent_dir p =
     (case path_parent p of
        Some parent \<Rightarrow> if parent \<noteq> [] then parent else [DOT]
      | None \<Rightarrow> [DOT])"

definition precheck :: "(path \<Rightarrow> metadata) \<Rightarrow> destination \<Rightarrow> build_error + unit" where
  "precheck stat dest =
     (case dest of
        Dest_File p \<Rightarrow>
          if file_name p = None then Inl (Build_Invalid_Destination p NO_FILE_NAME)
          else if stat (parent_dir p) \<noteq> Is_Dir then Inl (Build_Invalid_Destination p PARENT_NOT_A_DIR)
          else if stat p = Is_Dir then Inl (Build_Invalid_Destination p IS_A_DIR)
          else Inr ()
      | Dest_Dir dir \<Rightarrow>
          if stat dir \<noteq> Is_Dir then Inl (Build_Invalid_Destination dir NOT_A_DIR) else Inr ())"

definition check_destination :: "(path \<Rightarrow> metadata) \<Rightarrow> path \<Rightarrow> download_error + unit" where
  "check_destination stat p =
     (if file_name p = None then Inl (Invalid_Destination p NO_FILE_NAME)
      else
        (case stat (parent_dir p) of
           Is_Other \<Rightarrow> Inl (Invalid_Destination p PARENT_NOT_A_DIR)
         | No_Metadata Fs_Not_Found \<Rightarrow> Inl (Invalid_Destination p PARENT_NOT_A_DIR)
         | No_Metadata e \<Rightarrow> Inl (download_io Inspect (parent_dir p) (fs_error_message e))
         | Is_Dir \<Rightarrow>
             (case stat p of
                Is_Dir \<Rightarrow> Inl (Invalid_Destination p IS_A_DIR)
              | Is_Other \<Rightarrow> Inr ()
              | No_Metadata Fs_Not_Found \<Rightarrow> Inr ()
              | No_Metadata e \<Rightarrow> Inl (download_io Inspect p (fs_error_message e)))))"

section \<open>Safe file names\<close>

definition ascii_upper :: "nat \<Rightarrow> nat" where
  "ascii_upper c = (if 97 \<le> c \<and> c \<le> 122 then c - 32 else c)"

definition trim_end :: "rstr \<Rightarrow> rstr" where
  "trim_end s = rev (dropWhile is_whitespace (rev s))"

definition strip_prefix :: "rstr \<Rightarrow> rstr \<Rightarrow> rstr option" where
  "strip_prefix p s = (if take (length p) s = p then Some (drop (length p) s) else None)"

definition is_reserved_device_name :: "rstr \<Rightarrow> bool" where
  "is_reserved_device_name segment \<longleftrightarrow>
     (let upper = map ascii_upper (trim_end (hd (split_char DOT segment)))
      in upper \<in> {lit ''CON'', lit ''PRN'', lit ''AUX'', lit ''NUL''}
         \<or> (case (case strip_prefix (lit ''COM'') upper of
                    Some n \<Rightarrow> Some n | None \<Rightarrow> strip_prefix (lit ''LPT'') upper) of
               Some [c] \<Rightarrow> is_ascii_digit c \<or> c \<in> {185, 178, 179}
             | _ \<Rightarrow> False))"

definition is_safe_component :: "rstr \<Rightarrow> bool \<Rightarrow> bool" where
  "is_safe_component segment windows \<longleftrightarrow>
     \<not> (segment = [] \<or> segment = [DOT] \<or> segment = [DOT, DOT] \<or> list_ex is_control segment)
     \<and> (windows \<longrightarrow>
          of_char (CHR '':'') \<notin> set segment
          \<and> \<not> (last segment = DOT \<or> last segment = 32) \<and> \<not> is_reserved_device_name segment)"

definition is_path_separator :: "nat \<Rightarrow> bool" where
  "is_path_separator c \<longleftrightarrow> c = SEP \<or> c = 92"

definition safe_file_name :: "bool \<Rightarrow> rstr \<Rightarrow> download_error + rstr" where
  "safe_file_name windows name =
     (let segment = rev (takeWhile (\<lambda>c. \<not> is_path_separator c) (rev name))
      in if is_safe_component segment windows then Inr segment else Inl (Invalid_Filename name))"

text \<open>The paths are Unix paths, so \<open>cfg!(windows)\<close> is false.\<close>

definition resolve :: "destination \<Rightarrow> adapter_meta \<Rightarrow> download_error + path" where
  "resolve dest m =
     (case dest of
        Dest_File p \<Rightarrow> Inr p
      | Dest_Dir dir \<Rightarrow>
         (case mt_filename m of
            None \<Rightarrow> Inl Missing_Filename
          | Some name \<Rightarrow>
             (case safe_file_name False name of
                Inl e \<Rightarrow> Inl e | Inr segment \<Rightarrow> Inr (path_join dir segment))))"

section \<open>A saved file stays in its directory\<close>

lemma split_char_sep: "split_char d (s @ d # t) = split_char d s @ split_char d t"
proof (induction s)
  case (Cons c s)
  then show ?case using split_char_nonempty [of d s] by (auto split: list.splits)
qed simp

lemma map_filter_parse_dir:
  assumes "SEP \<notin> set seg" and "parse_component seg = Some c"
  shows "List.map_filter parse_component (split_char SEP (s @ SEP # seg))
     = List.map_filter parse_component (split_char SEP s) @ [c]"
  using assms by (simp add: split_char_sep split_char_none List.map_filter_def)

lemma map_filter_slash_end:
  assumes "s \<noteq> []" and "last s = SEP" and "SEP \<notin> set seg" and "parse_component seg = Some c"
  shows "List.map_filter parse_component (split_char SEP (s @ seg))
     = List.map_filter parse_component (split_char SEP s) @ [c]"
proof -
  obtain r where r: "s = r @ [SEP]" using assms(1,2) by (metis append_butlast_last_id)
  show ?thesis
    using map_filter_parse_dir [OF assms(3,4), of r] split_char_sep [of SEP r "[]"]
    by (simp add: r List.map_filter_def parse_component_def)
qed

definition plain_name :: "rstr \<Rightarrow> bool" where
  "plain_name seg \<longleftrightarrow> SEP \<notin> set seg \<and> seg \<noteq> [] \<and> seg \<noteq> [DOT] \<and> seg \<noteq> [DOT, DOT]"

lemma plain_parse: "plain_name seg \<Longrightarrow> parse_component seg = Some (Normal seg)"
  by (simp add: plain_name_def parse_component_def)

lemma join_components:
  assumes "plain_name seg"
  shows "path_components (path_join dir seg) = path_components dir @ [Normal seg]"
proof -
  note seg = assms [unfolded plain_name_def] plain_parse [OF assms]
  have root: "\<not> has_root seg" using seg by (cases seg) (auto simp: has_root_def)
  have nodot: "\<not> leading_dot seg"
    using seg by (cases seg; cases "tl seg") (auto simp: leading_dot_def)
  show ?thesis
  proof (cases "dir = []")
    case True
    then show ?thesis using seg root nodot
      by (simp add: path_join_def path_components_def split_char_none List.map_filter_def has_root_def
          leading_dot_def parse_component_def DOT_def)
  next
    case ne: False
    show ?thesis
    proof (cases "last dir = SEP")
      case False
      then have j: "path_join dir seg = dir @ SEP # seg" using ne root by (simp add: path_join_def)
      have "has_root (dir @ SEP # seg) = has_root dir" using ne by (simp add: has_root_def)
      moreover have "leading_dot (dir @ SEP # seg) = leading_dot dir"
        using ne False by (cases dir; cases "tl dir") (auto simp: leading_dot_def)
      moreover have "drop 1 (dir @ SEP # seg) = drop 1 dir @ SEP # seg" using ne by (cases dir) auto
      ultimately show ?thesis
        unfolding j path_components_def using map_filter_parse_dir [OF _ seg(2)] seg(1) by simp
    next
      case True
      then have j: "path_join dir seg = dir @ seg" using ne root by (simp add: path_join_def)
      have hr: "has_root (dir @ seg) = has_root dir" using ne by (simp add: has_root_def)
      have ld: "leading_dot (dir @ seg) = leading_dot dir"
        using ne True seg by (cases dir; cases "tl dir") (auto simp: leading_dot_def SEP_def DOT_def split: if_splits)
      show ?thesis
      proof (cases "drop 1 dir = []")
        case False
        then have "drop 1 (dir @ seg) = drop 1 dir @ seg" "last (drop 1 dir) = SEP"
          using True by (cases dir, auto)+
        then show ?thesis
          unfolding j path_components_def hr ld
          using map_filter_slash_end [OF _ _ _ seg(2)] seg(1) ne True False by simp
      next
        case single: True
        then have "dir = [SEP]" using ne True by (cases dir) auto
        then show ?thesis
          unfolding j path_components_def using seg
          by (simp add: has_root_def split_char_none List.map_filter_def parse_component_def)
      qed
    qed
  qed
qed

lemma safe_name_spec:
  assumes "safe_file_name windows name = Inr seg"
  shows "plain_name seg \<and> 92 \<notin> set seg \<and> \<not> list_ex is_control seg \<and> (\<exists>pre. name = pre @ seg)"
proof -
  let ?s = "rev (takeWhile (\<lambda>c. \<not> is_path_separator c) (rev name))"
  have s: "seg = ?s" "is_safe_component seg windows"
    using assms by (auto simp: safe_file_name_def Let_def split: if_splits)
  have "\<forall>c \<in> set seg. \<not> is_path_separator c" unfolding s(1) by (auto dest: set_takeWhileD)
  moreover have "rev name = takeWhile (\<lambda>c. \<not> is_path_separator c) (rev name)
      @ dropWhile (\<lambda>c. \<not> is_path_separator c) (rev name)" by simp
  from arg_cong [OF this, of rev] have "\<exists>pre. name = pre @ ?s" by (simp only: rev_append rev_rev_ident) blast
  ultimately show ?thesis using s
    unfolding s(1) [symmetric] by (auto simp: is_path_separator_def is_safe_component_def plain_name_def)
qed

lemma file_name_snoc: "path_components p = cs @ [Normal n] \<Longrightarrow> file_name p = Some n"
  by (simp add: file_name_def)

lemma plain_tmp: "plain_name seg \<Longrightarrow> plain_name (seg @ DOWNLOADING_TMP_EXTENSION)"
  by (auto simp: plain_name_def DOWNLOADING_TMP_EXTENSION_def lit_def SEP_def DOT_def append_eq_Cons_conv)

lemma tmp_of_join:
  assumes "plain_name seg"
  shows "tmp_path_for (path_join dir seg) = path_join dir (seg @ DOWNLOADING_TMP_EXTENSION)"
proof -
  have "\<not> has_root seg" "\<not> has_root (seg @ DOWNLOADING_TMP_EXTENSION)"
    using assms by (cases seg; auto simp: plain_name_def has_root_def)+
  then show ?thesis by (simp add: tmp_path_for_def path_join_def)
qed

lemma resolved_name:
  assumes "resolve (Dest_Dir dir) m = Inr p"
  shows "\<exists>name seg. mt_filename m = Some name \<and> safe_file_name False name = Inr seg \<and> p = path_join dir seg"
proof (cases "mt_filename m")
  case None
  then show ?thesis using assms by (simp add: resolve_def)
next
  case (Some name)
  then show ?thesis using assms by (cases "safe_file_name False name") (simp_all add: resolve_def)
qed

text \<open>
  C21: A file saved into a directory stays in it, whatever name the server suggests: the resolved path
  is the directory and one more component, a final segment of the suggested name without separators
  or control characters that is neither empty nor \<open>.\<close> nor \<open>..\<close>; the temporary file is beside it.
  A name that has no such segment is refused with the name itself, and nothing is resolved without a
  name.
\<close>

theorem save_into_stays_inside:
  assumes "resolve (Dest_Dir dir) m = res"
  shows "case res of
      Inr p \<Rightarrow>
        (\<exists>name pre seg. mt_filename m = Some name \<and> name = pre @ seg
           \<and> path_components p = path_components dir @ [Normal seg] \<and> file_name p = Some seg
           \<and> path_components (tmp_path_for p) =
               path_components dir @ [Normal (seg @ DOWNLOADING_TMP_EXTENSION)]
           \<and> SEP \<notin> set seg \<and> 92 \<notin> set seg \<and> seg \<notin> {[], [DOT], [DOT, DOT]}
           \<and> \<not> list_ex is_control seg)
    | Inl e \<Rightarrow> (mt_filename m = None \<and> e = Missing_Filename)
           \<or> (\<exists>name. mt_filename m = Some name \<and> e = Invalid_Filename name)"
proof (cases res)
  case (Inl e)
  then show ?thesis using assms
    by (auto simp: resolve_def safe_file_name_def Let_def split: option.splits sum.splits if_splits)
next
  case (Inr p)
  obtain name seg where n: "mt_filename m = Some name" "safe_file_name False name = Inr seg"
    "p = path_join dir seg"
    using resolved_name [of dir m p] assms Inr by blast
  obtain pre where s: "plain_name seg" "92 \<notin> set seg" "\<not> list_ex is_control seg" "name = pre @ seg"
    using safe_name_spec [OF n(2)] by blast
  have c: "path_components p = path_components dir @ [Normal seg]"
    unfolding n(3) by (rule join_components [OF s(1)])
  have t: "path_components (tmp_path_for p) =
      path_components dir @ [Normal (seg @ DOWNLOADING_TMP_EXTENSION)]"
    unfolding n(3) tmp_of_join [OF s(1)] by (rule join_components [OF plain_tmp [OF s(1)]])
  have "SEP \<notin> set seg" "seg \<notin> {[], [DOT], [DOT, DOT]}" using s(1) by (simp_all add: plain_name_def)
  then show ?thesis
    unfolding Inr sum.case
    by (intro exI [of _ name] exI [of _ pre] exI [of _ seg] conjI n(1) s(2-4) c t file_name_snoc [OF c])
qed

lemma save_into_stays_inside_witness:
  "\<exists>p. resolve (Dest_Dir (lit ''dl'')) (with_filename (meta_new 1) (Some (lit ''../../.bashrc''))) = Inr p
     \<and> p = lit ''dl/.bashrc'' \<and> (\<exists>seg. path_components p = path_components (lit ''dl'') @ [Normal seg])"
proof -
  have r: "resolve (Dest_Dir (lit ''dl'')) (with_filename (meta_new 1) (Some (lit ''../../.bashrc'')))
      = Inr (lit ''dl/.bashrc'')"
    by (simp add: resolve_def with_filename_def meta_new_def safe_file_name_def Let_def lit_def
        is_path_separator_def SEP_def DOT_def is_safe_component_def is_control_def path_join_def has_root_def)
  show ?thesis using save_into_stays_inside [OF r] r by auto
qed

section \<open>The two checks\<close>

text \<open>The early check refuses what the authoritative one refuses, but for errors of the disk.\<close>

lemma check_implies_precheck:
  "check_destination stat p = Inr () \<Longrightarrow> precheck stat (Dest_File p) = Inr ()"
  by (auto simp: check_destination_def precheck_def split: if_splits metadata.splits fs_error.splits)

lemma precheck_implies_check:
  assumes "precheck stat (Dest_File p) = Inr ()"
  shows "check_destination stat p = Inr ()
    \<or> (\<exists>e. stat p = No_Metadata (Fs_Other e) \<and> check_destination stat p = Inl (Download_Io Inspect p e))"
  using assms
  by (auto simp: check_destination_def precheck_def download_io_def
      split: if_splits metadata.splits fs_error.splits)

end
