(* ===== verification/Task_Builder.thy ===== *)
theory Task_Builder
  imports Destination
begin

text \<open>
  The configuration of a task: its options and their validation (\<open>task/options.rs\<close>), the retry rule
  of the metadata request (\<open>task/meta.rs\<close>; the retry loop itself is the backon crate's), and the
  builder (\<open>task/builder.rs\<close>). The adapter, the runtime and the tokens are opaque: only whether they
  are set matters here.
\<close>

section \<open>Options\<close>

definition DEFAULT_NO_PROGRESS_TIMEOUT :: duration where
  "DEFAULT_NO_PROGRESS_TIMEOUT = from_secs 60"

definition DEFAULT_MAX_CONSECUTIVE_FAILURES :: usize where
  "DEFAULT_MAX_CONSECUTIVE_FAILURES = 8"

definition default_max_consecutive_failures :: "usize option \<Rightarrow> usize" where
  "default_max_consecutive_failures parallelism =
     max DEFAULT_MAX_CONSECUTIVE_FAILURES
       (saturating_mul64 (case parallelism of Some n \<Rightarrow> n | None \<Rightarrow> 1) 2)"

definition DEFAULT_STREAM_IDLE_TIMEOUT :: duration where
  "DEFAULT_STREAM_IDLE_TIMEOUT = from_secs 30"

definition DEFAULT_CONNECT_TIMEOUT :: duration where
  "DEFAULT_CONNECT_TIMEOUT = from_secs 30"

definition DEFAULT_META_MAX_RETRIES :: usize where "DEFAULT_META_MAX_RETRIES = 3"
definition DEFAULT_META_MIN_DELAY :: duration where "DEFAULT_META_MIN_DELAY = from_millis 200"
definition DEFAULT_META_MAX_DELAY :: duration where "DEFAULT_META_MAX_DELAY = from_secs 2"

record meta_retry =
  mr_max_retries :: usize
  mr_min_delay :: duration
  mr_max_delay :: duration

definition meta_retry_default :: meta_retry where
  "meta_retry_default =
     \<lparr>mr_max_retries = DEFAULT_META_MAX_RETRIES, mr_min_delay = DEFAULT_META_MIN_DELAY,
      mr_max_delay = DEFAULT_META_MAX_DELAY\<rparr>"

definition meta_retry_disabled :: meta_retry where
  "meta_retry_disabled = meta_retry_default\<lparr>mr_max_retries := 0\<rparr>"

definition meta_retry_validate :: "meta_retry \<Rightarrow> rstr option" where
  "meta_retry_validate r =
     (if mr_max_retries r = 0 then None
      else if mr_min_delay r = 0 then Some (lit ''meta_retry.min_delay must be greater than zero'')
      else if mr_max_delay r = 0 then Some (lit ''meta_retry.max_delay must be greater than zero'')
      else if mr_max_delay r < mr_min_delay r then
        Some (lit ''meta_retry.min_delay must not exceed max_delay'')
      else None)"

record task_options =
  to_no_progress_timeout :: duration
  to_max_consecutive_failures :: usize
  to_stream_idle_timeout :: duration
  to_connect_timeout :: duration
  to_meta_retry :: meta_retry

definition task_options_default :: "usize option \<Rightarrow> task_options" where
  "task_options_default parallelism =
     \<lparr>to_no_progress_timeout = DEFAULT_NO_PROGRESS_TIMEOUT,
      to_max_consecutive_failures = default_max_consecutive_failures parallelism,
      to_stream_idle_timeout = DEFAULT_STREAM_IDLE_TIMEOUT,
      to_connect_timeout = DEFAULT_CONNECT_TIMEOUT, to_meta_retry = meta_retry_default\<rparr>"

definition options_validate :: "task_options \<Rightarrow> build_error + unit" where
  "options_validate t =
     (if to_no_progress_timeout t = 0 then
        Inl (Invalid_Options (lit ''no_progress_timeout must be greater than zero''))
      else if to_max_consecutive_failures t = 0 then
        Inl (Invalid_Options (lit ''max_consecutive_failures must be at least 1''))
      else if to_stream_idle_timeout t = 0 then
        Inl (Invalid_Options (lit ''stream_idle_timeout must be greater than zero''))
      else if to_connect_timeout t = 0 then
        Inl (Invalid_Options (lit ''connect_timeout must be greater than zero''))
      else (case meta_retry_validate (to_meta_retry t) of
              Some reason \<Rightarrow> Inl (Invalid_Options reason)
            | None \<Rightarrow> Inr ()))"

section \<open>The metadata request\<close>

text \<open>\<open>when\<close> and \<open>adjust\<close> of the retry: what is retried, and the cap of a wait, jitter included.\<close>

fun meta_retries :: "adapter_error \<Rightarrow> bool" where
  "meta_retries (Retryable _) = True"
| "meta_retries (Unretryable _) = False"

definition meta_delay :: "meta_retry \<Rightarrow> duration option \<Rightarrow> duration option" where
  "meta_delay retry delay = map_option (\<lambda>d. min d (mr_max_delay retry)) delay"

text \<open>
  The request, retried by the backon crate: what each attempt answers, and the delays of its exponential
  backoff with jitter, are inputs. A retryable error waits for the next delay, capped, while there is
  one; the list of the waits is returned beside the answer. \<open>None\<close>: it still waits.
\<close>

fun retrieve_meta_with ::
  "meta_retry \<Rightarrow> duration list \<Rightarrow> (adapter_error + adapter_meta) list \<Rightarrow> ((adapter_error + adapter_meta) \<times> duration list) option" where
  "retrieve_meta_with retry delays [] = None"
| "retrieve_meta_with retry delays (Inr meta # _) = Some (Inr meta, [])"
| "retrieve_meta_with retry delays (Inl e # answers) =
     (if \<not> meta_retries e then Some (Inl e, [])
      else
        (case meta_delay retry (case delays of [] \<Rightarrow> None | d # _ \<Rightarrow> Some d) of
           None \<Rightarrow> Some (Inl e, [])
         | Some d \<Rightarrow> map_option (\<lambda>(res, waits). (res, d # waits)) (retrieve_meta_with retry (tl delays) answers)))"

text \<open>
  The request is tried at most once more than there are delays, and answers with its last attempt: the
  first that succeeds or fails for good, or the one after the last delay. No wait exceeds the cap.
\<close>

lemma retrieve_meta_bounded:
  "length delays < length answers \<Longrightarrow>
   \<exists>res waits. retrieve_meta_with retry delays answers = Some (res, waits)
     \<and> length waits \<le> length delays \<and> res = answers ! length waits
     \<and> (\<forall>i<length waits. \<exists>e. answers ! i = Inl e \<and> meta_retries e)
     \<and> (\<forall>d \<in> set waits. d \<le> mr_max_delay retry)
     \<and> (\<forall>e. res = Inl e \<longrightarrow> meta_retries e \<longrightarrow> length waits = length delays)"
proof (induction retry delays answers rule: retrieve_meta_with.induct)
  case (3 retry delays e answers)
  show ?case
  proof (cases "meta_retries e \<and> delays \<noteq> []")
    case True
    then obtain d ds where d: "delays = d # ds" by (cases delays) auto
    have m: "meta_delay retry (Some d) = Some (min d (mr_max_delay retry))" by (simp add: meta_delay_def)
    obtain res waits where r: "retrieve_meta_with retry ds answers = Some (res, waits)" "length waits \<le> length ds"
      "res = answers ! length waits" "\<forall>i<length waits. \<exists>e. answers ! i = Inl e \<and> meta_retries e"
      "\<forall>d \<in> set waits. d \<le> mr_max_delay retry" "\<forall>e. res = Inl e \<longrightarrow> meta_retries e \<longrightarrow> length waits = length ds"
      using 3 True d m by auto
    have "\<forall>i<Suc (length waits). \<exists>x. (Inl e # answers) ! i = Inl x \<and> meta_retries x"
      using r(4) True by (simp add: All_less_Suc2)
    then show ?thesis using r True d m by simp
  qed (auto simp: meta_delay_def)
qed simp_all

section \<open>The builder\<close>

record task_builder =
  tb_runtime :: bool
  tb_local_runtime_builder :: bool
  tb_destination :: "destination option"
  tb_prefer_mode :: "download_mode option"
  tb_options :: task_options
  tb_cancel_token :: bool
  tb_meta :: "adapter_meta option"

definition task_builder_new :: "usize option \<Rightarrow> task_builder" where
  "task_builder_new parallelism =
     \<lparr>tb_runtime = False, tb_local_runtime_builder = False, tb_destination = None, tb_prefer_mode = None,
      tb_options = task_options_default parallelism, tb_cancel_token = False, tb_meta = None\<rparr>"

definition save_to :: "task_builder \<Rightarrow> path \<Rightarrow> task_builder" where
  "save_to b p = b\<lparr>tb_destination := Some (Dest_File p)\<rparr>"

definition save_into :: "task_builder \<Rightarrow> path \<Rightarrow> task_builder" where
  "save_into b dir = b\<lparr>tb_destination := Some (Dest_Dir dir)\<rparr>"

text \<open>\<open>answer\<close> is what the request returns, when it is made.\<close>

definition builder_retrieve_meta ::
  "task_builder \<Rightarrow> adapter_error + adapter_meta \<Rightarrow> ((adapter_error + adapter_meta) \<times> task_builder) run" where
  "builder_retrieve_meta b answer =
     (case (if tb_meta b = None
            then (case answer of Inl e \<Rightarrow> Inl e | Inr m \<Rightarrow> Inr (b\<lparr>tb_meta := Some m\<rparr>))
            else Inr b) of
        Inl e \<Rightarrow> Done (Inl e, b)
      | Inr b \<Rightarrow>
          bind_run (expect_some ''the metadata was just set'' (tb_meta b)) (\<lambda>m. Done (Inr m, b)))"

definition builder_validate :: "(path \<Rightarrow> metadata) \<Rightarrow> task_builder \<Rightarrow> build_error + unit" where
  "builder_validate stat b =
     (if \<not> tb_runtime b then Inl Missing_Runtime
      else
        (case options_validate (tb_options b) of
           Inl e \<Rightarrow> Inl e
         | Inr _ \<Rightarrow>
            (case tb_destination b of
               None \<Rightarrow> Inl Missing_Destination
             | Some dest \<Rightarrow> precheck stat dest)))"

text \<open>What one attempt needs (\<open>Attempt\<close> in \<open>drive.rs\<close>).\<close>

record attempt =
  at_destination :: destination
  at_prefer_mode :: "download_mode option"
  at_options :: task_options
  at_meta :: "adapter_meta option"

definition builder_spawn :: "(path \<Rightarrow> metadata) \<Rightarrow> task_builder \<Rightarrow> (build_error + attempt \<times> publisher) run" where
  "builder_spawn stat b =
     (case builder_validate stat b of
        Inl e \<Rightarrow> Done (Inl e)
      | Inr _ \<Rightarrow>
         (case (tb_runtime b, tb_destination b) of
            (True, Some dest) \<Rightarrow>
              Done (Inr (\<lparr>at_destination = dest, at_prefer_mode = tb_prefer_mode b,
                          at_options = tb_options b, at_meta = tb_meta b\<rparr>, publisher_new))
          | _ \<Rightarrow> Panicked ''validated above''))"

section \<open>What a spawned attempt may rely on\<close>

definition options_ok :: "task_options \<Rightarrow> bool" where
  "options_ok t \<longleftrightarrow>
     0 < to_no_progress_timeout t \<and> 1 \<le> to_max_consecutive_failures t
     \<and> 0 < to_stream_idle_timeout t \<and> 0 < to_connect_timeout t
     \<and> (mr_max_retries (to_meta_retry t) = 0
        \<or> 0 < mr_min_delay (to_meta_retry t) \<and> mr_min_delay (to_meta_retry t) \<le> mr_max_delay (to_meta_retry t))"

lemma options_validate_iff: "options_validate t = Inr () \<longleftrightarrow> options_ok t"
  by (auto simp: options_validate_def options_ok_def meta_retry_validate_def split: if_splits)

lemma default_options_ok: "options_ok (task_options_default parallelism)"
  by (simp add: options_ok_def task_options_default_def default_max_consecutive_failures_def
      DEFAULT_NO_PROGRESS_TIMEOUT_def DEFAULT_MAX_CONSECUTIVE_FAILURES_def DEFAULT_STREAM_IDLE_TIMEOUT_def
      DEFAULT_CONNECT_TIMEOUT_def meta_retry_default_def DEFAULT_META_MAX_RETRIES_def
      DEFAULT_META_MIN_DELAY_def DEFAULT_META_MAX_DELAY_def from_secs_def from_millis_def)

text \<open>
  C22: \<open>spawn\<close> never panics, and it hands over an attempt exactly when a runtime and a destination
  are set, every timeout is positive, at least one failure is allowed, enabled retries wait a positive
  time below their cap, and the directory to save into exists (for \<open>save_to\<close>: the path has a file
  name, its parent is a directory and it is not one). The attempt carries the configuration
  unchanged, and its status starts as \<open>Pending\<close>; a rejected one reports the first fault.
\<close>

theorem spawn_accepts_valid_configurations:
  "\<exists>res. builder_spawn stat b = Done res
     \<and> ((\<exists>att pb. res = Inr (att, pb)) \<longleftrightarrow>
          tb_runtime b \<and> options_ok (tb_options b)
          \<and> (case tb_destination b of
               None \<Rightarrow> False
             | Some (Dest_Dir dir) \<Rightarrow> stat dir = Is_Dir
             | Some (Dest_File p) \<Rightarrow> file_name p \<noteq> None \<and> stat (parent_dir p) = Is_Dir \<and> stat p \<noteq> Is_Dir))
     \<and> (\<forall>att pb. res = Inr (att, pb) \<longrightarrow>
          Some (at_destination att) = tb_destination b \<and> at_options att = tb_options b
          \<and> at_prefer_mode att = tb_prefer_mode b \<and> at_meta att = tb_meta b
          \<and> publisher_inv pb \<and> publisher_state pb = State_Pending)
     \<and> (res = Inl Missing_Runtime \<longleftrightarrow> \<not> tb_runtime b)"
proof -
  have pb: "publisher_inv publisher_new" "publisher_state publisher_new = State_Pending"
    by (rule publisher_new_inv)
      (simp add: publisher_state_def publisher_new_def current_status_def status_new_def)
  have opt: "(\<exists>r. options_validate (tb_options b) = Inl (Invalid_Options r)) \<or> options_validate (tb_options b) = Inr ()"
    by (simp add: options_validate_def split: option.splits)
  show ?thesis
  proof (cases "tb_runtime b \<and> options_validate (tb_options b) = Inr ()")
    case False
    then show ?thesis using opt options_validate_iff [of "tb_options b"]
      by (auto simp: builder_spawn_def builder_validate_def)
  next
    case ok: True
    then have o: "options_ok (tb_options b)" using options_validate_iff by blast
    show ?thesis
    proof (cases "tb_destination b")
      case None
      then show ?thesis using ok by (simp add: builder_spawn_def builder_validate_def)
    next
      case (Some dest)
      then show ?thesis using ok o pb
        by (cases dest) (simp_all add: builder_spawn_def builder_validate_def precheck_def)
    qed
  qed
qed

lemma spawn_accepts_valid_configurations_witness:
  "\<exists>att pb. builder_spawn (\<lambda>_. Is_Dir)
       (save_into ((task_builder_new (Some 4))\<lparr>tb_runtime := True\<rparr>) (lit ''dl'')) = Done (Inr (att, pb))
     \<and> at_destination att = Dest_Dir (lit ''dl'')"
proof -
  let ?b = "save_into ((task_builder_new (Some 4))\<lparr>tb_runtime := True\<rparr>) (lit ''dl'')"
  have b: "tb_runtime ?b" "tb_destination ?b = Some (Dest_Dir (lit ''dl''))" "options_ok (tb_options ?b)"
    using default_options_ok by (simp_all add: save_into_def task_builder_new_def)
  obtain res where "builder_spawn (\<lambda>_. Is_Dir) ?b = Done res" "\<exists>att pb. res = Inr (att, pb)"
    and "\<forall>att pb. res = Inr (att, pb) \<longrightarrow> Some (at_destination att) = tb_destination ?b"
    using spawn_accepts_valid_configurations [of "\<lambda>_. Is_Dir" ?b] b by fastforce
  then show ?thesis using b(2) by fastforce
qed

text \<open>The metadata, once known, is never requested again, and asking for it never panics.\<close>

lemma retrieve_meta_cached:
  "\<exists>res b'. builder_retrieve_meta b answer = Done (res, b')
     \<and> (case tb_meta b of Some m \<Rightarrow> res = Inr m \<and> b' = b
        | None \<Rightarrow> res = answer \<and> tb_meta b' = (case answer of Inl _ \<Rightarrow> None | Inr m \<Rightarrow> Some m))"
  by (cases "tb_meta b"; cases answer) (simp_all add: builder_retrieve_meta_def)

end
