(* ===== verification/Singleton_Task.thy ===== *)
theory Singleton_Task
  imports Runner Task_Builder
begin

text \<open>
  The transfer over one connection (\<open>task/instance/singleton_task.rs\<close>). The task drives its runner,
  the model of \<open>Runner\<close>, inside its own select loop: a turn polls, in this order, the sampling
  timer, the runner, the data it pushed and the lifecycle events it published. The frames and events
  are the runner's own; the task keeps how many it has taken. What the timer, the clock and the file
  answer, and what the sources of the runner yield in each of its turns, are inputs.
\<close>

section \<open>State\<close>

definition STATIC_RUNNER_ID :: usize where "STATIC_RUNNER_ID = 0"

record singleton_task =
  sn_total :: "u64 option"
  sn_downloaded :: u64
  sn_output :: output_file
  sn_reporter :: publisher
  sn_files :: files

definition singleton_new :: "output_file \<Rightarrow> u64 option \<Rightarrow> publisher \<Rightarrow> files \<Rightarrow> singleton_task" where
  "singleton_new out tot reporter fs =
     \<lparr>sn_total = tot, sn_downloaded = 0, sn_output = out, sn_reporter = reporter, sn_files = fs\<rparr>"

text \<open>How far \<open>run_after_started\<close> is: before \<open>Started\<close>, waiting for the file, or running.\<close>

datatype run_stage = Until_Started | Holding | Running

record singleton_loop =
  sl_task :: singleton_task
  sl_stage :: run_stage
  sl_runner :: runner_loop
  sl_fut_done :: bool
  sl_frames :: usize
  sl_events :: usize
  sl_file :: "usize option"
  sl_meter :: usize
  sl_sampler :: speed_sampler
  sl_is_finished :: bool
  sl_runner_stopped :: bool
  sl_data_done :: bool
  sl_lifecycle_done :: bool

text \<open>
  What a turn of the loop is given. \<open>se_write\<close> is a failed write with the number of bytes that were
  written before.
\<close>

record select_ins =
  se_timer :: bool
  se_turns :: "runner_ins list"
  se_now :: instant
  se_observed :: bool
  se_open :: "fs_error option"
  se_set_len :: "fs_error option"
  se_write :: "(fs_error \<times> usize) option"

section \<open>The file\<close>

text \<open>A sequential write at \<open>pos\<close>; \<open>sl_file\<close> is the position of the open file.\<close>

definition write_at :: "chunk \<Rightarrow> usize \<Rightarrow> chunk \<Rightarrow> chunk" where
  "write_at content pos data = take pos content @ data @ drop (pos + length data) content"

definition create_file :: "select_ins \<Rightarrow> singleton_task \<Rightarrow> path \<Rightarrow> (download_error + usize) \<times> singleton_task" where
  "create_file ins t tmp =
     (case se_open ins of
        Some e \<Rightarrow> (Inl (download_io Create tmp (fs_error_message e)), t)
      | None \<Rightarrow>
         (let t = t\<lparr>sn_files := (sn_files t)(tmp \<mapsto> [])\<rparr>
          in (case sn_total t of
                None \<Rightarrow> (Inr 0, t)
              | Some n \<Rightarrow>
                 (case se_set_len ins of
                    Some e \<Rightarrow> (Inl (download_io Allocate tmp (fs_error_message e)), t)
                  | None \<Rightarrow> (Inr 0, t\<lparr>sn_files := (sn_files t)(tmp \<mapsto> replicate n 0)\<rparr>)))))"

definition file_write :: "select_ins \<Rightarrow> files \<Rightarrow> path \<Rightarrow> usize \<Rightarrow> chunk \<Rightarrow> (fs_error + usize) \<times> files" where
  "file_write ins fs p pos data =
     (let content = (case fs p of Some c \<Rightarrow> c | None \<Rightarrow> [])
      in (case se_write ins of
            Some (e, n) \<Rightarrow> (Inl e, fs(p \<mapsto> write_at content pos (take n data)))
          | None \<Rightarrow> (Inr (pos + length data), fs(p \<mapsto> write_at content pos data))))"

section \<open>Handlers\<close>

fun singleton_lifecycle_event :: "lifecycle_event \<Rightarrow> bool \<Rightarrow> download_error + bool" where
  "singleton_lifecycle_event (Stopped Stop_Finished) is_finished = Inr True"
| "singleton_lifecycle_event (Stopped (Stop_Failed kind)) is_finished = Inl (transfer kind)"
| "singleton_lifecycle_event Started is_finished = Inr is_finished"

fun connect_error :: "stopped_reason \<Rightarrow> download_error" where
  "connect_error (Stop_Failed e) = transfer e"
| "connect_error Stop_Finished = download_other (lit ''the runner finished before it connected'')"

definition singleton_data_frame ::
  "select_ins \<Rightarrow> singleton_loop \<Rightarrow> chunk \<Rightarrow> usize \<Rightarrow> (download_error + unit) \<times> singleton_loop" where
  "singleton_data_frame ins s data pos =
     (let t = (sl_task s)\<lparr>sn_downloaded := add64 (sn_downloaded (sl_task s)) (length data)\<rparr>;
          tmp = of_tmp (sn_output t)
      in (case file_write ins (sn_files t) tmp pos data of
            (res, fs) \<Rightarrow>
              (let s = s\<lparr>sl_task := t\<lparr>sn_files := fs\<rparr>, sl_meter := add64 (sl_meter s) (length data)\<rparr>
               in (case res of
                     Inl e \<Rightarrow> (Inl (download_io Write_Op tmp (fs_error_message e)), s)
                   | Inr pos \<Rightarrow> (Inr (), s\<lparr>sl_file := Some pos\<rparr>)))))"

definition singleton_progress :: "singleton_task \<Rightarrow> progress" where
  "singleton_progress t = progress_new (sn_total t) (sn_downloaded t) [Range 0 (sn_downloaded t)]"

definition singleton_final_progress :: "singleton_task \<Rightarrow> progress" where
  "singleton_final_progress t =
     (singleton_progress t)
       \<lparr>pr_total := Some (case sn_total t of Some n \<Rightarrow> n | None \<Rightarrow> sn_downloaded t)\<rparr>"

definition handle_timer_tick :: "select_ins \<Rightarrow> singleton_loop \<Rightarrow> singleton_loop" where
  "handle_timer_tick ins s =
     (case sample_speed (sl_sampler s) (sl_meter s) (se_now ins) of
        ((_, ema), sampler) \<Rightarrow>
          (let s = s\<lparr>sl_sampler := sampler, sl_meter := 0\<rparr>; t = sl_task s
           in if se_observed ins
              then s\<lparr>sl_task := t\<lparr>sn_reporter := report (sn_reporter t) (singleton_progress t) (speed_new ema 0)\<rparr>\<rparr>
              else s))"

section \<open>Polling the runner\<close>

text \<open>
  A turn of the runner sees no control signal (its sender is kept and never used), and its data
  channel is drained when the task has taken every frame.
\<close>

definition attached :: "singleton_loop \<Rightarrow> runner_ins \<Rightarrow> runner_ins" where
  "attached s ins =
     ins\<lparr>ri_controls := [], ri_drained := (sl_frames s = length (rn_frames (lp_runner (sl_runner s))))\<rparr>"

definition fut_turn :: "singleton_loop \<Rightarrow> runner_ins \<Rightarrow> singleton_loop run" where
  "fut_turn s ins =
     (case sl_stage s of
        Until_Started \<Rightarrow>
          bind_run (runner_until_started [attached s ins] (sl_runner s))
            (\<lambda>(rest, l).
               Done (s\<lparr>sl_runner := l, sl_stage := (if rest = None then Until_Started else Holding)\<rparr>))
      | Holding \<Rightarrow>
          if sl_file s = None then Done s
          else bind_run (handle_step (sl_runner s) (Step_Started (Inr ())))
                 (\<lambda>l. Done (s\<lparr>sl_runner := l, sl_stage := Running\<rparr>))
      | Running \<Rightarrow>
          bind_run (runner_run [attached s ins] (sl_runner s)) (\<lambda>l. Done (s\<lparr>sl_runner := l\<rparr>)))"

definition fut_over :: "singleton_loop \<Rightarrow> bool" where
  "fut_over s \<longleftrightarrow> sl_stage s \<noteq> Holding \<and> lp_phase (sl_runner s) = Phase_Stopped"

text \<open>\<open>fut\<close> is polled until it is pending: the given turns, unless it ends before.\<close>

fun fut_poll :: "runner_ins list \<Rightarrow> singleton_loop \<Rightarrow> singleton_loop run" where
  "fut_poll [] s = Done (s\<lparr>sl_fut_done := fut_over s\<rparr>)"
| "fut_poll (ins # rest) s =
     (if fut_over s then Done (s\<lparr>sl_fut_done := True\<rparr>)
      else bind_run (fut_turn s ins) (fut_poll rest))"

section \<open>The select loop\<close>

datatype select_out = Sel_Continue | Sel_Break | Sel_Error download_error

text \<open>\<open>Poll_Pending\<close>: the channel is open and empty. The data channel closes when the runner stops.\<close>

definition singleton_poll_data :: "singleton_loop \<Rightarrow> chunk option poll" where
  "singleton_poll_data s =
     (let r = lp_runner (sl_runner s)
      in if sl_data_done s \<or> sl_file s = None then Poll_Pending
         else if sl_frames s < length (rn_frames r) then Poll_Ready (Some (rn_frames r ! sl_frames s))
         else if \<not> rn_data_open r then Poll_Ready None
         else Poll_Pending)"

text \<open>The runner, and with it the lifecycle sender, outlives the loop, so the channel never closes.\<close>

definition singleton_poll_lifecycle :: "singleton_loop \<Rightarrow> lifecycle_event option poll" where
  "singleton_poll_lifecycle s =
     (let r = lp_runner (sl_runner s)
      in if sl_lifecycle_done s then Poll_Pending
         else if sl_events s < length (rn_events r) then Poll_Ready (Some (rn_events r ! sl_events s))
         else Poll_Pending)"

definition on_frame :: "select_ins \<Rightarrow> singleton_loop \<Rightarrow> chunk option \<Rightarrow> (select_out \<times> singleton_loop) run" where
  "on_frame ins s frame =
     (case frame of
        None \<Rightarrow>
          (let s = s\<lparr>sl_data_done := True\<rparr>
           in Done (if sl_runner_stopped s then Sel_Break else Sel_Continue, s))
      | Some data \<Rightarrow>
          bind_run (expect_some ''data is consumed once connected'' (sl_file s))
            (\<lambda>pos.
               (case singleton_data_frame ins (s\<lparr>sl_frames := sl_frames s + 1\<rparr>) data pos of
                  (Inl e, s) \<Rightarrow> Done (Sel_Error e, s)
                | (Inr _, s) \<Rightarrow> Done (Sel_Continue, s))))"

definition on_lifecycle ::
  "select_ins \<Rightarrow> singleton_loop \<Rightarrow> lifecycle_event option \<Rightarrow> (select_out \<times> singleton_loop) run" where
  "on_lifecycle ins s event =
     (case event of
        None \<Rightarrow>
          (let s = s\<lparr>sl_lifecycle_done := True\<rparr>
           in Done (if \<not> sl_runner_stopped s then Sel_Error (transfer Channel_Closed)
                    else if sl_data_done s then Sel_Break else Sel_Continue, s))
      | Some event \<Rightarrow>
         (let s = s\<lparr>sl_events := sl_events s + 1\<rparr>
          in (case event of
                Started \<Rightarrow>
                  (case create_file ins (sl_task s) (of_tmp (sn_output (sl_task s))) of
                     (Inl e, t) \<Rightarrow> Done (Sel_Error e, s\<lparr>sl_task := t\<rparr>)
                   | (Inr pos, t) \<Rightarrow>
                       bind_run (sampler_new (se_now ins))
                         (\<lambda>sampler.
                            Done (Sel_Continue, s\<lparr>sl_task := t, sl_file := Some pos, sl_sampler := sampler\<rparr>)))
              | Stopped reason \<Rightarrow>
                  if sl_file s = None then Done (Sel_Error (connect_error reason), s)
                  else
                    (case singleton_lifecycle_event event (sl_is_finished s) of
                       Inl e \<Rightarrow> Done (Sel_Error e, s)
                     | Inr fin \<Rightarrow>
                        (let s = s\<lparr>sl_is_finished := fin\<rparr>
                         in if fin then
                              Done (if sl_data_done s then Sel_Break else Sel_Continue,
                                    s\<lparr>sl_runner_stopped := True\<rparr>)
                            else Done (Sel_Continue, s))))))"

definition select_turn :: "select_ins \<Rightarrow> singleton_loop \<Rightarrow> (select_out \<times> singleton_loop) run" where
  "select_turn ins s =
     (if se_timer ins then
        Done (Sel_Continue, if sl_file s \<noteq> None then handle_timer_tick ins s else s)
      else
        bind_run (if sl_fut_done s then Done s else fut_poll (se_turns ins) s)
          (\<lambda>s'.
             if sl_fut_done s' \<and> \<not> sl_fut_done s then Done (Sel_Continue, s')
             else
               (case singleton_poll_data s' of
                  Poll_Ready frame \<Rightarrow> on_frame ins s' frame
                | Poll_Pending \<Rightarrow>
                   (case singleton_poll_lifecycle s' of
                      Poll_Ready event \<Rightarrow> on_lifecycle ins s' event
                    | Poll_Pending \<Rightarrow> Done (Sel_Continue, s')))))"

text \<open>The loop over its turns; the result is \<open>None\<close> while it is still running.\<close>

fun select_loop :: "select_ins list \<Rightarrow> singleton_loop \<Rightarrow> ((download_error + unit) option \<times> singleton_loop) run" where
  "select_loop [] s = Done (None, s)"
| "select_loop (ins # rest) s =
     bind_run (select_turn ins s)
       (\<lambda>(out, s).
          (case out of
             Sel_Continue \<Rightarrow> select_loop rest s
           | Sel_Break \<Rightarrow> Done (Some (Inr ()), s)
           | Sel_Error e \<Rightarrow> Done (Some (Inl e), s)))"

section \<open>The download\<close>

definition singleton_runner :: "u64 option \<Rightarrow> runner_builder" where
  "singleton_runner tot =
     builder_default\<lparr>rb_input := Some Connecting_Input, rb_runner_id := Some STATIC_RUNNER_ID,
       rb_control := True, rb_cancel_token := True, rb_total := tot\<rparr>"

definition singleton_loop_new :: "singleton_task \<Rightarrow> task_runner \<Rightarrow> speed_sampler \<Rightarrow> singleton_loop" where
  "singleton_loop_new t r sampler =
     \<lparr>sl_task = t, sl_stage = Until_Started, sl_runner = runner_loop_new r, sl_fut_done = False,
      sl_frames = 0, sl_events = 0, sl_file = None, sl_meter = 0, sl_sampler = sampler,
      sl_is_finished = False, sl_runner_stopped = False, sl_data_done = False, sl_lifecycle_done = False\<rparr>"

text \<open>\<open>start\<close> is the clock when the download starts; \<open>flush\<close> what flushing the file answers.\<close>

definition singleton_download_to ::
  "instant \<Rightarrow> select_ins list \<Rightarrow> fs_error option \<Rightarrow> singleton_task
   \<Rightarrow> ((download_error + unit) option \<times> singleton_task) run" where
  "singleton_download_to start turns flush t =
     (case runner_build (singleton_runner (sn_total t)) of
        Inl _ \<Rightarrow> Panicked ''failed to build task runner''
      | Inr r \<Rightarrow>
         bind_run (sampler_new start)
           (\<lambda>sampler.
              bind_run (select_loop turns (singleton_loop_new t r sampler))
                (\<lambda>(res, s).
                   Done ((case res of
                            None \<Rightarrow> None
                          | Some (Inl e) \<Rightarrow> Some (Inl e)
                          | Some (Inr _) \<Rightarrow>
                              Some (if sl_file s = None then Inr ()
                                    else case flush of
                                      Some e \<Rightarrow> Inl (download_io Flush_Op (of_tmp (sn_output t)) (fs_error_message e))
                                    | None \<Rightarrow> Inr ())),
                         sl_task s))))"

record singleton_env =
  sg_start :: instant
  sg_turns :: "select_ins list"
  sg_flush :: "fs_error option"
  sg_cancelled :: bool
  sg_commit :: fs_env

definition singleton_download :: "singleton_env \<Rightarrow> singleton_task \<Rightarrow> (teardown option \<times> singleton_task) run" where
  "singleton_download env t =
     bind_run (singleton_download_to (sg_start env) (sg_turns env) (sg_flush env) t)
       (\<lambda>(res, t).
          (case res of
             None \<Rightarrow> Done (None, t)
           | Some res \<Rightarrow>
              (case output_commit (sg_commit env) (sn_output t) res (sg_cancelled env) (sn_files t) of
                 (td, fs) \<Rightarrow> Done (Some td, t\<lparr>sn_files := fs\<rparr>))))"

end
