(* ===== verification/Runner_Growth.thy ===== *)
theory Runner_Growth
  imports Runner_Inv
begin

text \<open>
  What a consumer that drives its runner may rely on between two turns: without control signals the
  size limit stays, frames and events are only added at the end, and the data channel stays open
  until the runner has stopped. The singleton task rests on these facts.
\<close>

definition same_output :: "task_runner \<Rightarrow> task_runner \<Rightarrow> bool" where
  "same_output r r' \<longleftrightarrow>
     rn_frames r' = rn_frames r \<and> rn_events r' = rn_events r \<and> rn_total r' = rn_total r
     \<and> rn_data_open r' = rn_data_open r"

definition grows :: "task_runner \<Rightarrow> task_runner \<Rightarrow> bool" where
  "grows r r' \<longleftrightarrow>
     (\<exists>fs. rn_frames r' = rn_frames r @ fs) \<and> (\<exists>es. rn_events r' = rn_events r @ es)
     \<and> rn_total r' = rn_total r"

lemma grows_refl [simp]: "grows r r"
  by (simp add: grows_def)

lemma grows_trans: "grows a b \<Longrightarrow> grows b c \<Longrightarrow> grows a c"
  by (auto simp: grows_def)

lemma same_grows: "same_output r r' \<Longrightarrow> grows r r'"
  by (simp add: same_output_def grows_def)

lemma begin_stop_same [simp]: "same_output (lp_runner l) (lp_runner (begin_stop l res))"
  by (simp add: same_output_def begin_stop_def publish_stopped_def Let_def)

lemma same_output_refl [simp]: "same_output r r"
  by (simp add: same_output_def)

lemma resume_calls_same:
  "resume_calls c l = Done l' \<Longrightarrow> same_output (lp_runner l) (lp_runner l')"
proof (induction c l rule: resume_calls.induct)
  case (9 l)
  then show ?case
    by (auto simp: resume_calls.simps(9) split: option.splits buffered.splits)
next
  case (10 cont l)
  then show ?case
    by (auto simp: resume_calls.simps(10) stage_def split: option.splits if_splits)
qed (auto simp: resume_calls.simps)

lemma resume_same:
  "resume_calls c (l\<lparr>lp_phase := ph\<rparr>) = Done l' \<Longrightarrow> same_output (lp_runner l) (lp_runner l')"
  using resume_calls_same by fastforce

lemma emission_push_grows:
  "emission_push ins em r = Done (p, em', r') \<Longrightarrow> grows r r' \<and> rn_data_open r' = rn_data_open r"
  by (auto simp: emission_push_def grows_def bind_run_Done split: if_splits poll.splits bool.splits)

lemma emission_poll_grows:
  assumes "emission_poll ins em r = Done (res, em', r')" and "ri_controls ins = []"
  shows "grows r r' \<and> rn_data_open r' = rn_data_open r"
proof (cases "\<not> rn_data_open r \<or> ri_cancelled ins")
  case True
  then show ?thesis using assms by (auto simp: emission_poll_def split: if_splits)
next
  case False
  obtain p em2 r2 where p: "emission_push ins em r = Done (p, em2, r2)"
    using assms False by (auto simp: emission_poll_def bind_run_Done)
  have "r' = r2" using assms False p by (auto simp: emission_poll_def split: poll.splits sum.splits)
  then show ?thesis using emission_push_grows [OF p] by simp
qed

lemma poll_step_grows:
  assumes "poll_step ins l = Done (s, l')" and "ri_controls ins = []"
  shows "grows (lp_runner l) (lp_runner l') \<and> rn_data_open (lp_runner l') = rn_data_open (lp_runner l)
    \<and> (\<forall>ev. s \<noteq> Poll_Ready (Step_Control ev))"
proof (cases "lp_phase l")
  case Connecting
  then show ?thesis using assms
    by (auto simp: poll_step_def poll_connecting_def poll_control_def split: if_splits option.splits)
next
  case Publishing_Started
  then show ?thesis using assms
    by (auto simp: poll_step_def poll_publish_def grows_def bind_run_Done split: if_splits poll.splits)
next
  case (Streaming st)
  show ?thesis
  proof (cases "is_emitting st")
    case True
    then obtain em cont where st: "st_staged st = Some (em, cont)" by (auto simp: is_emitting_def)
    obtain res em' r where e: "emission_poll ins em (lp_runner l) = Done (res, em', r)"
      using assms(1) True Streaming st by (auto simp: poll_step_def poll_emit_def bind_run_Done)
    have "lp_runner l' = r" "s = (case res of Poll_Pending \<Rightarrow> Poll_Pending | Poll_Ready x \<Rightarrow> Poll_Ready (Step_Emitted x))"
      using assms(1) True Streaming st e by (auto simp: poll_step_def poll_emit_def)
    then show ?thesis using emission_poll_grows [OF e assms(2)] by (auto split: poll.splits)
  next
    case False
    then show ?thesis using assms Streaming
      by (auto simp: poll_step_def poll_reading_def poll_control_def grows_def Let_def
          split: if_splits poll.splits runner_input.splits prod.splits)
  qed
next
  case (Draining res)
  then show ?thesis using assms by (auto simp: poll_step_def split: poll.splits)
next
  case (Publishing_Stopped ev)
  then show ?thesis using assms
    by (cases ev) (auto simp: poll_step_def poll_publish_def grows_def bind_run_Done split: if_splits poll.splits)
next
  case Phase_Stopped
  then show ?thesis using assms by (simp add: poll_step_def)
qed

lemma handle_step_same:
  assumes h: "handle_step l s = Done l'" and nc: "\<forall>ev. s \<noteq> Step_Control ev"
  shows "grows (lp_runner l) (lp_runner l')
    \<and> (rn_data_open (lp_runner l') = rn_data_open (lp_runner l) \<or> lp_phase l' = Phase_Stopped)"
proof -
  have stop: "grows (lp_runner l) (lp_runner (begin_stop l r)) \<and> rn_data_open (lp_runner (begin_stop l r)) = rn_data_open (lp_runner l)" for r
    using begin_stop_same [of l r] same_grows by (simp add: same_output_def grows_def)
  have same: ?thesis if "same_output (lp_runner l) (lp_runner l')"
    using that same_grows by (simp add: same_output_def grows_def)
  show ?thesis
  proof (cases s)
    case (Step_Connected x)
    then show ?thesis using h stop by (cases x) (auto simp: handle_step_def grows_def)
  next
    case (Step_Started x)
    then show ?thesis using h stop by (cases x) (auto simp: handle_step_def)
  next
    case (Step_Download x)
    show ?thesis
    proof (rule same, cases "\<exists>c. x = Some (Inr c)")
      case True
      then show "same_output (lp_runner l) (lp_runner l')"
        using h Step_Download resume_same
        by (auto simp: handle_step_def on_item_def buffer_item_def split: option.splits)
    next
      case False
      then obtain cont where "resume_calls (Call_Flush cont) l = Done l'"
        using h Step_Download by (cases x) (auto simp: handle_step_def runner_flush_def split: sum.splits)
      then show "same_output (lp_runner l) (lp_runner l')" by (rule resume_calls_same)
    qed
  next
    case (Step_Emitted x)
    have "same_output (lp_runner l) (lp_runner l')"
      using h Step_Emitted resume_same
      by (auto simp: handle_step_def on_emitted_def resume_after_emit_def bind_run_Done split: option.splits)
    then show ?thesis by (rule same)
  next
    case (Step_Drained x)
    then show ?thesis using h
      by (auto simp: handle_step_def finish_drain_def publish_stopped_def split: phase.splits)
  next
    case Step_Idle_Timeout
    then have "resume_calls (Call_Flush Then_Idle_Timeout) l = Done l'"
      using h by (simp add: handle_step_def runner_flush_def)
    then show ?thesis by (rule same [OF resume_calls_same])
  qed (use h stop nc in \<open>auto simp: handle_step_def grows_def\<close>)
qed

definition open_until_stopped :: "runner_loop \<Rightarrow> bool" where
  "open_until_stopped l \<longleftrightarrow> rn_data_open (lp_runner l) \<or> lp_phase l = Phase_Stopped"

text \<open>A turn of a running runner, with what its poll alone does.\<close>

lemma runner_turn_grows:
  assumes "runner_turn ins l = Done l'" and "ri_controls ins = []" and "lp_phase l \<noteq> Phase_Stopped"
    and "open_until_stopped l"
  shows "grows (lp_runner l) (lp_runner l') \<and> open_until_stopped l'"
proof -
  obtain s l1 where p: "poll_step ins l = Done (s, l1)"
    using assms(1) by (auto simp: runner_turn_def bind_run_Done)
  note g = poll_step_grows [OF p assms(2)]
  have o1: "rn_data_open (lp_runner l1)" using g assms(3,4) by (simp add: open_until_stopped_def)
  show ?thesis
  proof (cases s)
    case Poll_Pending
    then show ?thesis using assms(1) p g o1 by (simp add: runner_turn_def open_until_stopped_def)
  next
    case (Poll_Ready x)
    then have h: "handle_step l1 x = Done l'" using assms(1) p by (simp add: runner_turn_def)
    show ?thesis
      using handle_step_same [OF h] g Poll_Ready o1 grows_trans [of "lp_runner l" "lp_runner l1" "lp_runner l'"]
      by (auto simp: open_until_stopped_def)
  qed
qed

end
