(* ===== verification/Singleton_Inv.thy ===== *)
theory Singleton_Inv
  imports Singleton_Task Runner_Growth
begin

text \<open>
  The invariant of the singleton task over its runner's: what it has taken is a prefix of what the
  runner pushed, the temporary file holds exactly that, and the flags of the loop tell the truth
  about the runner.
\<close>

section \<open>The invariant\<close>

text \<open>While the file is being created the runner's \<open>Started\<close> step waits; this is the runner with it.\<close>

definition effective :: "singleton_loop \<Rightarrow> runner_loop" where
  "effective s =
     (if sl_stage s = Holding then (sl_runner s)\<lparr>lp_phase := Streaming streaming_new\<rparr> else sl_runner s)"

definition taken :: "singleton_loop \<Rightarrow> chunk" where
  "taken s = concat (take (sl_frames s) (rn_frames (lp_runner (sl_runner s))))"

definition allocated :: "u64 option \<Rightarrow> chunk" where
  "allocated tot = (case tot of None \<Rightarrow> [] | Some n \<Rightarrow> replicate n 0)"

definition file_state :: "u64 option \<Rightarrow> path \<Rightarrow> files \<Rightarrow> chunk \<Rightarrow> usize option \<Rightarrow> singleton_task \<Rightarrow> bool" where
  "file_state tot tmp fs0 got pos t \<longleftrightarrow>
     sn_downloaded t = length got
     \<and> (\<forall>p. p \<noteq> tmp \<longrightarrow> sn_files t p = fs0 p)
     \<and> (case pos of
          None \<Rightarrow> got = []
        | Some n \<Rightarrow> n = length got \<and> sn_files t tmp = Some (got @ drop (length got) (allocated tot)))"

definition flags_ok :: "singleton_loop \<Rightarrow> bool" where
  "flags_ok s \<longleftrightarrow>
     (let r = lp_runner (sl_runner s)
      in sl_frames s \<le> length (rn_frames r) \<and> sl_events s \<le> length (rn_events r)
         \<and> (sl_file s \<noteq> None \<longrightarrow> 1 \<le> sl_events s)
         \<and> (sl_data_done s \<longrightarrow> sl_file s \<noteq> None \<and> sl_frames s = length (rn_frames r) \<and> \<not> rn_data_open r)
         \<and> (sl_runner_stopped s \<longrightarrow> Stopped Stop_Finished \<in> set (rn_events r)))"

definition single_inv :: "chunk \<Rightarrow> u64 option \<Rightarrow> output_file \<Rightarrow> files \<Rightarrow> publisher \<Rightarrow> singleton_loop \<Rightarrow> bool" where
  "single_inv body tot out fs0 pb0 s \<longleftrightarrow>
     runner_inv body (effective s) \<and> open_until_stopped (effective s)
     \<and> rn_total (lp_runner (sl_runner s)) = tot
     \<and> sn_total (sl_task s) = tot \<and> sn_output (sl_task s) = out \<and> reported pb0 (sn_reporter (sl_task s))
     \<and> flags_ok s \<and> file_state tot (of_tmp out) fs0 (taken s) (sl_file s) (sl_task s)"

lemma effective_runner [simp]: "lp_runner (effective s) = lp_runner (sl_runner s)"
  by (simp add: effective_def)

lemma fut_over_effective: "fut_over s \<longleftrightarrow> lp_phase (effective s) = Phase_Stopped"
  by (simp add: fut_over_def effective_def)

lemma single_inv_fut_done [simp]:
  "single_inv body tot out fs0 pb0 (s\<lparr>sl_fut_done := b\<rparr>) = single_inv body tot out fs0 pb0 s"
proof -
  have "effective (s\<lparr>sl_fut_done := b\<rparr>) = effective s" by (simp add: effective_def)
  moreover have "flags_ok (s\<lparr>sl_fut_done := b\<rparr>) = flags_ok s" by (simp add: flags_ok_def)
  moreover have "taken (s\<lparr>sl_fut_done := b\<rparr>) = taken s" by (simp add: taken_def)
  ultimately show ?thesis by (simp add: single_inv_def)
qed

section \<open>The runner takes turns\<close>

lemma until_started_turn:
  assumes "runner_turn ins l = Done l'" and "lp_phase l \<noteq> Phase_Stopped"
  shows "runner_until_started [ins] l = Done (None, l')
    \<or> (\<exists>l1. runner_until_started [ins] l = Done (Some [], l1) \<and> l' = l1\<lparr>lp_phase := Streaming streaming_new\<rparr>)"
proof -
  obtain s l1 where p: "poll_step ins l = Done (s, l1)"
    using assms(1) by (auto simp: runner_turn_def bind_run_Done)
  show ?thesis
  proof (cases s)
    case Poll_Pending
    then show ?thesis using assms p by (simp add: runner_turn_def)
  next
    case (Poll_Ready x)
    then have h: "handle_step l1 x = Done l'" using assms(1) p by (simp add: runner_turn_def)
    show ?thesis
    proof (cases "x = Step_Started (Inr ())")
      case True
      then show ?thesis using h p Poll_Ready assms(2) by (simp add: handle_step_def)
    next
      case False
      then show ?thesis using h p Poll_Ready assms(2) by simp
    qed
  qed
qed

lemma attached_fields [simp]: "ri_controls (attached s ins) = []" "turn_ok body (attached s ins) = turn_ok body ins"
  by (simp_all add: attached_def turn_ok_def)

text \<open>A turn of the future is a turn of the effective runner, or nothing.\<close>

lemma fut_turn_effective:
  assumes inv: "runner_inv body (effective s)" and ins: "turn_ok body ins" and run: "\<not> fut_over s"
    and op: "open_until_stopped (effective s)"
  shows "\<exists>l st. fut_turn s ins = Done (s\<lparr>sl_runner := l, sl_stage := st\<rparr>)
    \<and> runner_inv body (effective (s\<lparr>sl_runner := l, sl_stage := st\<rparr>))
    \<and> open_until_stopped (effective (s\<lparr>sl_runner := l, sl_stage := st\<rparr>))
    \<and> grows (lp_runner (sl_runner s)) (lp_runner l)"
proof -
  have ph: "lp_phase (effective s) \<noteq> Phase_Stopped" using run by (simp add: fut_over_effective)
  have ins': "turn_ok body (attached s ins)" using ins by simp
  obtain l' where t: "runner_turn (attached s ins) (effective s) = Done l'" "runner_inv body l'"
    using runner_turn_ok [OF inv ins' ph] by blast
  have g: "grows (lp_runner (sl_runner s)) (lp_runner l')" "open_until_stopped l'"
    using runner_turn_grows [OF t(1) _ ph op] by auto
  show ?thesis
  proof (cases "sl_stage s")
    case Until_Started
    then have e: "effective s = sl_runner s" by (simp add: effective_def)
    from until_started_turn [OF t(1) [unfolded e] ph [unfolded e]] show ?thesis
    proof
      assume "runner_until_started [attached s ins] (sl_runner s) = Done (None, l')"
      then have "fut_turn s ins = Done (s\<lparr>sl_runner := l', sl_stage := Until_Started\<rparr>)"
        using Until_Started by (simp add: fut_turn_def)
      then show ?thesis using t(2) g
        by (intro exI [of _ l'] exI [of _ Until_Started]) (simp add: effective_def)
    next
      assume "\<exists>l1. runner_until_started [attached s ins] (sl_runner s) = Done (Some [], l1)
        \<and> l' = l1\<lparr>lp_phase := Streaming streaming_new\<rparr>"
      then obtain l1 where l1: "runner_until_started [attached s ins] (sl_runner s) = Done (Some [], l1)"
        "l' = l1\<lparr>lp_phase := Streaming streaming_new\<rparr>" by blast
      then have "fut_turn s ins = Done (s\<lparr>sl_runner := l1, sl_stage := Holding\<rparr>)"
        using Until_Started by (simp add: fut_turn_def)
      then show ?thesis using t(2) g l1(2)
        by (intro exI [of _ l1] exI [of _ Holding]) (simp add: effective_def)
    qed
  next
    case Holding
    show ?thesis
    proof (cases "sl_file s = None")
      case True
      then have "fut_turn s ins = Done (s\<lparr>sl_runner := sl_runner s, sl_stage := Holding\<rparr>)"
        using Holding by (simp add: fut_turn_def)
      moreover have "s\<lparr>sl_runner := sl_runner s, sl_stage := Holding\<rparr> = s" using Holding by (cases s) simp
      ultimately show ?thesis using inv op
        by (intro exI [of _ "sl_runner s"] exI [of _ Holding]) (metis grows_refl)
    next
      case False
      then have "fut_turn s ins = Done (s\<lparr>sl_runner := effective s, sl_stage := Running\<rparr>)"
        using Holding False by (cases "sl_file s") (simp_all add: fut_turn_def handle_step_def effective_def)
      then show ?thesis using inv op Holding
        by (intro exI [of _ "effective s"] exI [of _ Running]) (simp add: effective_def)
    qed
  next
    case Running
    then have e: "effective s = sl_runner s" by (simp add: effective_def)
    have "runner_run [attached s ins] (sl_runner s) = Done l'"
      using t(1) ph e by (simp add: runner_run_turn del: runner_run.simps(2))
    then have "fut_turn s ins = Done (s\<lparr>sl_runner := l', sl_stage := Running\<rparr>)"
      using Running by (simp add: fut_turn_def)
    then show ?thesis using t(2) g
      by (intro exI [of _ l'] exI [of _ Running]) (simp add: effective_def)
  qed
qed

lemma data_done_over:
  assumes "single_inv body tot out fs0 pb0 s" and "sl_data_done s"
  shows "fut_over s"
  using assms by (auto simp: single_inv_def flags_ok_def open_until_stopped_def fut_over_effective Let_def)

lemma single_inv_grows:
  assumes inv: "single_inv body tot out fs0 pb0 s" and more: "\<not> sl_data_done s"
    and l: "runner_inv body (effective (s\<lparr>sl_runner := l, sl_stage := st\<rparr>))"
      "open_until_stopped (effective (s\<lparr>sl_runner := l, sl_stage := st\<rparr>))"
    and g: "grows (lp_runner (sl_runner s)) (lp_runner l)"
  shows "single_inv body tot out fs0 pb0 (s\<lparr>sl_runner := l, sl_stage := st\<rparr>)"
proof -
  obtain fs es where g': "rn_frames (lp_runner l) = rn_frames (lp_runner (sl_runner s)) @ fs"
    "rn_events (lp_runner l) = rn_events (lp_runner (sl_runner s)) @ es"
    "rn_total (lp_runner l) = rn_total (lp_runner (sl_runner s))"
    using g by (auto simp: grows_def)
  have "sl_frames s \<le> length (rn_frames (lp_runner (sl_runner s)))"
    using inv by (simp add: single_inv_def flags_ok_def Let_def)
  then have "taken (s\<lparr>sl_runner := l, sl_stage := st\<rparr>) = taken s" by (simp add: taken_def g'(1))
  moreover have "flags_ok (s\<lparr>sl_runner := l, sl_stage := st\<rparr>)"
    using inv more g' by (simp add: single_inv_def flags_ok_def Let_def)
  ultimately show ?thesis using inv l g' by (simp add: single_inv_def)
qed

lemma fut_poll_ok:
  assumes "single_inv body tot out fs0 pb0 s" and "\<forall>ins \<in> set turns. turn_ok body ins"
  shows "\<exists>s'. fut_poll turns s = Done s' \<and> single_inv body tot out fs0 pb0 s'"
  using assms
proof (induction turns arbitrary: s)
  case Nil
  then show ?case by simp
next
  case (Cons ins rest)
  show ?case
  proof (cases "fut_over s")
    case True
    then show ?thesis using Cons.prems(1) by simp
  next
    case False
    have i: "runner_inv body (effective s)" "open_until_stopped (effective s)"
      using Cons.prems(1) by (simp_all add: single_inv_def)
    have t: "turn_ok body ins" using Cons.prems(2) by simp
    obtain l st where f: "fut_turn s ins = Done (s\<lparr>sl_runner := l, sl_stage := st\<rparr>)"
      and l: "runner_inv body (effective (s\<lparr>sl_runner := l, sl_stage := st\<rparr>))"
        "open_until_stopped (effective (s\<lparr>sl_runner := l, sl_stage := st\<rparr>))"
        "grows (lp_runner (sl_runner s)) (lp_runner l)"
      using fut_turn_effective [OF i(1) t False i(2)] by blast
    have "\<not> sl_data_done s" using data_done_over [OF Cons.prems(1)] False by blast
    from single_inv_grows [OF Cons.prems(1) this l]
    show ?thesis using Cons.IH Cons.prems(2) f False by simp
  qed
qed

section \<open>The handlers\<close>

lemma single_invD:
  assumes "single_inv body tot out fs0 pb0 s"
  shows "runner_inv body (effective s)" and "open_until_stopped (effective s)"
    and "rn_total (lp_runner (sl_runner s)) = tot" and "sn_total (sl_task s) = tot" and "sn_output (sl_task s) = out"
    and "reported pb0 (sn_reporter (sl_task s))" and "flags_ok s"
    and "file_state tot (of_tmp out) fs0 (taken s) (sl_file s) (sl_task s)"
  using assms by (simp_all add: single_inv_def)

lemma runner_bytes:
  assumes "runner_inv body l"
  shows "\<exists>rest. body = concat (rn_frames (lp_runner l)) @ rest" and "length body + BUFFER_SIZE < u64_bound"
  using assms by (auto simp: runner_inv_def runner_ok_def)

lemma events_shape:
  assumes "runner_inv body (effective s)"
  shows "(\<exists>reason. rn_events (lp_runner (sl_runner s)) \<in> {[], [Started], [Stopped reason], [Started, Stopped reason]})
    \<and> (Stopped Stop_Finished \<in> set (rn_events (lp_runner (sl_runner s))) \<longrightarrow> finished_ok body (lp_runner (sl_runner s)))"
proof -
  have "phase_ok body (lp_runner (effective s)) (lp_phase (effective s))" using assms by (simp add: runner_inv_def)
  then show ?thesis by (cases "lp_phase (effective s)") (auto simp: before_stop_def)
qed

lemma write_at_end:
  "write_at (got @ drop (length got) extra) (length got) data
     = (got @ data) @ drop (length (got @ data)) extra"
  by (simp add: write_at_def add.commute)

lemma single_inv_reporter:
  assumes "single_inv body tot out fs0 pb0 s" and "reported pb0 pb"
  shows "single_inv body tot out fs0 pb0
    (s\<lparr>sl_sampler := sampler, sl_meter := m, sl_task := (sl_task s)\<lparr>sn_reporter := pb\<rparr>\<rparr>)"
    (is "single_inv body tot out fs0 pb0 ?s")
proof -
  have "effective ?s = effective s" by (simp add: effective_def)
  moreover have "flags_ok ?s = flags_ok s" by (simp add: flags_ok_def)
  moreover have "taken ?s = taken s" by (simp add: taken_def)
  moreover have "file_state tot tmp fs got pos ((sl_task s)\<lparr>sn_reporter := pb\<rparr>) = file_state tot tmp fs got pos (sl_task s)"
    for tmp fs got pos by (cases pos) (simp_all add: file_state_def)
  ultimately show ?thesis using assms by (simp add: single_inv_def)
qed

lemma timer_tick_ok:
  assumes "single_inv body tot out fs0 pb0 s"
  shows "single_inv body tot out fs0 pb0 (handle_timer_tick ins s)"
proof -
  obtain i e sampler where sample: "sample_speed (sl_sampler s) (sl_meter s) (se_now ins) = ((i, e), sampler)"
    by (metis surj_pair)
  let ?pb = "if se_observed ins
    then report (sn_reporter (sl_task s)) (singleton_progress (sl_task s)) (speed_new e 0) else sn_reporter (sl_task s)"
  have "handle_timer_tick ins s
      = s\<lparr>sl_sampler := sampler, sl_meter := 0, sl_task := (sl_task s)\<lparr>sn_reporter := ?pb\<rparr>\<rparr>"
    using sample by (simp add: handle_timer_tick_def Let_def)
  moreover have "reported pb0 ?pb" using single_invD(6) [OF assms] reported_report by simp
  ultimately show ?thesis using single_inv_reporter [OF assms] by simp
qed

text \<open>What is kept even when the loop ends with an error.\<close>

definition task_frame :: "u64 option \<Rightarrow> output_file \<Rightarrow> files \<Rightarrow> publisher \<Rightarrow> singleton_task \<Rightarrow> bool" where
  "task_frame tot out fs0 pb0 t \<longleftrightarrow>
     sn_total t = tot \<and> sn_output t = out \<and> reported pb0 (sn_reporter t)
     \<and> (\<forall>p. p \<noteq> of_tmp out \<longrightarrow> sn_files t p = fs0 p)"

lemma single_inv_frame: "single_inv body tot out fs0 pb0 s \<Longrightarrow> task_frame tot out fs0 pb0 (sl_task s)"
  by (simp add: single_inv_def task_frame_def file_state_def)

lemma data_frame_ok:
  assumes inv: "single_inv body tot out fs0 pb0 s" and pos: "sl_file s = Some pos"
    and frame: "sl_frames s < length (rn_frames (lp_runner (sl_runner s)))"
    and data: "data = rn_frames (lp_runner (sl_runner s)) ! sl_frames s"
  shows "\<exists>res s'. singleton_data_frame ins (s\<lparr>sl_frames := sl_frames s + 1\<rparr>) data pos = (res, s')
    \<and> (res = Inr () \<longrightarrow> single_inv body tot out fs0 pb0 s')
    \<and> task_frame tot out fs0 pb0 (sl_task s')"
proof -
  note I = single_invD [OF inv]
  let ?r = "lp_runner (sl_runner s)"
  have fstate: "sn_downloaded (sl_task s) = length (taken s)" "pos = length (taken s)"
    "sn_files (sl_task s) (of_tmp out) = Some (taken s @ drop (length (taken s)) (allocated tot))"
    "\<forall>p. p \<noteq> of_tmp out \<longrightarrow> sn_files (sl_task s) p = fs0 p"
    using I(8) pos by (auto simp: file_state_def)
  have tk: "concat (take (Suc (sl_frames s)) (rn_frames ?r)) = taken s @ data"
    using frame data by (simp add: taken_def take_Suc_conv_app_nth)
  obtain rest where b: "body = concat (rn_frames ?r) @ rest" using runner_bytes(1) [OF I(1)] by auto
  have "length (concat (take (Suc (sl_frames s)) (rn_frames ?r))) \<le> length (concat (rn_frames ?r))"
    by (metis append_take_drop_id concat_append le_add1 length_append)
  then have "length (taken s) + length data < u64_bound"
    using tk b runner_bytes(2) [OF I(1)] by simp
  then have add: "add64 (sn_downloaded (sl_task s)) (length data) = length (taken s @ data)"
    using fstate(1) by (simp add: add64_exact)
  show ?thesis
  proof (cases "se_write ins")
    case None
    let ?t = "(sl_task s)\<lparr>sn_downloaded := length (taken s @ data),
        sn_files := (sn_files (sl_task s))(of_tmp out \<mapsto> (taken s @ data) @ drop (length (taken s @ data)) (allocated tot))\<rparr>"
    let ?s = "s\<lparr>sl_frames := sl_frames s + 1, sl_task := ?t,
        sl_meter := add64 (sl_meter s) (length data), sl_file := Some (length (taken s @ data))\<rparr>"
    have h: "singleton_data_frame ins (s\<lparr>sl_frames := sl_frames s + 1\<rparr>) data pos = (Inr (), ?s)"
      using None fstate I(5) add write_at_end [of "taken s" "allocated tot" data]
      by (simp add: singleton_data_frame_def file_write_def Let_def)
    have "taken ?s = taken s @ data" using tk by (simp add: taken_def)
    moreover have "effective ?s = effective s" by (simp add: effective_def)
    moreover have "flags_ok ?s" using I(7) frame pos by (auto simp: flags_ok_def Let_def)
    ultimately have "single_inv body tot out fs0 pb0 ?s"
      using I fstate(4) by (simp add: single_inv_def file_state_def)
    then show ?thesis using h single_inv_frame by blast
  next
    case (Some x)
    obtain e n where x: "se_write ins = Some (e, n)" using Some by (cases x) simp
    then show ?thesis using fstate(3,4) I(4-6)
      by (auto simp: singleton_data_frame_def file_write_def task_frame_def Let_def)
  qed
qed

lemma create_file_ok:
  assumes frame: "task_frame tot out fs0 pb0 t" and "create_file ins t (of_tmp out) = (res, t')"
  shows "task_frame tot out fs0 pb0 t' \<and> sn_downloaded t' = sn_downloaded t
    \<and> (\<forall>pos. res = Inr pos \<longrightarrow> pos = 0 \<and> sn_files t' (of_tmp out) = Some (allocated tot))"
  using assms by (auto simp: create_file_def task_frame_def allocated_def Let_def split: option.splits)

lemma sampler_new_done: "\<exists>sm. sampler_new now = Done sm"
  by (simp add: sampler_new_def sampler_with_alpha_def DEFAULT_EMA_ALPHA_def)

text \<open>What a turn may do: go on, end for good with everything taken, or fail.\<close>

definition turn_result :: "chunk \<Rightarrow> u64 option \<Rightarrow> output_file \<Rightarrow> files \<Rightarrow> publisher \<Rightarrow> select_out \<Rightarrow> singleton_loop \<Rightarrow> bool" where
  "turn_result body tot out fs0 pb0 res s \<longleftrightarrow>
     (case res of
        Sel_Error e \<Rightarrow> task_frame tot out fs0 pb0 (sl_task s)
      | Sel_Continue \<Rightarrow> single_inv body tot out fs0 pb0 s
      | Sel_Break \<Rightarrow> single_inv body tot out fs0 pb0 s \<and> sl_data_done s \<and> sl_runner_stopped s)"

lemma on_frame_ok:
  assumes inv: "single_inv body tot out fs0 pb0 s" and poll: "singleton_poll_data s = Poll_Ready frame"
  shows "\<exists>res s'. on_frame ins s frame = Done (res, s') \<and> turn_result body tot out fs0 pb0 res s'"
proof -
  note I = single_invD [OF inv]
  have some: "\<not> sl_data_done s" "sl_file s \<noteq> None" using poll by (auto simp: singleton_poll_data_def Let_def split: if_splits)
  then obtain pos where pos: "sl_file s = Some pos" by blast
  show ?thesis
  proof (cases frame)
    case None
    let ?s = "s\<lparr>sl_data_done := True\<rparr>"
    have "sl_frames s \<ge> length (rn_frames (lp_runner (sl_runner s)))" "\<not> rn_data_open (lp_runner (sl_runner s))"
      using poll None by (auto simp: singleton_poll_data_def Let_def split: if_splits)
    then have "flags_ok ?s" using I(7) pos by (auto simp: flags_ok_def Let_def)
    moreover have "effective ?s = effective s" by (simp add: effective_def)
    moreover have "taken ?s = taken s" by (simp add: taken_def)
    ultimately have "single_inv body tot out fs0 pb0 ?s" using I by (simp add: single_inv_def)
    then show ?thesis using None by (simp add: on_frame_def turn_result_def Let_def)
  next
    case (Some data)
    then have d: "sl_frames s < length (rn_frames (lp_runner (sl_runner s)))"
      "data = rn_frames (lp_runner (sl_runner s)) ! sl_frames s"
      using poll by (auto simp: singleton_poll_data_def Let_def split: if_splits)
    obtain res s' where h: "singleton_data_frame ins (s\<lparr>sl_frames := sl_frames s + 1\<rparr>) data pos = (res, s')"
      "res = Inr () \<longrightarrow> single_inv body tot out fs0 pb0 s'" "task_frame tot out fs0 pb0 (sl_task s')"
      using data_frame_ok [OF inv pos d] by blast
    then show ?thesis using Some pos by (cases res) (auto simp: on_frame_def turn_result_def)
  qed
qed

lemma single_inv_event:
  assumes inv: "single_inv body tot out fs0 pb0 s"
    and ev: "sl_events s < length (rn_events (lp_runner (sl_runner s)))"
    and st: "stopped \<longrightarrow> Stopped Stop_Finished \<in> set (rn_events (lp_runner (sl_runner s)))"
  shows "single_inv body tot out fs0 pb0
    (s\<lparr>sl_events := sl_events s + 1, sl_is_finished := fin, sl_runner_stopped := stopped\<rparr>)"
    (is "single_inv body tot out fs0 pb0 ?s")
proof -
  note I = single_invD [OF inv]
  have "flags_ok ?s" using I(7) ev st by (auto simp: flags_ok_def Let_def)
  moreover have "effective ?s = effective s" by (simp add: effective_def)
  moreover have "taken ?s = taken s" by (simp add: taken_def)
  ultimately show ?thesis using I by (simp add: single_inv_def)
qed

lemma started_ok:
  assumes inv: "single_inv body tot out fs0 pb0 s" and ev: "sl_events s = 0"
    and some: "rn_events (lp_runner (sl_runner s)) \<noteq> []"
    and cf: "create_file ins (sl_task s) (of_tmp out) = (Inr pos, t)"
  shows "single_inv body tot out fs0 pb0
    (s\<lparr>sl_events := sl_events s + 1, sl_task := t, sl_file := Some pos, sl_sampler := sm\<rparr>)"
    (is "single_inv body tot out fs0 pb0 ?s")
proof -
  note I = single_invD [OF inv]
  have none: "sl_file s = None" using I(7) ev by (auto simp: flags_ok_def Let_def)
  have c: "task_frame tot out fs0 pb0 t" "sn_downloaded t = sn_downloaded (sl_task s)" "pos = 0"
    "sn_files t (of_tmp out) = Some (allocated tot)"
    using create_file_ok [OF single_inv_frame [OF inv] cf] by auto
  have "taken s = []" "sn_downloaded t = 0" using I(8) none c(2) by (auto simp: file_state_def)
  moreover have "taken ?s = taken s" by (simp add: taken_def)
  moreover have "effective ?s = effective s" by (simp add: effective_def)
  moreover have "flags_ok ?s" using I(7) some ev none by (auto simp: flags_ok_def Let_def Suc_le_eq)
  ultimately show ?thesis using I c by (simp add: single_inv_def file_state_def task_frame_def)
qed

lemma started_is_first:
  assumes "runner_inv body (effective s)" and "n < length (rn_events (lp_runner (sl_runner s)))"
    and "rn_events (lp_runner (sl_runner s)) ! n = Started"
  shows "n = 0"
proof -
  obtain reason where "rn_events (lp_runner (sl_runner s)) \<in> {[], [Started], [Stopped reason], [Started, Stopped reason]}"
    using events_shape [OF assms(1)] by blast
  then show ?thesis using assms(2,3) by (cases n) auto
qed

lemma on_stopped:
  "sl_file s = None \<Longrightarrow> on_lifecycle ins s (Some (Stopped reason))
     = Done (Sel_Error (connect_error reason), s\<lparr>sl_events := sl_events s + 1\<rparr>)"
  "sl_file s = Some pos \<Longrightarrow> on_lifecycle ins s (Some (Stopped (Stop_Failed kind)))
     = Done (Sel_Error (transfer kind), s\<lparr>sl_events := sl_events s + 1\<rparr>)"
  "sl_file s = Some pos \<Longrightarrow> on_lifecycle ins s (Some (Stopped Stop_Finished))
     = Done (if sl_data_done s then Sel_Break else Sel_Continue,
             s\<lparr>sl_events := sl_events s + 1, sl_is_finished := True, sl_runner_stopped := True\<rparr>)"
  by (simp_all add: on_lifecycle_def)

lemma on_lifecycle_ok:
  assumes inv: "single_inv body tot out fs0 pb0 s" and poll: "singleton_poll_lifecycle s = Poll_Ready event"
  shows "\<exists>res s'. on_lifecycle ins s event = Done (res, s') \<and> turn_result body tot out fs0 pb0 res s'"
proof -
  note I = single_invD [OF inv]
  let ?evs = "rn_events (lp_runner (sl_runner s))"
  have ev: "sl_events s < length ?evs" "event = Some (?evs ! sl_events s)"
    using poll by (auto simp: singleton_poll_lifecycle_def Let_def split: if_splits)
  have frame: "task_frame tot out fs0 pb0 (sl_task s)" by (rule single_inv_frame [OF inv])
  show ?thesis
  proof (cases "?evs ! sl_events s")
    case Started
    then have zero: "sl_events s = 0" using started_is_first [OF I(1) ev(1)] by simp
    obtain res t where cf: "create_file ins (sl_task s) (of_tmp out) = (res, t)" by fastforce
    show ?thesis
    proof (cases res)
      case (Inl e)
      then show ?thesis using ev(2) Started cf I(5) create_file_ok [OF frame cf]
        by (simp add: on_lifecycle_def turn_result_def Let_def)
    next
      case (Inr pos)
      obtain sm where sm: "sampler_new (se_now ins) = Done sm" using sampler_new_done by blast
      have "?evs \<noteq> []" using ev(1) by auto
      from started_ok [OF inv zero this cf [unfolded Inr], of sm] show ?thesis
        using ev(2) Started cf I(5) sm Inr by (simp add: on_lifecycle_def turn_result_def Let_def)
    qed
  next
    case (Stopped reason)
    show ?thesis
    proof (cases "sl_file s")
      case None
      then show ?thesis using ev(2) Stopped frame by (simp add: on_stopped(1) turn_result_def)
    next
      case (Some pos)
      show ?thesis
      proof (cases reason)
        case (Stop_Failed kind)
        then show ?thesis using ev(2) Stopped frame by (simp add: on_stopped(2) [OF Some] turn_result_def)
      next
        case Stop_Finished
        have "Stopped Stop_Finished \<in> set ?evs"
          using nth_mem [OF ev(1)] unfolding Stopped Stop_Finished .
        then show ?thesis
          using single_inv_event [OF inv ev(1), of True True] ev(2) Stopped Stop_Finished
          by (simp add: on_stopped(3) [OF Some] turn_result_def)
      qed
    qed
  qed
qed

section \<open>The loop\<close>

lemma select_turn_ok:
  assumes inv: "single_inv body tot out fs0 pb0 s" and ins: "\<forall>r \<in> set (se_turns ins). turn_ok body r"
  shows "\<exists>res s'. select_turn ins s = Done (res, s') \<and> turn_result body tot out fs0 pb0 res s'"
proof (cases "se_timer ins")
  case True
  then show ?thesis using inv timer_tick_ok [OF inv] by (simp add: select_turn_def turn_result_def)
next
  case False
  obtain s1 where f: "(if sl_fut_done s then Done s else fut_poll (se_turns ins) s) = Done s1"
    and i: "single_inv body tot out fs0 pb0 s1"
    using fut_poll_ok [OF inv ins] inv by (cases "sl_fut_done s") auto
  have sel: "select_turn ins s
      = (if sl_fut_done s1 \<and> \<not> sl_fut_done s then Done (Sel_Continue, s1)
         else case singleton_poll_data s1 of
             Poll_Ready frame \<Rightarrow> on_frame ins s1 frame
           | Poll_Pending \<Rightarrow>
              (case singleton_poll_lifecycle s1 of
                 Poll_Ready event \<Rightarrow> on_lifecycle ins s1 event
               | Poll_Pending \<Rightarrow> Done (Sel_Continue, s1)))"
    using False f by (simp add: select_turn_def)
  show ?thesis
    unfolding sel using i on_frame_ok [OF i] on_lifecycle_ok [OF i]
    by (auto simp: turn_result_def split: poll.split)
qed

lemma select_loop_ok:
  assumes "single_inv body tot out fs0 pb0 s" and "\<forall>ins \<in> set turns. \<forall>r \<in> set (se_turns ins). turn_ok body r"
  shows "\<exists>res s'. select_loop turns s = Done (res, s') \<and> task_frame tot out fs0 pb0 (sl_task s')
    \<and> (res = Some (Inr ()) \<longrightarrow>
         single_inv body tot out fs0 pb0 s' \<and> sl_data_done s' \<and> sl_runner_stopped s')"
  using assms
proof (induction turns arbitrary: s)
  case Nil
  then show ?case using single_inv_frame [OF Nil(1)] by simp
next
  case (Cons ins rest)
  have "\<forall>r \<in> set (se_turns ins). turn_ok body r" using Cons.prems(2) by simp
  from select_turn_ok [OF Cons.prems(1) this] obtain out' s1
    where t: "select_turn ins s = Done (out', s1)" "turn_result body tot out fs0 pb0 out' s1" by blast
  show ?case
  proof (cases out')
    case Sel_Continue
    then have "single_inv body tot out fs0 pb0 s1" using t(2) by (simp add: turn_result_def)
    then show ?thesis using Cons.IH Cons.prems(2) t(1) Sel_Continue by simp
  next
    case Sel_Break
    then show ?thesis using t single_inv_frame [of body tot out fs0 pb0 s1] by (simp add: turn_result_def)
  next
    case (Sel_Error e)
    then show ?thesis using t by (simp add: turn_result_def)
  qed
qed

lemma singleton_start:
  assumes b: "length body + BUFFER_SIZE < u64_bound"
  shows "\<exists>r. runner_build (singleton_runner tot) = Inr r
    \<and> single_inv body tot out fs pb (singleton_loop_new (singleton_new out tot pb fs) r sm)"
proof -
  let ?r = "\<lparr>rn_total = tot, rn_downloaded = 0, rn_input = Connecting_Input, rn_data_open = True,
    rn_frames = [], rn_events = []\<rparr>"
  have r: "runner_build (singleton_runner tot) = Inr ?r"
    by (simp add: runner_build_def singleton_runner_def builder_default_def)
  have "runner_inv body (runner_loop_new ?r)"
    by (rule built_runner_inv [OF r _ b]) (simp add: singleton_runner_def)
  then have "single_inv body tot out fs pb (singleton_loop_new (singleton_new out tot pb fs) ?r sm)"
    by (simp add: single_inv_def singleton_loop_new_def singleton_new_def effective_def flags_ok_def file_state_def
        taken_def open_until_stopped_def runner_loop_new_def)
  then show ?thesis using r by blast
qed

text \<open>At the end everything the runner pushed was taken, so the file is what the runner promises.\<close>

lemma finished_file:
  assumes inv: "single_inv body tot out fs0 pb0 s" and fin: "sl_data_done s" "sl_runner_stopped s"
  shows "\<exists>data rest. body = data @ rest \<and> sn_files (sl_task s) (of_tmp out) = Some data
    \<and> sn_downloaded (sl_task s) = length data
    \<and> (case tot of Some n \<Rightarrow> length data = n | None \<Rightarrow> rest = [] \<and> body \<noteq> [])"
proof -
  note I = single_invD [OF inv]
  let ?r = "lp_runner (sl_runner s)"
  have f: "sl_frames s = length (rn_frames ?r)" "sl_file s \<noteq> None" "Stopped Stop_Finished \<in> set (rn_events ?r)"
    using I(7) fin by (auto simp: flags_ok_def Let_def)
  have tk: "taken s = concat (rn_frames ?r)" using f(1) by (simp add: taken_def)
  obtain rest where b: "body = concat (rn_frames ?r) @ rest" using runner_bytes(1) [OF I(1)] by auto
  have ok: "finished_ok body ?r" using events_shape [OF I(1)] f(3) by blast
  have d: "sn_downloaded (sl_task s) = length (concat (rn_frames ?r))"
    "sn_files (sl_task s) (of_tmp out)
       = Some (concat (rn_frames ?r) @ drop (length (concat (rn_frames ?r))) (allocated tot))"
    using I(8) f(2) tk by (auto simp: file_state_def)
  have "drop (length (concat (rn_frames ?r))) (allocated tot) = []"
    using ok I(3) by (auto simp: allocated_def finished_ok_def split: option.splits)
  then show ?thesis using b d ok I(3)
    by (intro exI [of _ "concat (rn_frames ?r)"] exI [of _ rest]) (auto simp: finished_ok_def split: option.splits)
qed

lemma download_to_ok:
  assumes b: "length body + BUFFER_SIZE < u64_bound"
    and turns: "\<forall>ins \<in> set turns. \<forall>r \<in> set (se_turns ins). turn_ok body r"
  shows "\<exists>res t. singleton_download_to start turns flush (singleton_new out tot pb fs) = Done (res, t)
    \<and> task_frame tot out fs pb t
    \<and> (res = Some (Inr ()) \<longrightarrow>
        (\<exists>data rest. body = data @ rest \<and> sn_files t (of_tmp out) = Some data \<and> sn_downloaded t = length data
           \<and> (case tot of Some n \<Rightarrow> length data = n | None \<Rightarrow> rest = [] \<and> body \<noteq> [])))"
proof -
  obtain sm where sm: "sampler_new start = Done sm" using sampler_new_done by blast
  let ?t = "singleton_new out tot pb fs"
  obtain r where r: "runner_build (singleton_runner tot) = Inr r"
    "single_inv body tot out fs pb (singleton_loop_new ?t r sm)"
    using singleton_start [OF b] by blast
  obtain res s where l: "select_loop turns (singleton_loop_new ?t r sm) = Done (res, s)"
    "task_frame tot out fs pb (sl_task s)"
    "res = Some (Inr ()) \<longrightarrow> single_inv body tot out fs pb s \<and> sl_data_done s \<and> sl_runner_stopped s"
    using select_loop_ok [OF r(2) turns] by blast
  have tot: "sn_total ?t = tot" by (simp add: singleton_new_def)
  obtain res' where d: "singleton_download_to start turns flush ?t = Done (res', sl_task s)"
    and ok: "res' = Some (Inr ()) \<longrightarrow> res = Some (Inr ())"
    using sm r(1) l(1) tot
    by (cases res) (auto simp: singleton_download_to_def split: sum.splits)
  show ?thesis using d l(2,3) ok finished_file [of body tot out fs pb s] by blast
qed

end
