(* ===== verification/Singleton_Props.thy ===== *)
theory Singleton_Props
  imports Singleton_Inv
begin

text \<open>
  The property of the transfer over one connection: the file it leaves is the one that was sent.
\<close>

section \<open>One connection delivers the file\<close>

definition delivers :: "chunk \<Rightarrow> u64 option \<Rightarrow> path \<Rightarrow> singleton_task \<Rightarrow> bool" where
  "delivers body tot dest t \<longleftrightarrow>
     (\<exists>data rest. body = data @ rest \<and> sn_files t dest = Some data
        \<and> (case tot of Some n \<Rightarrow> length data = n | None \<Rightarrow> rest = [] \<and> body \<noteq> [])
        \<and> singleton_final_progress t = progress_new (Some (length data)) (length data) [Range 0 (length data)])"

lemma committed_delivers:
  assumes "body = data @ rest" and "sn_files t (of_tmp out) = Some data" and "sn_downloaded t = length data"
    and "case tot of Some n \<Rightarrow> length data = n | None \<Rightarrow> rest = [] \<and> body \<noteq> []"
    and "sn_total t = tot" and "commit_ok out (sn_files t) td fs'" and "td_result td = Inr ()"
  shows "delivers body tot (of_dest out) (t\<lparr>sn_files := fs'\<rparr>)"
proof -
  have "fs' (of_dest out) = Some data" using assms(2,6,7) by (simp add: commit_ok_def)
  moreover have "singleton_final_progress (t\<lparr>sn_files := fs'\<rparr>)
      = progress_new (Some (length data)) (length data) [Range 0 (length data)]"
    using assms(3-5)
    by (cases tot) (simp_all add: singleton_final_progress_def singleton_progress_def progress_new_def)
  ultimately show ?thesis
    unfolding delivers_def using assms(1,4) by (intro exI [of _ data] exI [of _ rest] conjI) simp_all
qed

text \<open>
  C5: A download over one connection never panics, and when it succeeds the destination holds exactly
  what the server sent: with a known size, the first that many bytes of the body, no fewer; with an
  unknown size, the whole body, which is not empty. The final progress reports that length. When it
  does not succeed, the destination is what it was.
\<close>

theorem singleton_download_is_exact:
  assumes "length body + BUFFER_SIZE < u64_bound"
    and "\<forall>ins \<in> set (sg_turns env). \<forall>r \<in> set (se_turns ins). turn_ok body r"
  shows "\<exists>res t. singleton_download env (singleton_new (output_file_new dest) tot pb fs) = Done (res, t)
    \<and> (case res of
          None \<Rightarrow> sn_files t dest = fs dest
        | Some td \<Rightarrow>
            if td_result td = Inr () then delivers body tot dest t else sn_files t dest = fs dest)"
proof -
  let ?out = "output_file_new dest"
  from download_to_ok [OF assms, where start = "sg_start env" and flush = "sg_flush env" and out = ?out
      and tot = tot and pb = pb and fs = fs]
  obtain res t where d: "singleton_download_to (sg_start env) (sg_turns env) (sg_flush env) (singleton_new ?out tot pb fs)
      = Done (res, t)" "task_frame tot ?out fs pb t"
    and ok: "res = Some (Inr ()) \<longrightarrow>
      (\<exists>data rest. body = data @ rest \<and> sn_files t (of_tmp ?out) = Some data \<and> sn_downloaded t = length data
         \<and> (case tot of Some n \<Rightarrow> length data = n | None \<Rightarrow> rest = [] \<and> body \<noteq> []))"
    by (elim exE conjE)
  have out: "of_tmp ?out = tmp_path_for dest" "of_dest ?out = dest" by (simp_all add: output_file_new_def)
  have t: "sn_output t = ?out" "sn_total t = tot" using d(2) by (simp_all add: task_frame_def)
  have dest: "sn_files t dest = fs dest"
    using d(2) tmp_differs [of dest, symmetric] by (simp add: task_frame_def out(1))
  show ?thesis
  proof (cases res)
    case None
    then have "singleton_download env (singleton_new ?out tot pb fs) = Done (None, t)"
      using d(1) by (simp add: singleton_download_def)
    then show ?thesis using dest by simp
  next
    case (Some r)
    obtain td fs' where c: "output_commit (sg_commit env) ?out r (sg_cancelled env) (sn_files t) = (td, fs')" by fastforce
    have run: "singleton_download env (singleton_new ?out tot pb fs) = Done (Some td, t\<lparr>sn_files := fs'\<rparr>)"
      using d(1) Some c t(1) by (simp add: singleton_download_def)
    have spec: "commit_ok ?out (sn_files t) td fs'" "td_result td = Inr () \<longrightarrow> r = Inr ()"
      using commit_spec [OF c] by blast+
    show ?thesis
    proof (cases "td_result td = Inr ()")
      case True
      then have "res = Some (Inr ())" using spec(2) Some by simp
      then obtain data rest where data: "body = data @ rest" "sn_files t (of_tmp ?out) = Some data"
        "sn_downloaded t = length data"
        "case tot of Some n \<Rightarrow> length data = n | None \<Rightarrow> rest = [] \<and> body \<noteq> []" using ok by blast
      have "delivers body tot dest (t\<lparr>sn_files := fs'\<rparr>)"
        using committed_delivers [OF data t(2) spec(1) True] by (simp only: out(2))
      then show ?thesis using run True by (intro exI [of _ "Some td"] exI [of _ "t\<lparr>sn_files := fs'\<rparr>"]) simp
    next
      case False
      have "fs' dest = fs dest"
        using commit_other_files [OF spec(1), of dest] False dest tmp_differs [of dest, symmetric] by (simp add: out(1))
      then show ?thesis using run False by (intro exI [of _ "Some td"] exI [of _ "t\<lparr>sn_files := fs'\<rparr>"]) simp
    qed
  qed
qed

text \<open>A server that sends three bytes, and a task that is polled when everything is ready.\<close>

definition eager_turn :: runner_ins where
  "eager_turn = \<lparr>ri_cancelled = False, ri_controls = [], ri_connect_timeout = False,
     ri_connect = Some (Inr [Poll_Ready (Inr [1, 2, 3])]), ri_idle = False, ri_lifecycle_ready = Poll_Ready True,
     ri_data_ready = Poll_Ready True, ri_push = True, ri_drained = True, ri_drain_timeout = False\<rparr>"

definition eager_env :: singleton_env where
  "eager_env = \<lparr>sg_start = 0,
     sg_turns = replicate 8 \<lparr>se_timer = False, se_turns = replicate 8 eager_turn, se_now = 0, se_observed = True,
       se_open = None, se_set_len = None, se_write = None\<rparr>,
     sg_flush = None, sg_cancelled = False, sg_commit = \<lparr>fe_rename = None, fe_remove = None\<rparr>\<rparr>"

lemma singleton_download_is_exact_witness:
  "\<exists>res t. singleton_download eager_env (singleton_new (output_file_new (lit ''a'')) (Some 3) publisher_new
       [lit ''a'' \<mapsto> [9]]) = Done (res, t)
     \<and> sn_files t (lit ''a'') \<in> {Some [9], Some [1, 2, 3]}"
proof -
  have b: "length [1, 2, 3 :: byte] + BUFFER_SIZE < u64_bound" by (simp add: BUFFER_SIZE_def u64_bound_def)
  have t: "\<forall>ins \<in> set (sg_turns eager_env). \<forall>r \<in> set (se_turns ins). turn_ok [1, 2, 3] r"
    by (simp add: eager_env_def eager_turn_def turn_ok_def)
  from singleton_download_is_exact [OF b t, of "lit ''a''" "Some 3" publisher_new "[lit ''a'' \<mapsto> [9]]"]
  obtain res t where r: "singleton_download eager_env (singleton_new (output_file_new (lit ''a'')) (Some 3)
      publisher_new [lit ''a'' \<mapsto> [9]]) = Done (res, t)"
    and f: "sn_files t (lit ''a'') = Some [9] \<or> delivers [1, 2, 3] (Some 3) (lit ''a'') t"
    by (auto split: option.splits if_splits)
  have "sn_files t (lit ''a'') = Some [1, 2, 3]" if d: "delivers [1, 2, 3] (Some 3) (lit ''a'') t"
  proof -
    obtain data rest where x: "[1, 2, 3] = data @ rest" "sn_files t (lit ''a'') = Some data" "length data = 3"
      using d unfolding delivers_def option.case by blast
    then have "data = take 3 [1, 2, 3]" by (metis append_eq_conv_conj)
    then show ?thesis using x(2) by simp
  qed
  then show ?thesis using r f by blast
qed

end
