(* ===== verification/Concurrent_Task.thy ===== *)
theory Concurrent_Task
  imports Download_Loop Task_Builder
begin

text \<open>
  The transfer over several connections (\<open>concurrent_task/mod.rs\<close>): it opens the file writer, runs
  the download loop, tears it down, finalizes the writer and commits. The first error takes
  precedence. What the writer's backend answers, and what it leaves in the temporary file, are
  inputs.
\<close>

section \<open>State\<close>

record concurrent_task =
  ct_output :: output_file
  ct_progress :: progress
  ct_reporter :: publisher
  ct_options :: task_options
  ct_files :: files

definition concurrent_new ::
  "output_file \<Rightarrow> u64 \<Rightarrow> task_options \<Rightarrow> publisher \<Rightarrow> files \<Rightarrow> concurrent_task" where
  "concurrent_new out tot opts reporter fs =
     \<lparr>ct_output = out, ct_progress = progress_new (Some tot) 0 [], ct_reporter = reporter,
      ct_options = opts, ct_files = fs\<rparr>"

text \<open>
  What the environment answers: the parallelism of the machine and three readings of the clock when
  the loop is built, the error of opening the writer, the polls of the loop, what flushing the
  pending writes answers, the error of finalizing, the contents the writer left in the temporary
  file, and the commit.
\<close>

record concurrent_env =
  ce_parallelism :: "usize option"
  ce_now :: instant
  ce_t1 :: instant
  ce_t2 :: instant
  ce_open :: "rstr option"
  ce_polls :: "(loop_env \<times> poll_inputs) list"
  ce_flush :: "loop_env \<times> write_completion list"
  ce_finalize :: "rstr option"
  ce_content :: "chunk option"
  ce_cancelled :: bool
  ce_commit :: fs_env

section \<open>The download\<close>

definition create_file_writer :: "concurrent_env \<Rightarrow> concurrent_task \<Rightarrow> download_error + u64" where
  "create_file_writer env t =
     (case pr_total (ct_progress t) of
        None \<Rightarrow> Inl (download_other (lit ''the concurrent task has no size''))
      | Some total_size \<Rightarrow>
         (case ce_open env of Some e \<Rightarrow> Inl (download_other e) | None \<Rightarrow> Inr total_size))"

definition concurrent_loop :: "concurrent_env \<Rightarrow> concurrent_task \<Rightarrow> u64 \<Rightarrow> download_loop run" where
  "concurrent_loop env t tot =
     loop_new tot (ce_parallelism env) (to_max_consecutive_failures (ct_options t))
       (to_no_progress_timeout (ct_options t)) (ce_now env) (ce_t1 env) (ce_t2 env) (ct_reporter t)"

text \<open>\<open>Result::and\<close>.\<close>

fun result_and :: "download_error + unit \<Rightarrow> download_error + unit \<Rightarrow> download_error + unit" where
  "result_and (Inl e) _ = Inl e"
| "result_and (Inr _) res = res"

definition concurrent_download_to ::
  "concurrent_env \<Rightarrow> concurrent_task \<Rightarrow> ((download_error + unit) option \<times> concurrent_task) run" where
  "concurrent_download_to env t =
     bind_run (expect_some ''A concurrent task should have a total size'' (pr_total (ct_progress t)))
       (\<lambda>tot.
          (case create_file_writer env t of
             Inl e \<Rightarrow> Done (Some (Inl e), t)
           | Inr _ \<Rightarrow>
              bind_run (concurrent_loop env t tot)
                (\<lambda>d. bind_run (loop_run (ce_polls env) d)
                  (\<lambda>(res, d).
                     (let t = t\<lparr>ct_reporter := dl_reporter d\<rparr>
                      in (case res of
                            None \<Rightarrow> Done (None, t)
                          | Some transfer_result \<Rightarrow>
                             (case loop_finish (fst (ce_flush env)) d transfer_result (snd (ce_flush env))
                                     (ct_progress t) of
                                (transfer_result, prog) \<Rightarrow>
                                  (let finalize_result =
                                     (case ce_finalize env of Some e \<Rightarrow> Inl (download_other e) | None \<Rightarrow> Inr ())
                                   in Done (Some (result_and transfer_result finalize_result),
                                            t\<lparr>ct_progress := prog\<rparr>)))))))))"

definition concurrent_download ::
  "concurrent_env \<Rightarrow> concurrent_task \<Rightarrow> (teardown option \<times> concurrent_task) run" where
  "concurrent_download env t =
     bind_run (concurrent_download_to env t)
       (\<lambda>(res, t).
          (let fs = (ct_files t)(of_tmp (ct_output t) := ce_content env)
           in (case res of
                 None \<Rightarrow> Done (None, t\<lparr>ct_files := fs\<rparr>)
               | Some res \<Rightarrow>
                  (case output_commit (ce_commit env) (ct_output t) res (ce_cancelled env) fs of
                     (td, fs) \<Rightarrow> Done (Some td, t\<lparr>ct_files := fs\<rparr>)))))"

text \<open>
  The status channel when the loop panics (or when its polls end): the loop panics in a poll or in
  a handler that has not reported.
\<close>

fun reporter_at_end :: "(loop_env \<times> poll_inputs) list \<Rightarrow> download_loop \<Rightarrow> publisher" where
  "reporter_at_end [] d = dl_reporter d"
| "reporter_at_end ((env, ins) # polls) d =
     (case loop_turn env ins d of
        Panicked _ \<Rightarrow> dl_reporter d
      | Done (None, d') \<Rightarrow> reporter_at_end polls d'
      | Done (Some _, d') \<Rightarrow> dl_reporter d')"

definition concurrent_reporter_at_end :: "concurrent_env \<Rightarrow> concurrent_task \<Rightarrow> publisher" where
  "concurrent_reporter_at_end env t =
     (case pr_total (ct_progress t) of
        None \<Rightarrow> ct_reporter t
      | Some tot \<Rightarrow>
         (case create_file_writer env t of
            Inl _ \<Rightarrow> ct_reporter t
          | Inr _ \<Rightarrow>
             (case concurrent_loop env t tot of
                Panicked _ \<Rightarrow> ct_reporter t
              | Done d \<Rightarrow> reporter_at_end (ce_polls env) d)))"

section \<open>The loop only reports\<close>

lemma spawn_runner_reporter: "spawn_runner env d r = Done d' \<Longrightarrow> dl_reporter d' = dl_reporter d"
  by (auto simp: spawn_runner_def bind_run_Done split: prod.splits)

lemma split_runner_reporter:
  assumes "split_runner env d i r = Done d'"
  shows "dl_reporter d' = dl_reporter d"
proof -
  obtain res m where "resize_runner (dl_manager d) i (sub64 (r_end r) (r_start r) div 2) = Done (res, m)"
    using assms by (auto simp: split_runner_def bind_run_Done Let_def)
  then show ?thesis using assms by (cases res) (auto simp: split_runner_def dest: spawn_runner_reporter)
qed

lemma split_all_reporter: "split_all env d xs = Done d' \<Longrightarrow> dl_reporter d' = dl_reporter d"
  by (induction env d xs rule: split_all.induct)
    (auto simp: bind_run_Done dest!: split_runner_reporter)

lemma apply_action_reporter: "apply_action env d a = Done d' \<Longrightarrow> dl_reporter d' = dl_reporter d"
  by (cases a) (auto simp: apply_action_def bind_run_Done
      dest!: split_all_reporter split_runner_reporter spawn_runner_reporter)

lemma apply_all_reporter: "apply_all env d as = Done d' \<Longrightarrow> dl_reporter d' = dl_reporter d"
  by (induction env d as rule: apply_all.induct) (auto simp: bind_run_Done dest!: apply_action_reporter)

lemma strategy_tick_reporter: "on_strategy_tick env d = Done d' \<Longrightarrow> dl_reporter d' = dl_reporter d"
  by (auto simp: on_strategy_tick_def bind_run_Done Let_def split: option.splits prod.splits
      dest!: apply_all_reporter)

lemma on_runner_reporter: "on_runner env d t = (res, d') \<Longrightarrow> dl_reporter d' = dl_reporter d"
  by (auto simp: on_runner_def accept_chunk_def on_failure_def Let_def
      split: option.splits sum.splits prod.splits if_splits)

lemma poll_event_reporter: "poll_event env ins d = Done (ev, d') \<Longrightarrow> dl_reporter d' = dl_reporter d"
  by (auto simp: poll_event_def poll_runner_def bind_run_Done Let_def split: if_splits option.splits prod.splits)

lemma throughput_tick_reporter: "reported pb (dl_reporter d) \<Longrightarrow> reported pb (dl_reporter (on_throughput_tick env d))"
  by (auto simp: on_throughput_tick_def publish_progress_def reported_report split: prod.splits)

lemma handle_event_reporter:
  assumes "handle_event env d ev = Done (res, d')" and "reported pb (dl_reporter d)"
  shows "reported pb (dl_reporter d')"
proof (cases ev)
  case Ev_Strategy_Timer
  then show ?thesis using assms
    by (auto simp: handle_event_def bind_run_Done dest!: strategy_tick_reporter)
next
  case (Ev_Runner t)
  then show ?thesis using assms on_runner_reporter [of env d t res d'] by (simp add: handle_event_def)
next
  case Ev_Throughput_Timer
  then show ?thesis using assms throughput_tick_reporter by (auto simp: handle_event_def)
next
  case (Ev_Writer_Completed cs)
  then show ?thesis using assms
    by (auto simp: handle_event_def record_completions_def split: option.splits sum.splits prod.splits)
qed (use assms in \<open>auto simp: handle_event_def on_deadline_def split: option.splits prod.splits sum.splits\<close>)

lemma loop_turn_reporter:
  assumes "loop_turn env ins d = Done (res, d')" and "reported pb (dl_reporter d)"
  shows "reported pb (dl_reporter d')"
proof -
  let ?d = "d\<lparr>dl_writer := workers_report (dl_writer d) (in_reports ins)\<rparr>"
  obtain ev d1 where p: "poll_event env ins ?d = Done (ev, d1)"
    using assms(1) by (auto simp: loop_turn_def bind_run_Done)
  have r: "reported pb (dl_reporter d1)" using poll_event_reporter [OF p] assms(2) by simp
  show ?thesis
  proof (cases ev)
    case None
    then show ?thesis using assms(1) p r by (simp add: loop_turn_def)
  next
    case (Some e)
    then obtain x where "handle_event env d1 e = Done (x, d')"
      using assms(1) p by (auto simp: loop_turn_def bind_run_Done)
    then show ?thesis by (rule handle_event_reporter [OF _ r])
  qed
qed

lemma loop_run_reporter:
  "loop_run polls d = Done (res, d') \<Longrightarrow> reported pb (dl_reporter d) \<Longrightarrow> reported pb (dl_reporter d')"
proof (induction polls arbitrary: d)
  case (Cons x polls)
  obtain env ins where x: "x = (env, ins)" by fastforce
  obtain r d1 where t: "loop_turn env ins d = Done (r, d1)"
    using Cons.prems(1) x by (auto simp: bind_run_Done)
  have r1: "reported pb (dl_reporter d1)" by (rule loop_turn_reporter [OF t Cons.prems(2)])
  then show ?case using Cons.IH [OF _ r1] Cons.prems(1) t x by (cases r) auto
qed simp

lemma reporter_at_end_reported:
  "reported pb (dl_reporter d) \<Longrightarrow> reported pb (reporter_at_end polls d)"
proof (induction polls arbitrary: d)
  case (Cons x polls)
  obtain env ins where x: "x = (env, ins)" by fastforce
  show ?case
  proof (cases "loop_turn env ins d")
    case (Done q)
    obtain r d1 where q: "q = (r, d1)" by fastforce
    have "reported pb (dl_reporter d1)" using loop_turn_reporter [of env ins d r d1] Done q Cons.prems by simp
    then show ?thesis using Cons.IH Done q x by (cases r) simp_all
  qed (use Cons.prems x in simp)
qed simp

lemma loop_new_reporter: "loop_new tot par mf np now t1 t2 rep = Done d \<Longrightarrow> dl_reporter d = rep"
  by (auto simp: loop_new_def bind_run_Done Let_def)

lemma concurrent_reporter:
  "reported (ct_reporter t) (concurrent_reporter_at_end env t)"
  by (auto simp: concurrent_reporter_at_end_def concurrent_loop_def
      split: option.split sum.split run.split dest!: loop_new_reporter intro!: reporter_at_end_reported)

definition concurrent_frame :: "concurrent_task \<Rightarrow> concurrent_task \<Rightarrow> bool" where
  "concurrent_frame t t' \<longleftrightarrow>
     ct_output t' = ct_output t \<and> reported (ct_reporter t) (ct_reporter t')
     \<and> pr_total (ct_progress t') = pr_total (ct_progress t) \<and> ct_files t' = ct_files t"

lemma concurrent_download_to_frame:
  assumes "concurrent_download_to env t = Done (res, t')"
  shows "concurrent_frame t t'"
proof (cases "\<exists>e. create_file_writer env t = Inl e")
  case True
  then show ?thesis using assms
    by (auto simp: concurrent_download_to_def bind_run_Done concurrent_frame_def)
next
  case False
  then obtain n where n: "create_file_writer env t = Inr n" by (cases "create_file_writer env t") auto
  obtain tot where tot: "pr_total (ct_progress t) = Some tot"
    using n by (auto simp: create_file_writer_def split: option.splits)
  obtain d r d' where *: "concurrent_loop env t tot = Done d" "loop_run (ce_polls env) d = Done (r, d')"
    using assms n tot by (auto simp: concurrent_download_to_def bind_run_Done)
  have t': "t' = t\<lparr>ct_reporter := dl_reporter d'\<rparr>
      \<or> (\<exists>tr prog. loop_finish (fst (ce_flush env)) d' (the r) (snd (ce_flush env)) (ct_progress t) = (tr, prog)
           \<and> t' = t\<lparr>ct_reporter := dl_reporter d', ct_progress := prog\<rparr>)"
    using assms n tot *
    by (cases r) (auto simp: concurrent_download_to_def bind_run_Done Let_def split: prod.splits)
  have "reported (ct_reporter t) (dl_reporter d)"
    using *(1) loop_new_reporter by (auto simp: concurrent_loop_def)
  from loop_run_reporter [OF *(2) this] show ?thesis using t'
    by (auto simp: concurrent_frame_def loop_finish_def Let_def)
qed

end
