(* ===== verification/Task_Attempt.thy ===== *)
theory Task_Attempt
  imports Singleton_Task Concurrent_Task
begin

text \<open>
  The lifecycle of one download attempt (\<open>task/instance/drive.rs\<close>): initialize, transfer in the
  selected mode, fall back once to a single connection when ranges turn out to be unusable, and
  publish the terminal status; a panic is caught and published. The state that is threaded through
  is the status channel and the files; a transfer holds both while it runs.
\<close>

section \<open>Driving a transfer\<close>

text \<open>
  The trait \<open>Transfer\<close>: what a download may come to. A panic unwinds with the status channel and the
  files as they are then.
\<close>

datatype 't transfer_end =
    Still_Running 't
  | Torn_Down teardown 't
  | Unwound string publisher files

datatype driven =
    Driving publisher files
  | Driven teardown progress publisher files
  | Drive_Panicked string publisher files

text \<open>
  \<open>mk\<close> is the transfer with its handle to the status channel. \<open>drive\<close> publishes the start and runs
  the download; then it reads the progress.
\<close>

definition drive ::
  "(publisher \<Rightarrow> 't) \<Rightarrow> ('t \<Rightarrow> progress) \<Rightarrow> ('t \<Rightarrow> progress) \<Rightarrow> ('t \<Rightarrow> 't transfer_end)
   \<Rightarrow> ('t \<Rightarrow> publisher) \<Rightarrow> ('t \<Rightarrow> files) \<Rightarrow> task_info \<Rightarrow> path \<Rightarrow> publisher \<Rightarrow> driven" where
  "drive mk prog final download reporter fs info tmp pb =
     (let pb = publish_downloading pb info tmp (prog (mk pb))
      in (case download (mk pb) of
            Still_Running t \<Rightarrow> Driving (reporter t) (fs t)
          | Unwound m pb f \<Rightarrow> Drive_Panicked m pb f
          | Torn_Down td t \<Rightarrow>
              Driven td (if td_result td = Inr () then final t else prog t) (reporter t) (fs t)))"

text \<open>The two transfers. The singleton never panics, so its panic loses nothing.\<close>

definition singleton_end :: "singleton_env \<Rightarrow> singleton_task \<Rightarrow> singleton_task transfer_end" where
  "singleton_end env t =
     (case singleton_download env t of
        Panicked m \<Rightarrow> Unwound m (sn_reporter t) (sn_files t)
      | Done (None, t) \<Rightarrow> Still_Running t
      | Done (Some td, t) \<Rightarrow> Torn_Down td t)"

definition drive_singleton ::
  "singleton_env \<Rightarrow> output_file \<Rightarrow> u64 option \<Rightarrow> files \<Rightarrow> task_info \<Rightarrow> publisher \<Rightarrow> driven" where
  "drive_singleton env out tot fs info pb =
     drive (\<lambda>pb. singleton_new out tot pb fs) singleton_progress singleton_final_progress
       (singleton_end env) sn_reporter sn_files info (of_tmp out) pb"

definition concurrent_end :: "concurrent_env \<Rightarrow> concurrent_task \<Rightarrow> concurrent_task transfer_end" where
  "concurrent_end env t =
     (case concurrent_download env t of
        Panicked m \<Rightarrow>
          Unwound m (concurrent_reporter_at_end env t) ((ct_files t)(of_tmp (ct_output t) := ce_content env))
      | Done (None, t) \<Rightarrow> Still_Running t
      | Done (Some td, t) \<Rightarrow> Torn_Down td t)"

definition drive_concurrent ::
  "concurrent_env \<Rightarrow> output_file \<Rightarrow> u64 \<Rightarrow> task_options \<Rightarrow> files \<Rightarrow> task_info \<Rightarrow> publisher \<Rightarrow> driven" where
  "drive_concurrent env out tot opts fs info pb =
     drive (\<lambda>pb. concurrent_new out tot opts pb fs) ct_progress ct_progress
       (concurrent_end env) ct_reporter ct_files info (of_tmp out) pb"

section \<open>Initialization\<close>

record initialized =
  in_meta :: adapter_meta
  in_mode :: download_mode
  in_fallback :: "fallback_reason option"
  in_path :: path

text \<open>
  What an attempt is answered: whether the runtime provides a local one, whether the token is
  cancelled before or during the initialization, the adapter's metadata and range support, the
  metadata of paths, and what its transfers meet. \<open>ae_remove\<close> is for the removal after a panic.
\<close>

record attempt_env =
  ae_local_runtime :: bool
  ae_cancelled_at_start :: bool
  ae_cancelled_first :: bool
  ae_meta :: "adapter_error + adapter_meta"
  ae_ranges :: bool
  ae_stat :: "path \<Rightarrow> metadata"
  ae_singleton :: singleton_env
  ae_concurrent :: concurrent_env
  ae_remove :: fs_env

definition select_mode :: "attempt \<Rightarrow> bool \<Rightarrow> adapter_meta \<Rightarrow> download_mode \<times> fallback_reason option" where
  "select_mode att ranges m =
     (if at_prefer_mode att = Some Singleton then (Singleton, None)
      else if mt_content_encoding m \<noteq> None then (Singleton, Some Reason_Content_Coded)
      else if mt_content_size m \<noteq> 0 \<and> ranges then (Concurrent, None)
      else (Singleton, None))"

definition initialize :: "attempt_env \<Rightarrow> attempt \<Rightarrow> download_error + initialized" where
  "initialize env att =
     (case (case at_meta att of
              Some m \<Rightarrow> Inr m
            | None \<Rightarrow> (case ae_meta env of Inl e \<Rightarrow> Inl (Metadata e) | Inr m \<Rightarrow> Inr m)) of
        Inl e \<Rightarrow> Inl e
      | Inr m \<Rightarrow>
         (case select_mode att (ae_ranges env) m of
            (mode, fallback) \<Rightarrow>
              (case resolve (at_destination att) m of
                 Inl e \<Rightarrow> Inl e
               | Inr p \<Rightarrow>
                  (case check_destination (ae_stat env) p of
                     Inl e \<Rightarrow> Inl e
                   | Inr _ \<Rightarrow>
                       Inr \<lparr>in_meta = m, in_mode = mode, in_fallback = fallback, in_path = p\<rparr>))))"

text \<open>Cancellation wins a tie.\<close>

definition until_cancelled :: "bool \<Rightarrow> bool \<Rightarrow> download_error + 'a \<Rightarrow> download_error + 'a" where
  "until_cancelled cancelled_at_start cancelled_first res =
     (if cancelled_at_start then Inl Download_Cancelled
      else if cancelled_first then Inl Download_Cancelled else res)"

section \<open>The attempt\<close>

datatype attempt_end =
    Attempt_Running publisher files
  | Attempt_Over publisher files
  | Attempt_Panicked string publisher files

definition finish_driven :: "driven \<Rightarrow> attempt_end" where
  "finish_driven dr =
     (case dr of
        Driving pb fs \<Rightarrow> Attempt_Running pb fs
      | Drive_Panicked m pb fs \<Rightarrow> Attempt_Panicked m pb fs
      | Driven td prog pb fs \<Rightarrow> Attempt_Over (publish_finish pb (td_result td) prog (td_leftover td)) fs)"

definition run_attempt :: "attempt_env \<Rightarrow> attempt \<Rightarrow> publisher \<Rightarrow> files \<Rightarrow> attempt_end" where
  "run_attempt env att pb fs =
     (let pb = publish_initializing pb
      in (case until_cancelled (ae_cancelled_at_start env) (ae_cancelled_first env) (initialize env att) of
            Inl e \<Rightarrow> Attempt_Over (publish_finish pb (Inl e) progress_default None) fs
          | Inr i \<Rightarrow>
             (let out = output_file_new (in_path i);
                  tot = mt_content_size (in_meta i);
                  singleton_total =
                    (if tot \<noteq> 0 \<and> mt_content_encoding (in_meta i) = None then Some tot else None);
                  info = \<lparr>ti_meta = in_meta i, ti_mode = in_mode i, ti_path = in_path i,
                          ti_fallback = in_fallback i\<rparr>
              in (case in_mode i of
                    Singleton \<Rightarrow>
                      finish_driven (drive_singleton (ae_singleton env) out singleton_total fs info pb)
                  | Concurrent \<Rightarrow>
                     (case drive_concurrent (ae_concurrent env) out tot (at_options att) fs info pb of
                        Driven td prog pb fs \<Rightarrow>
                          (case td_result td of
                             Inl (Range_Unsupported reason source) \<Rightarrow>
                               finish_driven
                                 (drive_singleton (ae_singleton env) out None fs
                                   (info\<lparr>ti_mode := Singleton, ti_fallback := Some reason\<rparr>) pb)
                           | _ \<Rightarrow> finish_driven (Driven td prog pb fs))
                      | dr \<Rightarrow> finish_driven dr)))))"

text \<open>The panic handler; \<open>message\<close> is what the payload says.\<close>

definition report_panic :: "fs_env \<Rightarrow> string \<Rightarrow> publisher \<Rightarrow> files \<Rightarrow> publisher \<times> files" where
  "report_panic env message pb fs =
     (if publisher_is_finished pb then (pb, fs)
      else
        (case (case pb_temp_file pb of None \<Rightarrow> (None, fs) | Some tmp \<Rightarrow> discard env fs tmp) of
           (left, fs) \<Rightarrow>
             (publish_finish pb (Inl (Download_Panicked (lit message))) (publisher_progress pb) left, fs)))"

definition NO_LOCAL_RUNTIME :: rstr where
  "NO_LOCAL_RUNTIME =
     lit ''the threaded runtime cannot provide a local runtime; set `TaskBuilder::local_runtime_builder`''"

text \<open>\<open>spawn\<close>: the closure on the blocking thread. \<open>None\<close> in the first place while it is running.\<close>

definition spawn_attempt :: "attempt_env \<Rightarrow> attempt \<Rightarrow> publisher \<Rightarrow> files \<Rightarrow> bool \<times> publisher \<times> files" where
  "spawn_attempt env att pb fs =
     (if \<not> ae_local_runtime env then
        (True, publish_finish pb (Inl (Runtime_Error NO_LOCAL_RUNTIME)) progress_default None, fs)
      else
        (case run_attempt env att pb fs of
           Attempt_Running pb fs \<Rightarrow> (False, pb, fs)
         | Attempt_Over pb fs \<Rightarrow> (True, pb, fs)
         | Attempt_Panicked m pb fs \<Rightarrow> (True, report_panic (ae_remove env) m pb fs)))"

end
