(* ===== verification/Task_Attempt_Inv.thy ===== *)
theory Task_Attempt_Inv
  imports Task_Attempt Singleton_Inv
begin

text \<open>
  The contract between an attempt and its transfers. The locale \<open>transfer_task\<close> states what \<open>drive\<close> relies
  on, the trait \<open>Transfer\<close> of the code: a transfer only reports, touches no file but its temporary one
  before it ends, and ends by the commit rule. Both modes are interpretations of it.
\<close>

section \<open>The interface of a transfer\<close>

definition same_but_tmp :: "output_file \<Rightarrow> files \<Rightarrow> files \<Rightarrow> bool" where
  "same_but_tmp out fs fs' \<longleftrightarrow> (\<forall>p. p \<noteq> of_tmp out \<longrightarrow> fs' p = fs p)"

definition committed :: "output_file \<Rightarrow> files \<Rightarrow> teardown \<Rightarrow> files \<Rightarrow> bool" where
  "committed out fs td fs' \<longleftrightarrow> (\<exists>f. same_but_tmp out fs f \<and> commit_ok out f td fs')"

text \<open>The status channel after the start of a transfer, with what it reported since.\<close>

definition started :: "publisher \<Rightarrow> task_info \<Rightarrow> path \<Rightarrow> publisher \<Rightarrow> bool" where
  "started pb info tmp pb' \<longleftrightarrow>
     publisher_inv pb' \<and> publisher_state pb' = State_Downloading \<and> pb_info pb' = Some info
     \<and> pb_temp_file pb' = (case pb_temp_file pb of None \<Rightarrow> Some tmp | Some g \<Rightarrow> Some g)
     \<and> (\<exists>ss. pb_sent pb' = pb_sent pb @ ss
            \<and> (\<forall>s \<in> set ss. ts_state s = State_Downloading \<and> ts_info s = Some info))"

definition driven_ok :: "output_file \<Rightarrow> files \<Rightarrow> task_info \<Rightarrow> publisher \<Rightarrow> driven \<Rightarrow> bool" where
  "driven_ok out fs info pb dr \<longleftrightarrow>
     (case dr of
        Driving pb' fs' \<Rightarrow> started pb info (of_tmp out) pb' \<and> same_but_tmp out fs fs'
      | Driven td prog pb' fs' \<Rightarrow> started pb info (of_tmp out) pb' \<and> committed out fs td fs'
      | Drive_Panicked m pb' fs' \<Rightarrow> started pb info (of_tmp out) pb' \<and> same_but_tmp out fs fs')"

locale transfer_task =
  fixes mk :: "publisher \<Rightarrow> 't"
    and download :: "'t \<Rightarrow> 't transfer_end"
    and reporter :: "'t \<Rightarrow> publisher"
    and files_of :: "'t \<Rightarrow> files"
    and out :: output_file
    and fs0 :: files
  assumes running: "download (mk pb) = Still_Running t \<Longrightarrow>
      reported pb (reporter t) \<and> same_but_tmp out fs0 (files_of t)"
    and torn_down: "download (mk pb) = Torn_Down td t \<Longrightarrow>
      reported pb (reporter t) \<and> committed out fs0 td (files_of t)"
    and unwound: "download (mk pb) = Unwound m pb' f \<Longrightarrow> reported pb pb' \<and> same_but_tmp out fs0 f"
begin

lemma started_reported:
  assumes "publisher_inv pb" and "publisher_state pb \<in> {State_Initializing, State_Downloading}"
    and "reported (publish_downloading pb info tmp p) pb'"
  shows "started pb info tmp pb'"
proof -
  let ?pb = "publish_downloading pb info tmp p"
  have d: "publisher_inv ?pb" "publisher_state ?pb = State_Downloading" "pb_info ?pb = Some info"
    "pb_temp_file ?pb = (case pb_temp_file pb of None \<Rightarrow> Some tmp | Some g \<Rightarrow> Some g)"
    "pb_sent ?pb = pb_sent pb @ [status_new State_Downloading p (Some info)]"
    using downloading_inv [OF assms(1,2)] by auto
  obtain ss where ss: "pb_sent pb' = pb_sent ?pb @ ss"
    "\<forall>s \<in> set ss. ts_state s = State_Downloading \<and> ts_info s = Some info"
    using reported_inv [OF assms(3) d(1,2)] d(3) by auto
  have "pb_sent pb' = pb_sent pb @ (status_new State_Downloading p (Some info) # ss)"
    using ss(1) d(5) by simp
  moreover have "\<forall>s \<in> set (status_new State_Downloading p (Some info) # ss).
      ts_state s = State_Downloading \<and> ts_info s = Some info"
    using ss(2) by (simp add: status_new_def)
  ultimately show ?thesis
    using reported_inv [OF assms(3) d(1,2)] d(3,4) unfolding started_def by metis
qed

lemma drive_ok:
  assumes "publisher_inv pb" and "publisher_state pb \<in> {State_Initializing, State_Downloading}"
  shows "driven_ok out fs0 info pb (drive mk prog final download reporter files_of info (of_tmp out) pb)"
proof -
  let ?pb = "publish_downloading pb info (of_tmp out) (prog (mk pb))"
  note st = started_reported [OF assms, of info "of_tmp out" "prog (mk pb)"]
  show ?thesis
  proof (cases "download (mk ?pb)")
    case (Still_Running t)
    then show ?thesis using running [OF Still_Running] st by (simp add: drive_def driven_ok_def Let_def)
  next
    case (Torn_Down td t)
    then show ?thesis using torn_down [OF Torn_Down] st by (simp add: drive_def driven_ok_def Let_def)
  next
    case (Unwound m pb' f)
    then show ?thesis using unwound [OF Unwound] st by (simp add: drive_def driven_ok_def Let_def)
  qed
qed

end

section \<open>The singleton transfer\<close>

lemma fut_turn_task: "fut_turn s ins = Done s' \<Longrightarrow> sl_task s' = sl_task s"
  by (auto simp: fut_turn_def bind_run_Done split: run_stage.splits if_splits)

lemma fut_poll_task: "fut_poll turns s = Done s' \<Longrightarrow> sl_task s' = sl_task s"
proof (induction turns arbitrary: s)
  case (Cons ins rest)
  show ?case
  proof (cases "fut_over s")
    case False
    then obtain s1 where "fut_turn s ins = Done s1" "fut_poll rest s1 = Done s'"
      using Cons.prems by (auto simp: bind_run_Done)
    then show ?thesis using Cons.IH fut_turn_task by fastforce
  qed (use Cons.prems in auto)
qed auto

lemma file_write_frame:
  "file_write ins fs p pos data = (res, fs') \<Longrightarrow> q \<noteq> p \<Longrightarrow> fs' q = fs q"
  by (auto simp: file_write_def Let_def split: option.splits)

lemma data_frame_frame:
  assumes "singleton_data_frame ins s data pos = (res, s')" and "task_frame tot out fs0 pb0 (sl_task s)"
  shows "task_frame tot out fs0 pb0 (sl_task s')"
proof -
  obtain r fs where w: "file_write ins (sn_files (sl_task s)) (of_tmp (sn_output (sl_task s))) pos data = (r, fs)"
    by fastforce
  then show ?thesis using assms file_write_frame [OF w]
    by (cases r) (auto simp: singleton_data_frame_def task_frame_def Let_def)
qed

lemma timer_tick_frame:
  assumes "task_frame tot out fs0 pb0 (sl_task s)"
  shows "task_frame tot out fs0 pb0 (sl_task (handle_timer_tick ins s))"
  using assms reported_report by (auto simp: handle_timer_tick_def task_frame_def Let_def split: prod.splits)

lemma on_frame_frame:
  assumes "on_frame ins s frame = Done (res, s')" and "task_frame tot out fs0 pb0 (sl_task s)"
  shows "task_frame tot out fs0 pb0 (sl_task s')"
proof (cases frame)
  case None
  then show ?thesis using assms by (auto simp: on_frame_def Let_def)
next
  case (Some data)
  obtain pos where pos: "sl_file s = Some pos" using assms(1) Some by (cases "sl_file s") (auto simp: on_frame_def)
  obtain r s1 where h: "singleton_data_frame ins (s\<lparr>sl_frames := sl_frames s + 1\<rparr>) data pos = (r, s1)" by fastforce
  have "s' = s1" using assms(1) Some pos h by (cases r) (auto simp: on_frame_def)
  then show ?thesis using data_frame_frame [OF h] assms(2) by simp
qed

lemma on_lifecycle_frame:
  assumes "on_lifecycle ins s event = Done (res, s')" and "task_frame tot out fs0 pb0 (sl_task s)"
  shows "task_frame tot out fs0 pb0 (sl_task s')"
proof (cases event)
  case None
  then show ?thesis using assms by (auto simp: on_lifecycle_def Let_def)
next
  case (Some e)
  show ?thesis
  proof (cases e)
    case Started
    obtain r t where c: "create_file ins (sl_task s) (of_tmp out) = (r, t)" by fastforce
    have o: "sn_output (sl_task s) = out" using assms(2) by (simp add: task_frame_def)
    have "sl_task s' = t" using assms(1) Some Started c o
      by (cases r) (auto simp: on_lifecycle_def bind_run_Done)
    then show ?thesis using create_file_ok [OF assms(2) c] by simp
  next
    case (Stopped reason)
    have "sl_task s' = sl_task s"
    proof (cases "sl_file s")
      case None
      then show ?thesis using assms(1) Some Stopped by (auto simp: on_stopped(1))
    next
      case (Some pos)
      then show ?thesis using assms(1) \<open>event = Some e\<close> Stopped
        by (cases reason) (auto simp: on_stopped(2,3))
    qed
    then show ?thesis using assms(2) by simp
  qed
qed

lemma select_turn_frame:
  assumes "select_turn ins s = Done (res, s')" and "task_frame tot out fs0 pb0 (sl_task s)"
  shows "task_frame tot out fs0 pb0 (sl_task s')"
proof (cases "se_timer ins")
  case True
  then show ?thesis using assms timer_tick_frame by (auto simp: select_turn_def split: if_splits)
next
  case False
  obtain s1 where f: "(if sl_fut_done s then Done s else fut_poll (se_turns ins) s) = Done s1"
    using assms(1) False by (auto simp: select_turn_def bind_run_Done)
  have fr: "task_frame tot out fs0 pb0 (sl_task s1)"
    using f assms(2) fut_poll_task [of "se_turns ins" s s1] by (auto split: if_splits)
  have "(if sl_fut_done s1 \<and> \<not> sl_fut_done s then Done (Sel_Continue, s1)
         else case singleton_poll_data s1 of
             Poll_Ready frame \<Rightarrow> on_frame ins s1 frame
           | Poll_Pending \<Rightarrow>
              (case singleton_poll_lifecycle s1 of
                 Poll_Ready event \<Rightarrow> on_lifecycle ins s1 event
               | Poll_Pending \<Rightarrow> Done (Sel_Continue, s1))) = Done (res, s')"
    using assms(1) False f by (simp add: select_turn_def)
  then show ?thesis using fr on_frame_frame [OF _ fr] on_lifecycle_frame [OF _ fr]
    by (auto split: if_splits poll.splits)
qed

lemma select_loop_frame:
  "select_loop turns s = Done (res, s') \<Longrightarrow> task_frame tot out fs0 pb0 (sl_task s)
   \<Longrightarrow> task_frame tot out fs0 pb0 (sl_task s')"
proof (induction turns arbitrary: s)
  case (Cons ins rest)
  obtain r s1 where t: "select_turn ins s = Done (r, s1)" using Cons.prems(1) by (auto simp: bind_run_Done)
  from select_turn_frame [OF this Cons.prems(2)] show ?case
    using Cons.IH Cons.prems(1) t by (cases r) auto
qed auto

lemma download_to_frame:
  assumes "singleton_download_to start turns fl (singleton_new out tot pb fs) = Done (res, t)"
  shows "task_frame tot out fs pb t"
proof -
  obtain r sm where r: "runner_build (singleton_runner tot) = Inr r" "sampler_new start = Done sm"
    using assms by (auto simp: singleton_download_to_def singleton_new_def bind_run_Done split: sum.splits)
  let ?s = "singleton_loop_new (singleton_new out tot pb fs) r sm"
  obtain q s where l: "select_loop turns ?s = Done (q, s)" "t = sl_task s"
    using assms r by (auto simp: singleton_download_to_def singleton_new_def bind_run_Done split: sum.splits)
  have "task_frame tot out fs pb (sl_task ?s)"
    by (simp add: singleton_loop_new_def singleton_new_def task_frame_def)
  from select_loop_frame [OF l(1) this] l(2) show ?thesis by simp
qed

lemma singleton_end_cases:
  "(\<exists>t. singleton_end env (singleton_new out tot pb fs) = Still_Running t \<and> task_frame tot out fs pb t)
   \<or> (\<exists>td t. singleton_end env (singleton_new out tot pb fs) = Torn_Down td t
        \<and> reported pb (sn_reporter t) \<and> committed out fs td (sn_files t))
   \<or> (\<exists>m. singleton_end env (singleton_new out tot pb fs) = Unwound m pb fs)"
proof (cases "singleton_download_to (sg_start env) (sg_turns env) (sg_flush env) (singleton_new out tot pb fs)")
  case (Panicked m)
  then show ?thesis by (simp add: singleton_end_def singleton_download_def) (simp add: singleton_new_def)
next
  case (Done r)
  obtain res t where r: "r = (res, t)" by fastforce
  have fr: "task_frame tot out fs pb t" using download_to_frame Done r by blast
  then have o: "sn_output t = out" by (simp add: task_frame_def)
  show ?thesis
  proof (cases res)
    case None
    then show ?thesis using Done r fr by (simp add: singleton_end_def singleton_download_def)
  next
    case (Some x)
    obtain td fs' where c: "output_commit (sg_commit env) out x (sg_cancelled env) (sn_files t) = (td, fs')"
      by fastforce
    have "singleton_end env (singleton_new out tot pb fs) = Torn_Down td (t\<lparr>sn_files := fs'\<rparr>)"
      using Done r Some c o by (simp add: singleton_end_def singleton_download_def)
    moreover have "committed out fs td fs'"
      using commit_spec [OF c] fr unfolding committed_def task_frame_def same_but_tmp_def by blast
    ultimately show ?thesis using fr by (simp add: task_frame_def)
  qed
qed

interpretation single: transfer_task "\<lambda>pb. singleton_new out tot pb fs" "singleton_end env" sn_reporter sn_files out fs
  for env out tot fs
proof unfold_locales
  fix pb t assume "singleton_end env (singleton_new out tot pb fs) = Still_Running t"
  then show "reported pb (sn_reporter t) \<and> same_but_tmp out fs (sn_files t)"
    using singleton_end_cases [of env out tot pb fs] by (auto simp: task_frame_def same_but_tmp_def)
next
  fix pb td t assume "singleton_end env (singleton_new out tot pb fs) = Torn_Down td t"
  then show "reported pb (sn_reporter t) \<and> committed out fs td (sn_files t)"
    using singleton_end_cases [of env out tot pb fs] by auto
next
  fix pb m pb' f assume "singleton_end env (singleton_new out tot pb fs) = Unwound m pb' f"
  then show "reported pb pb' \<and> same_but_tmp out fs f"
    using singleton_end_cases [of env out tot pb fs] by (auto simp: same_but_tmp_def)
qed

section \<open>The concurrent transfer\<close>

lemma concurrent_end_cases:
  fixes out tot opts pb fs
  defines "t0 \<equiv> concurrent_new out tot opts pb fs"
  shows "(\<exists>t. concurrent_end env t0 = Still_Running t \<and> reported pb (ct_reporter t) \<and> same_but_tmp out fs (ct_files t))
   \<or> (\<exists>td t. concurrent_end env t0 = Torn_Down td t \<and> reported pb (ct_reporter t) \<and> committed out fs td (ct_files t))
   \<or> (\<exists>m pb' f. concurrent_end env t0 = Unwound m pb' f \<and> reported pb pb' \<and> same_but_tmp out fs f)"
proof -
  have t0: "ct_output t0 = out" "ct_reporter t0 = pb" "ct_files t0 = fs"
    by (simp_all add: t0_def concurrent_new_def)
  have tmp: "same_but_tmp out fs (fs(of_tmp out := c))" for c by (simp add: same_but_tmp_def)
  show ?thesis
  proof (cases "concurrent_download_to env t0")
    case (Panicked m)
    then have "concurrent_end env t0
        = Unwound m (concurrent_reporter_at_end env t0) (fs(of_tmp out := ce_content env))"
      by (simp add: concurrent_end_def concurrent_download_def t0)
    then show ?thesis using concurrent_reporter [of t0 env] tmp t0 by auto
  next
    case (Done r)
    obtain res t where r: "r = (res, t)" by fastforce
    have fr: "concurrent_frame t0 t" using concurrent_download_to_frame Done r by blast
    let ?fs = "fs(of_tmp out := ce_content env)"
    have t: "ct_output t = out" "reported pb (ct_reporter t)" "ct_files t = fs"
      using fr t0 by (simp_all add: concurrent_frame_def)
    show ?thesis
    proof (cases res)
      case None
      then have "concurrent_end env t0 = Still_Running (t\<lparr>ct_files := ?fs\<rparr>)"
        using Done r t by (simp add: concurrent_end_def concurrent_download_def Let_def)
      then show ?thesis using t tmp by simp
    next
      case (Some x)
      obtain td fs' where c: "output_commit (ce_commit env) out x (ce_cancelled env) ?fs = (td, fs')"
        by fastforce
      have "concurrent_end env t0 = Torn_Down td (t\<lparr>ct_files := fs'\<rparr>)"
        using Done r Some c t by (simp add: concurrent_end_def concurrent_download_def Let_def)
      moreover have "committed out fs td fs'"
        using commit_spec [OF c] tmp unfolding committed_def by blast
      ultimately show ?thesis using t by simp
    qed
  qed
qed

interpretation concur: transfer_task "\<lambda>pb. concurrent_new out tot opts pb fs" "concurrent_end env" ct_reporter ct_files out fs
  for env out tot opts fs
proof unfold_locales
  fix pb t assume "concurrent_end env (concurrent_new out tot opts pb fs) = Still_Running t"
  then show "reported pb (ct_reporter t) \<and> same_but_tmp out fs (ct_files t)"
    using concurrent_end_cases [of env out tot opts pb fs] by auto
next
  fix pb td t assume "concurrent_end env (concurrent_new out tot opts pb fs) = Torn_Down td t"
  then show "reported pb (ct_reporter t) \<and> committed out fs td (ct_files t)"
    using concurrent_end_cases [of env out tot opts pb fs] by auto
next
  fix pb m pb' f assume "concurrent_end env (concurrent_new out tot opts pb fs) = Unwound m pb' f"
  then show "reported pb pb' \<and> same_but_tmp out fs f"
    using concurrent_end_cases [of env out tot opts pb fs] by auto
qed

lemma drive_singleton_ok:
  "publisher_inv pb \<Longrightarrow> publisher_state pb \<in> {State_Initializing, State_Downloading}
   \<Longrightarrow> driven_ok out fs info pb (drive_singleton env out tot fs info pb)"
  unfolding drive_singleton_def by (rule single.drive_ok)

lemma drive_concurrent_ok:
  "publisher_inv pb \<Longrightarrow> publisher_state pb \<in> {State_Initializing, State_Downloading}
   \<Longrightarrow> driven_ok out fs info pb (drive_concurrent env out tot opts fs info pb)"
  unfolding drive_concurrent_def by (rule concur.drive_ok)

end
