(* ===== verification/Task_Attempt_Props.thy ===== *)
theory Task_Attempt_Props
  imports Task_Attempt_Inv
begin

text \<open>
  The properties of a download attempt: what a receiver of its status sees, what it does to the
  files, and when it falls back to one connection.
\<close>

section \<open>One connection does not end with unusable ranges\<close>

definition range_free :: "download_error + unit \<Rightarrow> bool" where
  "range_free res \<longleftrightarrow> (\<forall>reason source. res \<noteq> Inl (Range_Unsupported reason source))"

lemma transfer_range_free [simp]: "range_free (Inl (transfer e))"
  by (cases e) (simp_all add: range_free_def)

lemma Transfer_range_free [simp]: "range_free (Inl (Transfer e))"
  by (simp add: range_free_def)

lemma connect_error_range_free [simp]: "range_free (Inl (connect_error reason))"
  by (cases reason) (simp_all add: download_other_def)

lemma io_range_free [simp]: "range_free (Inl (download_io op p e))" "range_free (Inr u)"
  by (simp_all add: range_free_def download_io_def)

lemma create_file_range_free:
  "create_file ins t tmp = (Inl e, t') \<Longrightarrow> range_free (Inl e)"
  by (auto simp: create_file_def Let_def split: option.splits)

lemma on_frame_range_free:
  assumes "on_frame ins s frame = Done (Sel_Error e, s')"
  shows "range_free (Inl e)"
proof (cases frame)
  case None
  then show ?thesis using assms by (auto simp: on_frame_def Let_def split: if_splits)
next
  case (Some data)
  obtain pos where pos: "sl_file s = Some pos" using assms Some by (cases "sl_file s") (auto simp: on_frame_def)
  obtain r s1 where h: "singleton_data_frame ins (s\<lparr>sl_frames := sl_frames s + 1\<rparr>) data pos = (r, s1)" by fastforce
  then have "r = Inl e" using assms Some pos by (cases r) (auto simp: on_frame_def)
  then show ?thesis using h
    by (auto simp: singleton_data_frame_def Let_def split: prod.splits sum.splits)
qed

lemma on_lifecycle_range_free:
  assumes "on_lifecycle ins s event = Done (Sel_Error e, s')"
  shows "range_free (Inl e)"
proof (cases event)
  case None
  then show ?thesis using assms by (auto simp: on_lifecycle_def Let_def split: if_splits)
next
  case ev: (Some x)
  show ?thesis
  proof (cases x)
    case Started
    obtain r t where c: "create_file ins (sl_task s) (of_tmp (sn_output (sl_task s))) = (r, t)" by fastforce
    have "r = Inl e" using assms ev Started c
      by (cases r) (auto simp: on_lifecycle_def bind_run_Done)
    then show ?thesis using create_file_range_free c by blast
  next
    case (Stopped reason)
    show ?thesis
    proof (cases "sl_file s")
      case None
      then show ?thesis using assms ev Stopped by (auto simp: on_stopped(1))
    next
      case (Some pos)
      then show ?thesis using assms ev Stopped
        by (cases reason) (auto simp: on_stopped(2,3) split: if_splits)
    qed
  qed
qed

lemma select_turn_range_free:
  assumes "select_turn ins s = Done (Sel_Error e, s')"
  shows "range_free (Inl e)"
proof (cases "se_timer ins")
  case True
  then show ?thesis using assms by (simp add: select_turn_def)
next
  case False
  obtain s1 where f: "(if sl_fut_done s then Done s else fut_poll (se_turns ins) s) = Done s1"
    using assms False by (auto simp: select_turn_def bind_run_Done)
  have "(if sl_fut_done s1 \<and> \<not> sl_fut_done s then Done (Sel_Continue, s1)
         else case singleton_poll_data s1 of
             Poll_Ready frame \<Rightarrow> on_frame ins s1 frame
           | Poll_Pending \<Rightarrow>
              (case singleton_poll_lifecycle s1 of
                 Poll_Ready event \<Rightarrow> on_lifecycle ins s1 event
               | Poll_Pending \<Rightarrow> Done (Sel_Continue, s1))) = Done (Sel_Error e, s')"
    using assms False f by (simp add: select_turn_def)
  then show ?thesis by (auto split: if_splits poll.splits dest: on_frame_range_free on_lifecycle_range_free)
qed

lemma select_loop_range_free:
  "select_loop turns s = Done (Some res, s') \<Longrightarrow> range_free res"
proof (induction turns arbitrary: s)
  case (Cons ins rest)
  obtain r s1 where t: "select_turn ins s = Done (r, s1)" using Cons.prems by (auto simp: bind_run_Done)
  then show ?case using Cons select_turn_range_free [of ins s _ s1] by (cases r) auto
qed simp

lemma commit_fresh:
  assumes "output_commit env out (Inr ()) False fs = (td, fs')"
  shows "td_result td = Inr () \<or> (\<exists>e. td_result td = Inl (download_io Rename (of_dest out) e))"
proof -
  obtain res fs1 where p: "publish_file env fs (of_tmp out) (of_dest out) = (res, fs1)" by fastforce
  obtain left fs2 where d: "discard env fs1 (of_tmp out) = (left, fs2)" by fastforce
  show ?thesis
  proof (cases res)
    case (Inl e)
    then have "td = \<lparr>td_result = Inl (download_io Rename (of_dest out) (fs_error_message e)), td_leftover = left\<rparr>"
      using assms p d by (simp add: output_commit_def commit_def)
    then have "td_result td = Inl (download_io Rename (of_dest out) (fs_error_message e))" by simp
    then show ?thesis by blast
  next
    case (Inr u)
    then have "td = \<lparr>td_result = Inr (), td_leftover = None\<rparr>"
      using assms p by (simp add: output_commit_def commit_def)
    then show ?thesis by simp
  qed
qed

lemma commit_range_free:
  assumes "output_commit env out res cancelled fs = (td, fs')" and "range_free res"
  shows "range_free (td_result td)"
proof (cases res)
  case (Inl e)
  then have "td_result td = res" using commit_spec [OF assms(1)] by blast
  then show ?thesis using assms(2) by simp
next
  case (Inr u)
  then have res: "res = Inr ()" by simp
  show ?thesis
  proof (cases cancelled)
    case True
    then have "td_result td = Inl Download_Cancelled" using commit_spec [OF assms(1)] res by blast
    then show ?thesis by (simp add: range_free_def)
  next
    case False
    then have "output_commit env out (Inr ()) False fs = (td, fs')" using assms(1) res by simp
    from commit_fresh [OF this] show ?thesis by fastforce
  qed
qed

lemma download_to_range_free:
  assumes "singleton_download_to start turns fl t = Done (Some res, t')"
  shows "range_free res"
proof -
  obtain r sm where r: "runner_build (singleton_runner (sn_total t)) = Inr r" "sampler_new start = Done sm"
    using assms by (auto simp: singleton_download_to_def bind_run_Done split: sum.splits)
  obtain q s where l: "select_loop turns (singleton_loop_new t r sm) = Done (q, s)"
    using assms r by (auto simp: singleton_download_to_def bind_run_Done)
  show ?thesis
  proof (cases q)
    case None
    then show ?thesis using assms r l by (simp add: singleton_download_to_def)
  next
    case (Some x)
    then have "range_free x" using select_loop_range_free l by blast
    then show ?thesis using assms r l Some
      by (cases x) (auto simp: singleton_download_to_def split: if_splits option.splits)
  qed
qed

lemma singleton_end_range_free:
  assumes "singleton_end env t = Torn_Down td t'"
  shows "range_free (td_result td)"
proof (cases "singleton_download_to (sg_start env) (sg_turns env) (sg_flush env) t")
  case (Panicked m)
  then show ?thesis using assms by (simp add: singleton_end_def singleton_download_def)
next
  case (Done x)
  obtain q t1 where x: "x = (q, t1)" by fastforce
  show ?thesis
  proof (cases q)
    case None
    then show ?thesis using assms Done x by (simp add: singleton_end_def singleton_download_def)
  next
    case (Some res)
    obtain td1 fs1 where c: "output_commit (sg_commit env) (sn_output t1) res (sg_cancelled env) (sn_files t1) = (td1, fs1)"
      by fastforce
    have "td1 = td" using assms Done x Some c by (simp add: singleton_end_def singleton_download_def)
    moreover have "range_free res" using download_to_range_free Done x Some by blast
    ultimately show ?thesis using commit_range_free [OF c] by simp
  qed
qed

section \<open>An attempt as a whole\<close>

definition transferring :: "output_file \<Rightarrow> task_info set \<Rightarrow> publisher \<Rightarrow> publisher \<Rightarrow> bool" where
  "transferring out infos pb pb' \<longleftrightarrow>
     publisher_inv pb' \<and> publisher_state pb' = State_Downloading
     \<and> (\<exists>i \<in> infos. pb_info pb' = Some i) \<and> pb_temp_file pb' = Some (of_tmp out)
     \<and> (\<exists>ss. pb_sent pb' = pb_sent pb @ ss
            \<and> (\<forall>s \<in> set ss. ts_state s = State_Downloading \<and> (\<exists>i \<in> infos. ts_info s = Some i)))"

definition fallback_infos :: "task_info \<Rightarrow> task_info set" where
  "fallback_infos info =
     {info} \<union> {i. ti_mode info = Concurrent
                 \<and> (\<exists>reason. i = info\<lparr>ti_mode := Singleton, ti_fallback := Some reason\<rparr>)}"

definition attempt_ok :: "output_file \<Rightarrow> task_info set \<Rightarrow> files \<Rightarrow> publisher \<Rightarrow> attempt_end \<Rightarrow> bool" where
  "attempt_ok out infos fs pb e \<longleftrightarrow>
     (case e of
        Attempt_Running pb' fs' \<Rightarrow> transferring out infos pb pb' \<and> same_but_tmp out fs fs'
      | Attempt_Panicked m pb' fs' \<Rightarrow> transferring out infos pb pb' \<and> same_but_tmp out fs fs'
      | Attempt_Over pb' fs' \<Rightarrow>
          (\<exists>pb2 td prog. transferring out infos pb pb2 \<and> committed out fs td fs' \<and> range_free (td_result td)
             \<and> pb' = publish_finish pb2 (td_result td) prog (td_leftover td)))"

lemma started_transferring:
  assumes "started pb info (of_tmp out) pb'" and "pb_temp_file pb = None" and "info \<in> infos"
  shows "transferring out infos pb pb'"
  using assms by (auto simp: started_def transferring_def)

lemma started_again:
  assumes "transferring out infos pb pb1" and "started pb1 info (of_tmp out) pb2" and "info \<in> infos"
  shows "transferring out infos pb pb2"
proof -
  obtain ss ss' where "pb_sent pb1 = pb_sent pb @ ss" "pb_sent pb2 = pb_sent pb1 @ ss'"
    "\<forall>s \<in> set ss. ts_state s = State_Downloading \<and> (\<exists>i \<in> infos. ts_info s = Some i)"
    "\<forall>s \<in> set ss'. ts_state s = State_Downloading \<and> ts_info s = Some info"
    using assms(1,2) by (auto simp: transferring_def started_def)
  then have "pb_sent pb2 = pb_sent pb @ (ss @ ss')
    \<and> (\<forall>s \<in> set (ss @ ss'). ts_state s = State_Downloading \<and> (\<exists>i \<in> infos. ts_info s = Some i))"
    using assms(3) by auto
  then show ?thesis using assms by (auto simp: transferring_def started_def)
qed

lemma same_but_tmp_trans: "same_but_tmp out a b \<Longrightarrow> same_but_tmp out b c \<Longrightarrow> same_but_tmp out a c"
  by (simp add: same_but_tmp_def)

lemma committed_error_same:
  assumes "committed out fs td fs'" and "td_result td \<noteq> Inr ()"
  shows "same_but_tmp out fs fs'"
  using assms by (auto simp: committed_def commit_ok_def same_but_tmp_def split: if_splits)

lemma committed_trans: "same_but_tmp out a b \<Longrightarrow> committed out b td c \<Longrightarrow> committed out a td c"
  unfolding committed_def using same_but_tmp_trans by blast

lemma finish_driven_ok:
  assumes "driven_ok out fs info pb1 dr" and "\<And>pb'. started pb1 info (of_tmp out) pb' \<Longrightarrow> transferring out infos pb pb'"
    and "same_but_tmp out fs0 fs"
    and "\<And>td prog pb' fs'. dr = Driven td prog pb' fs' \<Longrightarrow> range_free (td_result td)"
  shows "attempt_ok out infos fs0 pb (finish_driven dr)"
proof (cases dr)
  case (Driving pb' fs')
  then show ?thesis using assms(1,2) same_but_tmp_trans [OF assms(3)]
    by (simp add: driven_ok_def attempt_ok_def finish_driven_def)
next
  case (Drive_Panicked m pb' fs')
  then show ?thesis using assms(1,2) same_but_tmp_trans [OF assms(3)]
    by (simp add: driven_ok_def attempt_ok_def finish_driven_def)
next
  case (Driven td prog pb' fs')
  then have "transferring out infos pb pb'" "committed out fs0 td fs'" "range_free (td_result td)"
    using assms(1,2,4) committed_trans [OF assms(3)] by (auto simp: driven_ok_def)
  then show ?thesis using Driven unfolding attempt_ok_def finish_driven_def by auto
qed

lemma drive_singleton_range_free:
  "drive_singleton env out tot fs info pb = Driven td prog pb' fs' \<Longrightarrow> range_free (td_result td)"
  by (auto simp: drive_singleton_def drive_def Let_def split: transfer_end.splits dest: singleton_end_range_free)

lemma initialize_range_free:
  assumes "until_cancelled a b (initialize env att) = Inl e"
  shows "range_free (Inl e)"
  using assms
  by (auto simp: until_cancelled_def initialize_def select_mode_def resolve_def check_destination_def
      safe_file_name_def range_free_def download_io_def Let_def
      split: if_splits sum.splits option.splits prod.splits destination.splits metadata.splits fs_error.splits)

lemma not_range_free:
  "\<not> range_free res \<Longrightarrow> \<exists>reason source. res = Inl (Range_Unsupported reason source)"
  by (auto simp: range_free_def)

text \<open>What initialization decided, as the information of the task.\<close>

definition info_of :: "initialized \<Rightarrow> task_info" where
  "info_of i = \<lparr>ti_meta = in_meta i, ti_mode = in_mode i, ti_path = in_path i, ti_fallback = in_fallback i\<rparr>"

lemma run_attempt_ok:
  assumes pb: "publisher_inv pb" "publisher_state pb = State_Pending" "pb_temp_file pb = None"
  shows "(\<exists>e. range_free (Inl e)
           \<and> run_attempt env att pb fs
               = Attempt_Over (publish_finish (publish_initializing pb) (Inl e) progress_default None) fs)
    \<or> (\<exists>i. initialize env att = Inr i
          \<and> attempt_ok (output_file_new (in_path i)) (fallback_infos (info_of i)) fs (publish_initializing pb)
              (run_attempt env att pb fs))"
proof (cases "until_cancelled (ae_cancelled_at_start env) (ae_cancelled_first env) (initialize env att)")
  case (Inl e)
  then have "run_attempt env att pb fs
      = Attempt_Over (publish_finish (publish_initializing pb) (Inl e) progress_default None) fs"
    by (simp add: run_attempt_def Let_def)
  then show ?thesis using initialize_range_free [OF Inl] by blast
next
  case (Inr i)
  define pb1 where "pb1 = publish_initializing pb"
  define out where "out = output_file_new (in_path i)"
  define info where "info = info_of i"
  define tot where "tot = (if mt_content_size (in_meta i) \<noteq> 0 \<and> mt_content_encoding (in_meta i) = None
    then Some (mt_content_size (in_meta i)) else None)"
  have init: "initialize env att = Inr i" using Inr by (auto simp: until_cancelled_def split: if_splits)
  have p1: "publisher_inv pb1" "publisher_state pb1 = State_Initializing" "pb_temp_file pb1 = None"
    using initializing_inv [OF pb(1,2)] pb(3) by (simp_all add: pb1_def)
  have here: "transferring out (fallback_infos info) pb1 pb'" if "started pb1 info (of_tmp out) pb'" for pb'
    using started_transferring [OF that p1(3)] by (simp add: fallback_infos_def)
  have same: "same_but_tmp out fs fs" by (simp add: same_but_tmp_def)
  have "attempt_ok out (fallback_infos info) fs pb1 (run_attempt env att pb fs)"
  proof (cases "in_mode i")
    case Singleton
    have "run_attempt env att pb fs = finish_driven (drive_singleton (ae_singleton env) out tot fs info pb1)"
      using Inr Singleton by (simp add: run_attempt_def Let_def pb1_def out_def info_def info_of_def tot_def)
    moreover have dok: "driven_ok out fs info pb1 (drive_singleton (ae_singleton env) out tot fs info pb1)"
      using drive_singleton_ok [OF p1(1)] p1(2) by simp
    have "attempt_ok out (fallback_infos info) fs pb1
        (finish_driven (drive_singleton (ae_singleton env) out tot fs info pb1))"
      by (rule finish_driven_ok [OF dok here same]) (auto dest: drive_singleton_range_free)
    ultimately show ?thesis by simp
  next
    case Concurrent
    define dr where "dr = drive_concurrent (ae_concurrent env) out (mt_content_size (in_meta i)) (at_options att) fs info pb1"
    have ok: "driven_ok out fs info pb1 dr"
      unfolding dr_def using drive_concurrent_ok [OF p1(1)] p1(2) by simp
    have run: "run_attempt env att pb fs = (case dr of
        Driven td prog pb fs \<Rightarrow>
          (case td_result td of
             Inl (Range_Unsupported reason source) \<Rightarrow>
               finish_driven (drive_singleton (ae_singleton env) out None fs
                   (info\<lparr>ti_mode := Singleton, ti_fallback := Some reason\<rparr>) pb)
           | _ \<Rightarrow> finish_driven (Driven td prog pb fs))
      | dr \<Rightarrow> finish_driven dr)"
      using Inr Concurrent
      by (simp add: run_attempt_def Let_def pb1_def out_def info_def info_of_def dr_def
          split: driven.split sum.split download_error.split)
    show ?thesis
    proof (cases "\<exists>td prog pb2 fs2. dr = Driven td prog pb2 fs2 \<and> \<not> range_free (td_result td)")
      case True
      then obtain td prog pb2 fs2 reason source where dr: "dr = Driven td prog pb2 fs2"
        "td_result td = Inl (Range_Unsupported reason source)" using not_range_free by blast
      let ?info = "info\<lparr>ti_mode := Singleton, ti_fallback := Some reason\<rparr>"
      let ?dr = "drive_singleton (ae_singleton env) out None fs2 ?info pb2"
      have st: "started pb1 info (of_tmp out) pb2" "committed out fs td fs2"
        using ok dr(1) by (simp_all add: driven_ok_def)
      have fs2: "same_but_tmp out fs fs2" using committed_error_same [OF st(2)] dr(2) by simp
      have "driven_ok out fs2 ?info pb2 ?dr"
        using drive_singleton_ok [of pb2] st(1) by (simp add: started_def)
      moreover have "?info \<in> fallback_infos info"
        using Concurrent by (auto simp: fallback_infos_def info_def info_of_def)
      then have "transferring out (fallback_infos info) pb1 pb'" if "started pb2 ?info (of_tmp out) pb'" for pb'
        using started_again [OF here [OF st(1)] that] by simp
      ultimately have "attempt_ok out (fallback_infos info) fs pb1 (finish_driven ?dr)"
        using finish_driven_ok [of out fs2 ?info pb2 ?dr] fs2 drive_singleton_range_free by blast
      then show ?thesis using run dr by simp
    next
      case False
      then have rf: "range_free (td_result td)" if "dr = Driven td prog pb2 fs2" for td prog pb2 fs2
        using that by blast
      have "run_attempt env att pb fs = finish_driven dr"
      proof (cases dr)
        case (Driven td prog pb2 fs2)
        then show ?thesis using run rf [OF Driven]
          by (auto simp: range_free_def split: sum.splits download_error.splits)
      qed (use run in simp_all)
      then show ?thesis using finish_driven_ok [OF ok here same] rf by simp
    qed
  qed
  then show ?thesis using init by (auto simp: pb1_def out_def info_def)
qed

section \<open>The end of an attempt\<close>

definition ended_files :: "output_file \<Rightarrow> files \<Rightarrow> download_error + unit \<Rightarrow> path option \<Rightarrow> files \<Rightarrow> bool" where
  "ended_files out fs res left fs' \<longleftrightarrow>
     (if res = Inr ()
      then left = None \<and> (\<exists>f. same_but_tmp out fs f \<and> f (of_tmp out) \<noteq> None
                             \<and> fs' = (f(of_tmp out := None))(of_dest out := f (of_tmp out)))
      else same_but_tmp out fs fs' \<and> (left = None \<and> fs' (of_tmp out) = None \<or> left = Some (of_tmp out)))"

definition over_with ::
  "output_file \<Rightarrow> task_info set \<Rightarrow> files \<Rightarrow> publisher \<Rightarrow> publisher \<Rightarrow> files \<Rightarrow> bool" where
  "over_with out infos fs pb pb' fs' \<longleftrightarrow>
     (\<exists>pb2 res prog left. transferring out infos pb pb2 \<and> range_free res
        \<and> pb' = publish_finish pb2 res prog left \<and> ended_files out fs res left fs')"

lemma committed_ended: "committed out fs td fs' \<Longrightarrow> ended_files out fs (td_result td) (td_leftover td) fs'"
  by (auto simp: committed_def commit_ok_def ended_files_def same_but_tmp_def split: if_splits)

lemma panic_over:
  assumes "transferring out infos pb pb2" and "same_but_tmp out fs f"
    and "report_panic env m pb2 f = (pb', fs')"
  shows "over_with out infos fs pb pb' fs'"
proof -
  have pb2: "\<not> publisher_is_finished pb2" "pb_temp_file pb2 = Some (of_tmp out)"
    using assms(1) non_terminal_state [of pb2] by (auto simp: transferring_def publisher_is_finished_def)
  obtain left f' where d: "discard env f (of_tmp out) = (left, f')" by fastforce
  have "pb' = publish_finish pb2 (Inl (Download_Panicked (lit m))) (publisher_progress pb2) left" "fs' = f'"
    using assms(3) pb2 d by (auto simp: report_panic_def)
  moreover have "ended_files out fs (Inl (Download_Panicked (lit m))) left f'"
    using discard_spec [OF d] assms(2) by (auto simp: ended_files_def same_but_tmp_def)
  moreover have "range_free (Inl (Download_Panicked (lit m)))" by (simp add: range_free_def)
  ultimately show ?thesis using assms(1) unfolding over_with_def by blast
qed

lemma new_publisher: "publisher_inv publisher_new" "publisher_state publisher_new = State_Pending"
  "pb_temp_file publisher_new = None" "pb_info publisher_new = None"
  using publisher_new_inv
  by (simp_all add: publisher_new_def publisher_state_def current_status_def status_new_def)

abbreviation initializing_publisher :: publisher where
  "initializing_publisher \<equiv> publish_initializing publisher_new"

text \<open>What may become of a spawned attempt.\<close>

lemma spawn_attempt_cases:
  assumes "spawn_attempt env att publisher_new fs = (ended, pb, fs')"
  obtains
    (early) e pb1 where "ended" "pb = publish_finish pb1 (Inl e) progress_default None" "fs' = fs" "range_free (Inl e)"
      "pb1 = initializing_publisher \<or> pb1 = publisher_new \<and> e \<noteq> Download_Cancelled"
  | (running) i where "\<not> ended" "initialize env att = Inr i"
      "transferring (output_file_new (in_path i)) (fallback_infos (info_of i)) initializing_publisher pb"
      "same_but_tmp (output_file_new (in_path i)) fs fs'"
  | (over) i where "ended" "initialize env att = Inr i"
      "over_with (output_file_new (in_path i)) (fallback_infos (info_of i)) fs initializing_publisher pb fs'"
proof (cases "ae_local_runtime env")
  case False
  then show ?thesis using assms early [of publisher_new "Runtime_Error NO_LOCAL_RUNTIME"]
    by (auto simp: spawn_attempt_def range_free_def)
next
  case True
  from run_attempt_ok [OF new_publisher(1-3), of env att fs] show ?thesis
  proof (elim disjE exE conjE)
    fix e assume "range_free (Inl e)"
      "run_attempt env att publisher_new fs = Attempt_Over (publish_finish initializing_publisher (Inl e) progress_default None) fs"
    then show ?thesis using assms True early [of initializing_publisher e] by (auto simp: spawn_attempt_def)
  next
    fix i
    assume i: "initialize env att = Inr i"
      and ok: "attempt_ok (output_file_new (in_path i)) (fallback_infos (info_of i)) fs initializing_publisher
                (run_attempt env att publisher_new fs)"
    show ?thesis
    proof (cases "run_attempt env att publisher_new fs")
      case (Attempt_Running pb2 f)
      then show ?thesis using assms True ok running [OF _ i] by (simp add: spawn_attempt_def attempt_ok_def)
    next
      case (Attempt_Panicked m pb2 f)
      then have r: "report_panic (ae_remove env) m pb2 f = (pb, fs')" and e: "ended"
        using assms True by (simp_all add: spawn_attempt_def)
      show ?thesis by (rule over [OF e i panic_over [OF _ _ r]]) (use ok Attempt_Panicked in \<open>simp_all add: attempt_ok_def\<close>)
    next
      case (Attempt_Over pb2 f)
      then have e: "ended" "pb2 = pb" "f = fs'" using assms True by (simp_all add: spawn_attempt_def)
      obtain pb3 td prog where "transferring (output_file_new (in_path i)) (fallback_infos (info_of i)) initializing_publisher pb3"
        "committed (output_file_new (in_path i)) fs td fs'" "range_free (td_result td)"
        "pb = publish_finish pb3 (td_result td) prog (td_leftover td)"
        using ok Attempt_Over e by (auto simp: attempt_ok_def)
      then show ?thesis using over [OF e(1) i] committed_ended unfolding over_with_def by blast
    qed
  qed
qed

lemma finish_temp_file [simp]: "pb_temp_file (publish_finish pb res p left) = pb_temp_file pb"
  by (simp add: publish_finish_def send_status_def Let_def split: prod.split)

lemma finish_current:
  assumes "publisher_inv pb" and "may_finish (publisher_state pb) res"
  shows "current_status (publish_finish pb res p left)
    = (status_new (fst (finish_state res)) p (pb_info pb))
        \<lparr>ts_error := snd (finish_state res), ts_leftover := left\<rparr>"
  using finish_inv [OF assms, of p left] by (simp add: current_status_def)

lemma initializing_publisher_ok:
  "publisher_inv initializing_publisher" "publisher_state initializing_publisher = State_Initializing"
  "pb_temp_file initializing_publisher = None"
  "pb_sent initializing_publisher = [status_new State_Pending progress_default None, status_new State_Initializing progress_default None]"
  "pb_info initializing_publisher = None"
  using initializing_inv [OF new_publisher(1,2)] new_publisher(3)
  by (simp_all add: publish_initializing_def publish_status_def send_status_def publisher_new_def)

lemma early_publisher:
  assumes "pb1 = initializing_publisher \<or> pb1 = publisher_new \<and> e \<noteq> Download_Cancelled"
  shows "publisher_inv pb1" "may_finish (publisher_state pb1) (Inl e)" "pb_temp_file pb1 = None" "pb_info pb1 = None"
    "\<forall>s \<in> set (pb_sent pb1). ts_info s = None"
  using assms initializing_publisher_ok new_publisher
  by (auto simp: may_finish_def status_new_def publisher_new_def)

lemma attempt_publisher_inv:
  assumes "spawn_attempt env att publisher_new fs = (ended, pb, fs')"
  shows "publisher_inv pb \<and> pb_terminal pb = ended"
  using assms
proof (cases rule: spawn_attempt_cases)
  case (early e pb1)
  then show ?thesis using finish_inv [OF early_publisher(1,2) [OF early(5)]] by simp
next
  case (running i)
  then show ?thesis using non_terminal_state [of pb] by (auto simp: transferring_def)
next
  case (over i)
  then obtain pb2 res prog left where o: "transferring (output_file_new (in_path i)) (fallback_infos (info_of i)) initializing_publisher pb2"
    "pb = publish_finish pb2 res prog left" by (auto simp: over_with_def)
  then have "publisher_inv pb2" "may_finish (publisher_state pb2) res"
    by (simp_all add: transferring_def may_finish_def)
  then show ?thesis using finish_inv o(2) over(1) by simp
qed

lemma successively_butlast:
  assumes "successively (\<lambda>a b. state_step (ts_state a) (ts_state b)) xs"
  shows "list_all (\<lambda>s. \<not> status_is_terminal s) (butlast xs)"
  using assms
proof (induction xs rule: induct_list012)
  case (3 a b xs)
  have "state_step (ts_state a) (ts_state b)" using 3(3) by simp
  then have "\<not> status_is_terminal a"
    by (cases "ts_state a") (auto simp: status_is_terminal_def state_is_terminal_def)
  then show ?case using 3 by simp
qed simp_all


section \<open>What it does to the files\<close>

lemma fallback_same_path: "j \<in> fallback_infos i \<Longrightarrow> ti_path j = ti_path i"
  by (auto simp: fallback_infos_def)

lemma over_final:
  assumes "over_with (output_file_new dest) (fallback_infos (info_of i)) fs pb1 pb fs'" and "in_path i = dest"
  shows "\<exists>res left. fst (finish_state res) = ts_state (current_status pb) \<and> left = ts_leftover (current_status pb)
    \<and> snd (finish_state res) = ts_error (current_status pb) \<and> range_free res
    \<and> ended_files (output_file_new dest) fs res left fs'
    \<and> pb_temp_file pb = Some (tmp_path_for dest)
    \<and> (\<exists>j. ts_info (current_status pb) = Some j \<and> ti_path j = dest)"
proof -
  obtain pb2 res prog left where o: "transferring (output_file_new dest) (fallback_infos (info_of i)) pb1 pb2"
    "range_free res" "pb = publish_finish pb2 res prog left" "ended_files (output_file_new dest) fs res left fs'"
    using assms(1) by (auto simp: over_with_def)
  then have p2: "publisher_inv pb2" "may_finish (publisher_state pb2) res"
    and tmp: "pb_temp_file pb2 = Some (tmp_path_for dest)"
    and j: "\<exists>j \<in> fallback_infos (info_of i). pb_info pb2 = Some j"
    by (auto simp: transferring_def may_finish_def output_file_new_def)
  have c: "current_status pb = (status_new (fst (finish_state res)) prog (pb_info pb2))
      \<lparr>ts_error := snd (finish_state res), ts_leftover := left\<rparr>"
    using finish_current [OF p2] o(3) by simp
  obtain j where "pb_info pb2 = Some j" "ti_path j = dest"
    using j fallback_same_path assms(2) by (fastforce simp: info_of_def)
  then show ?thesis using o(2-4) tmp c by (intro exI [of _ res] exI [of _ left]) (simp add: status_new_def)
qed

lemma finish_state_finished: "fst (finish_state res) = State_Finished \<longleftrightarrow> res = Inr ()"
  by (cases res rule: finish_state.cases) simp_all

text \<open>What an attempt has done to the files, by its last status.\<close>

definition attempt_files_ok :: "publisher \<Rightarrow> files \<Rightarrow> files \<Rightarrow> bool" where
  "attempt_files_ok pb fs fs' \<longleftrightarrow>
     (case ts_state (current_status pb) of
        State_Finished \<Rightarrow>
          (\<exists>i. ts_info (current_status pb) = Some i
             \<and> pb_temp_file pb = Some (tmp_path_for (ti_path i))
             \<and> fs' (ti_path i) \<noteq> None \<and> fs' (tmp_path_for (ti_path i)) = None
             \<and> ts_leftover (current_status pb) = None
             \<and> {p. fs' p \<noteq> fs p} \<subseteq> {ti_path i, tmp_path_for (ti_path i)})
      | _ \<Rightarrow> {p. fs' p \<noteq> fs p} \<subseteq> set_option (pb_temp_file pb))
     \<and> (case pb_temp_file pb of
          None \<Rightarrow> True
        | Some tmp \<Rightarrow> fs' tmp = None \<or> ts_leftover (current_status pb) = Some tmp
            \<or> ts_state (current_status pb) = State_Downloading)"

lemma attempt_files:
  assumes sp: "spawn_attempt env att publisher_new fs = (ended, pb, fs')"
  shows "attempt_files_ok pb fs fs'"
proof -
  from sp show ?thesis
  proof (cases rule: spawn_attempt_cases)
    case (early e pb1)
    note e = early_publisher [OF early(5)]
    have "ts_state (current_status pb) \<noteq> State_Finished"
      using finish_current [OF e(1,2), of progress_default None] early(2) finish_state_finished [of "Inl e"]
      by (simp add: status_new_def)
    then show ?thesis unfolding attempt_files_ok_def using early(2,3) e(3) by (simp split: status_state.split)
  next
    case (running i)
    then have "ts_state (current_status pb) = State_Downloading"
      "pb_temp_file pb = Some (of_tmp (output_file_new (in_path i)))"
      by (simp_all add: transferring_def publisher_state_def)
    then show ?thesis unfolding attempt_files_ok_def using running(1,4) by (auto simp: same_but_tmp_def)
  next
    case (over i)
    obtain res left where f: "fst (finish_state res) = ts_state (current_status pb)"
      "left = ts_leftover (current_status pb)"
      "ended_files (output_file_new (in_path i)) fs res left fs'" "pb_temp_file pb = Some (tmp_path_for (in_path i))"
      "\<exists>j. ts_info (current_status pb) = Some j \<and> ti_path j = in_path i"
      using over_final [OF over(3) refl] by blast
    have out: "of_tmp (output_file_new (in_path i)) = tmp_path_for (in_path i)"
      "of_dest (output_file_new (in_path i)) = in_path i" by (simp_all add: output_file_new_def)
    show ?thesis
    proof (cases "res = Inr ()")
      case True
      then have fin: "ts_state (current_status pb) = State_Finished" using f(1) by simp
      obtain g where g: "same_but_tmp (output_file_new (in_path i)) fs g" "g (tmp_path_for (in_path i)) \<noteq> None"
        "fs' = (g(tmp_path_for (in_path i) := None))(in_path i := g (tmp_path_for (in_path i)))" "left = None"
        using f(3) True by (auto simp: ended_files_def out)
      have "fs' (in_path i) \<noteq> None" "fs' (tmp_path_for (in_path i)) = None"
        "{p. fs' p \<noteq> fs p} \<subseteq> {in_path i, tmp_path_for (in_path i)}"
        using g(1-3) tmp_differs by (auto simp: same_but_tmp_def out)
      then show ?thesis unfolding attempt_files_ok_def using fin f(2,4,5) g(4) by auto
    next
      case False
      then have nf: "ts_state (current_status pb) \<noteq> State_Finished" using f(1) finish_state_finished [of res] by simp
      have e: "same_but_tmp (output_file_new (in_path i)) fs fs'"
        "left = None \<and> fs' (tmp_path_for (in_path i)) = None \<or> left = Some (tmp_path_for (in_path i))"
        using f(3) False by (simp_all add: ended_files_def out)
      have "{p. fs' p \<noteq> fs p} \<subseteq> {tmp_path_for (in_path i)}" using e(1) by (auto simp: same_but_tmp_def out)
      then show ?thesis unfolding attempt_files_ok_def using nf f(2,4) e(2) by (auto split: status_state.split)
    qed
  qed
qed

text \<open>
  C2: What a spawned attempt does to the files. Unless it finishes, at any moment and whatever goes
  wrong, every file but its own temporary file is as it was: an existing destination is never touched.
  When it finishes, the temporary file has become the destination, it is gone and nothing is left
  over. However it ends, a panic included, the temporary file is gone
  or reported as left over: it stays only while the download runs.
\<close>

theorem attempt_files_are_safe:
  "case spawn_attempt env att publisher_new fs of (ended, pb, fs') \<Rightarrow>
     (case ts_state (current_status pb) of
        State_Finished \<Rightarrow>
          (\<exists>i. ts_info (current_status pb) = Some i
             \<and> pb_temp_file pb = Some (tmp_path_for (ti_path i))
             \<and> fs' (ti_path i) \<noteq> None \<and> fs' (tmp_path_for (ti_path i)) = None
             \<and> ts_leftover (current_status pb) = None
             \<and> {p. fs' p \<noteq> fs p} \<subseteq> {ti_path i, tmp_path_for (ti_path i)})
      | _ \<Rightarrow> {p. fs' p \<noteq> fs p} \<subseteq> set_option (pb_temp_file pb))
     \<and> (case pb_temp_file pb of
          None \<Rightarrow> True
        | Some tmp \<Rightarrow> fs' tmp = None \<or> ts_leftover (current_status pb) = Some tmp
            \<or> ts_state (current_status pb) = State_Downloading)"
  using attempt_files [unfolded attempt_files_ok_def] by (cases "spawn_attempt env att publisher_new fs") auto

section \<open>The mode and the fallback\<close>

lemma select_mode_concurrent:
  assumes "initialize env att = Inr i" and "in_mode i = Concurrent"
  shows "at_prefer_mode att \<in> {None, Some Concurrent} \<and> 0 < mt_content_size (in_meta i)
    \<and> mt_content_encoding (in_meta i) = None \<and> ae_ranges env \<and> in_fallback i = None"
proof -
  have pref: "m \<noteq> Some Singleton \<longleftrightarrow> m \<in> {None, Some Concurrent}" for m
  proof (cases m)
    case (Some d)
    then show ?thesis by (cases d) simp_all
  qed simp
  have "at_prefer_mode att \<noteq> Some Singleton \<and> 0 < mt_content_size (in_meta i)
    \<and> mt_content_encoding (in_meta i) = None \<and> ae_ranges env \<and> in_fallback i = None"
    using assms by (auto simp: initialize_def select_mode_def split: sum.splits option.splits if_splits)
  then show ?thesis by (simp only: pref)
qed

definition infos_within :: "task_info set \<Rightarrow> publisher \<Rightarrow> bool" where
  "infos_within infos pb \<longleftrightarrow> (\<forall>s \<in> set (pb_sent pb). \<forall>i. ts_info s = Some i \<longrightarrow> i \<in> infos)"

lemma transferring_infos:
  assumes "transferring out infos initializing_publisher pb"
  shows "infos_within infos pb"
proof -
  obtain ss where ss: "pb_sent pb = pb_sent initializing_publisher @ ss"
    "\<forall>s \<in> set ss. \<exists>i \<in> infos. ts_info s = Some i" using assms by (auto simp: transferring_def)
  moreover have "\<forall>s \<in> set (pb_sent initializing_publisher). ts_info s = None"
    using initializing_publisher_ok(4) by (simp add: status_new_def)
  ultimately show ?thesis unfolding infos_within_def by fastforce
qed

lemma finish_infos:
  assumes "publisher_inv pb2" and "may_finish (publisher_state pb2) res" and "infos_within infos pb2"
    and "\<forall>i. pb_info pb2 = Some i \<longrightarrow> i \<in> infos"
  shows "infos_within infos (publish_finish pb2 res prog left)"
  using finish_inv [OF assms(1,2), of prog left] assms(3,4)
  by (auto simp: infos_within_def status_new_def)

text \<open>
  C23: A task falls back to one connection at most once, and never ends because ranges are unusable:
  all its snapshots carry one information or, after a fallback, the same with the mode \<open>Singleton\<close> and
  the reason. It starts with several connections only when the caller did not prefer one, the size is
  known and not zero, the response is not content-coded and the adapter supports ranges.
\<close>

theorem attempt_falls_back_once:
  "case spawn_attempt env att publisher_new fs of (ended, pb, fs') \<Rightarrow>
     (\<exists>info. list_all (\<lambda>s. case ts_info s of
                None \<Rightarrow> True
              | Some i \<Rightarrow> i = info \<or> ti_mode info = Concurrent
                  \<and> (\<exists>reason. i = info\<lparr>ti_mode := Singleton, ti_fallback := Some reason\<rparr>))
            (pb_sent pb)
        \<and> (ti_mode info = Singleton
           \<or> at_prefer_mode att \<in> {None, Some Concurrent} \<and> 0 < mt_content_size (ti_meta info)
             \<and> mt_content_encoding (ti_meta info) = None \<and> ae_ranges env \<and> ti_fallback info = None))
     \<and> (\<forall>reason source. ts_error (current_status pb) \<noteq> Some (Range_Unsupported reason source))"
proof -
  obtain ended pb fs' where sp: "spawn_attempt env att publisher_new fs = (ended, pb, fs')" by (metis surj_pair)
  have infos: "list_all (\<lambda>s. case ts_info s of None \<Rightarrow> True
      | Some i \<Rightarrow> i = info \<or> ti_mode info = Concurrent
          \<and> (\<exists>reason. i = info\<lparr>ti_mode := Singleton, ti_fallback := Some reason\<rparr>)) (pb_sent pb)"
    if "infos_within (fallback_infos info) pb" for info
    using that by (auto simp: infos_within_def fallback_infos_def list_all_iff split: option.split)
  have mode: "ti_mode (info_of i) = Singleton
      \<or> at_prefer_mode att \<in> {None, Some Concurrent} \<and> 0 < mt_content_size (ti_meta (info_of i))
        \<and> mt_content_encoding (ti_meta (info_of i)) = None \<and> ae_ranges env \<and> ti_fallback (info_of i) = None"
    if "initialize env att = Inr i" for i
    using select_mode_concurrent [OF that] by (cases "in_mode i") (simp_all add: info_of_def)
  from sp show ?thesis
  proof (cases rule: spawn_attempt_cases)
    case (early e pb1)
    note e = early_publisher [OF early(5)]
    let ?info = "\<lparr>ti_meta = meta_new 0, ti_mode = Singleton, ti_path = [], ti_fallback = None\<rparr>"
    have "infos_within (fallback_infos ?info) pb"
      unfolding early(2) by (rule finish_infos [OF e(1,2)]) (use e(4,5) in \<open>simp_all add: infos_within_def\<close>)
    moreover have "ts_error (current_status pb) \<noteq> Some (Range_Unsupported reason source)" for reason source
      using finish_current [OF e(1,2), of progress_default None] early(2,4)
      by (cases "Inl e :: download_error + unit" rule: finish_state.cases) (auto simp: range_free_def)
    ultimately show ?thesis using sp infos [of ?info] by auto
  next
    case (running i)
    have "ts_error (current_status pb) = None"
      using attempt_publisher_inv [OF sp] running(3)
      by (cases "pb_sent pb" rule: rev_cases)
        (auto simp: transferring_def publisher_inv_def publisher_state_def current_status_def status_ok_def)
    then show ?thesis using sp infos [OF transferring_infos [OF running(3)]] mode [OF running(2)] by auto
  next
    case (over i)
    obtain pb2 res prog left where o: "transferring (output_file_new (in_path i)) (fallback_infos (info_of i)) initializing_publisher pb2"
      "range_free res" "pb = publish_finish pb2 res prog left"
      using over(3) by (auto simp: over_with_def)
    then have p2: "publisher_inv pb2" "may_finish (publisher_state pb2) res"
      "\<forall>j. pb_info pb2 = Some j \<longrightarrow> j \<in> fallback_infos (info_of i)"
      by (auto simp: transferring_def may_finish_def)
    have w: "infos_within (fallback_infos (info_of i)) pb"
      unfolding o(3) by (rule finish_infos [OF p2(1,2) transferring_infos [OF o(1)] p2(3)])
    have "ts_error (current_status pb) \<noteq> Some (Range_Unsupported reason source)" for reason source
      using finish_current [OF p2(1,2), of prog left] o(2,3)
      by (cases res rule: finish_state.cases) (auto simp: range_free_def)
    then show ?thesis using sp infos [OF w] mode [OF over(2)] by auto
  qed
qed

end
