(* ===== verification/Utf8.thy ===== *)
theory Utf8
  imports Rust_Str
begin

text \<open>
  The bytes of a string: \<open>str::as_bytes\<close>, \<open>String::from_utf8\<close> and the slice \<open>&s[n..]\<close>, which
  panics inside a character. A string is the list of its code points; the byte that starts an
  ASCII character never occurs inside another one, so a loop over the bytes that looks for ASCII
  characters finds what a loop over the characters does.
\<close>

section \<open>Encoding and decoding\<close>

definition is_scalar :: "nat \<Rightarrow> bool" where
  "is_scalar c \<longleftrightarrow> c < 55296 \<or> 57344 \<le> c \<and> c < 1114112"

definition utf8_char :: "nat \<Rightarrow> nat list" where
  "utf8_char c =
     (if c < 128 then [c]
      else if c < 2048 then [192 + c div 64, 128 + c mod 64]
      else if c < 65536 then [224 + c div 4096, 128 + c div 64 mod 64, 128 + c mod 64]
      else [240 + c div 262144, 128 + c div 4096 mod 64, 128 + c div 64 mod 64, 128 + c mod 64])"

definition utf8_encode :: "rstr \<Rightarrow> nat list" where
  "utf8_encode s = concat (map utf8_char s)"

definition is_continuation :: "nat \<Rightarrow> bool" where
  "is_continuation b \<longleftrightarrow> 128 \<le> b \<and> b < 192"

definition utf8_two :: "nat \<Rightarrow> nat \<Rightarrow> nat option" where
  "utf8_two a b = (if is_continuation b then Some ((a - 192) * 64 + (b - 128)) else None)"

definition utf8_three :: "nat \<Rightarrow> nat \<Rightarrow> nat \<Rightarrow> nat option" where
  "utf8_three a b c =
     (let n = (a - 224) * 4096 + (b - 128) * 64 + (c - 128)
      in if is_continuation b \<and> is_continuation c \<and> 2048 \<le> n \<and> is_scalar n then Some n else None)"

definition utf8_four :: "nat \<Rightarrow> nat \<Rightarrow> nat \<Rightarrow> nat \<Rightarrow> nat option" where
  "utf8_four a b c d =
     (let n = (a - 240) * 262144 + (b - 128) * 4096 + (c - 128) * 64 + (d - 128)
      in if is_continuation b \<and> is_continuation c \<and> is_continuation d \<and> 65536 \<le> n \<and> is_scalar n
         then Some n else None)"

text \<open>\<open>String::from_utf8\<close>: \<open>None\<close> for bytes that are no encoding.\<close>

fun utf8_decode :: "nat list \<Rightarrow> rstr option" where
  "utf8_decode [] = Some []"
| "utf8_decode (a # bs) =
     (if a < 128 then map_option (Cons a) (utf8_decode bs)
      else if 194 \<le> a \<and> a < 224 then
        (case bs of
           b # r \<Rightarrow> Option.bind (utf8_two a b) (\<lambda>n. map_option (Cons n) (utf8_decode r))
         | _ \<Rightarrow> None)
      else if 224 \<le> a \<and> a < 240 then
        (case bs of
           b # c # r \<Rightarrow> Option.bind (utf8_three a b c) (\<lambda>n. map_option (Cons n) (utf8_decode r))
         | _ \<Rightarrow> None)
      else if 240 \<le> a \<and> a < 245 then
        (case bs of
           b # c # d # r \<Rightarrow> Option.bind (utf8_four a b c d) (\<lambda>n. map_option (Cons n) (utf8_decode r))
         | _ \<Rightarrow> None)
      else None)"

text \<open>
  \<open>String::from_utf8_lossy\<close>: each longest start of a character that is not continued as it should be
  becomes one replacement character.
\<close>

definition second_byte_ok :: "nat \<Rightarrow> nat \<Rightarrow> bool" where
  "second_byte_ok a b \<longleftrightarrow>
     (if a = 224 then 160 \<le> b \<and> b < 192
      else if a = 237 then 128 \<le> b \<and> b < 160
      else if a = 240 then 144 \<le> b \<and> b < 192
      else if a = 244 then 128 \<le> b \<and> b < 144
      else is_continuation b)"

fun utf8_lossy :: "nat list \<Rightarrow> rstr" where
  "utf8_lossy [] = []"
| "utf8_lossy (a # bs) =
     (if a < 128 then a # utf8_lossy bs
      else if 194 \<le> a \<and> a < 224 then
        (case bs of
           [] \<Rightarrow> [65533]
         | b # r \<Rightarrow>
            if is_continuation b then ((a - 192) * 64 + (b - 128)) # utf8_lossy r else 65533 # utf8_lossy bs)
      else if 224 \<le> a \<and> a < 240 then
        (case bs of
           [] \<Rightarrow> [65533]
         | b # r \<Rightarrow>
            if second_byte_ok a b then
              (case r of
                 [] \<Rightarrow> [65533]
               | c # q \<Rightarrow>
                  if is_continuation c
                  then ((a - 224) * 4096 + (b - 128) * 64 + (c - 128)) # utf8_lossy q
                  else 65533 # utf8_lossy r)
            else 65533 # utf8_lossy bs)
      else if 240 \<le> a \<and> a < 245 then
        (case bs of
           [] \<Rightarrow> [65533]
         | b # r \<Rightarrow>
            if second_byte_ok a b then
              (case r of
                 [] \<Rightarrow> [65533]
               | c # q \<Rightarrow>
                  if is_continuation c then
                    (case q of
                       [] \<Rightarrow> [65533]
                     | d # t \<Rightarrow>
                        if is_continuation d
                        then ((a - 240) * 262144 + (b - 128) * 4096 + (c - 128) * 64 + (d - 128))
                          # utf8_lossy t
                        else 65533 # utf8_lossy q)
                  else 65533 # utf8_lossy r)
            else 65533 # utf8_lossy bs)
      else 65533 # utf8_lossy bs)"

text \<open>\<open>&s[n..]\<close>: panics when \<open>n\<close> is not a character boundary or past the end.\<close>

fun str_from :: "nat \<Rightarrow> rstr \<Rightarrow> rstr run" where
  "str_from 0 s = Done s"
| "str_from (Suc n) [] = Panicked ''byte index is out of bounds''"
| "str_from (Suc n) (c # s) =
     (if length (utf8_char c) \<le> Suc n then str_from (Suc n - length (utf8_char c)) s
      else Panicked ''byte index is not a char boundary'')"

section \<open>Their laws\<close>

lemma utf8_encode_simps [simp]:
  "utf8_encode [] = []"
  "utf8_encode (c # s) = utf8_char c @ utf8_encode s"
  "utf8_encode (s @ t) = utf8_encode s @ utf8_encode t"
  by (simp_all add: utf8_encode_def)

lemma utf8_char_ascii [simp]: "c < 128 \<Longrightarrow> utf8_char c = [c]"
  by (simp add: utf8_char_def)

lemma utf8_char_other: "128 \<le> c \<Longrightarrow> \<forall>b \<in> set (utf8_char c). 128 \<le> b"
  by (auto simp: utf8_char_def)

lemma utf8_char_length: "length (utf8_char c) = Suc (length (utf8_char c) - 1)"
  by (simp add: utf8_char_def)

lemma utf8_two_exact:
  assumes "128 \<le> c" and "c < 2048"
  shows "utf8_two (192 + c div 64) (128 + c mod 64) = Some c \<and> 194 \<le> 192 + c div 64 \<and> 192 + c div 64 < 224"
proof -
  have "c div 64 * 64 + c mod 64 = c" by simp
  moreover have "2 \<le> c div 64" "c div 64 < 32" using assms by simp_all
  ultimately show ?thesis by (simp add: utf8_two_def is_continuation_def)
qed

lemma utf8_three_exact:
  assumes "2048 \<le> c" and "c < 65536" and "is_scalar c"
  shows "utf8_three (224 + c div 4096) (128 + c div 64 mod 64) (128 + c mod 64) = Some c
    \<and> 224 + c div 4096 < 240"
proof -
  have "c div 4096 = c div 64 div 64" by (simp add: div_mult2_eq [symmetric])
  then have "c div 4096 * 64 + c div 64 mod 64 = c div 64" by simp
  then have "(c div 4096 * 64 + c div 64 mod 64) * 64 + c mod 64 = c" by simp
  then have "c div 4096 * 4096 + c div 64 mod 64 * 64 + c mod 64 = c"
    by (simp add: add_mult_distrib)
  moreover have "c div 4096 < 16" using assms by simp
  ultimately show ?thesis using assms by (simp add: utf8_three_def is_continuation_def Let_def)
qed

lemma utf8_four_exact:
  assumes "65536 \<le> c" and "is_scalar c"
  shows "utf8_four (240 + c div 262144) (128 + c div 4096 mod 64) (128 + c div 64 mod 64) (128 + c mod 64) = Some c
    \<and> 240 + c div 262144 < 245"
proof -
  have "c div 4096 = c div 64 div 64" "c div 262144 = c div 4096 div 64"
    by (simp_all add: div_mult2_eq [symmetric])
  then have "c div 4096 * 64 + c div 64 mod 64 = c div 64" "c div 262144 * 64 + c div 4096 mod 64 = c div 4096"
    by simp_all
  then have "((c div 262144 * 64 + c div 4096 mod 64) * 64 + c div 64 mod 64) * 64 + c mod 64 = c" by simp
  then have "c div 262144 * 262144 + c div 4096 mod 64 * 4096 + c div 64 mod 64 * 64 + c mod 64 = c"
    by (simp add: add_mult_distrib)
  moreover have "c div 262144 < 5" using assms by (simp add: is_scalar_def)
  ultimately show ?thesis using assms by (simp add: utf8_four_def is_continuation_def Let_def)
qed

lemma utf8_decode_char: "is_scalar c \<Longrightarrow> utf8_decode (utf8_char c @ bs) = map_option (Cons c) (utf8_decode bs)"
  using utf8_two_exact [of c] utf8_three_exact [of c] utf8_four_exact [of c]
  by (auto simp: utf8_char_def)

lemma utf8_decode_encode: "list_all is_scalar s \<Longrightarrow> utf8_decode (utf8_encode s) = Some s"
  by (induction s) (simp_all add: utf8_decode_char)

lemma utf8_encode_ascii: "\<forall>c \<in> set s. c < 128 \<Longrightarrow> utf8_encode s = s"
  by (induction s) simp_all

lemma str_from_char: "str_from (length (utf8_char c) + n) (c # s) = str_from n s"
proof -
  obtain k where k: "length (utf8_char c) = Suc k" using utf8_char_length by blast
  then show ?thesis by simp
qed

lemma str_from_encoded: "str_from (length (utf8_encode s) + n) (s @ t) = str_from n t"
  by (induction s) (simp_all add: add.assoc str_from_char)

lemma str_from_all: "str_from (length (utf8_encode s)) (s @ t) = Done t"
  using str_from_encoded [of s 0 t] by simp

end
