(* ===== verification/Content_Disposition.thy ===== *)
theory Content_Disposition
  imports Utf8 Errors
begin

text \<open>
  The \<open>Content-Disposition\<close> header a server suggests a file name with
  (\<open>bolt-load-http/src/header/content_disposition.rs\<close> and \<open>extended.rs\<close>): the parser of a raw value,
  which walks over the bytes of a quoted string, and the display.

  The crates \<open>language_tags\<close>, \<open>percent_encoding\<close> and \<open>regex\<close> are not part of the repository: the
  functions used of them are the fields of \<open>header_crates\<close>, and \<open>header_laws\<close> is what their
  documentation says of them.
\<close>

section \<open>The crates it uses\<close>

record 'l header_crates =
  hc_lang_parse :: "rstr \<Rightarrow> 'l option"
  hc_lang_show :: "'l \<Rightarrow> rstr"
  hc_percent_encode :: "(nat \<Rightarrow> bool) \<Rightarrow> nat list \<Rightarrow> rstr"
  hc_percent_decode :: "nat list \<Rightarrow> nat list"
  hc_replace_class :: "(nat \<Rightarrow> bool) \<Rightarrow> rstr \<Rightarrow> rstr"

section \<open>Extended values\<close>

text \<open>\<open>HTTP_VALUE\<close>: the ASCII characters percent encoding escapes (\<open>CONTROLS\<close> and those added).\<close>

definition HTTP_VALUE :: "nat \<Rightarrow> bool" where
  "HTTP_VALUE c \<longleftrightarrow> c < 32 \<or> c = 127 \<or> c \<in> set (lit '' %(),/:;<>?[]{}-*'') \<or> c = 34 \<or> c = 39 \<or> c = 92"

record 'l extended_value =
  ev_charset :: rstr
  ev_language :: "'l option"
  ev_value :: "nat list"

definition QUOTE :: nat where "QUOTE = 39"

text \<open>\<open>str::splitn(3, c)\<close>: the third piece keeps further separators.\<close>

definition splitn_3 :: "nat \<Rightarrow> rstr \<Rightarrow> rstr list" where
  "splitn_3 d s =
     (case split_once (\<lambda>c. c = d) s of
        None \<Rightarrow> [s]
      | Some (a, r) \<Rightarrow> (case split_once (\<lambda>c. c = d) r of None \<Rightarrow> [a, r] | Some (b, q) \<Rightarrow> [a, b, q]))"

definition parse_extended_value :: "'l header_crates \<Rightarrow> rstr \<Rightarrow> io_error + 'l extended_value" where
  "parse_extended_value hc val =
     (case splitn_3 QUOTE val of
        [] \<Rightarrow> Inl (lit ''charset is missing'')
      | charset # parts \<Rightarrow>
         (case parts of
            [] \<Rightarrow> Inl (lit ''language tag is missing'')
          | tag # parts' \<Rightarrow>
             (case (if tag = [] then Some None else map_option Some (hc_lang_parse hc tag)) of
                None \<Rightarrow> Inl (lit ''language tag is invalid'')
              | Some language \<Rightarrow>
                 (case parts' of
                    [] \<Rightarrow> Inl (lit ''value is missing'')
                  | v # _ \<Rightarrow>
                     Inr \<lparr>ev_charset = charset, ev_language = language,
                       ev_value = hc_percent_decode hc (utf8_encode v)\<rparr>))))"

definition extended_value_display :: "'l header_crates \<Rightarrow> 'l extended_value \<Rightarrow> rstr" where
  "extended_value_display hc e =
     (let encoded = hc_percent_encode hc HTTP_VALUE (ev_value e)
      in case ev_language e of
           Some lang \<Rightarrow> ev_charset e @ [QUOTE] @ hc_lang_show hc lang @ [QUOTE] @ encoded
         | None \<Rightarrow> ev_charset e @ [QUOTE, QUOTE] @ encoded)"

section \<open>The header\<close>

datatype disposition_type = Inline | Attachment | FormData | Ext rstr

datatype 'l disposition_param =
    Name rstr
  | Filename rstr
  | FilenameExt "'l extended_value"
  | Unknown rstr rstr
  | UnknownExt rstr "'l extended_value"

record 'l content_disposition =
  cd_disposition :: disposition_type
  cd_parameters :: "'l disposition_param list"

definition disposition_type_from :: "rstr \<Rightarrow> disposition_type" where
  "disposition_type_from origin =
     (if eq_ignore_ascii_case origin (lit ''inline'') then Inline
      else if eq_ignore_ascii_case origin (lit ''attachment'') then Attachment
      else if eq_ignore_ascii_case origin (lit ''form-data'') then FormData
      else Ext origin)"

definition SEMI :: nat where "SEMI = 59"
definition EQUALS :: nat where "EQUALS = 61"
definition STAR :: nat where "STAR = 42"
definition DQUOTE :: nat where "DQUOTE = 34"
definition BACKSLASH :: nat where "BACKSLASH = 92"

definition cd_split_once :: "rstr \<Rightarrow> nat \<Rightarrow> rstr \<times> rstr" where
  "cd_split_once haystack needle =
     (case split_once (\<lambda>c. c = needle) haystack of None \<Rightarrow> (haystack, []) | Some parts \<Rightarrow> parts)"

definition split_once_and_trim :: "rstr \<Rightarrow> nat \<Rightarrow> rstr \<times> rstr" where
  "split_once_and_trim haystack needle =
     (case cd_split_once haystack needle of (a, b) \<Rightarrow> (trim_end a, trim_start b))"

definition strip_suffix :: "nat \<Rightarrow> rstr \<Rightarrow> rstr option" where
  "strip_suffix c s = (if s \<noteq> [] \<and> last s = c then Some (butlast s) else None)"

section \<open>Parsing\<close>

definition invalid_parameter :: io_error where
  "invalid_parameter = lit ''invalid parameter''"

text \<open>
  The loop over the bytes after the opening quote: the position of the closing quote among all the
  bytes, and the unescaped bytes.
\<close>

fun scan_quoted :: "nat \<Rightarrow> bool \<Rightarrow> nat list \<Rightarrow> nat list \<Rightarrow> (nat \<times> nat list) option" where
  "scan_quoted i escaping quoted [] = None"
| "scan_quoted i escaping quoted (c # bytes) =
     (if escaping then scan_quoted (i + 1) False (quoted @ [c]) bytes
      else if c = 92 then scan_quoted (i + 1) True quoted bytes
      else if c = 34 then Some (i + 1, quoted)
      else scan_quoted (i + 1) False (quoted @ [c]) bytes)"

text \<open>A regular value at the start of \<open>left\<close>, and what follows its separator.\<close>

definition regular_value :: "rstr \<Rightarrow> (io_error + rstr \<times> rstr) run" where
  "regular_value left =
     (if left \<noteq> [] \<and> hd left = DQUOTE then
        (case scan_quoted 0 False [] (drop 1 (utf8_encode left)) of
           None \<Rightarrow> Done (Inl invalid_parameter)
         | Some (end, quoted) \<Rightarrow>
            bind_run (str_from (end + 1) left) (\<lambda>rest.
              let left' = trim_start (snd (cd_split_once rest SEMI))
              in case utf8_decode quoted of
                   None \<Rightarrow> Done (Inl invalid_parameter)
                 | Some v \<Rightarrow> Done (Inr (v, left'))))
      else
        (case split_once_and_trim left SEMI of
           (token, left') \<Rightarrow> Done (if token = [] then Inl invalid_parameter else Inr (token, left'))))"

definition regular_param :: "rstr \<Rightarrow> rstr \<Rightarrow> 'l disposition_param" where
  "regular_param name value =
     (if eq_ignore_ascii_case name (lit ''name'') then Name value
      else if eq_ignore_ascii_case name (lit ''filename'') then Filename value
      else Unknown name value)"

definition extended_param :: "rstr \<Rightarrow> 'l extended_value \<Rightarrow> 'l disposition_param" where
  "extended_param name e =
     (if eq_ignore_ascii_case name (lit ''filename'') then FilenameExt e else UnknownExt name e)"

text \<open>One turn of the loop over the parameters: the parameter and what is left.\<close>

definition parse_param :: "'l header_crates \<Rightarrow> rstr \<Rightarrow> (io_error + 'l disposition_param \<times> rstr) run" where
  "parse_param hc left =
     (case split_once_and_trim left EQUALS of
        (name, left1) \<Rightarrow>
          if name = [] \<or> name = [STAR] \<or> left1 = [] then Done (Inl invalid_parameter)
          else
            (case strip_suffix STAR name of
               Some ext_name \<Rightarrow>
                (case split_once_and_trim left1 SEMI of
                   (ext, left2) \<Rightarrow>
                     (case parse_extended_value hc ext of
                        Inl e \<Rightarrow> Done (Inl e)
                      | Inr v \<Rightarrow> Done (Inr (extended_param ext_name v, left2))))
             | None \<Rightarrow>
                bind_run (regular_value left1) (\<lambda>r.
                  case r of
                    Inl e \<Rightarrow> Done (Inl e)
                  | Inr (value, left2) \<Rightarrow> Done (Inr (regular_param name value, left2)))))"

lemma trim_start_le: "length (trim_start s) \<le> length s"
  by (simp add: trim_start_def length_dropWhile_le)

lemma split_once_length: "split_once P s = Some (a, b) \<Longrightarrow> length a + length b < length s"
  using split_once_Some [of P s a b] by auto

lemma cd_split_once_le: "length (snd (cd_split_once s d)) \<le> length s"
  using split_once_length [of "\<lambda>c. c = d" s]
  by (fastforce simp: cd_split_once_def split: option.split)

lemma split_once_and_trim_le: "split_once_and_trim s d = (a, b) \<Longrightarrow> length b \<le> length s"
  using cd_split_once_le [of s d] trim_start_le [of "snd (cd_split_once s d)"]
  by (auto simp: split_once_and_trim_def split: prod.splits)

lemma split_once_and_trim_less:
  assumes "split_once_and_trim s d = (a, b)" and "b \<noteq> []"
  shows "length b < length s"
proof (cases "split_once (\<lambda>c. c = d) s")
  case None
  then show ?thesis using assms by (simp add: split_once_and_trim_def cd_split_once_def trim_start_def)
next
  case (Some ab)
  obtain a' b' where ab: "ab = (a', b')" by fastforce
  then have "b = trim_start b'" using assms Some by (simp add: split_once_and_trim_def cd_split_once_def)
  then show ?thesis using split_once_length [of "\<lambda>c. c = d" s a' b'] Some ab trim_start_le [of b'] by simp
qed

lemma str_from_le: "str_from n s = Done t \<Longrightarrow> length t \<le> length s"
  by (induction n s rule: str_from.induct) (auto split: if_splits)

lemma regular_value_le:
  assumes "regular_value left = Done (Inr (v, left'))"
  shows "length left' \<le> length left"
proof (cases "left \<noteq> [] \<and> hd left = DQUOTE")
  case False
  then show ?thesis using assms split_once_and_trim_le
    by (auto simp: regular_value_def split: prod.splits if_splits)
next
  case True
  obtain e q rest where "str_from (e + 1) left = Done rest" "left' = trim_start (snd (cd_split_once rest SEMI))"
    using assms True by (auto simp: regular_value_def bind_run_Done Let_def split: option.splits)
  then show ?thesis using str_from_le [of "e + 1" left rest] cd_split_once_le [of rest SEMI]
      trim_start_le [of "snd (cd_split_once rest SEMI)"] by simp
qed

lemma parse_param_shorter:
  assumes "parse_param hc left = Done (Inr (p, left'))"
  shows "length left' < length left"
proof -
  obtain name left1 where s: "split_once_and_trim left EQUALS = (name, left1)" by fastforce
  then have ne: "left1 \<noteq> []" using assms by (auto simp: parse_param_def)
  then have less: "length left1 < length left" using split_once_and_trim_less s by blast
  have "length left' \<le> length left1"
  proof (cases "strip_suffix STAR name")
    case None
    then obtain r where "regular_value left1 = Done r"
      "(case r of Inl e \<Rightarrow> Done (Inl e)
        | Inr (value, left2) \<Rightarrow> Done (Inr (regular_param name value, left2))) = Done (Inr (p, left'))"
      using assms s by (auto simp: parse_param_def bind_run_Done split: if_splits)
    then show ?thesis using regular_value_le [of left1] by (auto split: sum.splits)
  next
    case (Some x)
    then show ?thesis using assms s split_once_and_trim_le
      by (auto simp: parse_param_def split: if_splits sum.splits prod.splits)
  qed
  then show ?thesis using less by simp
qed

text \<open>The loop over the parameters; every turn uses up part of \<open>left\<close>.\<close>

function parse_params ::
  "'l header_crates \<Rightarrow> rstr \<Rightarrow> 'l disposition_param list \<Rightarrow> (io_error + 'l disposition_param list) run" where
  "parse_params hc left ps =
     (if left = [] then Done (Inr ps)
      else
        (case parse_param hc left of
           Panicked m \<Rightarrow> Panicked m
         | Done (Inl e) \<Rightarrow> Done (Inl e)
         | Done (Inr (p, left')) \<Rightarrow> parse_params hc left' (ps @ [p])))"
  by pat_completeness auto
termination parse_params
  by (relation "measure (\<lambda>(hc, left, ps). length left)") (auto dest: sym intro: parse_param_shorter)

declare parse_params.simps [simp del]

definition from_raw :: "'l header_crates \<Rightarrow> nat list \<Rightarrow> (io_error + 'l content_disposition) run" where
  "from_raw hc hv =
     (case utf8_decode hv of
        None \<Rightarrow> Done (Inl (lit ''invalid utf-8''))
      | Some s \<Rightarrow>
         (case split_once_and_trim (trim s) SEMI of
            (disp_type, left) \<Rightarrow>
              if disp_type = [] then Done (Inl (lit ''disposition type is missing''))
              else bind_run (parse_params hc left []) (\<lambda>r.
                case r of
                  Inl e \<Rightarrow> Done (Inl e)
                | Inr ps \<Rightarrow>
                    Done (Inr \<lparr>cd_disposition = disposition_type_from disp_type, cd_parameters = ps\<rparr>))))"

text \<open>\<open>Header::decode\<close>: the first value of the header, if it parses.\<close>

definition header_decode :: "'l header_crates \<Rightarrow> nat list list \<Rightarrow> 'l content_disposition option run" where
  "header_decode hc hvs =
     (case hvs of
        [] \<Rightarrow> Done None
      | hv # _ \<Rightarrow>
         bind_run (from_raw hc hv) (\<lambda>r. Done (case r of Inl _ \<Rightarrow> None | Inr cd \<Rightarrow> Some cd)))"

section \<open>Queries\<close>

definition as_name :: "'l disposition_param \<Rightarrow> rstr option" where
  "as_name p = (case p of Name name \<Rightarrow> Some name | _ \<Rightarrow> None)"

definition as_filename :: "'l disposition_param \<Rightarrow> rstr option" where
  "as_filename p = (case p of Filename filename \<Rightarrow> Some filename | _ \<Rightarrow> None)"

definition as_filename_ext :: "'l disposition_param \<Rightarrow> 'l extended_value option" where
  "as_filename_ext p = (case p of FilenameExt value \<Rightarrow> Some value | _ \<Rightarrow> None)"

definition as_unknown :: "rstr \<Rightarrow> 'l disposition_param \<Rightarrow> rstr option" where
  "as_unknown name p =
     (case p of
        Unknown ext_name value \<Rightarrow> if eq_ignore_ascii_case ext_name name then Some value else None
      | _ \<Rightarrow> None)"

definition as_unknown_ext :: "rstr \<Rightarrow> 'l disposition_param \<Rightarrow> 'l extended_value option" where
  "as_unknown_ext name p =
     (case p of
        UnknownExt ext_name value \<Rightarrow> if eq_ignore_ascii_case ext_name name then Some value else None
      | _ \<Rightarrow> None)"

definition is_name :: "'l disposition_param \<Rightarrow> bool" where "is_name p \<longleftrightarrow> as_name p \<noteq> None"
definition is_filename :: "'l disposition_param \<Rightarrow> bool" where "is_filename p \<longleftrightarrow> as_filename p \<noteq> None"

definition is_filename_ext :: "'l disposition_param \<Rightarrow> bool" where
  "is_filename_ext p \<longleftrightarrow> as_filename_ext p \<noteq> None"

definition is_unknown :: "rstr \<Rightarrow> 'l disposition_param \<Rightarrow> bool" where
  "is_unknown name p \<longleftrightarrow> as_unknown name p \<noteq> None"

definition is_unknown_ext :: "rstr \<Rightarrow> 'l disposition_param \<Rightarrow> bool" where
  "is_unknown_ext name p \<longleftrightarrow> as_unknown_ext name p \<noteq> None"

text \<open>\<open>Iterator::find_map\<close>.\<close>

fun find_map :: "('a \<Rightarrow> 'b option) \<Rightarrow> 'a list \<Rightarrow> 'b option" where
  "find_map f [] = None"
| "find_map f (x # xs) = (case f x of None \<Rightarrow> find_map f xs | Some y \<Rightarrow> Some y)"

definition get_name :: "'l content_disposition \<Rightarrow> rstr option" where
  "get_name cd = find_map as_name (cd_parameters cd)"

definition get_filename :: "'l content_disposition \<Rightarrow> rstr option" where
  "get_filename cd = find_map as_filename (cd_parameters cd)"

definition get_filename_ext :: "'l content_disposition \<Rightarrow> 'l extended_value option" where
  "get_filename_ext cd = find_map as_filename_ext (cd_parameters cd)"

definition get_unknown :: "rstr \<Rightarrow> 'l content_disposition \<Rightarrow> rstr option" where
  "get_unknown name cd = find_map (as_unknown name) (cd_parameters cd)"

definition get_unknown_ext :: "rstr \<Rightarrow> 'l content_disposition \<Rightarrow> 'l extended_value option" where
  "get_unknown_ext name cd = find_map (as_unknown_ext name) (cd_parameters cd)"

definition is_inline :: "'l content_disposition \<Rightarrow> bool" where
  "is_inline cd \<longleftrightarrow> cd_disposition cd = Inline"

definition is_attachment :: "'l content_disposition \<Rightarrow> bool" where
  "is_attachment cd \<longleftrightarrow> cd_disposition cd = Attachment"

definition is_form_data :: "'l content_disposition \<Rightarrow> bool" where
  "is_form_data cd \<longleftrightarrow> cd_disposition cd = FormData"

definition is_ext :: "rstr \<Rightarrow> 'l content_disposition \<Rightarrow> bool" where
  "is_ext disp_type cd \<longleftrightarrow>
     (case cd_disposition cd of Ext t \<Rightarrow> eq_ignore_ascii_case t disp_type | _ \<Rightarrow> False)"

definition attachment :: "rstr \<Rightarrow> 'l content_disposition" where
  "attachment filename = \<lparr>cd_disposition = Attachment, cd_parameters = [Filename filename]\<rparr>"

section \<open>Display\<close>

text \<open>The characters the regular expression \<open>RE\<close> matches.\<close>

definition escaped_in_quotes :: "nat \<Rightarrow> bool" where
  "escaped_in_quotes c \<longleftrightarrow> c \<le> 8 \<or> 16 \<le> c \<and> c \<le> 31 \<or> c = 127 \<or> c = 34 \<or> c = 92"

definition disposition_type_display :: "disposition_type \<Rightarrow> rstr" where
  "disposition_type_display d =
     (case d of
        Inline \<Rightarrow> lit ''inline''
      | Attachment \<Rightarrow> lit ''attachment''
      | FormData \<Rightarrow> lit ''form-data''
      | Ext s \<Rightarrow> s)"

definition disposition_param_display :: "'l header_crates \<Rightarrow> 'l disposition_param \<Rightarrow> rstr" where
  "disposition_param_display hc p =
     (case p of
        Name value \<Rightarrow> lit ''name='' @ value
      | Filename value \<Rightarrow>
          lit ''filename='' @ [DQUOTE] @ hc_replace_class hc escaped_in_quotes value @ [DQUOTE]
      | Unknown name value \<Rightarrow>
          name @ lit ''='' @ [DQUOTE] @ hc_replace_class hc escaped_in_quotes value @ [DQUOTE]
      | FilenameExt e \<Rightarrow> lit ''filename*='' @ extended_value_display hc e
      | UnknownExt name e \<Rightarrow> name @ lit ''*='' @ extended_value_display hc e)"

definition content_disposition_display :: "'l header_crates \<Rightarrow> 'l content_disposition \<Rightarrow> rstr" where
  "content_disposition_display hc cd =
     disposition_type_display (cd_disposition cd)
     @ concat (map (\<lambda>p. lit ''; '' @ disposition_param_display hc p) (cd_parameters cd))"

section \<open>What the crates promise\<close>

text \<open>
  A language tag is displayed as text that parses to it again, of letters, digits and hyphens;
  percent encoding writes visible ASCII outside the given set, or an escape, and decodes to the same
  bytes; \<open>replace_all(value, "\$0")\<close> with a class of characters puts a backslash before each of them.
\<close>

definition tag_char :: "nat \<Rightarrow> bool" where
  "tag_char c \<longleftrightarrow> is_ascii_digit c \<or> 97 \<le> ascii_lower c \<and> ascii_lower c \<le> 122 \<or> c = 45"

definition escape_class :: "(nat \<Rightarrow> bool) \<Rightarrow> rstr \<Rightarrow> rstr" where
  "escape_class P s = concat (map (\<lambda>c. if P c then [BACKSLASH, c] else [c]) s)"

definition percent_output :: "(nat \<Rightarrow> bool) \<Rightarrow> nat \<Rightarrow> bool" where
  "percent_output P c \<longleftrightarrow> c < 128 \<and> (\<not> P c \<or> c = 37 \<or> is_ascii_digit c \<or> 65 \<le> c \<and> c \<le> 70)"

definition header_laws :: "'l header_crates \<Rightarrow> bool" where
  "header_laws hc \<longleftrightarrow>
     (\<forall>l. hc_lang_parse hc (hc_lang_show hc l) = Some l \<and> hc_lang_show hc l \<noteq> []
        \<and> list_all tag_char (hc_lang_show hc l))
     \<and> (\<forall>P v. list_all (\<lambda>b. b < 256) v \<and> P 37 \<longrightarrow>
          list_all (percent_output P) (hc_percent_encode hc P v)
          \<and> hc_percent_decode hc (hc_percent_encode hc P v) = v)
     \<and> (\<forall>P s. hc_replace_class hc P s = escape_class P s)"

end
