(* ===== verification/Content_Disposition_Props.thy ===== *)
theory Content_Disposition_Props
  imports Content_Disposition
begin

text \<open>
  The properties of the \<open>Content-Disposition\<close> header: parsing never panics and reads a quoted string
  as its characters, and what is displayed parses to the same header.
\<close>

section \<open>Pieces\<close>

definition trimmed :: "rstr \<Rightarrow> bool" where
  "trimmed s \<longleftrightarrow> s \<noteq> [] \<and> \<not> is_whitespace (hd s) \<and> \<not> is_whitespace (last s)"

lemma trim_start_id: "s = [] \<or> \<not> is_whitespace (hd s) \<Longrightarrow> trim_start s = s"
  unfolding trim_start_def by (cases s) simp_all

lemma trim_end_id: "s = [] \<or> \<not> is_whitespace (last s) \<Longrightarrow> trim_end s = s"
  unfolding trim_end_def by (cases s rule: rev_cases) simp_all

lemma cd_split_here: "d \<notin> set a \<Longrightarrow> cd_split_once (a @ d # b) d = (a, b)"
  using split_once_here [of a "\<lambda>c. c = d" d b] by (force simp: cd_split_once_def)

lemma cd_split_none: "d \<notin> set a \<Longrightarrow> cd_split_once a d = (a, [])"
  by (induction a) (auto simp: cd_split_once_def split: option.splits)

lemma cd_split_set: "cd_split_once s d = (a, b) \<Longrightarrow> set a \<subseteq> set s \<and> set b \<subseteq> set s"
  using split_once_Some [of "\<lambda>c. c = d" s] by (fastforce simp: cd_split_once_def split: option.splits)

lemma trim_start_set: "set (trim_start s) \<subseteq> set s"
  by (auto simp: trim_start_def dest: set_dropWhileD)

lemma trim_end_set: "set (trim_end s) \<subseteq> set s"
  by (auto simp: trim_end_def dest: set_dropWhileD)

lemma trim_set: "set (trim s) \<subseteq> set s"
  by (auto simp: trim_def dest!: set_dropWhileD)

lemma split_trim_set: "split_once_and_trim s d = (a, b) \<Longrightarrow> set a \<subseteq> set s \<and> set b \<subseteq> set s"
  using cd_split_set [of s d] trim_start_set trim_end_set
  by (fastforce simp: split_once_and_trim_def split: prod.splits)

section \<open>Quoted strings\<close>

text \<open>
  A quoted string by its characters, after the opening quote: a backslash makes the next character
  literal, the quote ends it. The result is the value and what follows the quote.
\<close>

fun quoted_chars :: "bool \<Rightarrow> rstr \<Rightarrow> rstr \<Rightarrow> (rstr \<times> rstr) option" where
  "quoted_chars escaping v [] = None"
| "quoted_chars escaping v (c # s) =
     (if escaping then quoted_chars False (v @ [c]) s
      else if c = BACKSLASH then quoted_chars True v s
      else if c = DQUOTE then Some (v, s)
      else quoted_chars False (v @ [c]) s)"

lemma scan_quoted_plain:
  "\<forall>b \<in> set bs. 128 \<le> b \<Longrightarrow>
    scan_quoted i False q (bs @ r) = scan_quoted (i + length bs) False (q @ bs) r"
  by (induction bs arbitrary: i q) auto

lemma scan_quoted_escaped:
  assumes "\<forall>b \<in> set bs. 128 \<le> b" and "bs \<noteq> []"
  shows "scan_quoted i True q (bs @ r) = scan_quoted (i + length bs) False (q @ bs) r"
proof (cases bs)
  case (Cons b bs')
  then show ?thesis using assms scan_quoted_plain [of bs' "i + 1" "q @ [b]" r] by simp
qed (use assms in simp)

lemma utf8_char_nonempty [simp]: "utf8_char c \<noteq> []"
  by (simp add: utf8_char_def)

lemma scan_quoted_char:
  "scan_quoted i escaping q (utf8_char c @ r) =
     (if escaping then scan_quoted (i + length (utf8_char c)) False (q @ utf8_char c) r
      else if c = BACKSLASH then scan_quoted (i + 1) True q r
      else if c = DQUOTE then Some (i + 1, q)
      else scan_quoted (i + length (utf8_char c)) False (q @ utf8_char c) r)"
proof (cases "c < 128")
  case True
  then show ?thesis by (simp add: BACKSLASH_def DQUOTE_def)
next
  case False
  then have "\<forall>b \<in> set (utf8_char c). 128 \<le> b" using utf8_char_other [of c] by simp
  then show ?thesis using False scan_quoted_plain [of "utf8_char c" i q r]
      scan_quoted_escaped [of "utf8_char c" i q r]
    by (cases escaping) (simp_all add: BACKSLASH_def DQUOTE_def)
qed

text \<open>The loop over the bytes finds what reading by characters does.\<close>

lemma scan_quoted_by_chars:
  "(case quoted_chars escaping v s of
      None \<Rightarrow> scan_quoted i escaping (utf8_encode v) (utf8_encode s) = None
    | Some (w, r) \<Rightarrow>
        \<exists>u. s = u @ r
          \<and> scan_quoted i escaping (utf8_encode v) (utf8_encode s)
              = Some (i + length (utf8_encode u), utf8_encode w))"
proof (induction s arbitrary: escaping v i)
  case Nil
  then show ?case by simp
next
  case (Cons c s)
  have step: "(case quoted_chars e v' s of
      None \<Rightarrow> scan_quoted j e (utf8_encode v') (utf8_encode s) = None
    | Some (w, r) \<Rightarrow>
        \<exists>u. c # s = u @ r
          \<and> scan_quoted j e (utf8_encode v') (utf8_encode s) = Some (i + length (utf8_encode u), utf8_encode w))"
    if j: "j = i + length (utf8_char c)" for e v' j
  proof (cases "quoted_chars e v' s")
    case None
    then show ?thesis using Cons.IH [where escaping = e and v = v' and i = j] by simp
  next
    case (Some wr)
    obtain w r where wr: "wr = (w, r)" by fastforce
    then obtain u where "s = u @ r"
      "scan_quoted j e (utf8_encode v') (utf8_encode s) = Some (j + length (utf8_encode u), utf8_encode w)"
      using Cons.IH [where escaping = e and v = v' and i = j] Some by auto
    then show ?thesis using Some wr j by (auto intro!: exI [of _ "c # u"])
  qed
  consider "\<not> escaping" "c = BACKSLASH" | "\<not> escaping" "c = DQUOTE" | "escaping \<or> c \<noteq> BACKSLASH \<and> c \<noteq> DQUOTE"
    by blast
  then show ?case
  proof cases
    case 1
    then have "quoted_chars escaping v (c # s) = quoted_chars True v s"
      "scan_quoted i escaping (utf8_encode v) (utf8_encode (c # s))
         = scan_quoted (i + 1) True (utf8_encode v) (utf8_encode s)" "i + 1 = i + length (utf8_char c)"
      by (auto simp: BACKSLASH_def)
    then show ?thesis using step [of "i + 1" True v] by (simp only:)
  next
    case 2
    then show ?thesis by (auto simp: BACKSLASH_def DQUOTE_def intro: exI [of _ "[c]"])
  next
    case 3
    then have "quoted_chars escaping v (c # s) = quoted_chars False (v @ [c]) s"
      "scan_quoted i escaping (utf8_encode v) (utf8_encode (c # s))
         = scan_quoted (i + length (utf8_char c)) False (utf8_encode (v @ [c])) (utf8_encode s)"
      by (auto simp: scan_quoted_char simp del: scan_quoted.simps)
    then show ?thesis using step [of "i + length (utf8_char c)" False "v @ [c]"] by (simp only:)
  qed
qed

lemma quoted_chars_scalar:
  "quoted_chars e v s = Some (w, r) \<Longrightarrow> list_all is_scalar v \<Longrightarrow> list_all is_scalar s
    \<Longrightarrow> list_all is_scalar w \<and> set r \<subseteq> set s"
  by (induction e v s rule: quoted_chars.induct) (auto split: if_splits)

lemma regular_value_quoted:
  assumes "list_all is_scalar s"
  shows "regular_value (DQUOTE # s) = Done (case quoted_chars False [] s of
      None \<Rightarrow> Inl invalid_parameter
    | Some (v, r) \<Rightarrow> Inr (v, trim_start (snd (cd_split_once r SEMI))))"
proof (cases "quoted_chars False [] s")
  case None
  then show ?thesis using scan_quoted_by_chars [where escaping = False and v = "[]" and s = s and i = 0]
    by (simp add: regular_value_def DQUOTE_def)
next
  case (Some wr)
  obtain v r where wr: "wr = (v, r)" by fastforce
  then obtain u where u: "s = u @ r"
    "scan_quoted 0 False [] (utf8_encode s) = Some (length (utf8_encode u), utf8_encode v)"
    using scan_quoted_by_chars [where escaping = False and v = "[]" and s = s and i = 0] Some by auto
  have "list_all is_scalar v" using quoted_chars_scalar Some wr assms by fastforce
  then have "utf8_decode (utf8_encode v) = Some v" by (rule utf8_decode_encode)
  moreover have "str_from (length (utf8_encode u) + 1) (DQUOTE # s) = Done r"
    using str_from_all [of "DQUOTE # u" r] u(1) by (simp add: DQUOTE_def)
  ultimately show ?thesis using u(2) Some wr by (simp add: regular_value_def DQUOTE_def)
qed

lemma regular_value_total:
  assumes "list_all is_scalar left"
  shows "\<exists>r. regular_value left = Done r
    \<and> (\<forall>v left'. r = Inr (v, left') \<longrightarrow> set left' \<subseteq> set left)"
proof (cases "left \<noteq> [] \<and> hd left = DQUOTE")
  case False
  obtain token left' where t: "split_once_and_trim left SEMI = (token, left')" by fastforce
  have "regular_value left = Done (if token = [] then Inl invalid_parameter else Inr (token, left'))"
    unfolding regular_value_def using False t by (simp only: if_False prod.case)
  then show ?thesis using split_trim_set [OF t] by simp
next
  case True
  then obtain s where s: "left = DQUOTE # s" by (cases left) auto
  then have sc: "list_all is_scalar s" using assms by simp
  show ?thesis
  proof (cases "quoted_chars False [] s")
    case None
    then show ?thesis using regular_value_quoted [OF sc] s by simp
  next
    case (Some wr)
    obtain v r where wr: "wr = (v, r)" by fastforce
    then have "set r \<subseteq> set s" using quoted_chars_scalar [of False "[]" s v r] Some sc by simp
    moreover obtain x y where "cd_split_once r SEMI = (x, y)" by fastforce
    ultimately have "set (trim_start (snd (cd_split_once r SEMI))) \<subseteq> set left"
      using cd_split_set trim_start_set s by fastforce
    then show ?thesis using regular_value_quoted [OF sc] s Some wr by simp
  qed
qed

section \<open>Parsing never panics\<close>

lemma parse_param_total:
  assumes "list_all is_scalar left"
  shows "\<exists>r. parse_param hc left = Done r \<and> (\<forall>p left'. r = Inr (p, left') \<longrightarrow> list_all is_scalar left')"
proof -
  obtain name left1 where s: "split_once_and_trim left EQUALS = (name, left1)" by fastforce
  have sub: "list_all is_scalar x" if "set x \<subseteq> set left1" for x
    using that split_trim_set [OF s] assms by (auto simp: list_all_iff)
  show ?thesis
  proof (cases "name = [] \<or> name = [STAR] \<or> left1 = []")
    case True
    then show ?thesis using s by (simp add: parse_param_def)
  next
    case False
    show ?thesis
    proof (cases "strip_suffix STAR name")
      case None
      obtain r where r: "regular_value left1 = Done r"
        "\<forall>v left'. r = Inr (v, left') \<longrightarrow> set left' \<subseteq> set left1"
        using regular_value_total [OF sub [OF subset_refl]] by blast
      then show ?thesis using s False None sub
        by (cases r) (auto simp: parse_param_def split: prod.split)
    next
      case (Some ext_name)
      obtain ext left2 where e: "split_once_and_trim left1 SEMI = (ext, left2)" by fastforce
      then have "list_all is_scalar left2" using split_trim_set [OF e] sub by blast
      then show ?thesis using s False Some e
        by (cases "parse_extended_value hc ext") (simp_all add: parse_param_def)
    qed
  qed
qed

lemma parse_params_total:
  "list_all is_scalar left \<Longrightarrow> \<exists>r. parse_params hc left ps = Done r"
proof (induction "length left" arbitrary: left ps rule: less_induct)
  case less
  obtain r where r: "parse_param hc left = Done r"
    "\<forall>p left'. r = Inr (p, left') \<longrightarrow> list_all is_scalar left'"
    using parse_param_total [OF less.prems] by blast
  show ?case
  proof (cases r)
    case (Inl e)
    then show ?thesis using r by (simp add: parse_params.simps)
  next
    case (Inr pl)
    obtain p left' where pl: "pl = (p, left')" by fastforce
    have "\<exists>q. parse_params hc left' (ps @ [p]) = Done q"
      using less.hyps [of left' "ps @ [p]"] parse_param_shorter [of hc left p left'] r Inr pl by simp
    then show ?thesis using r Inr pl by (simp add: parse_params.simps [of hc left ps])
  qed
qed

lemma utf8_two_scalar: "utf8_two a b = Some n \<Longrightarrow> a < 224 \<Longrightarrow> is_scalar n"
proof -
  assume "utf8_two a b = Some n" and "a < 224"
  then have "n < 32 * 64" by (auto simp: utf8_two_def is_continuation_def split: if_splits)
  then show ?thesis by (simp add: is_scalar_def)
qed

lemma utf8_more_scalar:
  "utf8_three a b c = Some n \<Longrightarrow> is_scalar n"
  "utf8_four a b c d = Some n \<Longrightarrow> is_scalar n"
  by (simp_all add: utf8_three_def utf8_four_def Let_def split: if_splits)

lemma utf8_decode_scalar: "utf8_decode bs = Some s \<Longrightarrow> list_all is_scalar s"
proof (induction "length bs" arbitrary: bs s rule: less_induct)
  case less
  show ?case
  proof (cases bs)
    case Nil
    then show ?thesis using less.prems by simp
  next
    case (Cons a r)
    note IH = less.hyps [unfolded Cons]
    have dec: "utf8_decode (a # r) = Some s" using less.prems Cons by simp
    consider "a < 128" | "194 \<le> a" "a < 224" | "224 \<le> a" "a < 240" | "240 \<le> a" "a < 245"
      using dec by (auto split: if_splits)
    then show ?thesis
    proof cases
      case 1
      then obtain t where "utf8_decode r = Some t" "s = a # t" using dec by auto
      then show ?thesis using IH [of r t] 1 by (simp add: is_scalar_def)
    next
      case 2
      then obtain b r' n t where "r = b # r'" "utf8_two a b = Some n" "utf8_decode r' = Some t" "s = n # t"
        using dec by (auto simp: bind_eq_Some_conv split: list.splits)
      then show ?thesis using IH [of r' t] utf8_two_scalar 2 by simp
    next
      case 3
      then obtain b c r' n t where "r = b # c # r'" "utf8_three a b c = Some n" "utf8_decode r' = Some t" "s = n # t"
        using dec by (auto simp: bind_eq_Some_conv split: list.splits)
      then show ?thesis using IH [of r' t] utf8_more_scalar(1) by simp
    next
      case 4
      then obtain b c d r' n t where
        "r = b # c # d # r'" "utf8_four a b c d = Some n" "utf8_decode r' = Some t" "s = n # t"
        using dec by (auto simp: bind_eq_Some_conv split: list.splits)
      then show ?thesis using IH [of r' t] utf8_more_scalar(2) by simp
    qed
  qed
qed

lemma from_raw_total: "\<exists>r. from_raw hc hv = Done r"
proof (cases "utf8_decode hv")
  case None
  then show ?thesis by (simp add: from_raw_def)
next
  case (Some t)
  obtain d left where d: "split_once_and_trim (trim t) SEMI = (d, left)" by fastforce
  have "list_all is_scalar left"
    using split_trim_set [OF d] trim_set [of t] utf8_decode_scalar [OF Some] by (auto simp: list_all_iff)
  from parse_params_total [OF this, of hc "[]"] obtain r where "parse_params hc left [] = Done r" by blast
  then show ?thesis using Some d by (cases r) (simp_all add: from_raw_def)
qed

text \<open>
  C30: Parsing a raw \<open>Content-Disposition\<close> value never panics, whatever bytes the server sent: the
  loop over the bytes of a quoted string always stops at a character boundary, and the bytes it
  collected are always valid, as the comment in the code says. A quoted string is read by its
  characters: a backslash makes the next one literal and the first other quote ends it.
\<close>

theorem content_disposition_parsing_is_total:
  assumes "list_all is_scalar s"
  shows "(\<exists>r. from_raw hc hv = Done r) \<and> (\<exists>r. header_decode hc hvs = Done r)
    \<and> regular_value (DQUOTE # s) = Done (case quoted_chars False [] s of
        None \<Rightarrow> Inl invalid_parameter
      | Some (v, rest) \<Rightarrow> Inr (v, trim_start (snd (cd_split_once rest SEMI))))"
proof -
  have "\<exists>r. header_decode hc hvs = Done r"
  proof (cases hvs)
    case (Cons hv rest)
    obtain r where "from_raw hc hv = Done r" using from_raw_total by blast
    then show ?thesis using Cons by (simp add: header_decode_def)
  qed (simp add: header_decode_def)
  then show ?thesis using from_raw_total regular_value_quoted [OF assms] by blast
qed

theorem content_disposition_parsing_is_total_witness:
  "(\<exists>r. from_raw \<lparr>hc_lang_parse = Some, hc_lang_show = (\<lambda>s. s), hc_percent_encode = (\<lambda>P s. s),
        hc_percent_decode = (\<lambda>s. s), hc_replace_class = escape_class\<rparr> [97, 59, 128] = Done r)
   \<and> regular_value (DQUOTE # [97, 92, 34, 8364, 34, 32, 59, 98]) = Done (Inr ([97, 34, 8364], [98]))"
  using content_disposition_parsing_is_total [of "[97, 92, 34, 8364, 34, 32, 59, 98]"
      "\<lparr>hc_lang_parse = Some, hc_lang_show = (\<lambda>s. s), hc_percent_encode = (\<lambda>P s. s),
        hc_percent_decode = (\<lambda>s. s), hc_replace_class = escape_class\<rparr>" "[97, 59, 128]" "[]"]
  by (simp add: is_scalar_def BACKSLASH_def DQUOTE_def SEMI_def cd_split_once_def trim_start_def is_whitespace_def)

section \<open>Displaying and parsing again\<close>

definition well_formed_type :: "disposition_type \<Rightarrow> bool" where
  "well_formed_type d =
     (case d of
        Ext s \<Rightarrow> trimmed s \<and> SEMI \<notin> set s \<and> list_all is_scalar s \<and> disposition_type_from s = Ext s
      | _ \<Rightarrow> True)"

definition well_formed_ext :: "'l extended_value \<Rightarrow> bool" where
  "well_formed_ext e \<longleftrightarrow>
     QUOTE \<notin> set (ev_charset e) \<and> SEMI \<notin> set (ev_charset e) \<and> list_all is_scalar (ev_charset e)
     \<and> (ev_charset e = [] \<or> \<not> is_whitespace (hd (ev_charset e))) \<and> list_all (\<lambda>b. b < 256) (ev_value e)"

definition well_formed_name :: "rstr \<Rightarrow> bool" where
  "well_formed_name n \<longleftrightarrow>
     n \<noteq> [] \<and> \<not> is_whitespace (hd n) \<and> EQUALS \<notin> set n \<and> list_all is_scalar n
     \<and> \<not> eq_ignore_ascii_case n (lit ''filename'')"

text \<open>
  The parameters a display can show: an unquoted \<open>Name\<close> has to be a token, the names of the others
  must not be those of the known parameters.
\<close>

definition well_formed_param :: "'l disposition_param \<Rightarrow> bool" where
  "well_formed_param p =
     (case p of
        Name v \<Rightarrow> trimmed v \<and> SEMI \<notin> set v \<and> hd v \<noteq> DQUOTE \<and> list_all is_scalar v
      | Filename v \<Rightarrow> list_all is_scalar v
      | Unknown n v \<Rightarrow> well_formed_name n \<and> last n \<noteq> STAR \<and> \<not> is_whitespace (last n)
          \<and> \<not> eq_ignore_ascii_case n (lit ''name'') \<and> list_all is_scalar v
      | FilenameExt e \<Rightarrow> well_formed_ext e
      | UnknownExt n e \<Rightarrow> well_formed_name n \<and> well_formed_ext e)"

definition well_formed_disposition :: "'l content_disposition \<Rightarrow> bool" where
  "well_formed_disposition cd \<longleftrightarrow>
     well_formed_type (cd_disposition cd) \<and> list_all well_formed_param (cd_parameters cd)"

lemmas header_chars = SEMI_def EQUALS_def STAR_def DQUOTE_def BACKSLASH_def QUOTE_def

lemma quoted_chars_escaped:
  "quoted_chars False v (escape_class escaped_in_quotes s @ DQUOTE # r) = Some (v @ s, r)"
  by (induction s arbitrary: v) (auto simp: escape_class_def escaped_in_quotes_def header_chars)

lemma escape_scalar: "list_all is_scalar s \<Longrightarrow> list_all is_scalar (escape_class P s)"
  by (induction s) (auto simp: escape_class_def is_scalar_def header_chars)

definition shown_tail :: "'l header_crates \<Rightarrow> 'l disposition_param list \<Rightarrow> rstr" where
  "shown_tail hc ps = concat (map (\<lambda>p. lit ''; '' @ disposition_param_display hc p) ps)"

definition shown_rest :: "'l header_crates \<Rightarrow> 'l disposition_param list \<Rightarrow> rstr" where
  "shown_rest hc ps =
     (case ps of [] \<Rightarrow> [] | p # qs \<Rightarrow> disposition_param_display hc p @ shown_tail hc qs)"

lemma shown_tail_Cons:
  "shown_tail hc (p # ps) = SEMI # 32 # disposition_param_display hc p @ shown_tail hc ps"
  by (simp add: shown_tail_def lit_def SEMI_def)

lemma well_formed_param_shown:
  assumes "well_formed_param p"
  shows "disposition_param_display hc p \<noteq> [] \<and> \<not> is_whitespace (hd (disposition_param_display hc p))"
  using assms
  by (cases p)
    (simp_all add: disposition_param_display_def lit_def is_whitespace_def well_formed_param_def well_formed_name_def)

lemma trim_rest:
  assumes "list_all well_formed_param ps"
  shows "trim_start (snd (cd_split_once (shown_tail hc ps) SEMI)) = shown_rest hc ps"
proof (cases ps)
  case Nil
  then show ?thesis by (simp add: shown_tail_def shown_rest_def cd_split_once_def trim_start_def)
next
  case (Cons p qs)
  then have p: "disposition_param_display hc p \<noteq> []" "\<not> is_whitespace (hd (disposition_param_display hc p))"
    using well_formed_param_shown assms by auto
  have "cd_split_once (shown_tail hc ps) SEMI = ([], 32 # disposition_param_display hc p @ shown_tail hc qs)"
    unfolding Cons shown_tail_Cons by (simp add: cd_split_once_def)
  moreover have "trim_start (32 # disposition_param_display hc p @ shown_tail hc qs)
      = trim_start (disposition_param_display hc p @ shown_tail hc qs)"
    by (simp add: trim_start_def is_whitespace_def)
  moreover have "\<dots> = disposition_param_display hc p @ shown_tail hc qs"
    using p by (intro trim_start_id) simp
  ultimately show ?thesis by (simp add: Cons shown_rest_def)
qed

lemma split_rest:
  assumes "SEMI \<notin> set a" and "a = [] \<or> \<not> is_whitespace (last a)" and "list_all well_formed_param ps"
  shows "split_once_and_trim (a @ shown_tail hc ps) SEMI = (a, shown_rest hc ps)"
proof (cases ps)
  case Nil
  then have "a @ shown_tail hc ps = a" "shown_rest hc ps = []" by (simp_all add: shown_tail_def shown_rest_def)
  then show ?thesis using cd_split_none [OF assms(1)] trim_end_id [OF assms(2)]
    by (simp add: split_once_and_trim_def trim_start_def)
next
  case (Cons p qs)
  have "cd_split_once (a @ shown_tail hc ps) SEMI = (a, snd (cd_split_once (shown_tail hc ps) SEMI))"
    using cd_split_here [OF assms(1)] by (simp add: Cons shown_tail_Cons cd_split_once_def)
  then show ?thesis using trim_rest [OF assms(3)] trim_end_id [OF assms(2)] by (simp add: split_once_and_trim_def)
qed

lemma split_equals:
  assumes "EQUALS \<notin> set n" and "n = [] \<or> \<not> is_whitespace (last n)" and "r = [] \<or> \<not> is_whitespace (hd r)"
  shows "split_once_and_trim (n @ EQUALS # r) EQUALS = (n, r)"
  using cd_split_here [OF assms(1)] trim_end_id [OF assms(2)] trim_start_id [OF assms(3)]
  by (simp add: split_once_and_trim_def)

subsection \<open>Extended values\<close>

definition tag_shown :: "'l header_crates \<Rightarrow> 'l extended_value \<Rightarrow> rstr" where
  "tag_shown hc e = (case ev_language e of None \<Rightarrow> [] | Some l \<Rightarrow> hc_lang_show hc l)"

lemma extended_shown:
  "extended_value_display hc e
     = ev_charset e @ QUOTE # tag_shown hc e @ QUOTE # hc_percent_encode hc HTTP_VALUE (ev_value e)"
  by (simp add: extended_value_display_def tag_shown_def Let_def split: option.split)

lemma tag_plain:
  assumes "header_laws hc"
  shows "\<forall>c \<in> set (tag_shown hc e). tag_char c"
  using assms by (auto simp: tag_shown_def header_laws_def list_all_iff split: option.split)

lemma tag_char_plain: "tag_char c \<Longrightarrow> c < 128 \<and> c \<noteq> QUOTE \<and> c \<noteq> SEMI"
  by (auto simp: tag_char_def is_ascii_digit_def ascii_lower_def header_chars split: if_splits)

lemma encoded_char_plain: "percent_output HTTP_VALUE c \<Longrightarrow> c < 128 \<and> c \<noteq> SEMI \<and> \<not> is_whitespace c"
  by (auto simp: percent_output_def HTTP_VALUE_def is_ascii_digit_def is_whitespace_def lit_def SEMI_def)

lemma encoded_plain:
  assumes "header_laws hc" and "well_formed_ext e"
  shows "list_all (percent_output HTTP_VALUE) (hc_percent_encode hc HTTP_VALUE (ev_value e))
    \<and> hc_percent_decode hc (hc_percent_encode hc HTTP_VALUE (ev_value e)) = ev_value e"
proof -
  have "HTTP_VALUE 37" by (simp add: HTTP_VALUE_def lit_def)
  then show ?thesis using assms unfolding header_laws_def well_formed_ext_def by blast
qed

lemma parse_extended_shown:
  assumes "header_laws hc" and "well_formed_ext e"
  shows "parse_extended_value hc (extended_value_display hc e) = Inr e"
proof -
  let ?v = "hc_percent_encode hc HTTP_VALUE (ev_value e)"
  have "QUOTE \<notin> set (ev_charset e)" using assms(2) by (simp add: well_formed_ext_def)
  moreover have "QUOTE \<notin> set (tag_shown hc e)" using tag_plain [OF assms(1), of e] tag_char_plain by blast
  moreover have "split_once (\<lambda>c. c = QUOTE) (a @ QUOTE # b) = Some (a, b)" if "QUOTE \<notin> set a" for a b
    by (rule split_once_here) (use that in auto)
  ultimately have "splitn_3 QUOTE (extended_value_display hc e) = [ev_charset e, tag_shown hc e, ?v]"
    by (simp add: extended_shown splitn_3_def)
  moreover have "(if tag_shown hc e = [] then Some None else map_option Some (hc_lang_parse hc (tag_shown hc e)))
      = Some (ev_language e)"
    using assms(1) by (cases "ev_language e") (simp_all add: tag_shown_def header_laws_def)
  moreover have "utf8_encode ?v = ?v"
    using encoded_plain [OF assms] encoded_char_plain by (intro utf8_encode_ascii) (auto simp: list_all_iff)
  ultimately show ?thesis using encoded_plain [OF assms] by (simp add: parse_extended_value_def)
qed

lemma extended_shown_plain:
  assumes "header_laws hc" and "well_formed_ext e"
  shows "SEMI \<notin> set (extended_value_display hc e) \<and> extended_value_display hc e \<noteq> []
    \<and> \<not> is_whitespace (hd (extended_value_display hc e))
    \<and> \<not> is_whitespace (last (extended_value_display hc e))
    \<and> list_all is_scalar (extended_value_display hc e)"
proof -
  let ?v = "hc_percent_encode hc HTTP_VALUE (ev_value e)"
  have v: "\<forall>c \<in> set ?v. c < 128 \<and> c \<noteq> SEMI \<and> \<not> is_whitespace c"
    using encoded_plain [OF assms] encoded_char_plain by (auto simp: list_all_iff)
  have t: "\<forall>c \<in> set (tag_shown hc e). c < 128 \<and> c \<noteq> SEMI" using tag_plain [OF assms(1)] tag_char_plain by blast
  have "SEMI \<notin> set (extended_value_display hc e)"
    using v t assms(2) by (auto simp: extended_shown well_formed_ext_def header_chars)
  moreover have "\<not> is_whitespace (hd (extended_value_display hc e))"
    using assms(2) by (cases "ev_charset e") (auto simp: extended_shown well_formed_ext_def is_whitespace_def QUOTE_def)
  moreover have "\<not> is_whitespace (last (extended_value_display hc e))"
    using v last_in_set [of ?v] by (cases "?v = []") (simp_all add: extended_shown is_whitespace_def [of 39] QUOTE_def)
  moreover have "list_all is_scalar (extended_value_display hc e)"
    using v t assms(2) by (auto simp: extended_shown well_formed_ext_def list_all_iff is_scalar_def QUOTE_def)
  ultimately show ?thesis by (simp add: extended_shown)
qed

subsection \<open>Parameters\<close>

lemma parse_shown_extended:
  assumes "header_laws hc" and "well_formed_ext e" and "list_all well_formed_param ps"
    and "EQUALS \<notin> set n" and "n \<noteq> []"
  shows "parse_param hc (n @ lit ''*='' @ extended_value_display hc e @ shown_tail hc ps)
    = Done (Inr (extended_param n e, shown_rest hc ps))"
proof -
  note x = extended_shown_plain [OF assms(1,2)]
  have "split_once_and_trim ((n @ [STAR]) @ EQUALS # extended_value_display hc e @ shown_tail hc ps) EQUALS
      = (n @ [STAR], extended_value_display hc e @ shown_tail hc ps)"
    using assms(4) x by (intro split_equals) (simp_all add: header_chars is_whitespace_def)
  moreover have "n @ lit ''*='' @ extended_value_display hc e @ shown_tail hc ps
      = (n @ [STAR]) @ EQUALS # extended_value_display hc e @ shown_tail hc ps"
    by (simp add: lit_def header_chars)
  moreover have "split_once_and_trim (extended_value_display hc e @ shown_tail hc ps) SEMI
      = (extended_value_display hc e, shown_rest hc ps)"
    using x by (intro split_rest [OF _ _ assms(3)]) simp_all
  ultimately show ?thesis using assms(5) x parse_extended_shown [OF assms(1,2)]
    by (simp add: parse_param_def strip_suffix_def)
qed

lemma parse_shown_quoted:
  assumes "header_laws hc" and "list_all is_scalar v" and "list_all well_formed_param ps"
    and "EQUALS \<notin> set n" and "n \<noteq> []" and "\<not> is_whitespace (last n)" and "last n \<noteq> STAR"
    and "list_all is_scalar (shown_tail hc ps)"
  shows "parse_param hc (n @ EQUALS # DQUOTE # hc_replace_class hc escaped_in_quotes v @ DQUOTE # shown_tail hc ps)
    = Done (Inr (regular_param n v, shown_rest hc ps))"
proof -
  let ?q = "escape_class escaped_in_quotes v @ DQUOTE # shown_tail hc ps"
  have q: "hc_replace_class hc escaped_in_quotes v = escape_class escaped_in_quotes v"
    using assms(1) by (simp add: header_laws_def)
  have "split_once_and_trim (n @ EQUALS # DQUOTE # ?q) EQUALS = (n, DQUOTE # ?q)"
    using assms(4,6) by (intro split_equals) (simp_all add: DQUOTE_def is_whitespace_def)
  moreover have "list_all is_scalar ?q"
    using escape_scalar [OF assms(2)] assms(8) by (simp add: is_scalar_def [of 34] DQUOTE_def)
  then have "regular_value (DQUOTE # ?q) = Done (Inr (v, shown_rest hc ps))"
    using quoted_chars_escaped [of "[]" v "shown_tail hc ps"] trim_rest [OF assms(3)]
    by (simp add: regular_value_quoted)
  ultimately show ?thesis using assms(5,7) q by (auto simp: parse_param_def strip_suffix_def)
qed

lemma parse_shown_token:
  assumes "trimmed v" and "SEMI \<notin> set v" and "hd v \<noteq> DQUOTE" and "list_all well_formed_param ps"
  shows "parse_param hc (lit ''name='' @ v @ shown_tail hc ps) = Done (Inr (Name v, shown_rest hc ps))"
proof -
  have v: "v \<noteq> []" "\<not> is_whitespace (hd v)" "\<not> is_whitespace (last v)" using assms(1) by (simp_all add: trimmed_def)
  have "split_once_and_trim (lit ''name'' @ EQUALS # v @ shown_tail hc ps) EQUALS = (lit ''name'', v @ shown_tail hc ps)"
    using v by (intro split_equals) (simp_all add: lit_def EQUALS_def is_whitespace_def [of "_::nat"])
  moreover have "split_once_and_trim (v @ shown_tail hc ps) SEMI = (v, shown_rest hc ps)"
    using v by (intro split_rest [OF assms(2) _ assms(4)]) simp
  then have "regular_value (v @ shown_tail hc ps) = Done (Inr (v, shown_rest hc ps))"
    using v assms(3) by (simp add: regular_value_def)
  moreover have "lit ''name='' @ v @ shown_tail hc ps = lit ''name'' @ EQUALS # v @ shown_tail hc ps"
    by (simp add: lit_def EQUALS_def)
  ultimately show ?thesis using v(1)
    by (simp add: parse_param_def strip_suffix_def lit_def STAR_def regular_param_def eq_ignore_ascii_case_def)
qed

lemma param_scalar:
  assumes "header_laws hc" and "well_formed_param p"
  shows "list_all is_scalar (disposition_param_display hc p)"
proof -
  have q: "list_all is_scalar (hc_replace_class hc escaped_in_quotes v)" if "list_all is_scalar v" for v
    using assms(1) escape_scalar [OF that] by (simp add: header_laws_def)
  have c: "is_scalar c" if "c < 128" for c using that by (simp add: is_scalar_def)
  show ?thesis using assms q extended_shown_plain [OF assms(1)]
    by (cases p)
      (simp_all add: disposition_param_display_def well_formed_param_def well_formed_name_def lit_def c DQUOTE_def)
qed

lemma tail_scalar:
  assumes "header_laws hc" and "list_all well_formed_param ps"
  shows "list_all is_scalar (shown_tail hc ps)"
  using assms(2)
proof (induction ps)
  case (Cons p ps)
  then show ?case using param_scalar [OF assms(1), of p]
    by (simp add: shown_tail_Cons is_scalar_def [of 32] is_scalar_def [of 59] SEMI_def)
qed (simp add: shown_tail_def)

lemma filename_plain:
  "EQUALS \<notin> set (lit ''filename'')" "lit ''filename'' \<noteq> []"
  "\<not> is_whitespace (last (lit ''filename''))" "last (lit ''filename'') \<noteq> STAR"
  "eq_ignore_ascii_case (lit ''filename'') (lit ''filename'')"
  "\<not> eq_ignore_ascii_case (lit ''filename'') (lit ''name'')"
  by (simp_all add: lit_def EQUALS_def STAR_def is_whitespace_def eq_ignore_ascii_case_def to_ascii_lowercase_def)

lemma parse_shown_param:
  assumes "header_laws hc" and "well_formed_param p" and "list_all well_formed_param ps"
  shows "parse_param hc (disposition_param_display hc p @ shown_tail hc ps) = Done (Inr (p, shown_rest hc ps))"
proof (cases p)
  case (Name v)
  then show ?thesis using parse_shown_token [of v ps hc] assms
    by (simp add: disposition_param_display_def well_formed_param_def)
next
  case (Filename v)
  have "disposition_param_display hc p @ shown_tail hc ps
      = lit ''filename'' @ EQUALS # DQUOTE # hc_replace_class hc escaped_in_quotes v @ DQUOTE # shown_tail hc ps"
    by (simp add: Filename disposition_param_display_def lit_def EQUALS_def)
  moreover have "list_all is_scalar v" using assms(2) Filename by (simp add: well_formed_param_def)
  ultimately show ?thesis
    using parse_shown_quoted [OF assms(1) _ assms(3) filename_plain(1-4) tail_scalar [OF assms(1,3)]] filename_plain Filename
    by (simp add: regular_param_def)
next
  case (Unknown n v)
  have w: "well_formed_name n" "last n \<noteq> STAR" "\<not> is_whitespace (last n)"
    "\<not> eq_ignore_ascii_case n (lit ''name'')" "list_all is_scalar v"
    using assms(2) Unknown by (simp_all add: well_formed_param_def)
  have "disposition_param_display hc p @ shown_tail hc ps
      = n @ EQUALS # DQUOTE # hc_replace_class hc escaped_in_quotes v @ DQUOTE # shown_tail hc ps"
    by (simp add: Unknown disposition_param_display_def lit_def EQUALS_def)
  then show ?thesis
    using parse_shown_quoted [OF assms(1) w(5) assms(3) _ _ w(3,2) tail_scalar [OF assms(1,3)]] w(1,4) Unknown
    by (simp add: well_formed_name_def regular_param_def)
next
  case (FilenameExt e)
  have "disposition_param_display hc p @ shown_tail hc ps
      = lit ''filename'' @ lit ''*='' @ extended_value_display hc e @ shown_tail hc ps"
    by (simp add: FilenameExt disposition_param_display_def lit_def)
  moreover have "well_formed_ext e" using assms(2) FilenameExt by (simp add: well_formed_param_def)
  ultimately show ?thesis
    using parse_shown_extended [OF assms(1) _ assms(3) filename_plain(1,2)] filename_plain(5) FilenameExt
    by (simp add: extended_param_def)
next
  case (UnknownExt n e)
  then have w: "well_formed_name n" "well_formed_ext e" using assms(2) by (simp_all add: well_formed_param_def)
  then show ?thesis using parse_shown_extended [OF assms(1) w(2) assms(3), of n] UnknownExt
    by (simp add: well_formed_name_def extended_param_def disposition_param_display_def)
qed

lemma parse_shown_params:
  assumes "header_laws hc" and "list_all well_formed_param ps"
  shows "parse_params hc (shown_rest hc ps) acc = Done (Inr (acc @ ps))"
  using assms(2)
proof (induction ps arbitrary: acc)
  case Nil
  then show ?case by (simp add: shown_rest_def parse_params.simps)
next
  case (Cons p ps)
  have "shown_rest hc (p # ps) = disposition_param_display hc p @ shown_tail hc ps" by (simp add: shown_rest_def)
  moreover have "disposition_param_display hc p \<noteq> []" using well_formed_param_shown Cons.prems by auto
  ultimately show ?case using parse_shown_param [OF assms(1), of p ps] Cons
    by (simp add: parse_params.simps [of hc "disposition_param_display hc p @ shown_tail hc ps"])
qed

subsection \<open>The whole value\<close>

lemma shown_type:
  assumes "well_formed_type d"
  shows "trimmed (disposition_type_display d) \<and> SEMI \<notin> set (disposition_type_display d)
    \<and> list_all is_scalar (disposition_type_display d) \<and> disposition_type_from (disposition_type_display d) = d"
  using assms
  by (cases d)
    (simp_all add: well_formed_type_def disposition_type_display_def trimmed_def lit_def is_whitespace_def SEMI_def
      is_scalar_def disposition_type_from_def eq_ignore_ascii_case_def to_ascii_lowercase_def ascii_lower_def)

lemma param_shown_end:
  assumes "header_laws hc" and "well_formed_param p"
  shows "\<not> is_whitespace (last (disposition_param_display hc p))"
proof -
  have "\<not> is_whitespace DQUOTE" by (simp add: DQUOTE_def is_whitespace_def)
  then show ?thesis using assms extended_shown_plain [OF assms(1)]
    by (cases p) (auto simp: disposition_param_display_def well_formed_param_def trimmed_def)
qed

lemma tail_end:
  assumes "header_laws hc" and "list_all well_formed_param ps" and "ps \<noteq> []"
  shows "shown_tail hc ps \<noteq> [] \<and> \<not> is_whitespace (last (shown_tail hc ps))"
  using assms(2,3)
proof (induction ps)
  case (Cons p ps)
  then have p: "disposition_param_display hc p \<noteq> []" "\<not> is_whitespace (last (disposition_param_display hc p))"
    using well_formed_param_shown [of p hc] param_shown_end [OF assms(1), of p] by auto
  show ?case
  proof (cases "ps = []")
    case True
    then show ?thesis using p by (simp add: shown_tail_Cons) (simp add: shown_tail_def)
  next
    case False
    then show ?thesis using Cons by (simp add: shown_tail_Cons)
  qed
qed simp

lemma trim_shown:
  assumes "header_laws hc" and "list_all well_formed_param ps" and "trimmed a"
  shows "trim (a @ shown_tail hc ps) = a @ shown_tail hc ps"
proof (cases "ps = []")
  case True
  then show ?thesis using assms(3) by (simp add: shown_tail_def trimmed_def trim_id)
next
  case False
  then show ?thesis using tail_end [OF assms(1,2)] assms(3) by (intro trim_id) (simp_all add: trimmed_def)
qed

text \<open>
  C29: What is displayed parses to the same header: the bytes of a displayed \<open>Content-Disposition\<close> are
  parsed to the very type and parameters, file names with any characters included, quotes,
  backslashes and semicolons too. The exceptions are the headers the display cannot show: an
  unquoted \<open>Name\<close> that is not a token, a name that is taken for another parameter.
\<close>

theorem content_disposition_roundtrip:
  assumes "header_laws hc" and "well_formed_disposition cd"
  shows "from_raw hc (utf8_encode (content_disposition_display hc cd)) = Done (Inr cd)"
proof -
  let ?d = "disposition_type_display (cd_disposition cd)" and ?ps = "cd_parameters cd"
  have ps: "list_all well_formed_param ?ps" and d: "trimmed ?d" "SEMI \<notin> set ?d" "list_all is_scalar ?d"
    "disposition_type_from ?d = cd_disposition cd"
    using assms(2) shown_type by (simp_all add: well_formed_disposition_def)
  have show_cd: "content_disposition_display hc cd = ?d @ shown_tail hc ?ps"
    by (simp add: content_disposition_display_def shown_tail_def)
  have "utf8_decode (utf8_encode (?d @ shown_tail hc ?ps)) = Some (?d @ shown_tail hc ?ps)"
    using d(3) tail_scalar [OF assms(1) ps] by (intro utf8_decode_encode) simp
  moreover have "split_once_and_trim (?d @ shown_tail hc ?ps) SEMI = (?d, shown_rest hc ?ps)"
    using d(1) by (intro split_rest [OF d(2) _ ps]) (simp add: trimmed_def)
  moreover have "?d \<noteq> []" using d(1) by (simp add: trimmed_def)
  ultimately show ?thesis
    using trim_shown [OF assms(1) ps d(1)] parse_shown_params [OF assms(1) ps, of "[]"] d(4)
    by (simp add: from_raw_def show_cd del: utf8_encode_simps)
qed

text \<open>The crates' documented behaviour written out, with one language, and the laws for it.\<close>

definition hex_digit :: "nat \<Rightarrow> nat" where
  "hex_digit n = (if n < 10 then 48 + n else 55 + n)"

definition hex_value :: "nat \<Rightarrow> nat option" where
  "hex_value c =
     (if is_ascii_digit c then Some (c - 48)
      else if 65 \<le> c \<and> c \<le> 70 then Some (c - 55)
      else if 97 \<le> c \<and> c \<le> 102 then Some (c - 87) else None)"

fun percent_encoded :: "(nat \<Rightarrow> bool) \<Rightarrow> nat list \<Rightarrow> rstr" where
  "percent_encoded P [] = []"
| "percent_encoded P (b # v) =
     (if 128 \<le> b \<or> P b then [37, hex_digit (b div 16), hex_digit (b mod 16)] else [b]) @ percent_encoded P v"

fun percent_decoded :: "nat list \<Rightarrow> nat list" where
  "percent_decoded [] = []"
| "percent_decoded (c # s) =
     (if c = 37 then
        (case s of
           h # l # r \<Rightarrow>
             (case (hex_value h, hex_value l) of
                (Some x, Some y) \<Rightarrow> (16 * x + y) # percent_decoded r
              | _ \<Rightarrow> c # percent_decoded s)
         | _ \<Rightarrow> c # percent_decoded s)
      else c # percent_decoded s)"

definition some_crates :: "unit header_crates" where
  "some_crates = \<lparr>hc_lang_parse = (\<lambda>s. if s = lit ''en'' then Some () else None),
     hc_lang_show = (\<lambda>l. lit ''en''), hc_percent_encode = percent_encoded,
     hc_percent_decode = percent_decoded, hc_replace_class = escape_class\<rparr>"

lemma hex_value_digit: "n < 16 \<Longrightarrow> hex_value (hex_digit n) = Some n"
  by (auto simp: hex_value_def hex_digit_def is_ascii_digit_def)

lemma hex_digit_output: "n < 16 \<Longrightarrow> percent_output P (hex_digit n)"
  by (auto simp: hex_digit_def percent_output_def is_ascii_digit_def)

lemma percent_encoded_ok:
  "list_all (\<lambda>b. b < 256) v \<Longrightarrow> P 37 \<Longrightarrow>
    list_all (percent_output P) (percent_encoded P v) \<and> percent_decoded (percent_encoded P v) = v"
proof (induction v)
  case (Cons b v)
  have "b < 16 * 16" using Cons.prems by simp
  then have b: "b div 16 < 16" "b mod 16 < 16" "16 * (b div 16) + b mod 16 = b"
    using less_mult_imp_div_less [of b 16 16] by simp_all
  show ?case
  proof (cases "128 \<le> b \<or> P b")
    case True
    then show ?thesis using Cons b hex_digit_output [OF b(1)] hex_digit_output [OF b(2)]
      by (simp add: hex_value_digit percent_output_def [of _ 37])
  next
    case False
    then have "b \<noteq> 37" using Cons.prems by auto
    then show ?thesis using Cons False by (simp add: percent_output_def [of _ b])
  qed
qed simp

lemma some_crates_laws: "header_laws some_crates"
  using percent_encoded_ok
  by (simp add: header_laws_def some_crates_def lit_def tag_char_def ascii_lower_def is_ascii_digit_def)

theorem content_disposition_roundtrip_witness:
  "from_raw some_crates (utf8_encode (lit ''attachment; name=n; filename='' @ [DQUOTE, 97, BACKSLASH, DQUOTE, 98, SEMI, 99, DQUOTE]
        @ lit ''; filename*=UTF-8'' @ [QUOTE] @ lit ''en'' @ [QUOTE] @ lit ''%C2%A3''))
    = Done (Inr \<lparr>cd_disposition = Attachment, cd_parameters =
        [Name (lit ''n''), Filename [97, DQUOTE, 98, SEMI, 99],
         FilenameExt \<lparr>ev_charset = lit ''UTF-8'', ev_language = Some (), ev_value = [194, 163]\<rparr>]\<rparr>)"
proof -
  let ?cd = "\<lparr>cd_disposition = Attachment, cd_parameters =
      [Name (lit ''n''), Filename [97, DQUOTE, 98, SEMI, 99],
       FilenameExt \<lparr>ev_charset = lit ''UTF-8'', ev_language = Some (), ev_value = [194, 163]\<rparr>]\<rparr>"
  have "well_formed_disposition ?cd"
    by (simp add: well_formed_disposition_def well_formed_type_def well_formed_param_def well_formed_ext_def
        trimmed_def lit_def is_whitespace_def is_scalar_def header_chars)
  moreover have "content_disposition_display some_crates ?cd
      = lit ''attachment; name=n; filename='' @ [DQUOTE, 97, BACKSLASH, DQUOTE, 98, SEMI, 99, DQUOTE]
        @ lit ''; filename*=UTF-8'' @ [QUOTE] @ lit ''en'' @ [QUOTE] @ lit ''%C2%A3''"
    by (simp add: content_disposition_display_def disposition_type_display_def disposition_param_display_def
        some_crates_def lit_def escape_class_def escaped_in_quotes_def header_chars extended_value_display_def
        Let_def hex_digit_def)
  ultimately show ?thesis using content_disposition_roundtrip [OF some_crates_laws, of ?cd] by simp
qed

end
