(* ===== verification/Adapters.thy ===== *)
theory Adapters
  imports Content_Disposition Http Task_Status
begin

text \<open>
  The two HTTP adapters (\<open>bolt-load-adapter/src/reqwest.rs\<close> and \<open>ureq2.rs\<close>) and the reader that
  turns a blocking body into a stream (\<open>bolt-load-utils/src/reader.rs\<close>). The HTTP clients are not
  part of the repository: what they answer to a request is the field \<open>send\<close> of the environment, and
  a response is what the adapter asks of it.
\<close>

section \<open>Requests and what the environment answers\<close>

record http_request =
  rq_method :: rstr
  rq_url :: rstr
  rq_headers :: "(rstr \<times> rstr) list"

definition HEAD :: rstr where "HEAD = lit ''HEAD''"
definition RANGE_HEADER :: rstr where "RANGE_HEADER = lit ''range''"
definition ACCEPT_ENCODING :: rstr where "ACCEPT_ENCODING = lit ''accept-encoding''"
definition ACCEPT_RANGES :: rstr where "ACCEPT_RANGES = lit ''accept-ranges''"
definition CONTENT_DISPOSITION :: rstr where "CONTENT_DISPOSITION = lit ''content-disposition''"
definition CONTENT_ENCODING :: rstr where "CONTENT_ENCODING = lit ''content-encoding''"
definition CONTENT_LENGTH :: rstr where "CONTENT_LENGTH = lit ''content-length''"
definition CONTENT_RANGE :: rstr where "CONTENT_RANGE = lit ''content-range''"
definition CONTENT_TYPE :: rstr where "CONTENT_TYPE = lit ''content-type''"
definition RETRY_AFTER :: rstr where "RETRY_AFTER = lit ''retry-after''"

text \<open>The value of the \<open>Range\<close> field both adapters send.\<close>

definition range_value :: "u64 \<Rightarrow> u64 \<Rightarrow> rstr" where
  "range_value first end = lit ''bytes='' @ show_u64 first @ lit ''-'' @ show_u64 (sub64 end 1)"

definition identity_request :: "rstr \<Rightarrow> rstr \<Rightarrow> rstr option \<Rightarrow> http_request" where
  "identity_request method url wanted =
     \<lparr>rq_method = method, rq_url = url,
      rq_headers = (case wanted of None \<Rightarrow> [] | Some v \<Rightarrow> [(RANGE_HEADER, v)])
        @ [(ACCEPT_ENCODING, lit ''identity'')]\<rparr>"

text \<open>The \<open>join(", ")\<close> of several field lines; \<open>None\<close> without one.\<close>

fun join_lines :: "rstr list \<Rightarrow> rstr" where
  "join_lines [] = []"
| "join_lines [v] = v"
| "join_lines (v # vs) = v @ lit '', '' @ join_lines vs"

definition joined :: "rstr list \<Rightarrow> rstr option" where
  "joined vs = (if vs = [] then None else Some (join_lines vs))"

text \<open>\<open>str::parse::<u64>\<close>, which also takes a leading plus sign.\<close>

definition u64_from_str :: "rstr \<Rightarrow> u64 option" where
  "u64_from_str s = (if s \<noteq> [] \<and> hd s = 43 then parse_u64 (tl s) else parse_u64 s)"

datatype io_kind =
    Unexpected_Eof | Connection_Reset | Connection_Aborted | Broken_Pipe | Timed_Out | Interrupted
  | Network_Down | Invalid_Data | Other_Kind

definition some_bytes_unit :: "rstr \<Rightarrow> bool" where
  "some_bytes_unit v \<longleftrightarrow> eq_ignore_ascii_case (trim v) (lit ''bytes'')"

section \<open>The reqwest adapter\<close>

datatype error_source = Hyper_Source | Io_Source io_kind | Other_Source

record reqwest_error =
  re_status :: "nat option"
  re_decode :: bool
  re_timeout :: bool
  re_builder :: bool
  re_body :: bool
  re_text :: rstr
  re_sources :: "error_source list"

record response =
  rs_status :: nat
  rs_all :: "rstr \<Rightarrow> nat list list"
  rs_content_length :: "u64 option"
  rs_body :: "(reqwest_error + chunk) poll list"

record 'l reqwest_env =
  rw_http_date :: "rstr \<Rightarrow> nat option"
  rw_now :: nat
  rw_crates :: "'l header_crates"
  rw_to_str :: "nat list \<Rightarrow> rstr option"
  rw_before_request :: "(http_request \<Rightarrow> http_request) option"
  rw_send :: "http_request \<Rightarrow> reqwest_error + response"

record context_of =
  cx_ranges :: bool
  cx_meta :: adapter_meta

record reqwest_adapter =
  rw_method :: rstr
  rw_url :: rstr
  rw_context :: "context_of option"

datatype content_size = Size_Content_Range u64 | Size_Content_Length u64 | Size_Unknown

fun content_size_to_u64 :: "content_size \<Rightarrow> u64 option" where
  "content_size_to_u64 (Size_Content_Range n) = Some n"
| "content_size_to_u64 (Size_Content_Length n) = Some n"
| "content_size_to_u64 Size_Unknown = None"

fun sources_undecodable :: "bool \<Rightarrow> error_source list \<Rightarrow> bool" where
  "sources_undecodable undecodable [] = undecodable"
| "sources_undecodable undecodable (Hyper_Source # es) = False"
| "sources_undecodable undecodable (Io_Source kind # es) =
     sources_undecodable (undecodable \<or> kind = Invalid_Data \<or> kind = Unexpected_Eof) es"
| "sources_undecodable undecodable (Other_Source # es) = sources_undecodable undecodable es"

definition is_undecodable :: "reqwest_error \<Rightarrow> bool" where
  "is_undecodable e \<longleftrightarrow>
     (if \<not> re_decode e \<or> re_timeout e then False else sources_undecodable False (re_sources e))"

definition from_reqwest_error :: "reqwest_error \<Rightarrow> adapter_error" where
  "from_reqwest_error e =
     (case re_status e of
        Some status \<Rightarrow> classify_status status None
      | None \<Rightarrow>
         if is_undecodable e then Unretryable (Body_Undecodable (re_text e))
         else if re_builder e \<or> re_body e then Unretryable (Unretryable_Io (re_text e))
         else Retryable (Retryable_Io (re_text e)))"

definition get_first :: "response \<Rightarrow> rstr \<Rightarrow> nat list option" where
  "get_first response name = (case rs_all response name of [] \<Rightarrow> None | v # _ \<Rightarrow> Some v)"

definition header :: "'l reqwest_env \<Rightarrow> response \<Rightarrow> rstr \<Rightarrow> rstr option" where
  "header env response name = Option.bind (get_first response name) (rw_to_str env)"

definition combined :: "response \<Rightarrow> rstr \<Rightarrow> rstr option" where
  "combined response name = joined (map utf8_lossy (rs_all response name))"

definition content_coding_of :: "response \<Rightarrow> rstr option" where
  "content_coding_of response =
     (case combined response CONTENT_ENCODING of
        None \<Rightarrow> None
      | Some value \<Rightarrow> if parse_list value \<noteq> [] then Some value else None)"

definition retry_after :: "'l reqwest_env \<Rightarrow> response \<Rightarrow> duration option" where
  "retry_after env response =
     Option.bind (header env response RETRY_AFTER) (\<lambda>v. parse_retry_after (rw_http_date env) v (rw_now env))"

definition check_status :: "'l reqwest_env \<Rightarrow> response \<Rightarrow> adapter_error + response" where
  "check_status env response =
     (if \<not> (400 \<le> rs_status response \<and> rs_status response < 600) then Inr response
      else Inl (classify_status (rs_status response) (retry_after env response)))"

definition check_range ::
  "'l reqwest_env \<Rightarrow> response \<Rightarrow> range \<Rightarrow> u64 option \<Rightarrow> adapter_error + content_range" where
  "check_range env response requested expected_total =
     validate_range_response (rs_status response)
       \<lparr>h_content_range = combined response CONTENT_RANGE,
        h_content_type = combined response CONTENT_TYPE,
        h_content_encoding = combined response CONTENT_ENCODING,
        h_retry_after = retry_after env response\<rparr>
       requested expected_total"

definition apply_before_request :: "'l reqwest_env \<Rightarrow> http_request \<Rightarrow> http_request" where
  "apply_before_request env request =
     (case rw_before_request env of Some f \<Rightarrow> f request | None \<Rightarrow> request)"

definition reqwest_send :: "'l reqwest_env \<Rightarrow> http_request \<Rightarrow> adapter_error + response" where
  "reqwest_send env request =
     (case rw_send env (apply_before_request env request) of
        Inl e \<Rightarrow> Inl (from_reqwest_error e)
      | Inr response \<Rightarrow> Inr response)"

definition perform_head :: "'l reqwest_env \<Rightarrow> reqwest_adapter \<Rightarrow> adapter_error + response" where
  "perform_head env a =
     (case reqwest_send env (identity_request HEAD (rw_url a) None) of
        Inl e \<Rightarrow> Inl e
      | Inr response \<Rightarrow> check_status env response)"

definition get_content_size :: "'l reqwest_env \<Rightarrow> response \<Rightarrow> content_size" where
  "get_content_size env response =
     (let from_range = Option.bind (header env response CONTENT_RANGE) (\<lambda>s.
            Option.bind (split_once (\<lambda>c. c = of_char (CHR ''/'')) s) (\<lambda>(_, end). u64_from_str end));
          from_length = (case rs_content_length response of
              Some n \<Rightarrow> if 0 < n then Some n
                else Option.bind (header env response CONTENT_LENGTH) u64_from_str
            | None \<Rightarrow> Option.bind (header env response CONTENT_LENGTH) u64_from_str);
          fallback = (case from_length of Some n \<Rightarrow> Size_Content_Length n | None \<Rightarrow> Size_Unknown)
      in case from_range of
           Some n \<Rightarrow> if 0 < n then Size_Content_Range n else fallback
         | None \<Rightarrow> fallback)"

definition suggested_by :: "'l header_crates \<Rightarrow> nat list option \<Rightarrow> rstr option run" where
  "suggested_by hc value =
     (case value of
        None \<Rightarrow> Done None
      | Some v \<Rightarrow>
         bind_run (from_raw hc v) (\<lambda>r. Done (case r of Inl _ \<Rightarrow> None | Inr cd \<Rightarrow> get_filename cd)))"

definition suggest_filename :: "'l reqwest_env \<Rightarrow> response \<Rightarrow> rstr option run" where
  "suggest_filename env response = suggested_by (rw_crates env) (get_first response CONTENT_DISPOSITION)"

definition fetch_remote_meta :: "'l reqwest_env \<Rightarrow> reqwest_adapter \<Rightarrow> (adapter_error + context_of) run" where
  "fetch_remote_meta env a =
     (case reqwest_send env (identity_request (rw_method a) (rw_url a) (Some (lit ''bytes=0-0''))) of
        Inl e \<Rightarrow> Done (Inl e)
      | Inr response \<Rightarrow>
         (let probed = (case check_range env response (Range 0 1) None of Inl _ \<Rightarrow> None | Inr g \<Rightarrow> Some g);
              probe_coding = content_coding_of response
          in case Option.bind probed cr_complete of
               Some n \<Rightarrow>
                 bind_run (suggest_filename env response) (\<lambda>f.
                   Done (Inr \<lparr>cx_ranges = True, cx_meta = with_filename (meta_new n) f\<rparr>))
             | None \<Rightarrow>
                (case perform_head env a of
                   Inl e \<Rightarrow> Done (Inl e)
                 | Inr head \<Rightarrow>
                    bind_run (suggest_filename env head) (\<lambda>f.
                      Done (Inr
                        \<lparr>cx_ranges = probed \<noteq> None
                           \<or> (case header env head ACCEPT_RANGES of None \<Rightarrow> False | Some v \<Rightarrow> some_bytes_unit v),
                         cx_meta =
                           with_content_encoding
                             (with_filename
                               (meta_new (case content_size_to_u64 (get_content_size env head) of
                                  Some n \<Rightarrow> n | None \<Rightarrow> 0)) f)
                             (case content_coding_of head of Some c \<Rightarrow> Some c | None \<Rightarrow> probe_coding)\<rparr>)))))"

text \<open>\<open>OnceCell::get_or_try_init\<close>: a failed request leaves the cell empty for the next one.\<close>

definition get_context ::
  "'l reqwest_env \<Rightarrow> reqwest_adapter \<Rightarrow> ((adapter_error + context_of) \<times> reqwest_adapter) run" where
  "get_context env a =
     (case rw_context a of
        Some c \<Rightarrow> Done (Inr c, a)
      | None \<Rightarrow>
         bind_run (fetch_remote_meta env a) (\<lambda>r.
           Done (r, case r of Inl _ \<Rightarrow> a | Inr c \<Rightarrow> a\<lparr>rw_context := Some c\<rparr>)))"

definition reqwest_retrieve_meta ::
  "'l reqwest_env \<Rightarrow> reqwest_adapter \<Rightarrow> ((adapter_error + adapter_meta) \<times> reqwest_adapter) run" where
  "reqwest_retrieve_meta env a =
     bind_run (get_context env a) (\<lambda>(r, a'). Done (map_sum id cx_meta r, a'))"

definition reqwest_ranges_available ::
  "'l reqwest_env \<Rightarrow> reqwest_adapter \<Rightarrow> (bool \<times> reqwest_adapter) run" where
  "reqwest_ranges_available env a =
     bind_run (get_context env a) (\<lambda>(r, a').
       Done (case r of Inl _ \<Rightarrow> False | Inr c \<Rightarrow> cx_ranges c, a'))"

fun reqwest_item :: "(reqwest_error + chunk) poll \<Rightarrow> stream_item poll" where
  "reqwest_item Poll_Pending = Poll_Pending"
| "reqwest_item (Poll_Ready r) = Poll_Ready (map_sum from_reqwest_error id r)"

definition reqwest_stream :: "response \<Rightarrow> byte_stream" where
  "reqwest_stream response = map reqwest_item (rs_body response)"

definition reqwest_full_stream :: "'l reqwest_env \<Rightarrow> reqwest_adapter \<Rightarrow> adapter_error + byte_stream" where
  "reqwest_full_stream env a =
     (case reqwest_send env (identity_request (rw_method a) (rw_url a) None) of
        Inl e \<Rightarrow> Inl e
      | Inr response0 \<Rightarrow>
         (case check_status env response0 of
            Inl e \<Rightarrow> Inl e
          | Inr response \<Rightarrow>
             (case check_content_coding (combined response CONTENT_ENCODING) (combined response CONTENT_TYPE) of
                Inl e \<Rightarrow> Inl e
              | Inr _ \<Rightarrow> Inr (reqwest_stream response))))"

definition known_total :: "u64 option \<Rightarrow> u64 option" where
  "known_total n = (case n of Some k \<Rightarrow> if 0 < k then Some k else None | None \<Rightarrow> None)"

definition reqwest_range_stream ::
  "'l reqwest_env \<Rightarrow> reqwest_adapter \<Rightarrow> u64 \<Rightarrow> u64 \<Rightarrow> adapter_error + range_body" where
  "reqwest_range_stream env a first end =
     (case reqwest_send env (identity_request (rw_method a) (rw_url a) (Some (range_value first end))) of
        Inl e \<Rightarrow> Inl e
      | Inr response \<Rightarrow>
         (case check_range env response (Range first end)
            (known_total (map_option (mt_content_size \<circ> cx_meta) (rw_context a))) of
            Inl e \<Rightarrow> Inl e
          | Inr got \<Rightarrow> Inr (limit_range_body (reqwest_stream response) got)))"

section \<open>Reading a blocking body\<close>

text \<open>
  \<open>CrossRuntimeStream\<close>: a blocking reader as a stream. What the reader's polls answer is a list; a
  read fills at most the buffer, \<open>Ok(0)\<close> is the end and an error does not end the stream.
\<close>

type_synonym read_error = "io_kind \<times> rstr"

record cross_runtime_stream =
  cs_reader :: "(read_error + chunk) poll list"
  cs_buffer :: usize

definition cross_runtime_poll ::
  "cross_runtime_stream \<Rightarrow> (read_error + chunk) option poll \<times> cross_runtime_stream" where
  "cross_runtime_poll s =
     (case stream_next (cs_reader s) of
        (Poll_Pending, reader) \<Rightarrow> (Poll_Pending, s\<lparr>cs_reader := reader\<rparr>)
      | (Poll_Ready None, reader) \<Rightarrow> (Poll_Ready None, s\<lparr>cs_reader := reader\<rparr>)
      | (Poll_Ready (Some (Inl e)), reader) \<Rightarrow> (Poll_Ready (Some (Inl e)), s\<lparr>cs_reader := reader\<rparr>)
      | (Poll_Ready (Some (Inr bytes)), reader) \<Rightarrow>
          if bytes = [] then (Poll_Ready None, s\<lparr>cs_reader := reader\<rparr>)
          else (Poll_Ready (Some (Inr bytes)), s\<lparr>cs_reader := reader\<rparr>))"

section \<open>The ureq adapter\<close>

record ureq_response =
  ur_status :: nat
  ur_header :: "rstr \<Rightarrow> rstr option"
  ur_all :: "rstr \<Rightarrow> rstr list"
  ur_reader :: "(read_error + chunk) poll list"

datatype ureq_error = Ureq_Transport rstr | Ureq_Status nat ureq_response

text \<open>
  What \<open>httpdate\<close> and the clock answer, \<open>HeaderValue::from_str\<close>, and the
  client: the closure set by \<open>call\<close>, or the agent itself.
\<close>

record 'l ureq_env =
  uw_http_date :: "rstr \<Rightarrow> nat option"
  uw_now :: nat
  uw_crates :: "'l header_crates"
  uw_header_value :: "rstr \<Rightarrow> nat list option"
  uw_before_request :: "(http_request \<Rightarrow> http_request) option"
  uw_call :: "(http_request \<Rightarrow> ureq_error + ureq_response) option"
  uw_agent :: "http_request \<Rightarrow> ureq_error + ureq_response"

record ureq_adapter =
  uw_method :: rstr
  uw_url :: rstr
  uw_head :: "ureq_response option"

definition ureq_retry_after :: "'l ureq_env \<Rightarrow> ureq_response \<Rightarrow> duration option" where
  "ureq_retry_after env response =
     Option.bind (ur_header response RETRY_AFTER) (\<lambda>v. parse_retry_after (uw_http_date env) v (uw_now env))"

fun from_ureq_error :: "'l ureq_env \<Rightarrow> ureq_error \<Rightarrow> adapter_error" where
  "from_ureq_error env (Ureq_Transport text) = Retryable (Retryable_Io text)"
| "from_ureq_error env (Ureq_Status status response) = classify_status status (ureq_retry_after env response)"

definition ureq_combined :: "ureq_response \<Rightarrow> rstr \<Rightarrow> rstr option" where
  "ureq_combined response name = joined (ur_all response name)"

definition ureq_check_range ::
  "'l ureq_env \<Rightarrow> ureq_response \<Rightarrow> range \<Rightarrow> u64 option \<Rightarrow> adapter_error + content_range" where
  "ureq_check_range env response requested expected_total =
     validate_range_response (ur_status response)
       \<lparr>h_content_range = ureq_combined response CONTENT_RANGE,
        h_content_type = ureq_combined response CONTENT_TYPE,
        h_content_encoding = ureq_combined response CONTENT_ENCODING,
        h_retry_after = ureq_retry_after env response\<rparr>
       requested expected_total"

fun any_status :: "ureq_error + ureq_response \<Rightarrow> ureq_error + ureq_response" where
  "any_status (Inl (Ureq_Status status response)) = Inr response"
| "any_status result = result"

definition ureq_before_request :: "'l ureq_env \<Rightarrow> http_request \<Rightarrow> http_request" where
  "ureq_before_request env request =
     (case uw_before_request env of Some f \<Rightarrow> f request | None \<Rightarrow> request)"

definition apply_call :: "'l ureq_env \<Rightarrow> http_request \<Rightarrow> ureq_error + ureq_response" where
  "apply_call env request = (case uw_call env of Some f \<Rightarrow> f request | None \<Rightarrow> uw_agent env request)"

definition ureq_map_err :: "'l ureq_env \<Rightarrow> ureq_error + 'a \<Rightarrow> adapter_error + 'a" where
  "ureq_map_err env r = map_sum (from_ureq_error env) id r"

definition ureq_perform_head :: "'l ureq_env \<Rightarrow> ureq_adapter \<Rightarrow> adapter_error + ureq_response" where
  "ureq_perform_head env a =
     ureq_map_err env (apply_call env (ureq_before_request env (identity_request HEAD (uw_url a) None)))"

text \<open>\<open>with_head\<close>: the response is kept for later calls; a failed request keeps nothing.\<close>

definition with_head ::
  "'l ureq_env \<Rightarrow> (ureq_response \<Rightarrow> 'a) \<Rightarrow> ureq_adapter \<Rightarrow> (adapter_error + 'a) \<times> ureq_adapter" where
  "with_head env f a =
     (case (case uw_head a of Some response \<Rightarrow> Inr response | None \<Rightarrow> ureq_perform_head env a) of
        Inl e \<Rightarrow> (Inl e, a\<lparr>uw_head := None\<rparr>)
      | Inr response \<Rightarrow> (Inr (f response), a\<lparr>uw_head := Some response\<rparr>))"

definition ureq_content_size :: "ureq_response \<Rightarrow> u64" where
  "ureq_content_size response =
     (case Option.bind (ur_header response CONTENT_LENGTH) u64_from_str of Some n \<Rightarrow> n | None \<Rightarrow> 0)"

definition ureq_suggest_filename :: "'l ureq_env \<Rightarrow> ureq_response \<Rightarrow> rstr option run" where
  "ureq_suggest_filename env response =
     suggested_by (uw_crates env) (Option.bind (ur_header response CONTENT_DISPOSITION) (uw_header_value env))"

definition body_error :: "read_error \<Rightarrow> adapter_error" where
  "body_error e =
     (case e of
        (Other_Kind, text) \<Rightarrow> Unretryable (Unretryable_Io text)
      | (Invalid_Data, text) \<Rightarrow> Unretryable (Body_Undecodable text)
      | (_, text) \<Rightarrow> Retryable (Retryable_Io text))"

text \<open>The items of a \<open>UreqStream\<close> over a reader: it ends at the first empty read.\<close>

fun ureq_stream :: "(read_error + chunk) poll list \<Rightarrow> byte_stream" where
  "ureq_stream [] = []"
| "ureq_stream (Poll_Pending # r) = Poll_Pending # ureq_stream r"
| "ureq_stream (Poll_Ready (Inl e) # r) = Poll_Ready (Inl (body_error e)) # ureq_stream r"
| "ureq_stream (Poll_Ready (Inr bytes) # r) =
     (if bytes = [] then [] else Poll_Ready (Inr bytes) # ureq_stream r)"

definition ureq_retrieve_meta ::
  "'l ureq_env \<Rightarrow> ureq_adapter \<Rightarrow> ((adapter_error + adapter_meta) \<times> ureq_adapter) run" where
  "ureq_retrieve_meta env a =
     (case with_head env
        (\<lambda>response. bind_run (ureq_suggest_filename env response) (\<lambda>f.
           Done (with_content_encoding (with_filename (meta_new (ureq_content_size response)) f)
             (ureq_combined response CONTENT_ENCODING)))) a of
        (Inl e, a') \<Rightarrow> Done (Inl e, a')
      | (Inr r, a') \<Rightarrow> bind_run r (\<lambda>m. Done (Inr m, a')))"

definition ureq_full_stream :: "'l ureq_env \<Rightarrow> ureq_adapter \<Rightarrow> adapter_error + byte_stream" where
  "ureq_full_stream env a =
     (case ureq_map_err env (apply_call env (ureq_before_request env
             (identity_request (uw_method a) (uw_url a) None))) of
        Inl e \<Rightarrow> Inl e
      | Inr response \<Rightarrow>
         (case check_content_coding (ureq_combined response CONTENT_ENCODING)
             (ureq_combined response CONTENT_TYPE) of
            Inl e \<Rightarrow> Inl e
          | Inr _ \<Rightarrow> Inr (ureq_stream (ur_reader response))))"

definition ureq_range_stream ::
  "'l ureq_env \<Rightarrow> ureq_adapter \<Rightarrow> u64 \<Rightarrow> u64 \<Rightarrow> adapter_error + range_body" where
  "ureq_range_stream env a first end =
     (case ureq_map_err env (any_status (apply_call env (ureq_before_request env
             (identity_request (uw_method a) (uw_url a) (Some (range_value first end)))))) of
        Inl e \<Rightarrow> Inl e
      | Inr response \<Rightarrow>
         (case ureq_check_range env response (Range first end)
            (known_total (map_option ureq_content_size (uw_head a))) of
            Inl e \<Rightarrow> Inl e
          | Inr got \<Rightarrow> Inr (limit_range_body (ureq_stream (ur_reader response)) got)))"

definition ureq_ranges_available :: "'l ureq_env \<Rightarrow> ureq_adapter \<Rightarrow> bool \<times> ureq_adapter" where
  "ureq_ranges_available env a =
     (case with_head env (\<lambda>response.
         case ur_header response ACCEPT_RANGES of None \<Rightarrow> False | Some v \<Rightarrow> some_bytes_unit v) a of
        (Inl e, a') \<Rightarrow> (False, a')
      | (Inr True, a') \<Rightarrow> (True, a')
      | (Inr False, a') \<Rightarrow>
         (case apply_call env (ureq_before_request env
             (identity_request (uw_method a) (uw_url a) (Some (lit ''bytes=0-0'')))) of
            Inl e \<Rightarrow> (False, a')
          | Inr response \<Rightarrow>
             ((case ureq_check_range env response (Range 0 1) None of Inl _ \<Rightarrow> False | Inr _ \<Rightarrow> True), a')))"

end
