(* ===== verification/Adapters_Props.thy ===== *)
theory Adapters_Props
  imports Adapters Content_Disposition_Props
begin

text \<open>
  What the task relies on of an adapter, as an interface both adapters are instances of: a range
  stream is handed out only for a response that proves it carries the requested bytes, and reading
  it yields a prefix of that response's body, all of it exactly when the stream ends cleanly.
\<close>

section \<open>The interface\<close>

definition proved_for :: "byte_stream option \<Rightarrow> u64 \<Rightarrow> u64 \<Rightarrow> range_body \<Rightarrow> bool" where
  "proved_for answer first end rb \<longleftrightarrow>
     (\<exists>body got. answer = Some body \<and> rb = limit_range_body body got \<and> content_range_ok got
        \<and> cr_first got = first \<and> cr_last got < end)"

definition delivers :: "byte_stream option \<Rightarrow> u64 \<Rightarrow> u64 \<Rightarrow> adapter_error + range_body \<Rightarrow> bool" where
  "delivers answer first end r \<longleftrightarrow>
     (case r of
        Inl e \<Rightarrow> True
      | Inr rb \<Rightarrow>
         (\<exists>body bytes stop rest upto.
            answer = Some body
            \<and> read_body (Suc (length body)) rb = Some (bytes, stop)
            \<and> stream_bytes body = bytes @ rest
            \<and> first < upto \<and> upto \<le> end \<and> length bytes \<le> upto - first
            \<and> (stop = Clean_End \<longrightarrow> length bytes = upto - first \<and> rest = [])))"

locale range_source =
  fixes answer :: "'env \<Rightarrow> u64 \<Rightarrow> u64 \<Rightarrow> byte_stream option"
    and range_stream :: "'env \<Rightarrow> u64 \<Rightarrow> u64 \<Rightarrow> adapter_error + range_body"
  assumes proved: "range_stream env first end = Inr rb \<Longrightarrow> proved_for (answer env first end) first end rb"
begin

lemma exact:
  assumes "end < u64_bound"
  shows "delivers (answer env first end) first end (range_stream env first end)"
proof (cases "range_stream env first end")
  case (Inl e)
  then show ?thesis by (simp add: delivers_def)
next
  case (Inr rb)
  obtain body got where b: "answer env first end = Some body" "rb = limit_range_body body got"
    "content_range_ok got" "cr_first got = first" "cr_last got < end"
    using proved [OF Inr] by (auto simp: proved_for_def)
  have ok: "cr_first got \<le> cr_last got" "covered_bytes got = cr_last got + 1 - first"
    using b(3-5) assms covered_bytes_exact [of got] by (auto simp: content_range_ok_def)
  obtain bytes stop rest where "read_body (Suc (length body)) rb = Some (bytes, stop)"
    "stream_bytes body = bytes @ rest" "length bytes \<le> covered_bytes got"
    "stop = Clean_End \<longrightarrow> length bytes = covered_bytes got \<and> rest = []"
    using read_body_spec [of rb body "Suc (length body)"] b(2) by (auto simp: limit_range_body_def)
  then show ?thesis using b(1,4,5) ok Inr
    by (auto simp: delivers_def intro!: exI [of _ body] exI [of _ bytes] exI [of _ stop] exI [of _ rest]
        exI [of _ "cr_last got + 1"])
qed

end

section \<open>Both adapters provide it\<close>

text \<open>The body the server sent, when it answered the request with status 206.\<close>

definition reqwest_answer ::
  "'l reqwest_env \<times> reqwest_adapter \<Rightarrow> u64 \<Rightarrow> u64 \<Rightarrow> byte_stream option" where
  "reqwest_answer w first end =
     (case w of (env, a) \<Rightarrow>
        (case rw_send env (apply_before_request env
            (identity_request (rw_method a) (rw_url a) (Some (range_value first end)))) of
           Inl e \<Rightarrow> None
         | Inr response \<Rightarrow> if rs_status response = 206 then Some (reqwest_stream response) else None))"

definition ureq_answer :: "'l ureq_env \<times> ureq_adapter \<Rightarrow> u64 \<Rightarrow> u64 \<Rightarrow> byte_stream option" where
  "ureq_answer w first end =
     (case w of (env, a) \<Rightarrow>
        (case any_status (apply_call env (ureq_before_request env
            (identity_request (uw_method a) (uw_url a) (Some (range_value first end))))) of
           Inl e \<Rightarrow> None
         | Inr response \<Rightarrow> if ur_status response = 206 then Some (ureq_stream (ur_reader response)) else None))"

lemma parsed_range_ok: "content_range_from_str s = Some q \<Longrightarrow> content_range_ok q"
  using number_bound
  by (fastforce simp: content_range_from_str_def content_range_ok_def not_le not_less
      split: option.splits prod.splits if_splits)

lemma validated_range:
  assumes "validate_range_response status headers (Range first end) expected = Inr got"
  shows "status = 206 \<and> content_range_ok got \<and> cr_first got = first \<and> cr_last got < end"
proof -
  have "status = 206" "check_partial headers (Range first end) expected = Inr got"
    using assms by (auto simp: validate_range_response_def split: if_splits)
  then show ?thesis using parsed_range_ok
    by (auto simp: check_partial_def Let_def bind_eq_Some_conv split: option.splits if_splits)
qed

lemma reqwest_proved:
  assumes "reqwest_range_stream env a first end = Inr rb"
  shows "proved_for (reqwest_answer (env, a) first end) first end rb"
proof -
  obtain response got where "rw_send env (apply_before_request env
      (identity_request (rw_method a) (rw_url a) (Some (range_value first end)))) = Inr response"
    "check_range env response (Range first end)
       (known_total (map_option (mt_content_size \<circ> cx_meta) (rw_context a))) = Inr got"
    "rb = limit_range_body (reqwest_stream response) got"
    using assms by (auto simp: reqwest_range_stream_def reqwest_send_def split: sum.splits)
  then show ?thesis using validated_range
    by (fastforce simp: proved_for_def reqwest_answer_def check_range_def)
qed

lemma ureq_map_err_Inr: "ureq_map_err env r = Inr x \<longleftrightarrow> r = Inr x"
  by (cases r) (simp_all add: ureq_map_err_def)

lemma ureq_proved:
  assumes "ureq_range_stream env a first end = Inr rb"
  shows "proved_for (ureq_answer (env, a) first end) first end rb"
proof -
  obtain response got where "any_status (apply_call env (ureq_before_request env
      (identity_request (uw_method a) (uw_url a) (Some (range_value first end))))) = Inr response"
    "ureq_check_range env response (Range first end) (known_total (map_option ureq_content_size (uw_head a))) = Inr got"
    "rb = limit_range_body (ureq_stream (ur_reader response)) got"
    using assms by (auto simp: ureq_range_stream_def ureq_map_err_Inr split: sum.splits)
  then show ?thesis using validated_range
    by (fastforce simp: proved_for_def ureq_answer_def ureq_check_range_def)
qed

interpretation reqwest: range_source reqwest_answer "\<lambda>(env, a). reqwest_range_stream env a"
  by unfold_locales (auto dest: reqwest_proved)

interpretation ureq: range_source ureq_answer "\<lambda>(env, a). ureq_range_stream env a"
  by unfold_locales (auto dest: ureq_proved)

section \<open>Streams of a blocking reader\<close>

text \<open>
  The items of a \<open>UreqStream\<close> are what polling the \<open>CrossRuntimeStream\<close> under it returns, with its
  errors classified.
\<close>

lemma ureq_stream_polls:
  "stream_next (ureq_stream (cs_reader s)) =
     (case cross_runtime_poll s of
        (Poll_Pending, s') \<Rightarrow> (Poll_Pending, ureq_stream (cs_reader s'))
      | (Poll_Ready None, s') \<Rightarrow> (Poll_Ready None, [])
      | (Poll_Ready (Some (Inl e)), s') \<Rightarrow> (Poll_Ready (Some (Inl (body_error e))), ureq_stream (cs_reader s'))
      | (Poll_Ready (Some (Inr bytes)), s') \<Rightarrow> (Poll_Ready (Some (Inr bytes)), ureq_stream (cs_reader s')))"
  by (cases "cs_reader s" rule: ureq_stream.cases) (simp_all add: cross_runtime_poll_def)

section \<open>Metadata never panics\<close>

lemma suggested_by_total: "\<exists>f. suggested_by hc hv = Done f"
proof (cases hv)
  case (Some v)
  obtain r where "from_raw hc v = Done r" using from_raw_total by blast
  then show ?thesis using Some by (simp add: suggested_by_def)
qed (simp add: suggested_by_def)

lemma fetch_remote_meta_total: "\<exists>r. fetch_remote_meta env a = Done r"
proof -
  have "\<exists>f. suggest_filename env response = Done f" for response
    unfolding suggest_filename_def by (rule suggested_by_total)
  then obtain f where "\<And>response. suggest_filename env response = Done (f response)" by metis
  then show ?thesis by (auto simp: fetch_remote_meta_def Let_def split: sum.split option.split)
qed


text \<open>A server that answers every request with two bytes of a file of a hundred.\<close>

definition two_bytes :: "rstr \<Rightarrow> rstr list" where
  "two_bytes name = (if name = CONTENT_RANGE then [lit ''bytes 10-11/100''] else [])"

definition some_reqwest_env :: "unit reqwest_env" where
  "some_reqwest_env = \<lparr>rw_http_date = Map.empty, rw_now = 0, rw_crates = some_crates, rw_to_str = Some,
     rw_before_request = None,
     rw_send = (\<lambda>request. Inr \<lparr>rs_status = 206, rs_all = two_bytes, rs_content_length = Some 2,
       rs_body = [Poll_Ready (Inr [7]), Poll_Ready (Inr [8])]\<rparr>)\<rparr>"

definition some_ureq_env :: "unit ureq_env" where
  "some_ureq_env = \<lparr>uw_http_date = Map.empty, uw_now = 0, uw_crates = some_crates, uw_header_value = Some,
     uw_before_request = None, uw_call = None,
     uw_agent = (\<lambda>request. Inr \<lparr>ur_status = 206,
       ur_header = (\<lambda>name. case two_bytes name of [] \<Rightarrow> None | v # _ \<Rightarrow> Some v), ur_all = two_bytes,
       ur_reader = [Poll_Ready (Inr [7]), Poll_Ready (Inr [8])]\<rparr>)\<rparr>"

lemma two_bytes_range:
  "content_range_from_str (lit ''bytes 10-11/100'') = Some \<lparr>cr_first = 10, cr_last = 11, cr_complete = Some 100\<rparr>"
  by (simp add: u64_bound_def content_range_from_str_def byte_range_def lit_def trim_def
      is_whitespace_def is_ascii_whitespace_def eq_ignore_ascii_case_def to_ascii_lowercase_def
      ascii_lower_def number_def is_ascii_digit_def parse_u64_def push_digit_def checked_mul64_def
      checked_add64_def)

lemma two_bytes_lossy: "utf8_lossy (lit ''bytes 10-11/100'') = lit ''bytes 10-11/100''"
  by (simp add: lit_def)

lemma two_bytes_headers:
  "two_bytes CONTENT_RANGE = [lit ''bytes 10-11/100'']" "two_bytes CONTENT_TYPE = []"
  "two_bytes CONTENT_ENCODING = []"
  by (simp_all add: two_bytes_def CONTENT_RANGE_def CONTENT_TYPE_def CONTENT_ENCODING_def lit_def)


end
