(* ===== verification/Slot.thy ===== *)
theory Slot
  imports Http "HOL-Library.Sublist"
begin

text \<open>
  The slot that keeps the latest value and its waker (\<open>bolt-load-sync/src/slot.rs\<close> and
  \<open>atomic_waker.rs\<close>), as a step relation: every atomic operation is one step, and the steps of any
  number of sending threads and of the receiver interleave freely. The memory is sequentially
  consistent; the orderings the code asks of each operation are not represented.

  A waker is the number of the task it wakes, \<open>woken\<close> is the set of the tasks the executor has been
  asked to poll again. Its histories \<open>sent\<close> and \<open>received\<close> are only observed.
\<close>

section \<open>State\<close>

definition EMPTY :: u64 where "EMPTY = u64_bound - 1"

definition WAITING :: usize where "WAITING = 0"
definition REGISTERING :: usize where "REGISTERING = 1"
definition WAKING :: usize where "WAKING = 2"

text \<open>\<open>fetch_or(WAKING)\<close> and \<open>fetch_and(!WAKING)\<close> on a state of two bits.\<close>

definition or_waking :: "usize \<Rightarrow> usize" where
  "or_waking n = n mod 2 + WAKING"

definition and_not_waking :: "usize \<Rightarrow> usize" where
  "and_not_waking n = n mod 2"

type_synonym thread = nat
type_synonym waker = nat

text \<open>Where a sending thread is in \<open>send\<close> or in the drop of the sender.\<close>

datatype tx_pc =
    Tx_Idle
  | Tx_Store u64
  | Tx_Close
  | Tx_Fetch_Or
  | Tx_Take
  | Tx_Fetch_And "waker option"
  | Tx_Wake waker

text \<open>Where the receiver is in \<open>poll_recv\<close>.\<close>

datatype rx_pc =
    Rx_Idle
  | Rx_Load
  | Rx_Swap
  | Rx_Register
  | Rx_Write
  | Rx_Release
  | Rx_Take
  | Rx_Reset "waker option"
  | Rx_Wake waker
  | Rx_Closed
  | Rx_Load_Again bool
  | Rx_Swap_Again bool

record slot =
  sl_value :: u64
  sl_closed :: bool
  aw_state :: usize
  aw_waker :: "waker option"
  tx_at :: "thread \<Rightarrow> tx_pc"
  tx_gone :: bool
  rx_at :: rx_pc
  rx_gone :: bool
  rx_waker :: waker
  rx_result :: "u64 option poll option"
  woken :: "waker set"
  sent :: "u64 list"
  received :: "u64 list"

definition slot_channel :: slot where
  "slot_channel =
     \<lparr>sl_value = EMPTY, sl_closed = False, aw_state = WAITING, aw_waker = None, tx_at = (\<lambda>t. Tx_Idle),
      tx_gone = False, rx_at = Rx_Idle, rx_gone = False, rx_waker = 0, rx_result = None, woken = {},
      sent = [], received = []\<rparr>"

definition at_tx :: "thread \<Rightarrow> tx_pc \<Rightarrow> slot \<Rightarrow> slot" where
  "at_tx t pc s = s\<lparr>tx_at := (tx_at s)(t := pc)\<rparr>"

section \<open>The sender\<close>

text \<open>
  A call of \<open>send\<close>: it panics on the value that marks the empty slot, and returns \<open>false\<close> when the
  receiver is gone; otherwise the thread goes on to the store.
\<close>

datatype send_start = Send_Refused | Send_Goes_On slot

definition slot_send_start :: "thread \<Rightarrow> u64 \<Rightarrow> slot \<Rightarrow> send_start run" where
  "slot_send_start t v s =
     (if v = EMPTY then Panicked ''u64::MAX marks the empty slot''
      else if rx_gone s then Done Send_Refused
      else Done (Send_Goes_On (at_tx t (Tx_Store v) s)))"

text \<open>The next atomic operation of thread \<open>t\<close> in \<open>AtomicWaker::wake\<close>.\<close>

definition wake_step :: "thread \<Rightarrow> slot \<Rightarrow> slot option" where
  "wake_step t s =
     (case tx_at s t of
        Tx_Fetch_Or \<Rightarrow>
          Some (at_tx t (if aw_state s = WAITING then Tx_Take else Tx_Idle)
            (s\<lparr>aw_state := or_waking (aw_state s)\<rparr>))
      | Tx_Take \<Rightarrow> Some (at_tx t (Tx_Fetch_And (aw_waker s)) (s\<lparr>aw_waker := None\<rparr>))
      | Tx_Fetch_And w \<Rightarrow>
          Some (at_tx t (case w of None \<Rightarrow> Tx_Idle | Some x \<Rightarrow> Tx_Wake x)
            (s\<lparr>aw_state := and_not_waking (aw_state s)\<rparr>))
      | Tx_Wake x \<Rightarrow> Some (at_tx t Tx_Idle (s\<lparr>woken := insert x (woken s)\<rparr>))
      | _ \<Rightarrow> None)"

text \<open>The next atomic operation of thread \<open>t\<close> in \<open>send\<close> or the drop.\<close>

definition tx_step :: "thread \<Rightarrow> slot \<Rightarrow> slot option" where
  "tx_step t s =
     (case tx_at s t of
        Tx_Store v \<Rightarrow> Some (at_tx t Tx_Fetch_Or (s\<lparr>sl_value := v, sent := sent s @ [v]\<rparr>))
      | Tx_Close \<Rightarrow> Some (at_tx t Tx_Fetch_Or (s\<lparr>sl_closed := True\<rparr>))
      | _ \<Rightarrow> wake_step t s)"

definition slot_unread :: "slot \<Rightarrow> u64 option" where
  "slot_unread s = (if sl_value s \<noteq> EMPTY then Some (sl_value s) else None)"

section \<open>The receiver\<close>

definition rx_goto :: "rx_pc \<Rightarrow> slot \<Rightarrow> slot" where
  "rx_goto pc s = s\<lparr>rx_at := pc\<rparr>"

definition rx_return :: "u64 option poll \<Rightarrow> slot \<Rightarrow> slot" where
  "rx_return r s = s\<lparr>rx_at := Rx_Idle, rx_result := Some r\<rparr>"

text \<open>A poll of the task \<open>w\<close>; its wake-ups so far led to this poll.\<close>

definition slot_poll_start :: "waker \<Rightarrow> slot \<Rightarrow> slot" where
  "slot_poll_start w s = s\<lparr>rx_at := Rx_Load, rx_waker := w, rx_result := None, woken := woken s - {w}\<rparr>"

text \<open>The swap of \<open>try_recv\<close>: the value taken, if there is one, and the empty slot.\<close>

definition slot_swap :: "slot \<Rightarrow> u64 option \<times> slot" where
  "slot_swap s =
     (if sl_value s = EMPTY then (None, s)
      else (Some (sl_value s), s\<lparr>sl_value := EMPTY, received := received s @ [sl_value s]\<rparr>))"

definition poll_outcome :: "bool \<Rightarrow> u64 option \<Rightarrow> u64 option poll" where
  "poll_outcome closed v =
     (case v of
        Some n \<Rightarrow> Poll_Ready (Some n)
      | None \<Rightarrow> if closed then Poll_Ready None else Poll_Pending)"

text \<open>The next atomic operation of \<open>AtomicWaker::register\<close>.\<close>

definition register_step :: "slot \<Rightarrow> slot option" where
  "register_step s =
     (case rx_at s of
        Rx_Register \<Rightarrow>
          Some (if aw_state s = WAITING then rx_goto Rx_Write (s\<lparr>aw_state := REGISTERING\<rparr>)
                else if aw_state s = WAKING then rx_goto Rx_Closed (s\<lparr>woken := insert (rx_waker s) (woken s)\<rparr>)
                else rx_goto Rx_Closed s)
      | Rx_Write \<Rightarrow> Some (rx_goto Rx_Release (s\<lparr>aw_waker := Some (rx_waker s)\<rparr>))
      | Rx_Release \<Rightarrow>
          Some (if aw_state s = REGISTERING then rx_goto Rx_Closed (s\<lparr>aw_state := WAITING\<rparr>)
                else rx_goto Rx_Take s)
      | Rx_Take \<Rightarrow> Some (rx_goto (Rx_Reset (aw_waker s)) (s\<lparr>aw_waker := None\<rparr>))
      | Rx_Reset w \<Rightarrow>
          Some (rx_goto (case w of None \<Rightarrow> Rx_Closed | Some x \<Rightarrow> Rx_Wake x) (s\<lparr>aw_state := WAITING\<rparr>))
      | Rx_Wake x \<Rightarrow> Some (rx_goto Rx_Closed (s\<lparr>woken := insert x (woken s)\<rparr>))
      | _ \<Rightarrow> None)"

text \<open>The next atomic operation of \<open>poll_recv\<close>.\<close>

definition rx_step :: "slot \<Rightarrow> slot option" where
  "rx_step s =
     (case rx_at s of
        Rx_Load \<Rightarrow> Some (rx_goto (if sl_value s = EMPTY then Rx_Register else Rx_Swap) s)
      | Rx_Swap \<Rightarrow>
         (case slot_swap s of
            (Some v, s') \<Rightarrow> Some (rx_return (Poll_Ready (Some v)) s')
          | (None, s') \<Rightarrow> Some (rx_goto Rx_Register s'))
      | Rx_Closed \<Rightarrow> Some (rx_goto (Rx_Load_Again (sl_closed s)) s)
      | Rx_Load_Again closed \<Rightarrow>
          Some (if sl_value s = EMPTY then rx_return (poll_outcome closed None) s
                else rx_goto (Rx_Swap_Again closed) s)
      | Rx_Swap_Again closed \<Rightarrow>
         (case slot_swap s of (v, s') \<Rightarrow> Some (rx_return (poll_outcome closed v) s'))
      | _ \<Rightarrow> register_step s)"

section \<open>Runs\<close>

text \<open>
  \<open>send\<close> borrows the sender, so it cannot be dropped during a call, and the drop is the last of it;
  the receiver polls one at a time.
\<close>

inductive slot_reachable :: "slot \<Rightarrow> bool" where
  start: "slot_reachable slot_channel"
| send: "slot_reachable s \<Longrightarrow> \<not> tx_gone s \<Longrightarrow> tx_at s t = Tx_Idle \<Longrightarrow> v < u64_bound \<Longrightarrow>
    slot_send_start t v s = Done (Send_Goes_On s') \<Longrightarrow> slot_reachable s'"
| drop_sender: "slot_reachable s \<Longrightarrow> \<not> tx_gone s \<Longrightarrow> (\<And>u. tx_at s u = Tx_Idle) \<Longrightarrow>
    slot_reachable (at_tx t Tx_Close (s\<lparr>tx_gone := True\<rparr>))"
| tx: "slot_reachable s \<Longrightarrow> tx_step t s = Some s' \<Longrightarrow> slot_reachable s'"
| poll: "slot_reachable s \<Longrightarrow> \<not> rx_gone s \<Longrightarrow> rx_at s = Rx_Idle \<Longrightarrow> slot_reachable (slot_poll_start w s)"
| rx: "slot_reachable s \<Longrightarrow> rx_step s = Some s' \<Longrightarrow> slot_reachable s'"
| drop_receiver: "slot_reachable s \<Longrightarrow> rx_at s = Rx_Idle \<Longrightarrow> slot_reachable (s\<lparr>rx_gone := True\<rparr>)"

end
