(* ===== verification/Slot_Props.thy ===== *)
theory Slot_Props
  imports Slot
begin

text \<open>
  The properties of the slot: the waker cell is used by one side at a time, the receiver sees the
  values in order and the last one always, and a receiver that waits is woken.
\<close>

section \<open>The lock of the waker\<close>

fun owns :: "tx_pc \<Rightarrow> bool" where
  "owns Tx_Take = True"
| "owns (Tx_Fetch_And w) = True"
| "owns _ = False"

fun registering :: "rx_pc \<Rightarrow> bool" where
  "registering Rx_Write = True"
| "registering Rx_Release = True"
| "registering Rx_Take = True"
| "registering (Rx_Reset w) = True"
| "registering _ = False"

fun has_registered :: "waker \<Rightarrow> waker option \<Rightarrow> rx_pc \<Rightarrow> bool" where
  "has_registered w cell Rx_Release = (cell = Some w)"
| "has_registered w cell Rx_Take = (cell = Some w)"
| "has_registered w cell (Rx_Reset x) = (x = Some w)"
| "has_registered w cell (Rx_Wake x) = (x = w)"
| "has_registered w cell _ = True"

definition owners :: "slot \<Rightarrow> thread set" where
  "owners s = {t. owns (tx_at s t)}"

text \<open>
  The four values of the state: nobody has the waker, the receiver has it, one thread has it and
  took it in its first step, the receiver has it and was asked to wake.
\<close>

definition lock_inv :: "slot \<Rightarrow> bool" where
  "lock_inv s \<longleftrightarrow>
     has_registered (rx_waker s) (aw_waker s) (rx_at s)
     \<and> (aw_state s = WAITING \<and> owners s = {} \<and> \<not> registering (rx_at s)
        \<or> aw_state s = REGISTERING \<and> owners s = {} \<and> (rx_at s = Rx_Write \<or> rx_at s = Rx_Release)
        \<or> aw_state s = WAKING \<and> \<not> registering (rx_at s)
          \<and> (\<exists>t. owners s = {t} \<and> (tx_at s t = Tx_Take \<or> aw_waker s = None))
        \<or> aw_state s = REGISTERING + WAKING \<and> owners s = {} \<and> registering (rx_at s))"

lemmas slot_simps = rx_goto_def rx_return_def or_waking_def and_not_waking_def
  WAITING_def REGISTERING_def WAKING_def

lemma at_tx_simps [simp]:
  "owners (at_tx t pc s) = (if owns pc then insert t (owners s) else owners s - {t})"
  "tx_at (at_tx t pc s) = (tx_at s)(t := pc)"
  "sl_value (at_tx t pc s) = sl_value s" "sl_closed (at_tx t pc s) = sl_closed s"
  "aw_state (at_tx t pc s) = aw_state s" "aw_waker (at_tx t pc s) = aw_waker s"
  "tx_gone (at_tx t pc s) = tx_gone s" "rx_at (at_tx t pc s) = rx_at s" "rx_waker (at_tx t pc s) = rx_waker s"
  "rx_result (at_tx t pc s) = rx_result s" "woken (at_tx t pc s) = woken s"
  "sent (at_tx t pc s) = sent s" "received (at_tx t pc s) = received s"
  by (auto simp: at_tx_def owners_def)

lemma owners_update [simp]:
  "owners (s\<lparr>sl_value := v\<rparr>) = owners s" "owners (s\<lparr>sent := xs\<rparr>) = owners s"
  "owners (s\<lparr>sl_closed := b\<rparr>) = owners s" "owners (s\<lparr>aw_state := n\<rparr>) = owners s"
  "owners (s\<lparr>aw_waker := w\<rparr>) = owners s" "owners (s\<lparr>woken := W\<rparr>) = owners s"
  "owners (s\<lparr>rx_at := pc\<rparr>) = owners s" "owners (s\<lparr>rx_result := r\<rparr>) = owners s"
  "owners (s\<lparr>rx_waker := x\<rparr>) = owners s" "owners (s\<lparr>received := ys\<rparr>) = owners s"
  "owners (s\<lparr>tx_gone := c\<rparr>) = owners s" "owners (s\<lparr>rx_gone := d\<rparr>) = owners s"
  by (simp_all add: owners_def)

lemma owner_state:
  assumes "lock_inv s" and "owns (tx_at s t)"
  shows "aw_state s = WAKING \<and> owners s = {t} \<and> \<not> registering (rx_at s)
    \<and> (tx_at s t = Tx_Take \<or> aw_waker s = None)"
proof -
  have "t \<in> owners s" using assms(2) by (simp add: owners_def)
  then show ?thesis using assms(1) by (auto simp: lock_inv_def)
qed

lemma not_owner [simp]: "\<not> owns (tx_at s t) \<Longrightarrow> owners s - {t} = owners s"
  by (auto simp: owners_def)

lemma has_registered_free: "\<not> registering pc \<Longrightarrow> has_registered w cell pc = has_registered w cell' pc"
  by (cases pc) simp_all

lemma lock_inv_same:
  assumes "lock_inv s" and "\<not> owns (tx_at s t)" and "\<not> owns pc"
  shows "lock_inv (at_tx t pc s)"
proof -
  have "u \<noteq> t" if "owners s = {u}" for u using that assms(2) by (auto simp: owners_def)
  then show ?thesis using assms by (auto simp: lock_inv_def)
qed

lemma lock_inv_tx:
  assumes "lock_inv s" and "tx_step t s = Some s'"
  shows "lock_inv s'"
proof (cases "tx_at s t")
  case Tx_Idle
  then show ?thesis using assms(2) by (simp add: tx_step_def wake_step_def)
next
  case (Tx_Store v)
  then have "s' = at_tx t Tx_Fetch_Or (s\<lparr>sl_value := v, sent := sent s @ [v]\<rparr>)"
    using assms(2) by (simp add: tx_step_def wake_step_def)
  moreover have "lock_inv (s\<lparr>sl_value := v, sent := sent s @ [v]\<rparr>)" using assms(1) by (simp add: lock_inv_def)
  ultimately show ?thesis using Tx_Store lock_inv_same by simp
next
  case Tx_Close
  then have "s' = at_tx t Tx_Fetch_Or (s\<lparr>sl_closed := True\<rparr>)" using assms(2) by (simp add: tx_step_def wake_step_def)
  moreover have "lock_inv (s\<lparr>sl_closed := True\<rparr>)" using assms(1) by (simp add: lock_inv_def)
  ultimately show ?thesis using Tx_Close lock_inv_same by simp
next
  case Tx_Fetch_Or
  then have s': "s' = at_tx t (if aw_state s = WAITING then Tx_Take else Tx_Idle) (s\<lparr>aw_state := or_waking (aw_state s)\<rparr>)"
    using assms(2) by (simp add: tx_step_def wake_step_def)
  show ?thesis
  proof (cases "aw_state s = WAITING")
    case True
    then show ?thesis using assms(1) s' by (auto simp: lock_inv_def slot_simps)
  next
    case False
    then have "lock_inv (s\<lparr>aw_state := or_waking (aw_state s)\<rparr>)"
      using assms(1) by (auto simp: lock_inv_def slot_simps)
    then show ?thesis using False Tx_Fetch_Or s' lock_inv_same by simp
  qed
next
  case Tx_Take
  then have o: "aw_state s = WAKING" "owners s = {t}" "\<not> registering (rx_at s)"
    using owner_state [OF assms(1), of t] by simp_all
  have "s' = at_tx t (Tx_Fetch_And (aw_waker s)) (s\<lparr>aw_waker := None\<rparr>)"
    using Tx_Take assms(2) by (simp add: tx_step_def wake_step_def)
  then show ?thesis using o assms(1) has_registered_free [OF o(3), of "rx_waker s" None "aw_waker s"]
    by (simp add: lock_inv_def slot_simps)
next
  case (Tx_Fetch_And w)
  then have o: "aw_state s = WAKING" "owners s = {t}" "\<not> registering (rx_at s)" "aw_waker s = None"
    using owner_state [OF assms(1), of t] by simp_all
  have "s' = at_tx t (case w of None \<Rightarrow> Tx_Idle | Some x \<Rightarrow> Tx_Wake x) (s\<lparr>aw_state := and_not_waking (aw_state s)\<rparr>)"
    using Tx_Fetch_And assms(2) by (simp add: tx_step_def wake_step_def)
  then show ?thesis using o assms(1) by (cases w) (simp_all add: lock_inv_def slot_simps)
next
  case (Tx_Wake x)
  then have "s' = at_tx t Tx_Idle (s\<lparr>woken := insert x (woken s)\<rparr>)" using assms(2) by (simp add: tx_step_def wake_step_def)
  moreover have "lock_inv (s\<lparr>woken := insert x (woken s)\<rparr>)" using assms(1) by (simp add: lock_inv_def)
  ultimately show ?thesis using Tx_Wake lock_inv_same by simp
qed

lemma lock_inv_goto:
  assumes "lock_inv s" and "\<not> registering (rx_at s)" and "\<not> registering pc"
    and "has_registered (rx_waker s) (aw_waker s) pc"
  shows "lock_inv (s\<lparr>rx_at := pc\<rparr>)" and "lock_inv (s\<lparr>rx_at := pc, rx_result := r\<rparr>)"
    and "lock_inv (s\<lparr>woken := W, rx_at := pc\<rparr>)"
    and "lock_inv (s\<lparr>rx_at := pc, sl_value := v, received := ys\<rparr>)"
    and "lock_inv (s\<lparr>rx_at := pc, rx_result := r, sl_value := v, received := ys\<rparr>)"
  using assms by (auto simp: lock_inv_def)

lemma lock_inv_register:
  assumes "lock_inv s"
  shows "aw_state s = WAITING \<Longrightarrow> \<not> registering (rx_at s) \<Longrightarrow> lock_inv (s\<lparr>aw_state := REGISTERING, rx_at := Rx_Write\<rparr>)"
    and "rx_at s = Rx_Write \<Longrightarrow> lock_inv (s\<lparr>aw_waker := Some (rx_waker s), rx_at := Rx_Release\<rparr>)"
    and "rx_at s = Rx_Release \<Longrightarrow> aw_state s = REGISTERING \<Longrightarrow> lock_inv (s\<lparr>aw_state := WAITING, rx_at := Rx_Closed\<rparr>)"
    and "rx_at s = Rx_Release \<Longrightarrow> aw_state s \<noteq> REGISTERING \<Longrightarrow> lock_inv (s\<lparr>rx_at := Rx_Take\<rparr>)"
    and "rx_at s = Rx_Take \<Longrightarrow> lock_inv (s\<lparr>aw_waker := None, rx_at := Rx_Reset (aw_waker s)\<rparr>)"
    and "rx_at s = Rx_Reset w \<Longrightarrow> lock_inv (s\<lparr>aw_state := WAITING, rx_at := (case w of None \<Rightarrow> Rx_Closed | Some x \<Rightarrow> Rx_Wake x)\<rparr>)"
  using assms by (auto simp: lock_inv_def slot_simps split: option.split)

lemma slot_swap_cases:
  "slot_swap s = (v, s') \<Longrightarrow>
    v = None \<and> s' = s \<and> sl_value s = EMPTY
    \<or> sl_value s \<noteq> EMPTY \<and> v = Some (sl_value s) \<and> s' = s\<lparr>sl_value := EMPTY, received := received s @ [sl_value s]\<rparr>"
  by (simp add: slot_swap_def split: if_splits)

lemma lock_inv_swap:
  assumes "lock_inv s" and "slot_swap s = (v, s')"
  shows "lock_inv s' \<and> rx_at s' = rx_at s \<and> rx_waker s' = rx_waker s \<and> aw_waker s' = aw_waker s"
  using slot_swap_cases [OF assms(2)] assms(1) by (auto simp: lock_inv_def)

lemma lock_inv_rx:
  assumes "lock_inv s" and "rx_step s = Some s'"
  shows "lock_inv s'"
proof (cases "rx_at s")
  case Rx_Swap
  obtain v s1 where w: "slot_swap s = (v, s1)" by fastforce
  then show ?thesis using assms(2) Rx_Swap lock_inv_swap [OF assms(1) w] lock_inv_goto [of s1]
    by (cases v) (auto simp: rx_step_def register_step_def rx_goto_def rx_return_def)
next
  case (Rx_Swap_Again c)
  obtain v s1 where w: "slot_swap s = (v, s1)" by fastforce
  then show ?thesis using assms(2) Rx_Swap_Again lock_inv_swap [OF assms(1) w] lock_inv_goto [of s1]
    by (auto simp: rx_step_def register_step_def rx_return_def)
next
  case (Rx_Reset w)
  then show ?thesis using assms lock_inv_register(6) [of s w] by (auto simp: rx_step_def register_step_def rx_goto_def)
qed (use assms lock_inv_goto [of s] lock_inv_register [of s] in
  \<open>auto simp: rx_step_def register_step_def rx_goto_def rx_return_def split: if_splits\<close>)

section \<open>No wake-up is lost\<close>

text \<open>The receiver has registered its waker in this poll and not taken a value since.\<close>

definition listening :: "slot \<Rightarrow> bool" where
  "listening s \<longleftrightarrow>
     (case rx_at s of
        Rx_Closed \<Rightarrow> True
      | Rx_Load_Again c \<Rightarrow> True
      | Rx_Swap_Again c \<Rightarrow> True
      | Rx_Idle \<Rightarrow> rx_result s = Some Poll_Pending
      | _ \<Rightarrow> False)"

text \<open>What changed since the receiver looked.\<close>

definition unseen :: "slot \<Rightarrow> bool" where
  "unseen s \<longleftrightarrow>
     (case rx_at s of
        Rx_Idle \<Rightarrow> sl_value s \<noteq> EMPTY \<or> sl_closed s
      | Rx_Load_Again c \<Rightarrow> \<not> c \<and> sl_closed s
      | Rx_Swap_Again c \<Rightarrow> \<not> c \<and> sl_closed s
      | _ \<Rightarrow> False)"

fun carries :: "waker \<Rightarrow> tx_pc \<Rightarrow> bool" where
  "carries w (Tx_Fetch_And x) = (x = Some w)"
| "carries w (Tx_Wake x) = (x = w)"
| "carries w _ = False"

fun waking :: "waker \<Rightarrow> tx_pc \<Rightarrow> bool" where
  "waking w Tx_Fetch_Or = True"
| "waking w Tx_Take = True"
| "waking w pc = carries w pc"

definition wake_inv :: "slot \<Rightarrow> bool" where
  "wake_inv s \<longleftrightarrow>
     (listening s \<longrightarrow> rx_waker s \<in> woken s
        \<or> (aw_waker s = Some (rx_waker s) \<or> (\<exists>t. carries (rx_waker s) (tx_at s t)))
          \<and> (unseen s \<longrightarrow> (\<exists>t. waking (rx_waker s) (tx_at s t))))"

lemma carries_waking: "carries w pc \<Longrightarrow> waking w pc"
  by (cases pc) simp_all

lemma tx_step_keeps:
  assumes "tx_step t s = Some s'"
  shows "rx_at s' = rx_at s \<and> rx_waker s' = rx_waker s \<and> rx_result s' = rx_result s \<and> woken s \<subseteq> woken s'
    \<and> (\<forall>u. u \<noteq> t \<longrightarrow> tx_at s' u = tx_at s u)"
  using assms by (auto simp: tx_step_def wake_step_def split: tx_pc.splits if_splits option.splits)

lemma wake_inv_tx:
  assumes "lock_inv s" and "wake_inv s" and step: "tx_step t s = Some s'"
  shows "wake_inv s'"
proof (cases "listening s \<and> rx_waker s \<notin> woken s'")
  case False
  moreover have "listening s' = listening s" using tx_step_keeps [OF step] by (simp add: listening_def cong: rx_pc.case_cong)
  ultimately show ?thesis using tx_step_keeps [OF step] by (auto simp: wake_inv_def)
next
  case True
  let ?w = "rx_waker s"
  have keep: "rx_at s' = rx_at s" "rx_waker s' = ?w" "rx_result s' = rx_result s" "?w \<notin> woken s"
    "\<And>u. u \<noteq> t \<Longrightarrow> tx_at s' u = tx_at s u"
    using tx_step_keeps [OF step] True by auto
  have inv: "aw_waker s = Some ?w \<or> (\<exists>u. carries ?w (tx_at s u))" "unseen s \<Longrightarrow> \<exists>u. waking ?w (tx_at s u)"
    using assms(2) True keep(4) by (auto simp: wake_inv_def)
  have reg: "\<not> registering (rx_at s)" using True by (cases "rx_at s") (auto simp: listening_def)
  have goal: "wake_inv s'"
    if "aw_waker s' = Some ?w \<or> (\<exists>u. carries ?w (tx_at s' u))" "unseen s' \<Longrightarrow> \<exists>u. waking ?w (tx_at s' u)"
    using that keep(2) by (auto simp: wake_inv_def)
  have other: "\<exists>u. waking ?w (tx_at s' u)" if "waking ?w (tx_at s u)" "u \<noteq> t" for u
    using that keep(5) by metis
  have other': "\<exists>u. carries ?w (tx_at s' u)" if "carries ?w (tx_at s u)" "u \<noteq> t" for u
    using that keep(5) by metis
  show ?thesis
  proof (cases "tx_at s t")
    case Tx_Idle
    then show ?thesis using step by (simp add: tx_step_def wake_step_def)
  next
    case (Tx_Store v)
    then have s': "aw_waker s' = aw_waker s" "waking ?w (tx_at s' t)" using step by (auto simp: tx_step_def wake_step_def)
    then show ?thesis using inv(1) other' Tx_Store by (intro goal) (auto, metis carries.simps(4))
  next
    case Tx_Close
    then have s': "aw_waker s' = aw_waker s" "waking ?w (tx_at s' t)" using step by (auto simp: tx_step_def wake_step_def)
    then show ?thesis using inv(1) other' Tx_Close by (intro goal) (auto, metis carries.simps(5))
  next
    case Tx_Fetch_Or
    then have s': "aw_waker s' = aw_waker s" using step by (auto simp: tx_step_def wake_step_def)
    have c: "aw_waker s' = Some ?w \<or> (\<exists>u. carries ?w (tx_at s' u))"
      using inv(1) other' Tx_Fetch_Or s' by (metis carries.simps(6))
    show ?thesis
    proof (rule goal [OF c])
      show "\<exists>u. waking ?w (tx_at s' u)"
      proof (cases "aw_state s = WAITING")
        case True
        then have "tx_at s' t = Tx_Take" using step Tx_Fetch_Or by (auto simp: tx_step_def wake_step_def)
        then show ?thesis by (metis waking.simps(2))
      next
        case False
        then obtain u where u: "owners s = {u}" "tx_at s u = Tx_Take \<or> aw_waker s = None"
          using assms(1) reg by (auto simp: lock_inv_def)
        have "owns (tx_at s u)" using u(1) by (auto simp: owners_def)
        then have "u \<noteq> t" using Tx_Fetch_Or by auto
        then show ?thesis using u(2) other [of u] c s' carries_waking by auto
      qed
    qed
  next
    case Tx_Take
    then have s': "tx_at s' t = Tx_Fetch_And (aw_waker s)" using step by (auto simp: tx_step_def wake_step_def)
    have "\<exists>u. carries ?w (tx_at s' u)"
      using inv(1) other' Tx_Take s' by (metis carries.simps(1,7))
    then show ?thesis using carries_waking by (intro goal) blast+
  next
    case (Tx_Fetch_And x)
    then have s': "tx_at s' t = (case x of None \<Rightarrow> Tx_Idle | Some y \<Rightarrow> Tx_Wake y)" "aw_waker s' = aw_waker s"
      "unseen s' = unseen s"
      using step by (auto simp: tx_step_def wake_step_def unseen_def cong: rx_pc.case_cong)
    have t: "waking ?w (tx_at s t) \<Longrightarrow> carries ?w (tx_at s' t)" "carries ?w (tx_at s t) \<Longrightarrow> carries ?w (tx_at s' t)"
      using s'(1) Tx_Fetch_And by auto
    show ?thesis
    proof (rule goal)
      show "aw_waker s' = Some ?w \<or> (\<exists>u. carries ?w (tx_at s' u))" using inv(1) other' t(2) s'(2) by metis
      show "unseen s' \<Longrightarrow> \<exists>u. waking ?w (tx_at s' u)" using inv(2) other t(1) s'(3) carries_waking by metis
    qed
  next
    case (Tx_Wake x)
    then have s': "aw_waker s' = aw_waker s" "unseen s' = unseen s" "x \<noteq> ?w"
      using step True by (auto simp: tx_step_def wake_step_def unseen_def cong: rx_pc.case_cong)
    then have "\<not> waking ?w (tx_at s t)" "\<not> carries ?w (tx_at s t)" using Tx_Wake by auto
    then show ?thesis using inv other other' s' by (intro goal) metis+
  qed
qed

lemma wake_inv_silent: "\<not> listening s \<Longrightarrow> wake_inv s"
  by (simp add: wake_inv_def)

lemma wake_inv_rx:
  assumes "lock_inv s" and "wake_inv s" and step: "rx_step s = Some s'"
  shows "wake_inv s'"
proof (cases "rx_at s")
  case Rx_Register
  then have "aw_state s = WAITING \<or> aw_state s = WAKING"
    using assms(1) by (auto simp: lock_inv_def)
  then show ?thesis using step Rx_Register
    by (auto simp: rx_step_def register_step_def rx_goto_def wake_inv_def listening_def slot_simps)
next
  case Rx_Release
  then have "aw_waker s = Some (rx_waker s)" using assms(1) by (simp add: lock_inv_def)
  then show ?thesis using step Rx_Release
    by (auto simp: rx_step_def register_step_def rx_goto_def wake_inv_def listening_def unseen_def split: if_splits)
next
  case (Rx_Reset w)
  then have "w = Some (rx_waker s)" using assms(1) by (simp add: lock_inv_def)
  then show ?thesis using step Rx_Reset
    by (auto simp: rx_step_def register_step_def rx_goto_def wake_inv_def listening_def)
next
  case (Rx_Wake x)
  then have "x = rx_waker s" using assms(1) by (simp add: lock_inv_def)
  then show ?thesis using step Rx_Wake
    by (auto simp: rx_step_def register_step_def rx_goto_def wake_inv_def)
next
  case Rx_Swap
  obtain v s1 where w: "slot_swap s = (v, s1)" by fastforce
  then show ?thesis using step Rx_Swap
    by (cases v) (auto simp: rx_step_def register_step_def rx_goto_def rx_return_def listening_def intro!: wake_inv_silent)
next
  case (Rx_Swap_Again c)
  obtain v s1 where w: "slot_swap s = (v, s1)" by fastforce
  then show ?thesis using step Rx_Swap_Again assms(2) slot_swap_cases [OF w]
    by (auto simp: rx_step_def register_step_def rx_return_def listening_def poll_outcome_def wake_inv_def unseen_def split: if_splits)
next
  case (Rx_Load_Again c)
  then show ?thesis using step assms(2)
    by (auto simp: rx_step_def register_step_def rx_return_def rx_goto_def listening_def poll_outcome_def wake_inv_def unseen_def
        split: if_splits)
next
  case Rx_Closed
  then show ?thesis using step assms(2)
    by (auto simp: rx_step_def register_step_def rx_goto_def listening_def wake_inv_def unseen_def)
qed (use step in \<open>auto simp: rx_step_def register_step_def rx_goto_def listening_def intro!: wake_inv_silent split: if_splits\<close>)

section \<open>The values\<close>

definition unread_sent :: "slot \<Rightarrow> u64 list" where
  "unread_sent s = (if sl_value s = EMPTY then sent s else butlast (sent s))"

fun saw_closed :: "rx_pc \<Rightarrow> bool" where
  "saw_closed (Rx_Load_Again c) = c"
| "saw_closed (Rx_Swap_Again c) = c"
| "saw_closed _ = False"

text \<open>
  What was received are some of the values sent before the one in the slot, in order, with the last
  of them; once the sender is dropped nothing more is sent.
\<close>

definition values_inv :: "slot \<Rightarrow> bool" where
  "values_inv s \<longleftrightarrow>
     subseq (received s) (unread_sent s)
     \<and> (sl_value s \<noteq> EMPTY \<longrightarrow> sent s \<noteq> [] \<and> last (sent s) = sl_value s)
     \<and> (sl_value s = EMPTY \<and> sent s \<noteq> [] \<longrightarrow> received s \<noteq> [] \<and> last (received s) = last (sent s))
     \<and> (\<forall>t v. tx_at s t = Tx_Store v \<longrightarrow> v \<noteq> EMPTY \<and> \<not> tx_gone s)
     \<and> (sl_closed s \<longrightarrow> tx_gone s)
     \<and> (saw_closed (rx_at s) \<longrightarrow> sl_closed s)
     \<and> (rx_result s = Some (Poll_Ready None) \<longrightarrow> sl_closed s \<and> sl_value s = EMPTY)
     \<and> (\<forall>t. tx_at s t = Tx_Close \<longrightarrow> tx_gone s)"

lemma unread_sent_update [simp]:
  "unread_sent (s\<lparr>aw_state := n\<rparr>) = unread_sent s" "unread_sent (s\<lparr>aw_waker := w\<rparr>) = unread_sent s"
  "unread_sent (s\<lparr>woken := W\<rparr>) = unread_sent s" "unread_sent (s\<lparr>rx_at := pc\<rparr>) = unread_sent s"
  "unread_sent (s\<lparr>rx_result := r\<rparr>) = unread_sent s" "unread_sent (s\<lparr>tx_at := f\<rparr>) = unread_sent s"
  "unread_sent (s\<lparr>sl_closed := b\<rparr>) = unread_sent s" "unread_sent (s\<lparr>tx_gone := c\<rparr>) = unread_sent s"
  "unread_sent (s\<lparr>rx_gone := d\<rparr>) = unread_sent s" "unread_sent (s\<lparr>rx_waker := x\<rparr>) = unread_sent s"
  "unread_sent (at_tx t q s) = unread_sent s"
  by (simp_all add: unread_sent_def)

lemma subseq_butlast: "subseq xs (butlast ys) \<Longrightarrow> subseq xs ys"
  by (cases ys rule: rev_cases) (auto intro: subseq_order.trans [OF _ subseq_rev_drop_many])

lemma values_inv_at:
  assumes "values_inv s" and "\<And>v. pc = Tx_Store v \<Longrightarrow> v \<noteq> EMPTY \<and> \<not> tx_gone s" and "pc = Tx_Close \<Longrightarrow> tx_gone s"
  shows "values_inv (at_tx t pc s)"
  using assms by (auto simp: values_inv_def)

lemma values_inv_update:
  assumes "values_inv s"
  shows "values_inv (s\<lparr>aw_state := n\<rparr>)" "values_inv (s\<lparr>aw_waker := w\<rparr>)" "values_inv (s\<lparr>woken := W\<rparr>)"
  using assms by (simp_all add: values_inv_def)

lemma values_inv_store:
  assumes "values_inv s" and "tx_at s t = Tx_Store v"
  shows "values_inv (s\<lparr>sl_value := v, sent := sent s @ [v]\<rparr>)"
proof -
  have v: "v \<noteq> EMPTY" "\<not> tx_gone s" using assms by (simp_all add: values_inv_def)
  have sub: "subseq (received s) (sent s)"
    using assms(1) subseq_butlast [of "received s" "sent s"] by (simp add: values_inv_def unread_sent_def split: if_splits)
  have "\<not> sl_closed s" using assms(1) v(2) by (simp add: values_inv_def)
  then have "rx_result s \<noteq> Some (Poll_Ready None)" using assms(1) by (simp add: values_inv_def)
  then show ?thesis using assms(1) v(1) sub by (simp add: values_inv_def unread_sent_def)
qed

lemma values_inv_close:
  assumes "values_inv s" and "tx_at s t = Tx_Close"
  shows "values_inv (s\<lparr>sl_closed := True\<rparr>)"
proof -
  have "tx_gone s" using assms unfolding values_inv_def by blast
  then show ?thesis using assms(1) by (auto simp: values_inv_def)
qed

lemma values_inv_tx:
  assumes "values_inv s" and step: "tx_step t s = Some s'"
  shows "values_inv s'"
proof (cases "tx_at s t")
  case (Tx_Store v)
  then show ?thesis using step values_inv_at [OF values_inv_store [OF assms(1)], of t v Tx_Fetch_Or t]
    by (simp add: tx_step_def wake_step_def)
next
  case Tx_Close
  then show ?thesis using step values_inv_at [OF values_inv_close [OF assms(1)], of t Tx_Fetch_Or t]
    by (simp add: tx_step_def wake_step_def)
next
  case (Tx_Fetch_And w)
  then show ?thesis using step values_inv_at [OF values_inv_update(1) [OF assms(1)]]
    by (cases w) (auto simp: tx_step_def wake_step_def)
next
  case Tx_Fetch_Or
  then show ?thesis using step values_inv_at [OF values_inv_update(1) [OF assms(1), of "or_waking (aw_state s)"], of _ t]
    by (auto simp: tx_step_def wake_step_def split: if_splits)
next
  case Tx_Take
  then show ?thesis using step values_inv_at [OF values_inv_update(2) [OF assms(1)]]
    by (auto simp: tx_step_def wake_step_def)
next
  case (Tx_Wake x)
  then show ?thesis using step values_inv_at [OF values_inv_update(3) [OF assms(1)]]
    by (auto simp: tx_step_def wake_step_def)
qed (use step in \<open>simp add: tx_step_def wake_step_def\<close>)

lemma values_inv_goto: "values_inv s \<Longrightarrow> \<not> saw_closed pc \<Longrightarrow> values_inv (rx_goto pc s)"
  by (simp add: values_inv_def rx_goto_def)

lemma values_inv_return: "values_inv s \<Longrightarrow> r \<noteq> Poll_Ready None \<Longrightarrow> values_inv (rx_return r s)"
  by (simp add: values_inv_def rx_return_def)

lemma values_inv_swap:
  assumes "values_inv s" and "slot_swap s = (v, s')"
  shows "values_inv s' \<and> sl_value s' = EMPTY \<and> sl_closed s' = sl_closed s \<and> rx_at s' = rx_at s"
proof (cases "sl_value s = EMPTY")
  case True
  then show ?thesis using assms by (simp add: slot_swap_def)
next
  case False
  then have "sent s \<noteq> []" "last (sent s) = sl_value s" using assms(1) by (simp_all add: values_inv_def)
  then have app: "butlast (sent s) @ [sl_value s] = sent s" using append_butlast_last_id [of "sent s"] by simp
  have "subseq (received s) (butlast (sent s))" using assms(1) False by (simp add: values_inv_def unread_sent_def)
  then have "subseq (received s @ [sl_value s]) (butlast (sent s) @ [sl_value s])"
    by (intro list_emb_append_mono) simp_all
  then have sub: "subseq (received s @ [sl_value s]) (sent s)" by (simp only: app)
  have "s' = s\<lparr>sl_value := EMPTY, received := received s @ [sl_value s]\<rparr>" using assms(2) False by (simp add: slot_swap_def)
  moreover have "values_inv (s\<lparr>sl_value := EMPTY, received := received s @ [sl_value s]\<rparr>)"
    using assms(1) False sub \<open>last (sent s) = sl_value s\<close> by (simp add: values_inv_def unread_sent_def [of "_\<lparr>received := _\<rparr>"])
  ultimately show ?thesis by simp
qed

lemma values_inv_closed:
  assumes "values_inv s" and "sl_value s = EMPTY" and "sl_closed s"
  shows "values_inv (rx_return (Poll_Ready None) s)"
  using assms by (auto simp: values_inv_def rx_return_def)

lemma values_inv_look:
  assumes "values_inv s" and "c \<Longrightarrow> sl_closed s"
  shows "values_inv (rx_goto (Rx_Load_Again c) s)" and "values_inv (rx_goto (Rx_Swap_Again c) s)"
  using assms by (simp_all add: rx_goto_def values_inv_def)

lemma values_inv_outcome:
  assumes "values_inv s" and "c \<Longrightarrow> sl_closed s" and "v = None \<Longrightarrow> sl_value s = EMPTY"
  shows "values_inv (rx_return (poll_outcome c v) s)"
  using assms values_inv_closed [of s] values_inv_return [of s]
  by (cases v; cases c) (simp_all add: poll_outcome_def)

lemma values_inv_rx:
  assumes "values_inv s" and step: "rx_step s = Some s'"
  shows "values_inv s'"
proof (cases "rx_at s")
  case Rx_Swap
  obtain v s1 where w: "slot_swap s = (v, s1)" by fastforce
  then show ?thesis using step Rx_Swap values_inv_swap [OF assms(1) w] values_inv_goto [of s1 Rx_Register]
      values_inv_return [of s1]
    by (cases v) (auto simp: rx_step_def register_step_def)
next
  case (Rx_Swap_Again c)
  obtain v s1 where w: "slot_swap s = (v, s1)" by fastforce
  have "c \<Longrightarrow> sl_closed s1"
    using assms(1) Rx_Swap_Again values_inv_swap [OF assms(1) w] by (simp add: values_inv_def)
  then have "values_inv (rx_return (poll_outcome c v) s1)"
    using values_inv_outcome [of s1 c v] values_inv_swap [OF assms(1) w] by blast
  then show ?thesis using step Rx_Swap_Again w by (simp add: rx_step_def register_step_def)
next
  case (Rx_Load_Again c)
  have "c \<Longrightarrow> sl_closed s" using assms(1) Rx_Load_Again by (simp add: values_inv_def)
  then show ?thesis using step Rx_Load_Again values_inv_look [OF assms(1), of c] values_inv_outcome [OF assms(1), of c None]
    by (simp add: rx_step_def register_step_def split: if_splits)
next
  case Rx_Closed
  then show ?thesis using step values_inv_look(1) [OF assms(1), of "sl_closed s"] by (simp add: rx_step_def register_step_def)
next
  case (Rx_Reset w)
  then show ?thesis using step values_inv_goto [OF values_inv_update(1) [OF assms(1)]]
    by (cases w) (auto simp: rx_step_def register_step_def)
qed (use step assms(1) values_inv_goto [OF assms(1)] values_inv_goto [OF values_inv_update(1) [OF assms(1)]]
    values_inv_goto [OF values_inv_update(2) [OF assms(1)]] values_inv_goto [OF values_inv_update(3) [OF assms(1)]]
  in \<open>auto simp: rx_step_def register_step_def split: if_splits\<close>)

section \<open>Reachable states\<close>

definition slot_inv :: "slot \<Rightarrow> bool" where
  "slot_inv s \<longleftrightarrow> lock_inv s \<and> wake_inv s \<and> values_inv s"

lemma slot_inv_idle:
  assumes "slot_inv s" and "tx_at s t = Tx_Idle" and "pc = Tx_Close \<or> (\<exists>v. pc = Tx_Store v)"
  shows "lock_inv (at_tx t pc s) \<and> wake_inv (at_tx t pc s)"
proof
  show "lock_inv (at_tx t pc s)"
    using assms by (intro lock_inv_same) (auto simp: slot_inv_def)
  have "\<not> carries w (tx_at s t)" "\<not> waking w (tx_at s t)" for w using assms(2) by simp_all
  then have c: "(\<exists>u. carries w (tx_at s u)) \<Longrightarrow> \<exists>u. carries w (tx_at (at_tx t pc s) u)"
    "(\<exists>u. waking w (tx_at s u)) \<Longrightarrow> \<exists>u. waking w (tx_at (at_tx t pc s) u)" for w
    by (auto, metis+)
  have "listening (at_tx t pc s) = listening s" "unseen (at_tx t pc s) = unseen s"
    by (simp_all add: listening_def unseen_def cong: rx_pc.case_cong)
  then show "wake_inv (at_tx t pc s)" using assms(1) c unfolding slot_inv_def wake_inv_def
    by (simp del: at_tx_simps(2)) blast
qed

lemma slot_reachable_inv: "slot_reachable s \<Longrightarrow> slot_inv s"
proof (induction rule: slot_reachable.induct)
  case start
  show ?case
    by (simp add: slot_inv_def lock_inv_def wake_inv_def values_inv_def slot_channel_def owners_def listening_def
        unread_sent_def WAITING_def)
next
  case (send s t v s')
  then have s': "s' = at_tx t (Tx_Store v) s" "v \<noteq> EMPTY"
    by (auto simp: slot_send_start_def split: if_splits)
  moreover have "values_inv (at_tx t (Tx_Store v) s)"
    using send s'(2) values_inv_at [of s "Tx_Store v" t] by (simp add: slot_inv_def)
  ultimately show ?case using slot_inv_idle [of s t "Tx_Store v"] send by (simp add: slot_inv_def)
next
  case (drop_sender s t)
  let ?s = "s\<lparr>tx_gone := True\<rparr>"
  have "lock_inv ?s" "wake_inv ?s"
    using drop_sender
    by (simp_all add: slot_inv_def lock_inv_def wake_inv_def listening_def unseen_def cong: rx_pc.case_cong)
  moreover have v: "values_inv ?s" using drop_sender by (auto simp: slot_inv_def values_inv_def)
  ultimately have "slot_inv ?s" by (simp add: slot_inv_def)
  then have "lock_inv (at_tx t Tx_Close ?s) \<and> wake_inv (at_tx t Tx_Close ?s)"
    using drop_sender by (intro slot_inv_idle) simp_all
  moreover have "values_inv (at_tx t Tx_Close ?s)" using values_inv_at [OF v, of Tx_Close t] by simp
  ultimately show ?case by (simp add: slot_inv_def)
next
  case (tx s t s')
  then show ?case using lock_inv_tx wake_inv_tx values_inv_tx unfolding slot_inv_def by blast
next
  case (poll s w)
  then show ?case
    by (auto simp: slot_inv_def slot_poll_start_def lock_inv_def wake_inv_def values_inv_def unread_sent_def listening_def)
next
  case (rx s s')
  then show ?case using lock_inv_rx wake_inv_rx values_inv_rx unfolding slot_inv_def by blast
next
  case (drop_receiver s)
  then show ?case
    by (simp add: slot_inv_def lock_inv_def wake_inv_def values_inv_def listening_def unseen_def cong: rx_pc.case_cong)
qed

text \<open>
  C14: However the sending threads and the receiver interleave, the slot loses no wake-up and no last
  value. A receiver whose poll returned \<open>Pending\<close> and that was not woken since has missed nothing once
  every call of the sender has returned: the slot is empty and open, and it received the newest value
  sent. What it receives are values that were sent, in order, each at most once; it is told that the
  sender is gone only after the last value, and two sides never use the waker cell at once.
\<close>

theorem slot_loses_no_wake_up:
  assumes "slot_reachable s"
  shows "subseq (received s) (sent s)
    \<and> (rx_at s = Rx_Idle \<longrightarrow> rx_result s = Some Poll_Pending \<longrightarrow> rx_waker s \<notin> woken s \<longrightarrow>
        (\<forall>t. tx_at s t = Tx_Idle) \<longrightarrow>
        sl_value s = EMPTY \<and> \<not> sl_closed s \<and> (sent s = [] \<or> last (received s) = last (sent s)))
    \<and> (rx_result s = Some (Poll_Ready None) \<longrightarrow>
        sl_closed s \<and> (sent s = [] \<or> last (received s) = last (sent s)))
    \<and> (\<forall>t u. owns (tx_at s t) \<longrightarrow> owns (tx_at s u) \<longrightarrow> t = u \<and> \<not> registering (rx_at s))"
proof -
  have inv: "lock_inv s" "wake_inv s" "values_inv s" using slot_reachable_inv [OF assms] by (simp_all add: slot_inv_def)
  have "subseq (received s) (sent s)"
    using inv(3) subseq_butlast by (auto simp: values_inv_def unread_sent_def split: if_splits)
  moreover have "sl_value s = EMPTY \<and> \<not> sl_closed s"
    if "rx_at s = Rx_Idle" "rx_result s = Some Poll_Pending" "rx_waker s \<notin> woken s" "\<forall>t. tx_at s t = Tx_Idle"
    using inv(2) that by (auto simp: wake_inv_def listening_def unseen_def)
  moreover have "sl_value s = EMPTY \<Longrightarrow> sent s = [] \<or> last (received s) = last (sent s)"
    using inv(3) by (auto simp: values_inv_def)
  moreover have "t = u \<and> \<not> registering (rx_at s)" if "owns (tx_at s t)" "owns (tx_at s u)" for t u
    using owner_state [OF inv(1) that(1)] owner_state [OF inv(1) that(2)] by auto
  ultimately show ?thesis using inv(3) unfolding values_inv_def by blast
qed

text \<open>A run: one value sent and received, then a poll that waits.\<close>

fun after_tx :: "thread \<Rightarrow> nat \<Rightarrow> slot \<Rightarrow> slot" where
  "after_tx t 0 s = s"
| "after_tx t (Suc n) s = (case tx_step t s of None \<Rightarrow> s | Some s' \<Rightarrow> after_tx t n s')"

fun after_rx :: "nat \<Rightarrow> slot \<Rightarrow> slot" where
  "after_rx 0 s = s"
| "after_rx (Suc n) s = (case rx_step s of None \<Rightarrow> s | Some s' \<Rightarrow> after_rx n s')"

lemma reachable_after_tx: "slot_reachable s \<Longrightarrow> slot_reachable (after_tx t n s)"
  by (induction t n s rule: after_tx.induct) (auto split: option.split intro: slot_reachable.tx)

lemma reachable_after_rx: "slot_reachable s \<Longrightarrow> slot_reachable (after_rx n s)"
  by (induction n s rule: after_rx.induct) (auto split: option.split intro: slot_reachable.rx)

lemma slot_loses_no_wake_up_witness:
  "\<exists>s. slot_reachable s \<and> rx_result s = Some Poll_Pending \<and> rx_at s = Rx_Idle \<and> sent s = [5] \<and> received s = [5]
    \<and> sl_value s = EMPTY \<and> subseq (received s) (sent s)"
proof -
  define s1 where "s1 = at_tx 3 (Tx_Store 5) slot_channel"
  define s2 where "s2 = after_tx 3 6 s1"
  define s3 where "s3 = after_rx 2 (slot_poll_start 7 s2)"
  define s4 where "s4 = after_rx 6 (slot_poll_start 7 s3)"
  have e: "5 \<noteq> EMPTY" "5 < u64_bound" by (simp_all add: EMPTY_def u64_bound_def)
  have two: "s2 = s1\<lparr>sl_value := 5, sent := [5], tx_at := (\<lambda>t. Tx_Idle)\<rparr>"
    by (simp add: s2_def s1_def tx_step_def wake_step_def slot_channel_def at_tx_def slot_simps numeral_eq_Suc fun_eq_iff)
  have three: "s3 = s2\<lparr>sl_value := EMPTY, received := [5], rx_at := Rx_Idle, rx_waker := 7, rx_result := Some (Poll_Ready (Some 5)), woken := {}\<rparr>"
    using e by (simp add: s3_def two s1_def rx_step_def register_step_def slot_poll_start_def slot_channel_def at_tx_def slot_simps slot_swap_def numeral_eq_Suc)
  have four: "rx_at s4 = Rx_Idle" "rx_result s4 = Some Poll_Pending" "rx_waker s4 = 7" "woken s4 = {}"
    "sent s4 = [5]" "received s4 = [5]" "tx_at s4 = (\<lambda>t. Tx_Idle)"
    by (simp_all add: s4_def three two s1_def rx_step_def register_step_def slot_poll_start_def slot_channel_def at_tx_def slot_simps
        poll_outcome_def numeral_eq_Suc)
  have "slot_reachable s1"
    using slot_reachable.send [OF slot_reachable.start, of 3 5 s1] e
    by (simp add: s1_def slot_send_start_def slot_channel_def)
  then have "slot_reachable s2" unfolding s2_def by (rule reachable_after_tx)
  then have "slot_reachable s3"
    unfolding s3_def by (intro reachable_after_rx slot_reachable.poll) (simp_all add: two s1_def slot_channel_def at_tx_def)
  then have r: "slot_reachable s4"
    unfolding s4_def by (intro reachable_after_rx slot_reachable.poll) (simp_all add: three two s1_def slot_channel_def at_tx_def)
  show ?thesis using slot_loses_no_wake_up [OF r] r four by (intro exI [of _ s4]) simp
qed

end
