(* ===== verification/Watch.thy ===== *)
theory Watch
  imports Prelude
begin

text \<open>
  The channel that keeps the latest value (\<open>bolt-load-sync/src/watch.rs\<close>), as a step relation: the
  steps are taking the lock, every atomic operation on the version, the pointer swap or clone with
  the release of the lock, and notifying. Any number of publishing threads and receivers interleave.

  The event of the \<open>event-listener\<close> crate is represented by what its documentation promises: a
  listener is registered when it is created, and a notification of all reaches every listener
  registered by then. The lock is a mutex; a poisoned one is used like any other, as the code does.
  \<open>published\<close>, \<open>rc_index\<close> and \<open>rc_reads\<close> are only observed.
\<close>

section \<open>State\<close>

definition CLOSED :: u64 where "CLOSED = 1"
definition STEP :: u64 where "STEP = 2"

type_synonym tid = nat
type_synonym rid = nat

datatype holder = By_Sender tid | By_Receiver rid

datatype 'v sender_pc =
    Sn_Idle
  | Sn_Lock 'v
  | Sn_Bump 'v
  | Sn_Replace 'v
  | Sn_Notify
  | Sn_Close
  | Sn_Close_Notify

datatype receiver_pc =
    Rc_Idle
  | Rc_Check
  | Rc_Listen
  | Rc_Recheck
  | Rc_Wait
  | Rc_Lock
  | Rc_Version
  | Rc_Clone
  | Rs_Check
  | Rs_Listener

datatype 'v watch_result = Res_Changed | Res_Closed | Res_Value 'v | Res_Pending | Res_End

datatype stream_state = No_Stream | First | Stream_Waiting | Stream_Done

record 'v watch_receiver =
  rc_seen :: u64
  rc_at :: receiver_pc
  rc_listener :: "bool option"
  rc_stream :: stream_state
  rc_result :: "'v watch_result option"
  rc_index :: nat
  rc_reads :: "(nat \<times> 'v) list"

record 'v watch =
  wt_value :: 'v
  wt_state :: u64
  wt_lock :: "holder option"
  wt_senders :: "tid \<Rightarrow> 'v sender_pc"
  wt_gone :: bool
  wt_returned :: "tid \<Rightarrow> 'v option"
  wt_receivers :: "rid \<rightharpoonup> 'v watch_receiver"
  published :: "'v list"

text \<open>\<open>state & !CLOSED\<close> and \<open>state & CLOSED != 0\<close>; \<open>fetch_or(CLOSED)\<close>.\<close>

definition version_of :: "u64 \<Rightarrow> u64" where
  "version_of state = state - state mod 2"

definition closed_of :: "u64 \<Rightarrow> bool" where
  "closed_of state \<longleftrightarrow> state mod 2 = CLOSED"

definition or_closed :: "u64 \<Rightarrow> u64" where
  "or_closed state = version_of state + CLOSED"

definition version :: "'v watch \<Rightarrow> u64" where
  "version w = version_of (wt_state w)"

definition is_closed :: "'v watch \<Rightarrow> bool" where
  "is_closed w \<longleftrightarrow> closed_of (wt_state w)"

definition newest :: "'v watch \<Rightarrow> nat" where
  "newest w = length (published w) - 1"

definition watch_receiver_new :: "u64 \<Rightarrow> nat \<Rightarrow> 'v watch_receiver" where
  "watch_receiver_new seen index =
     \<lparr>rc_seen = seen, rc_at = Rc_Idle, rc_listener = None, rc_stream = No_Stream, rc_result = None,
      rc_index = index, rc_reads = []\<rparr>"

definition watch_channel :: "'v \<Rightarrow> 'v watch" where
  "watch_channel initial =
     \<lparr>wt_value = initial, wt_state = 0, wt_lock = None, wt_senders = (\<lambda>t. Sn_Idle), wt_gone = False,
      wt_returned = Map.empty, wt_receivers = [0 \<mapsto> watch_receiver_new 0 0], published = [initial]\<rparr>"

section \<open>The sender\<close>

definition sender_at :: "tid \<Rightarrow> 'v sender_pc \<Rightarrow> 'v watch \<Rightarrow> 'v watch" where
  "sender_at t pc w = w\<lparr>wt_senders := (wt_senders w)(t := pc)\<rparr>"

text \<open>\<open>notify(usize::MAX)\<close>.\<close>

definition notify_all :: "'v watch \<Rightarrow> 'v watch" where
  "notify_all w =
     w\<lparr>wt_receivers :=
        (\<lambda>r. map_option (\<lambda>rc. rc\<lparr>rc_listener := map_option (\<lambda>_. True) (rc_listener rc)\<rparr>)
          (wt_receivers w r))\<rparr>"

text \<open>The next step of thread \<open>t\<close> in \<open>send_replace\<close> or the drop; \<open>None\<close> while the lock is taken.\<close>

definition sender_step :: "tid \<Rightarrow> 'v watch \<Rightarrow> 'v watch option" where
  "sender_step t w =
     (case wt_senders w t of
        Sn_Idle \<Rightarrow> None
      | Sn_Lock v \<Rightarrow>
          if wt_lock w = None then Some (sender_at t (Sn_Bump v) (w\<lparr>wt_lock := Some (By_Sender t)\<rparr>)) else None
      | Sn_Bump v \<Rightarrow>
          Some (sender_at t (Sn_Replace v)
            (w\<lparr>wt_state := add64 (wt_state w) STEP, published := published w @ [v]\<rparr>))
      | Sn_Replace v \<Rightarrow>
          Some (sender_at t Sn_Notify
            (w\<lparr>wt_value := v, wt_lock := None, wt_returned := (wt_returned w)(t := Some (wt_value w))\<rparr>))
      | Sn_Notify \<Rightarrow> Some (sender_at t Sn_Idle (notify_all w))
      | Sn_Close \<Rightarrow> Some (sender_at t Sn_Close_Notify (w\<lparr>wt_state := or_closed (wt_state w)\<rparr>))
      | Sn_Close_Notify \<Rightarrow> Some (sender_at t Sn_Idle (notify_all w)))"

definition watch_subscribe :: "'v watch \<Rightarrow> 'v watch_receiver" where
  "watch_subscribe w = watch_receiver_new (version w) (newest w)"

section \<open>Receivers\<close>

text \<open>\<open>poll_state\<close>: the version it marks as seen, and what \<open>changed\<close> can return without waiting.\<close>

definition poll_state :: "u64 \<Rightarrow> u64 \<Rightarrow> u64 \<times> 'v watch_result option" where
  "poll_state state seen =
     (if version_of state \<noteq> seen then (version_of state, Some Res_Changed)
      else if closed_of state then (seen, Some Res_Closed)
      else (seen, None))"

definition has_changed :: "'v watch \<Rightarrow> 'v watch_receiver \<Rightarrow> bool" where
  "has_changed w rc \<longleftrightarrow> version w \<noteq> rc_seen rc"

definition mark_unchanged :: "'v watch \<Rightarrow> 'v watch_receiver \<Rightarrow> 'v watch_receiver" where
  "mark_unchanged w rc = rc\<lparr>rc_seen := version w, rc_index := newest w\<rparr>"

definition receiver_clone :: "'v watch_receiver \<Rightarrow> 'v watch_receiver" where
  "receiver_clone rc = watch_receiver_new (rc_seen rc) (rc_index rc)"

definition receiver_return :: "'v watch_result \<Rightarrow> 'v watch_receiver \<Rightarrow> 'v watch_receiver" where
  "receiver_return r rc = rc\<lparr>rc_at := Rc_Idle, rc_result := Some r\<rparr>"

text \<open>
  One look at the state by a receiver: it marks a newer version as seen and goes on to \<open>found\<close>, or
  to \<open>nothing\<close> when there is nothing new and the channel is open.
\<close>

definition receiver_look ::
  "'v watch \<Rightarrow> ('v watch_result \<Rightarrow> 'v watch_receiver \<Rightarrow> 'v watch_receiver) \<Rightarrow> receiver_pc
    \<Rightarrow> 'v watch_receiver \<Rightarrow> 'v watch_receiver" where
  "receiver_look w found nothing rc =
     (case poll_state (wt_state w) (rc_seen rc) of
        (seen, None) \<Rightarrow> rc\<lparr>rc_at := nothing\<rparr>
      | (seen, Some r) \<Rightarrow>
          found r (rc\<lparr>rc_seen := seen, rc_listener := None,
            rc_index := (if r = Res_Changed then newest w else rc_index rc)\<rparr>))"

definition stream_found :: "'v watch_result \<Rightarrow> 'v watch_receiver \<Rightarrow> 'v watch_receiver" where
  "stream_found r rc =
     (if r = Res_Changed then rc\<lparr>rc_at := Rc_Lock\<rparr>
      else receiver_return Res_End (rc\<lparr>rc_stream := Stream_Done\<rparr>))"

text \<open>The next step of \<open>changed\<close>; the blocking form takes the same ones.\<close>

definition changed_step :: "'v watch \<Rightarrow> 'v watch_receiver \<Rightarrow> 'v watch_receiver option" where
  "changed_step w rc =
     (case rc_at rc of
        Rc_Check \<Rightarrow> Some (receiver_look w receiver_return Rc_Listen rc)
      | Rc_Listen \<Rightarrow> Some (rc\<lparr>rc_listener := Some False, rc_at := Rc_Recheck\<rparr>)
      | Rc_Recheck \<Rightarrow> Some (receiver_look w receiver_return Rc_Wait rc)
      | Rc_Wait \<Rightarrow>
          if rc_listener rc = Some True then Some (rc\<lparr>rc_listener := None, rc_at := Rc_Check\<rparr>) else None
      | _ \<Rightarrow> None)"

text \<open>The next step of the stream's \<open>poll_next\<close> that does not touch the lock.\<close>

definition receiver_local :: "'v watch \<Rightarrow> 'v watch_receiver \<Rightarrow> 'v watch_receiver option" where
  "receiver_local w rc =
     (case rc_at rc of
        Rs_Check \<Rightarrow> Some (receiver_look w stream_found Rs_Listener rc)
      | Rs_Listener \<Rightarrow>
         (case rc_listener rc of
            None \<Rightarrow> Some (rc\<lparr>rc_listener := Some False, rc_at := Rs_Check\<rparr>)
          | Some True \<Rightarrow> Some (rc\<lparr>rc_listener := None, rc_at := Rs_Check\<rparr>)
          | Some False \<Rightarrow> Some (receiver_return Res_Pending rc))
      | _ \<Rightarrow> changed_step w rc)"

text \<open>\<open>borrow_and_update\<close>: lock, read the version, clone the pointer and unlock.\<close>

definition receiver_step :: "rid \<Rightarrow> 'v watch \<Rightarrow> 'v watch option" where
  "receiver_step r w =
     (case wt_receivers w r of
        None \<Rightarrow> None
      | Some rc \<Rightarrow>
         (case rc_at rc of
            Rc_Lock \<Rightarrow>
              if wt_lock w = None
              then Some (w\<lparr>wt_lock := Some (By_Receiver r),
                wt_receivers := (wt_receivers w)(r \<mapsto> rc\<lparr>rc_at := Rc_Version\<rparr>)\<rparr>)
              else None
          | Rc_Version \<Rightarrow>
              Some (w\<lparr>wt_receivers := (wt_receivers w)(r \<mapsto>
                (mark_unchanged w rc)\<lparr>rc_at := Rc_Clone\<rparr>)\<rparr>)
          | Rc_Clone \<Rightarrow>
              Some (w\<lparr>wt_lock := None, wt_receivers := (wt_receivers w)(r \<mapsto>
                (receiver_return (Res_Value (wt_value w)) rc)
                  \<lparr>rc_reads := rc_reads rc @ [(rc_index rc, wt_value w)]\<rparr>)\<rparr>)
          | _ \<Rightarrow>
             (case receiver_local w rc of
                None \<Rightarrow> None
              | Some rc' \<Rightarrow> Some (w\<lparr>wt_receivers := (wt_receivers w)(r \<mapsto> rc')\<rparr>))))"

text \<open>
  What a receiver that is not in a call may start: \<open>changed\<close>, \<open>borrow_and_update\<close>,
  \<open>mark_unchanged\<close>, turning it into a stream, and polling the stream. A pending \<open>changed\<close> may be
  dropped where it waits.
\<close>

datatype receiver_call = Call_Changed | Call_Read | Call_Mark | Call_Stream | Call_Next | Call_Cancel

definition start_call :: "'v watch \<Rightarrow> receiver_call \<Rightarrow> 'v watch_receiver \<Rightarrow> 'v watch_receiver option" where
  "start_call w call rc =
     (if call = Call_Cancel then
        (if rc_at rc = Rc_Wait then Some (rc\<lparr>rc_at := Rc_Idle, rc_listener := None, rc_result := None\<rparr>) else None)
      else if rc_at rc \<noteq> Rc_Idle then None
      else (case (rc_stream rc, call) of
          (No_Stream, Call_Changed) \<Rightarrow> Some (rc\<lparr>rc_at := Rc_Check, rc_result := None\<rparr>)
        | (No_Stream, Call_Read) \<Rightarrow> Some (rc\<lparr>rc_at := Rc_Lock, rc_result := None\<rparr>)
        | (No_Stream, Call_Mark) \<Rightarrow> Some ((mark_unchanged w rc)\<lparr>rc_result := None\<rparr>)
        | (No_Stream, Call_Stream) \<Rightarrow> Some (rc\<lparr>rc_stream := First, rc_result := None\<rparr>)
        | (First, Call_Next) \<Rightarrow> Some (rc\<lparr>rc_stream := Stream_Waiting, rc_at := Rc_Lock, rc_result := None\<rparr>)
        | (Stream_Waiting, Call_Next) \<Rightarrow> Some (rc\<lparr>rc_at := Rs_Check, rc_result := None\<rparr>)
        | (Stream_Done, Call_Next) \<Rightarrow> Some (rc\<lparr>rc_result := Some Res_End\<rparr>)
        | _ \<Rightarrow> None))"

text \<open>The loop of \<open>wait_for\<close>: what it does next after what its last call returned.\<close>

datatype 'v wait_step = Wait_Read | Wait_Changed | Wait_Return "'v option"

definition wait_for_next :: "('v \<Rightarrow> bool) \<Rightarrow> 'v watch_result option \<Rightarrow> 'v wait_step" where
  "wait_for_next f r =
     (case r of
        Some (Res_Value v) \<Rightarrow> if f v then Wait_Return (Some v) else Wait_Changed
      | Some Res_Closed \<Rightarrow> Wait_Return None
      | _ \<Rightarrow> Wait_Read)"

section \<open>Runs\<close>

inductive watch_reachable :: "'v watch \<Rightarrow> bool" where
  start: "watch_reachable (watch_channel v)"
| publish: "watch_reachable w \<Longrightarrow> \<not> wt_gone w \<Longrightarrow> wt_senders w t = Sn_Idle \<Longrightarrow>
    watch_reachable (sender_at t (Sn_Lock v) w)"
| drop_sender: "watch_reachable w \<Longrightarrow> \<not> wt_gone w \<Longrightarrow> (\<And>u. wt_senders w u = Sn_Idle) \<Longrightarrow>
    watch_reachable (sender_at t Sn_Close (w\<lparr>wt_gone := True\<rparr>))"
| sender: "watch_reachable w \<Longrightarrow> sender_step t w = Some w' \<Longrightarrow> watch_reachable w'"
| subscribe: "watch_reachable w \<Longrightarrow> \<not> wt_gone w \<Longrightarrow> wt_receivers w r = None \<Longrightarrow>
    watch_reachable (w\<lparr>wt_receivers := (wt_receivers w)(r \<mapsto> watch_subscribe w)\<rparr>)"
| clone: "watch_reachable w \<Longrightarrow> wt_receivers w q = Some rc \<Longrightarrow> rc_at rc = Rc_Idle \<Longrightarrow> wt_receivers w r = None \<Longrightarrow>
    watch_reachable (w\<lparr>wt_receivers := (wt_receivers w)(r \<mapsto> receiver_clone rc)\<rparr>)"
| call: "watch_reachable w \<Longrightarrow> wt_receivers w r = Some rc \<Longrightarrow> start_call w c rc = Some rc' \<Longrightarrow>
    watch_reachable (w\<lparr>wt_receivers := (wt_receivers w)(r \<mapsto> rc')\<rparr>)"
| receiver: "watch_reachable w \<Longrightarrow> receiver_step r w = Some w' \<Longrightarrow> watch_reachable w'"
| drop_receiver: "watch_reachable w \<Longrightarrow> wt_receivers w r = Some rc \<Longrightarrow> rc_at rc = Rc_Idle \<Longrightarrow>
    watch_reachable (w\<lparr>wt_receivers := (wt_receivers w)(r := None)\<rparr>)"

end
