(* ===== verification/Watch_Props.thy ===== *)
theory Watch_Props
  imports Watch
begin

text \<open>
  The properties of the channel that keeps the latest value: a version and its value are seen
  together, a receiver never goes back, a receiver that waits is notified, and \<open>Closed\<close> is returned
  only after the last version was seen.
\<close>

section \<open>The shared state\<close>

definition ver :: "nat \<Rightarrow> u64" where
  "ver k = (2 * k) mod u64_bound"

fun locked_pc :: "'v sender_pc \<Rightarrow> bool" where
  "locked_pc (Sn_Bump v) = True"
| "locked_pc (Sn_Replace v) = True"
| "locked_pc _ = False"

fun closing_pc :: "'v sender_pc \<Rightarrow> bool" where
  "closing_pc Sn_Idle = True"
| "closing_pc Sn_Close = True"
| "closing_pc Sn_Close_Notify = True"
| "closing_pc _ = False"

fun notifying :: "'v sender_pc \<Rightarrow> bool" where
  "notifying (Sn_Replace v) = True"
| "notifying Sn_Notify = True"
| "notifying Sn_Close_Notify = True"
| "notifying _ = False"

definition shared_inv :: "'v watch \<Rightarrow> bool" where
  "shared_inv w \<longleftrightarrow>
     published w \<noteq> []
     \<and> (wt_state w = ver (newest w) \<or> wt_state w = ver (newest w) + 1 \<and> wt_gone w)
     \<and> (wt_gone w \<longrightarrow> (\<forall>t. closing_pc (wt_senders w t)))
     \<and> (\<forall>t. locked_pc (wt_senders w t) \<longrightarrow> wt_lock w = Some (By_Sender t))
     \<and> (\<forall>t. wt_senders w t = Sn_Close \<longrightarrow> wt_gone w)
     \<and> (\<forall>t v. wt_senders w t = Sn_Replace v \<longrightarrow> last (published w) = v)
     \<and> ((\<forall>t v. wt_senders w t \<noteq> Sn_Replace v) \<longrightarrow> wt_value w = last (published w))"

lemma ver_even [simp]: "ver k mod 2 = 0"
proof -
  have "(2::nat) dvd u64_bound" by (simp add: u64_bound_def)
  then show ?thesis by (simp add: ver_def mod_mod_cancel)
qed

lemma ver_odd [simp]: "Suc (ver k) mod 2 = 1"
  using ver_even [of k] by presburger

lemma ver_Suc: "add64 (ver k) STEP = ver (Suc k)"
  by (simp add: add64_def STEP_def ver_def mod_simps)

lemma ver_inj:
  assumes "ver a = ver b" and "a < 2 ^ 63" and "b < 2 ^ 63"
  shows "a = b"
  using assms by (simp add: ver_def u64_bound_def)

lemma version_ver:
  assumes "shared_inv w"
  shows "version w = ver (newest w)" and "is_closed w \<Longrightarrow> wt_gone w"
    and "is_closed w \<longleftrightarrow> wt_state w = ver (newest w) + 1"
  using assms ver_even [of "newest w"] ver_odd [of "newest w"]
  by (auto simp: shared_inv_def version_def version_of_def is_closed_def closed_of_def CLOSED_def)

section \<open>A receiver\<close>

definition waiting :: "'v watch_receiver \<Rightarrow> bool" where
  "waiting rc \<longleftrightarrow> rc_listener rc = Some False
     \<and> (rc_at rc = Rc_Wait \<or> rc_at rc = Rs_Listener \<or> rc_at rc = Rc_Idle \<and> rc_result rc = Some Res_Pending)"

definition told_closed :: "'v watch_receiver \<Rightarrow> bool" where
  "told_closed rc \<longleftrightarrow> rc_result rc = Some Res_Closed \<or> rc_result rc = Some Res_End \<or> rc_stream rc = Stream_Done"

definition reads_ok :: "'v list \<Rightarrow> nat \<Rightarrow> (nat \<times> 'v) list \<Rightarrow> bool" where
  "reads_ok vs n reads \<longleftrightarrow>
     sorted (map fst reads) \<and> (\<forall>(i, v) \<in> set reads. i \<le> n \<and> i < length vs \<and> v = vs ! i)"

definition any_notifying :: "'v watch \<Rightarrow> bool" where
  "any_notifying w \<longleftrightarrow> (\<exists>t. notifying (wt_senders w t))"

definition receiver_ok :: "'v watch \<Rightarrow> rid \<Rightarrow> 'v watch_receiver \<Rightarrow> bool" where
  "receiver_ok w r rc \<longleftrightarrow>
     rc_index rc \<le> newest w \<and> rc_seen rc = ver (rc_index rc)
     \<and> reads_ok (published w) (rc_index rc) (rc_reads rc)
     \<and> (rc_at rc = Rc_Version \<or> rc_at rc = Rc_Clone \<longrightarrow> wt_lock w = Some (By_Receiver r))
     \<and> (rc_at rc = Rc_Clone \<longrightarrow> rc_index rc = newest w)
     \<and> (told_closed rc \<longrightarrow> is_closed w \<and> rc_seen rc = version w)
     \<and> (waiting rc \<longrightarrow> rc_seen rc = version w \<and> \<not> is_closed w \<or> any_notifying w)"

definition watch_inv :: "'v watch \<Rightarrow> bool" where
  "watch_inv w \<longleftrightarrow> shared_inv w \<and> (\<forall>r rc. wt_receivers w r = Some rc \<longrightarrow> receiver_ok w r rc)"

lemma reads_ok_grow:
  "reads_ok vs n reads \<Longrightarrow> n \<le> m \<Longrightarrow> reads_ok (vs @ ws) m reads"
  by (fastforce simp: reads_ok_def nth_append)

lemma reads_ok_snoc:
  assumes "reads_ok vs n reads" and "n < length vs"
  shows "reads_ok vs n (reads @ [(n, vs ! n)])"
  using assms by (auto simp: reads_ok_def sorted_append)

section \<open>Steps of a sender\<close>

lemma sender_at_simps [simp]:
  "wt_senders (sender_at t pc w) = (wt_senders w)(t := pc)" "wt_value (sender_at t pc w) = wt_value w"
  "wt_state (sender_at t pc w) = wt_state w" "wt_lock (sender_at t pc w) = wt_lock w"
  "wt_gone (sender_at t pc w) = wt_gone w" "wt_receivers (sender_at t pc w) = wt_receivers w"
  "published (sender_at t pc w) = published w" "newest (sender_at t pc w) = newest w"
  "version (sender_at t pc w) = version w" "is_closed (sender_at t pc w) = is_closed w"
  by (simp_all add: sender_at_def newest_def version_def is_closed_def)

lemma notify_all_simps [simp]:
  "wt_senders (notify_all w) = wt_senders w" "wt_value (notify_all w) = wt_value w"
  "wt_state (notify_all w) = wt_state w" "wt_lock (notify_all w) = wt_lock w" "wt_gone (notify_all w) = wt_gone w"
  "published (notify_all w) = published w" "newest (notify_all w) = newest w"
  "version (notify_all w) = version w" "is_closed (notify_all w) = is_closed w"
  by (simp_all add: notify_all_def newest_def version_def is_closed_def)

text \<open>A step that changes nothing a receiver looks at, or leaves a sender about to notify.\<close>

lemma receiver_ok_same:
  assumes "receiver_ok w r rc" and "published w' = published w" and "is_closed w' = is_closed w"
    and "version w' = version w" and "wt_lock w' = wt_lock w"
    and "any_notifying w \<Longrightarrow> any_notifying w'"
  shows "receiver_ok w' r rc"
  using assms by (auto simp: receiver_ok_def newest_def)

lemma shared_inv_at:
  assumes inv: "shared_inv w" and old: "\<not> locked_pc (wt_senders w t)" and pc: "\<not> locked_pc pc"
    and "closing_pc pc \<or> \<not> wt_gone w" and "pc = Sn_Close \<Longrightarrow> wt_gone w"
  shows "shared_inv (sender_at t pc w)"
proof -
  have "wt_senders w t \<noteq> Sn_Replace v" "pc \<noteq> Sn_Replace v" for v using old pc by auto
  then have same: "((wt_senders w)(t := pc)) u = Sn_Replace v \<longleftrightarrow> wt_senders w u = Sn_Replace v" for u v
    by (cases "u = t") simp_all
  have "(\<forall>u v. ((wt_senders w)(t := pc)) u \<noteq> Sn_Replace v) \<longleftrightarrow> (\<forall>u v. wt_senders w u \<noteq> Sn_Replace v)"
    "\<And>u v. ((wt_senders w)(t := pc)) u = Sn_Replace v \<Longrightarrow> wt_senders w u = Sn_Replace v"
    by (simp_all only: same)
  moreover have "\<And>u. locked_pc (((wt_senders w)(t := pc)) u) \<Longrightarrow> locked_pc (wt_senders w u)"
    using pc by (auto split: if_splits)
  moreover have "wt_gone w \<Longrightarrow> closing_pc (((wt_senders w)(t := pc)) u)" for u
    using assms(4) inv by (auto simp: shared_inv_def)
  moreover have "((wt_senders w)(t := pc)) u = Sn_Close \<Longrightarrow> wt_gone w" for u
    using assms(5) inv by (auto simp: shared_inv_def split: if_splits)
  ultimately show ?thesis using inv unfolding shared_inv_def sender_at_simps by blast
qed

lemma shared_inv_notify: "shared_inv w \<Longrightarrow> shared_inv (notify_all w)"
  by (simp add: shared_inv_def)

lemma shared_inv_sender:
  assumes "shared_inv w" and step: "sender_step t w = Some w'"
  shows "shared_inv w'"
proof (cases "wt_senders w t")
  case Sn_Idle
  then show ?thesis using step by (simp add: sender_step_def)
next
  case (Sn_Lock v)
  then have w': "w' = sender_at t (Sn_Bump v) (w\<lparr>wt_lock := Some (By_Sender t)\<rparr>)" "wt_lock w = None"
    using step by (auto simp: sender_step_def split: if_splits)
  have "\<not> locked_pc (wt_senders w u)" for u using assms(1) w'(2) by (auto simp: shared_inv_def)
  moreover have "\<not> wt_gone w" using assms(1) Sn_Lock by (auto simp: shared_inv_def dest: spec [of _ t])
  moreover have "wt_senders w u \<noteq> Sn_Replace x" for u x using \<open>\<And>u. \<not> locked_pc (wt_senders w u)\<close> [of u] by auto
  ultimately show ?thesis using assms(1) w'(1) by (simp add: shared_inv_def newest_def)
next
  case (Sn_Bump v)
  then have w': "w' = sender_at t (Sn_Replace v) (w\<lparr>wt_state := add64 (wt_state w) STEP, published := published w @ [v]\<rparr>)"
    using step by (simp add: sender_step_def)
  have lock: "wt_lock w = Some (By_Sender t)" using assms(1) Sn_Bump by (auto simp: shared_inv_def dest: spec [of _ t])
  have open_w: "\<not> wt_gone w" using assms(1) Sn_Bump by (auto simp: shared_inv_def dest: spec [of _ t])
  then have "wt_state w = ver (newest w)" using assms(1) by (simp add: shared_inv_def)
  moreover have "Suc (newest w) = length (published w)" using assms(1) by (simp add: shared_inv_def newest_def)
  ultimately have "add64 (wt_state w) STEP = ver (length (published w))" using ver_Suc [of "newest w"] by simp
  moreover have "wt_senders w u \<noteq> Sn_Replace x" if "u \<noteq> t" for u x
  proof
    assume "wt_senders w u = Sn_Replace x"
    then have "wt_lock w = Some (By_Sender u)" using assms(1) by (auto simp: shared_inv_def dest: spec [of _ u])
    then show False using lock that by simp
  qed
  ultimately show ?thesis using assms(1) w' open_w lock by (auto simp: shared_inv_def newest_def)
next
  case (Sn_Replace v)
  then have w': "w' = sender_at t Sn_Notify (w\<lparr>wt_value := v, wt_lock := None, wt_returned := (wt_returned w)(t := Some (wt_value w))\<rparr>)"
    using step by (simp add: sender_step_def)
  have lock: "wt_lock w = Some (By_Sender t)" using assms(1) Sn_Replace by (auto simp: shared_inv_def dest: spec [of _ t])
  have none: "\<not> locked_pc (wt_senders w u)" if "u \<noteq> t" for u
    using assms(1) lock that by (auto simp: shared_inv_def)
  have last: "last (published w) = v" using assms(1) Sn_Replace by (simp add: shared_inv_def)
  have "\<not> wt_gone w" using assms(1) Sn_Replace by (auto simp: shared_inv_def dest: spec [of _ t])
  moreover have "wt_senders w u \<noteq> Sn_Replace x" if "u \<noteq> t" for u x using none [OF that] by auto
  ultimately show ?thesis using assms(1) w' none last by (auto simp: shared_inv_def newest_def)
next
  case Sn_Notify
  then have "w' = sender_at t Sn_Idle (notify_all w)" using step by (simp add: sender_step_def)
  then show ?thesis using shared_inv_at [OF shared_inv_notify [OF assms(1)], of t Sn_Idle] Sn_Notify by simp
next
  case Sn_Close
  then have w': "w' = sender_at t Sn_Close_Notify (w\<lparr>wt_state := or_closed (wt_state w)\<rparr>)"
    using step by (simp add: sender_step_def)
  have gone: "wt_gone w" using assms(1) Sn_Close by (auto simp: shared_inv_def)
  have "wt_state w = ver (newest w) \<or> wt_state w = ver (newest w) + 1" using assms(1) by (auto simp: shared_inv_def)
  then have "or_closed (wt_state w) = ver (newest w) + 1"
    using ver_even [of "newest w"] ver_odd [of "newest w"] by (auto simp: or_closed_def version_of_def CLOSED_def)
  then have "shared_inv (w\<lparr>wt_state := or_closed (wt_state w)\<rparr>)"
    using assms(1) gone by (simp add: shared_inv_def newest_def)
  then show ?thesis
    using shared_inv_at [of "w\<lparr>wt_state := or_closed (wt_state w)\<rparr>" t Sn_Close_Notify] Sn_Close w' by simp
next
  case Sn_Close_Notify
  then have "w' = sender_at t Sn_Idle (notify_all w)" using step by (simp add: sender_step_def)
  then show ?thesis using shared_inv_at [OF shared_inv_notify [OF assms(1)], of t Sn_Idle] Sn_Close_Notify by simp
qed

lemma shared_inv_receiver: "shared_inv w \<Longrightarrow> shared_inv (w\<lparr>wt_receivers := f\<rparr>)"
  by (simp add: shared_inv_def newest_def)

lemma receiver_ok_sender:
  assumes inv: "shared_inv w" and ok: "receiver_ok w r rc" and step: "sender_step t w = Some w'"
    and "wt_receivers w r = Some rc"
  shows "\<exists>rc'. wt_receivers w' r = Some rc' \<and> receiver_ok w' r rc'"
proof (cases "wt_senders w t")
  case Sn_Idle
  then show ?thesis using step by (simp add: sender_step_def)
next
  case (Sn_Lock v)
  then have w': "w' = sender_at t (Sn_Bump v) (w\<lparr>wt_lock := Some (By_Sender t)\<rparr>)" "wt_lock w = None"
    using step by (auto simp: sender_step_def split: if_splits)
  then have "rc_at rc \<noteq> Rc_Version" "rc_at rc \<noteq> Rc_Clone" using ok by (auto simp: receiver_ok_def)
  moreover have "any_notifying w'" if n: "any_notifying w"
  proof -
    obtain u where "notifying (wt_senders w u)" using n by (auto simp: any_notifying_def)
    then have "notifying (wt_senders w' u)" using w'(1) Sn_Lock by (cases "u = t") auto
    then show ?thesis by (auto simp: any_notifying_def)
  qed
  ultimately have "receiver_ok w' r rc"
    using ok w'(1) by (auto simp: receiver_ok_def newest_def version_def is_closed_def)
  then show ?thesis using w'(1) assms(4) by simp
next
  case (Sn_Bump v)
  then have w': "w' = sender_at t (Sn_Replace v) (w\<lparr>wt_state := add64 (wt_state w) STEP, published := published w @ [v]\<rparr>)"
    using step by (simp add: sender_step_def)
  have lock: "wt_lock w = Some (By_Sender t)" using inv Sn_Bump by (auto simp: shared_inv_def dest: spec [of _ t])
  have "\<not> wt_gone w" using inv Sn_Bump by (auto simp: shared_inv_def dest: spec [of _ t])
  then have "\<not> is_closed w" using version_ver(2) [OF inv] by blast
  then have "\<not> told_closed rc" "rc_at rc \<noteq> Rc_Version" "rc_at rc \<noteq> Rc_Clone"
    using ok lock by (auto simp: receiver_ok_def)
  moreover have "any_notifying w'" using w' by (auto simp: any_notifying_def intro: exI [of _ t])
  moreover have "published w' = published w @ [v]" "newest w \<le> newest w'" using w' by (simp_all add: newest_def)
  ultimately have "receiver_ok w' r rc"
    using ok reads_ok_grow [of "published w" "rc_index rc" "rc_reads rc" "rc_index rc" "[v]"]
    by (auto simp: receiver_ok_def)
  then show ?thesis using w' assms(4) by simp
next
  case (Sn_Replace v)
  then have w': "w' = sender_at t Sn_Notify (w\<lparr>wt_value := v, wt_lock := None, wt_returned := (wt_returned w)(t := Some (wt_value w))\<rparr>)"
    using step by (simp add: sender_step_def)
  have "wt_lock w = Some (By_Sender t)" using inv Sn_Replace by (auto simp: shared_inv_def dest: spec [of _ t])
  then have "rc_at rc \<noteq> Rc_Version" "rc_at rc \<noteq> Rc_Clone" using ok by (auto simp: receiver_ok_def)
  moreover have "any_notifying w'" using w' by (auto simp: any_notifying_def intro: exI [of _ t])
  ultimately have "receiver_ok w' r rc"
    using ok w' by (auto simp: receiver_ok_def newest_def version_def is_closed_def)
  then show ?thesis using w' assms(4) by simp
next
  case Sn_Close
  then have w': "w' = sender_at t Sn_Close_Notify (w\<lparr>wt_state := or_closed (wt_state w)\<rparr>)"
    using step by (simp add: sender_step_def)
  have "shared_inv w'" using shared_inv_sender [OF inv step] .
  then have "version w' = version w" using version_ver(1) [OF inv] version_ver(1) [of w'] w' by (simp add: newest_def)
  moreover have "is_closed w \<Longrightarrow> is_closed w'"
    using w' by (simp add: is_closed_def closed_of_def or_closed_def version_of_def CLOSED_def)
  moreover have "any_notifying w'" using w' by (auto simp: any_notifying_def intro: exI [of _ t])
  ultimately have "receiver_ok w' r rc"
    using ok w' by (auto simp: receiver_ok_def newest_def)
  then show ?thesis using w' assms(4) by simp
next
  case Sn_Notify
  then have w': "w' = sender_at t Sn_Idle (notify_all w)" using step by (simp add: sender_step_def)
  let ?rc = "rc\<lparr>rc_listener := map_option (\<lambda>_. True) (rc_listener rc)\<rparr>"
  have "\<not> waiting ?rc" by (auto simp: waiting_def)
  then have "receiver_ok w' r ?rc" using ok w' by (auto simp: receiver_ok_def told_closed_def)
  then show ?thesis using w' assms(4) by (simp add: notify_all_def)
next
  case Sn_Close_Notify
  then have w': "w' = sender_at t Sn_Idle (notify_all w)" using step by (simp add: sender_step_def)
  let ?rc = "rc\<lparr>rc_listener := map_option (\<lambda>_. True) (rc_listener rc)\<rparr>"
  have "\<not> waiting ?rc" by (auto simp: waiting_def)
  then have "receiver_ok w' r ?rc" using ok w' by (auto simp: receiver_ok_def told_closed_def)
  then show ?thesis using w' assms(4) by (simp add: notify_all_def)
qed

lemma sender_step_receivers:
  assumes "sender_step t w = Some w'" and "wt_receivers w' r = Some rc'"
  shows "\<exists>rc. wt_receivers w r = Some rc"
  using assms by (cases "wt_receivers w r")
    (auto simp: sender_step_def notify_all_def split: sender_pc.splits if_splits)

lemma watch_inv_sender:
  assumes "watch_inv w" and "sender_step t w = Some w'"
  shows "watch_inv w'"
proof -
  have "receiver_ok w' r rc'" if "wt_receivers w' r = Some rc'" for r rc'
  proof -
    have "\<exists>rc. wt_receivers w r = Some rc" using sender_step_receivers [OF assms(2) that] .
    then obtain rc where "wt_receivers w r = Some rc" by blast
    then show ?thesis using receiver_ok_sender [of w r rc t w'] assms that by (auto simp: watch_inv_def)
  qed
  then show ?thesis using assms shared_inv_sender by (auto simp: watch_inv_def)
qed

section \<open>Steps of a receiver\<close>

text \<open>What another receiver does is only to take or release the lock.\<close>

lemma receiver_ok_other:
  assumes "receiver_ok w q rc" and "q \<noteq> r"
    and "wt_lock w' = wt_lock w \<or> wt_lock w = None \<or> wt_lock w = Some (By_Receiver r)"
    and "published w' = published w" and "wt_state w' = wt_state w" and "wt_senders w' = wt_senders w"
  shows "receiver_ok w' q rc"
proof -
  have "newest w' = newest w" "version w' = version w" "is_closed w' = is_closed w"
    using assms(4,5) by (simp_all add: newest_def version_def is_closed_def)
  moreover have "any_notifying w' = any_notifying w" using assms(6) by (simp add: any_notifying_def)
  ultimately show ?thesis using assms by (auto simp: receiver_ok_def)
qed

definition put_receiver :: "rid \<Rightarrow> 'v watch_receiver \<Rightarrow> 'v watch \<Rightarrow> 'v watch" where
  "put_receiver r rc w = w\<lparr>wt_receivers := (wt_receivers w)(r \<mapsto> rc)\<rparr>"

lemma watch_inv_put:
  assumes inv: "watch_inv w" and "receiver_ok w r rc"
  shows "watch_inv (w\<lparr>wt_receivers := (wt_receivers w)(r \<mapsto> rc)\<rparr>)"
proof -
  have "receiver_ok (w\<lparr>wt_receivers := f\<rparr>) q x" if "receiver_ok w q x" for f q x
    using receiver_ok_same [OF that, of "w\<lparr>wt_receivers := f\<rparr>"]
    by (simp add: is_closed_def version_def any_notifying_def)
  then show ?thesis using assms shared_inv_receiver by (auto simp: watch_inv_def)
qed

lemma return_ok:
  assumes "receiver_ok w r rc"
    and "x = Res_Closed \<or> x = Res_End \<Longrightarrow> is_closed w \<and> rc_seen rc = version w"
    and "x = Res_Pending \<Longrightarrow> rc_seen rc = version w \<and> \<not> is_closed w \<or> any_notifying w \<or> rc_listener rc \<noteq> Some False"
  shows "receiver_ok w r (receiver_return x rc)"
proof -
  have "told_closed (receiver_return x rc) \<Longrightarrow> told_closed rc \<or> x = Res_Closed \<or> x = Res_End"
    by (auto simp: told_closed_def receiver_return_def)
  moreover have "waiting (receiver_return x rc) \<Longrightarrow> x = Res_Pending \<and> rc_listener rc = Some False"
    by (auto simp: waiting_def receiver_return_def)
  ultimately show ?thesis using assms by (auto simp: receiver_ok_def receiver_return_def)
qed

lemma goto_ok:
  assumes "receiver_ok w r rc" and "pc \<noteq> Rc_Version" and "pc \<noteq> Rc_Clone"
    and "waiting (rc\<lparr>rc_at := pc\<rparr>) \<Longrightarrow> rc_seen rc = version w \<and> \<not> is_closed w \<or> any_notifying w"
  shows "receiver_ok w r (rc\<lparr>rc_at := pc\<rparr>)"
  using assms by (auto simp: receiver_ok_def told_closed_def)

lemma listener_ok:
  assumes "receiver_ok w r rc" and "pc \<noteq> Rc_Version" and "pc \<noteq> Rc_Clone" and "pc \<noteq> Rc_Idle"
    and "pc \<noteq> Rc_Wait" and "pc \<noteq> Rs_Listener"
  shows "receiver_ok w r (rc\<lparr>rc_listener := l, rc_at := pc\<rparr>)"
  using assms by (auto simp: receiver_ok_def told_closed_def waiting_def)

lemma seen_ok:
  assumes inv: "shared_inv w" and ok: "receiver_ok w r rc"
  shows "receiver_ok w r (rc\<lparr>rc_seen := version w, rc_listener := None, rc_index := newest w\<rparr>)"
proof -
  have "reads_ok (published w) (newest w) (rc_reads rc)"
    using ok reads_ok_grow [of "published w" "rc_index rc" "rc_reads rc" "newest w" "[]"] by (simp add: receiver_ok_def)
  moreover have "waiting (rc\<lparr>rc_seen := version w, rc_listener := None, rc_index := newest w\<rparr>) = False"
    by (simp add: waiting_def)
  ultimately show ?thesis using ok version_ver(1) [OF inv] by (simp add: receiver_ok_def told_closed_def)
qed

lemma no_listener_ok: "receiver_ok w r rc \<Longrightarrow> receiver_ok w r (rc\<lparr>rc_listener := None\<rparr>)"
  by (auto simp: receiver_ok_def told_closed_def waiting_def)

lemma stream_found_ok:
  assumes "receiver_ok w r rc" and "x \<noteq> Res_Changed \<Longrightarrow> is_closed w \<and> rc_seen rc = version w" and "rc_listener rc = None"
  shows "receiver_ok w r (stream_found x rc)"
proof (cases "x = Res_Changed")
  case True
  then show ?thesis using goto_ok [OF assms(1), of Rc_Lock] assms(3) by (simp add: stream_found_def waiting_def)
next
  case False
  have "receiver_ok w r (rc\<lparr>rc_stream := Stream_Done\<rparr>)"
    using assms False by (simp add: receiver_ok_def waiting_def)
  then show ?thesis using return_ok [of w r "rc\<lparr>rc_stream := Stream_Done\<rparr>" Res_End] assms(2) False
    by (simp add: stream_found_def)
qed

lemma look_ok:
  assumes inv: "shared_inv w" and ok: "receiver_ok w r rc"
    and "nothing \<noteq> Rc_Version" "nothing \<noteq> Rc_Clone"
    and found: "found = receiver_return \<or> found = stream_found"
  shows "receiver_ok w r (receiver_look w found nothing rc)"
proof (cases "version w = rc_seen rc")
  case False
  then have look: "receiver_look w found nothing rc
      = found Res_Changed (rc\<lparr>rc_seen := version w, rc_listener := None, rc_index := newest w\<rparr>)"
    by (simp add: receiver_look_def poll_state_def version_def)
  show ?thesis using found return_ok [OF seen_ok [OF inv ok], of Res_Changed] stream_found_ok [OF seen_ok [OF inv ok], of Res_Changed]
    by (auto simp: look)
next
  case same: True
  show ?thesis
  proof (cases "is_closed w")
    case True
    then have look: "receiver_look w found nothing rc = found Res_Closed (rc\<lparr>rc_listener := None\<rparr>)"
      using same by (simp add: receiver_look_def poll_state_def version_def is_closed_def)
    show ?thesis using found True same return_ok [OF no_listener_ok [OF ok], of Res_Closed]
        stream_found_ok [OF no_listener_ok [OF ok], of Res_Closed]
      by (auto simp: look)
  next
    case False
    then have look: "receiver_look w found nothing rc = rc\<lparr>rc_at := nothing\<rparr>"
      using same by (simp add: receiver_look_def poll_state_def version_def is_closed_def)
    show ?thesis using goto_ok [OF ok assms(3,4)] same False by (simp add: look)
  qed
qed

lemma local_ok:
  assumes inv: "shared_inv w" and ok: "receiver_ok w r rc" and step: "receiver_local w rc = Some rc'"
  shows "receiver_ok w r rc'"
proof (cases "rc_at rc")
  case Rc_Check
  then show ?thesis using step look_ok [OF inv ok, of Rc_Listen receiver_return] by (simp add: receiver_local_def changed_step_def)
next
  case Rc_Listen
  then show ?thesis using step listener_ok [OF ok, of Rc_Recheck "Some False"] by (simp add: receiver_local_def changed_step_def)
next
  case Rc_Recheck
  then show ?thesis using step look_ok [OF inv ok, of Rc_Wait receiver_return] by (simp add: receiver_local_def changed_step_def)
next
  case Rc_Wait
  then show ?thesis using step listener_ok [OF ok, of Rc_Check None] by (simp add: receiver_local_def changed_step_def split: if_splits)
next
  case Rs_Check
  then show ?thesis using step look_ok [OF inv ok, of Rs_Listener stream_found] by (simp add: receiver_local_def changed_step_def)
next
  case Rs_Listener
  show ?thesis
  proof (cases "rc_listener rc")
    case None
    then show ?thesis using step Rs_Listener listener_ok [OF ok, of Rs_Check "Some False"] by (simp add: receiver_local_def changed_step_def)
  next
    case (Some b)
    have "b = False \<Longrightarrow> waiting rc" using Some Rs_Listener by (simp add: waiting_def)
    then have "b = False \<Longrightarrow> rc_seen rc = version w \<and> \<not> is_closed w \<or> any_notifying w"
      using ok by (auto simp: receiver_ok_def)
    then show ?thesis using step Rs_Listener Some listener_ok [OF ok, of Rs_Check None] return_ok [OF ok, of Res_Pending]
      by (cases b) (simp_all add: receiver_local_def changed_step_def)
  qed
qed (use step in \<open>simp_all add: receiver_local_def changed_step_def\<close>)

lemma start_call_ok:
  assumes inv: "shared_inv w" and ok: "receiver_ok w r rc" and step: "start_call w c rc = Some rc'"
  shows "receiver_ok w r rc'"
proof (cases "c = Call_Cancel")
  case True
  then show ?thesis using step ok
    by (auto simp: start_call_def receiver_ok_def told_closed_def waiting_def split: if_splits)
next
  case False
  then have idle: "rc_at rc = Rc_Idle" using step by (auto simp: start_call_def split: if_splits)
  have fresh: "receiver_ok w r (rc\<lparr>rc_at := pc, rc_result := None\<rparr>)"
    if "pc = Rc_Check \<or> pc = Rc_Lock \<or> pc = Rs_Check" for pc
    using that ok by (auto simp: receiver_ok_def told_closed_def waiting_def)
  have stream: "receiver_ok w r (rc\<lparr>rc_stream := st, rc_result := None\<rparr>)" if "st = First \<or> st = Stream_Waiting" for st
    using that ok idle by (auto simp: receiver_ok_def told_closed_def waiting_def)
  have "receiver_ok w r (rc\<lparr>rc_stream := Stream_Waiting, rc_at := Rc_Lock, rc_result := None\<rparr>)"
    using ok by (auto simp: receiver_ok_def told_closed_def waiting_def)
  moreover have "reads_ok (published w) (newest w) (rc_reads rc)"
    using ok reads_ok_grow [of "published w" "rc_index rc" "rc_reads rc" "newest w" "[]"] by (simp add: receiver_ok_def)
  then have "receiver_ok w r ((mark_unchanged w rc)\<lparr>rc_result := None\<rparr>)"
    using ok idle version_ver(1) [OF inv] by (auto simp: receiver_ok_def told_closed_def waiting_def mark_unchanged_def)
  moreover have "receiver_ok w r (rc\<lparr>rc_result := Some Res_End\<rparr>)" if "rc_stream rc = Stream_Done"
    using that ok idle by (auto simp: receiver_ok_def told_closed_def waiting_def)
  ultimately show ?thesis using step False idle fresh stream
    by (cases "rc_stream rc"; cases c) (auto simp: start_call_def)
qed

lemma receiver_ok_lock:
  assumes "receiver_ok w r rc" and "wt_lock w = None" and "rc_at rc = Rc_Lock"
  shows "receiver_ok (w\<lparr>wt_lock := Some (By_Receiver r), wt_receivers := f\<rparr>) r (rc\<lparr>rc_at := Rc_Version\<rparr>)"
  using assms
  by (auto simp: receiver_ok_def told_closed_def waiting_def newest_def version_def is_closed_def any_notifying_def)

lemma receiver_ok_clone:
  assumes "receiver_ok w r rc" and "rc_index rc = newest w"
    and "reads_ok (published w) (newest w) (rc_reads rc @ [(newest w, v)])"
  shows "receiver_ok (w\<lparr>wt_lock := None, wt_receivers := f\<rparr>) r
    ((receiver_return (Res_Value v) rc)\<lparr>rc_reads := rc_reads rc @ [(rc_index rc, v)]\<rparr>)"
proof -
  let ?rc = "(receiver_return (Res_Value v) rc)\<lparr>rc_reads := rc_reads rc @ [(rc_index rc, v)]\<rparr>"
  have "\<not> waiting ?rc" "told_closed ?rc \<Longrightarrow> told_closed rc" by (auto simp: waiting_def told_closed_def receiver_return_def)
  then show ?thesis using assms
    by (auto simp: receiver_ok_def receiver_return_def newest_def version_def is_closed_def)
qed

lemma receiver_step_local:
  assumes "receiver_step r w = Some w'" and "wt_receivers w r = Some rc"
    and "rc_at rc \<noteq> Rc_Lock" "rc_at rc \<noteq> Rc_Version" "rc_at rc \<noteq> Rc_Clone"
  shows "\<exists>rc'. receiver_local w rc = Some rc' \<and> w' = w\<lparr>wt_receivers := (wt_receivers w)(r \<mapsto> rc')\<rparr>"
  using assms by (cases "rc_at rc"; cases "receiver_local w rc") (simp_all add: receiver_step_def)

text \<open>Taking or releasing the lock by a receiver.\<close>

lemma shared_inv_lock:
  assumes "shared_inv w" and "\<And>t. \<not> locked_pc (wt_senders w t)"
  shows "shared_inv (w\<lparr>wt_lock := l, wt_receivers := f\<rparr>)"
proof -
  have "newest (w\<lparr>wt_lock := l, wt_receivers := f\<rparr>) = newest w" by (simp add: newest_def)
  then show ?thesis using assms by (simp add: shared_inv_def)
qed

lemma watch_inv_lock:
  assumes inv: "watch_inv w" and "\<And>t. \<not> locked_pc (wt_senders w t)"
    and held: "wt_lock w = None \<or> wt_lock w = Some (By_Receiver r)"
    and ok: "receiver_ok (w\<lparr>wt_lock := l, wt_receivers := (wt_receivers w)(r \<mapsto> rc)\<rparr>) r rc"
  shows "watch_inv (w\<lparr>wt_lock := l, wt_receivers := (wt_receivers w)(r \<mapsto> rc)\<rparr>)"
proof -
  let ?w = "w\<lparr>wt_lock := l, wt_receivers := (wt_receivers w)(r \<mapsto> rc)\<rparr>"
  have "receiver_ok ?w q x" if x: "wt_receivers ?w q = Some x" for q x
  proof (cases "q = r")
    case True
    then have "x = rc" using x by simp
    then show ?thesis using ok True by simp
  next
    case False
    then have "wt_receivers w q = Some x" using x by simp
    then have "receiver_ok w q x" using inv by (simp add: watch_inv_def)
    then show ?thesis by (rule receiver_ok_other [OF _ False]) (use held in simp_all)
  qed
  moreover have "shared_inv ?w" using inv assms(2) by (intro shared_inv_lock) (simp_all add: watch_inv_def)
  ultimately show ?thesis unfolding watch_inv_def by blast
qed

lemma newest_value:
  assumes "shared_inv w" and free: "\<And>t. \<not> locked_pc (wt_senders w t)"
  shows "wt_value w = published w ! newest w" and "newest w < length (published w)"
proof -
  have "wt_senders w t \<noteq> Sn_Replace v" for t v using free [of t] by auto
  then have "wt_value w = last (published w)" "published w \<noteq> []" using assms(1) by (simp_all add: shared_inv_def)
  then show "wt_value w = published w ! newest w" "newest w < length (published w)"
    by (simp_all add: last_conv_nth newest_def)
qed

lemma watch_inv_receiver:
  assumes inv: "watch_inv w" and step: "receiver_step r w = Some w'"
  shows "watch_inv w'"
proof -
  obtain rc where rc: "wt_receivers w r = Some rc" using step by (auto simp: receiver_step_def split: option.splits)
  have sh: "shared_inv w" and ok: "receiver_ok w r rc" using inv rc by (simp_all add: watch_inv_def)
  have reads: "reads_ok (published w) (newest w) (rc_reads rc)"
    using ok reads_ok_grow [of "published w" "rc_index rc" "rc_reads rc" "newest w" "[]"] by (simp add: receiver_ok_def)
  have free: "\<not> locked_pc (wt_senders w t)" if "wt_lock w = None \<or> wt_lock w = Some (By_Receiver r)" for t
    using sh that by (auto simp: shared_inv_def)
  consider (lock) "rc_at rc = Rc_Lock" | (ver) "rc_at rc = Rc_Version" | (clone) "rc_at rc = Rc_Clone"
    | (loc) "rc_at rc \<noteq> Rc_Lock" "rc_at rc \<noteq> Rc_Version" "rc_at rc \<noteq> Rc_Clone" by blast
  then show ?thesis
  proof cases
    case lock
    have w': "wt_lock w = None"
      "w' = w\<lparr>wt_lock := Some (By_Receiver r), wt_receivers := (wt_receivers w)(r \<mapsto> rc\<lparr>rc_at := Rc_Version\<rparr>)\<rparr>"
      using step rc lock by (simp_all add: receiver_step_def split: if_splits)
    show ?thesis unfolding w'(2) by (rule watch_inv_lock [OF inv free _ receiver_ok_lock [OF ok w'(1) lock]]) (use w'(1) in simp_all)
  next
    case ver
    have w': "w' = w\<lparr>wt_receivers := (wt_receivers w)(r \<mapsto> (mark_unchanged w rc)\<lparr>rc_at := Rc_Clone\<rparr>)\<rparr>"
      using step rc ver by (simp add: receiver_step_def)
    have "receiver_ok w r ((mark_unchanged w rc)\<lparr>rc_at := Rc_Clone\<rparr>)"
      using ok ver reads version_ver(1) [OF sh] by (auto simp: receiver_ok_def told_closed_def waiting_def mark_unchanged_def)
    then show ?thesis unfolding w' by (rule watch_inv_put [OF inv])
  next
    case clone
    let ?rc = "(receiver_return (Res_Value (wt_value w)) rc)\<lparr>rc_reads := rc_reads rc @ [(rc_index rc, wt_value w)]\<rparr>"
    have w': "w' = w\<lparr>wt_lock := None, wt_receivers := (wt_receivers w)(r \<mapsto> ?rc)\<rparr>"
      using step rc clone by (simp add: receiver_step_def)
    have held: "wt_lock w = Some (By_Receiver r)" "rc_index rc = newest w" using ok clone by (auto simp: receiver_ok_def)
    have val: "wt_value w = published w ! newest w" "newest w < length (published w)"
      using newest_value [OF sh] free held(1) by blast+
    have "reads_ok (published w) (newest w) (rc_reads rc @ [(newest w, wt_value w)])"
      using reads_ok_snoc [OF reads val(2)] val(1) by simp
    from receiver_ok_clone [OF ok held(2) this] show ?thesis
      unfolding w' by (intro watch_inv_lock [OF inv]) (use free held(1) in simp_all)
  next
    case loc
    then obtain rc' where "receiver_local w rc = Some rc'" "w' = w\<lparr>wt_receivers := (wt_receivers w)(r \<mapsto> rc')\<rparr>"
      using receiver_step_local [OF step rc] by blast
    then show ?thesis using watch_inv_put [OF inv local_ok [OF sh ok]] by simp
  qed
qed

section \<open>Reachable states\<close>

lemma receiver_new_ok:
  assumes "shared_inv w" and "k \<le> newest w"
  shows "receiver_ok w r (watch_receiver_new (ver k) k)"
  using assms
  by (simp add: receiver_ok_def watch_receiver_new_def reads_ok_def told_closed_def waiting_def)

lemma watch_inv_at:
  assumes inv: "watch_inv w" and "\<not> locked_pc (wt_senders w t)" and "\<not> locked_pc pc"
    and "closing_pc pc \<or> \<not> wt_gone w" and "pc = Sn_Close \<Longrightarrow> wt_gone w" and "\<not> notifying (wt_senders w t)"
  shows "watch_inv (sender_at t pc w)"
proof -
  have "any_notifying (sender_at t pc w)" if n: "any_notifying w"
  proof -
    obtain u where "notifying (wt_senders w u)" using n by (auto simp: any_notifying_def)
    then have "notifying (wt_senders (sender_at t pc w) u)" using assms(6) by (cases "u = t") auto
    then show ?thesis unfolding any_notifying_def by (rule exI)
  qed
  then have "receiver_ok (sender_at t pc w) r rc" if "receiver_ok w r rc" for r rc
    by (intro receiver_ok_same [OF that]) simp_all
  moreover have "shared_inv (sender_at t pc w)"
    using inv assms by (intro shared_inv_at) (simp_all add: watch_inv_def)
  ultimately show ?thesis using inv by (simp add: watch_inv_def)
qed

lemma watch_reachable_inv: "watch_reachable w \<Longrightarrow> watch_inv w"
proof (induction rule: watch_reachable.induct)
  case (start v)
  have "shared_inv (watch_channel v)" by (simp add: shared_inv_def watch_channel_def newest_def ver_def)
  moreover have "receiver_ok (watch_channel v) 0 (watch_receiver_new (ver 0) 0)"
    using receiver_new_ok [OF calculation] by simp
  ultimately show ?case by (auto simp: watch_inv_def ver_def) (auto simp: watch_channel_def split: if_splits)
next
  case (publish w t v)
  then show ?case by (intro watch_inv_at) simp_all
next
  case (drop_sender w t)
  let ?w = "w\<lparr>wt_gone := True\<rparr>"
  have "shared_inv ?w" using drop_sender by (auto simp: watch_inv_def shared_inv_def newest_def)
  moreover have "receiver_ok ?w r rc" if "receiver_ok w r rc" for r rc
    using that by (intro receiver_ok_same [OF that]) (simp_all add: is_closed_def version_def any_notifying_def)
  ultimately have "watch_inv ?w" using drop_sender by (simp add: watch_inv_def)
  then show ?case using drop_sender by (intro watch_inv_at) simp_all
next
  case (sender w t w')
  then show ?case using watch_inv_sender by blast
next
  case (subscribe w r)
  then have sh: "shared_inv w" by (simp add: watch_inv_def)
  then have "receiver_ok w r (watch_subscribe w)"
    using receiver_new_ok [of w "newest w" r] version_ver(1) [OF sh] by (simp add: watch_subscribe_def)
  then show ?case using watch_inv_put subscribe by blast
next
  case (clone w q rc r)
  then have ok: "shared_inv w" "receiver_ok w q rc" by (simp_all add: watch_inv_def)
  then have "receiver_ok w r (receiver_clone rc)"
    using receiver_new_ok [of w "rc_index rc" r] by (simp add: receiver_clone_def receiver_ok_def [of w q])
  then show ?case using watch_inv_put clone by blast
next
  case (call w r rc c rc')
  then have "receiver_ok w r rc'" using start_call_ok [of w r rc c rc'] by (simp add: watch_inv_def)
  then show ?case using watch_inv_put call by blast
next
  case (receiver w r w')
  then show ?case using watch_inv_receiver by blast
next
  case (drop_receiver w r rc)
  have "receiver_ok (w\<lparr>wt_receivers := f\<rparr>) q x" if "receiver_ok w q x" for f q x
    using receiver_ok_same [OF that, of "w\<lparr>wt_receivers := f\<rparr>"]
    by (simp add: is_closed_def version_def any_notifying_def)
  then show ?case using drop_receiver shared_inv_receiver by (auto simp: watch_inv_def)
qed

lemma seen_newest:
  assumes "watch_inv w" and "wt_receivers w r = Some rc" and "length (published w) \<le> 2 ^ 63" and "rc_seen rc = version w"
  shows "rc_index rc = length (published w) - 1"
proof -
  have inv: "shared_inv w" "receiver_ok w r rc" using assms(1,2) by (simp_all add: watch_inv_def)
  have "0 < length (published w)" using inv(1) by (simp add: shared_inv_def)
  then have "newest w < 2 ^ 63" using assms(3) unfolding newest_def by linarith
  moreover have "rc_index rc \<le> newest w" using inv(2) by (simp add: receiver_ok_def)
  ultimately have le: "rc_index rc < 2 ^ 63" "newest w < 2 ^ 63" by linarith+
  have "ver (rc_index rc) = ver (newest w)"
    using assms(4) inv(2) version_ver(1) [OF inv(1)] unfolding receiver_ok_def by metis
  then have "rc_index rc = newest w" using le by (rule ver_inj)
  then show ?thesis by (simp only: newest_def)
qed

lemma waiting_newest:
  assumes "watch_inv w" and "wt_receivers w r = Some rc" and "length (published w) \<le> 2 ^ 63"
    and "waiting rc" and "\<forall>t. wt_senders w t = Sn_Idle"
  shows "rc_index rc = length (published w) - 1 \<and> \<not> is_closed w"
proof -
  have "receiver_ok w r rc" using assms(1,2) by (simp add: watch_inv_def)
  moreover have "\<not> any_notifying w" using assms(5) by (simp add: any_notifying_def)
  ultimately have "rc_seen rc = version w" "\<not> is_closed w" using assms(4) by (simp_all add: receiver_ok_def)
  then show ?thesis using seen_newest [OF assms(1-3)] by blast
qed

lemma closed_newest:
  assumes "watch_inv w" and "wt_receivers w r = Some rc" and "length (published w) \<le> 2 ^ 63" and "told_closed rc"
  shows "rc_index rc = length (published w) - 1 \<and> is_closed w"
proof -
  have "receiver_ok w r rc" using assms(1,2) by (simp add: watch_inv_def)
  then have "rc_seen rc = version w" "is_closed w" using assms(4) by (simp_all add: receiver_ok_def)
  then show ?thesis using seen_newest [OF assms(1-3)] by blast
qed

lemma reads_published:
  assumes "watch_inv w" and "wt_receivers w r = Some rc"
  shows "sorted (map fst (rc_reads rc)) \<and> (\<forall>(i, v) \<in> set (rc_reads rc). i < length (published w) \<and> v = published w ! i)"
proof -
  have "receiver_ok w r rc" using assms by (simp add: watch_inv_def)
  then have "reads_ok (published w) (rc_index rc) (rc_reads rc)" by (simp add: receiver_ok_def)
  then show ?thesis unfolding reads_ok_def by blast
qed

text \<open>
  C13: However publishing threads and receivers interleave, with fewer than \<open>2 ^ 63\<close> publications, a
  receiver reads published values with their versions, never goes back to an older one, and misses
  no notification: one that waits on a listener that was not notified, while no publishing call is
  under way, has seen the newest value and the channel is open. It is told that the channel is
  closed, or its stream ends, only when the newest version was marked as seen.
\<close>

theorem watch_misses_no_update:
  assumes "watch_reachable w" and "wt_receivers w r = Some rc" and "length (published w) \<le> 2 ^ 63"
  shows "sorted (map fst (rc_reads rc)) \<and> (\<forall>(i, v) \<in> set (rc_reads rc). i < length (published w) \<and> v = published w ! i)
    \<and> (rc_listener rc = Some False \<longrightarrow> rc_at rc = Rc_Wait \<or> rc_at rc = Rc_Idle \<and> rc_result rc = Some Res_Pending \<longrightarrow>
        (\<forall>t. wt_senders w t = Sn_Idle) \<longrightarrow> rc_index rc = length (published w) - 1 \<and> \<not> is_closed w)
    \<and> (rc_result rc = Some Res_Closed \<or> rc_result rc = Some Res_End \<longrightarrow>
        rc_index rc = length (published w) - 1 \<and> is_closed w)"
proof -
  note inv = watch_reachable_inv [OF assms(1)]
  note waits = waiting_newest [OF inv assms(2,3), unfolded waiting_def]
  note ends = closed_newest [OF inv assms(2,3), unfolded told_closed_def]
  show ?thesis
    by (intro conjI reads_published [OF inv assms(2), THEN conjunct1] reads_published [OF inv assms(2), THEN conjunct2])
      (use waits ends in blast)+
qed

text \<open>A run: a receiver starts to wait, a value is published, and the receiver reads it.\<close>

fun after_sender :: "tid \<Rightarrow> nat \<Rightarrow> 'v watch \<Rightarrow> 'v watch" where
  "after_sender t 0 w = w"
| "after_sender t (Suc n) w = (case sender_step t w of None \<Rightarrow> w | Some w' \<Rightarrow> after_sender t n w')"

fun after_receiver :: "rid \<Rightarrow> nat \<Rightarrow> 'v watch \<Rightarrow> 'v watch" where
  "after_receiver r 0 w = w"
| "after_receiver r (Suc n) w = (case receiver_step r w of None \<Rightarrow> w | Some w' \<Rightarrow> after_receiver r n w')"

lemma reachable_after_sender: "watch_reachable w \<Longrightarrow> watch_reachable (after_sender t n w)"
  by (induction t n w rule: after_sender.induct) (auto split: option.split intro: watch_reachable.sender)

lemma reachable_after_receiver: "watch_reachable w \<Longrightarrow> watch_reachable (after_receiver r n w)"
  by (induction r n w rule: after_receiver.induct) (auto split: option.split intro: watch_reachable.receiver)

lemma reachable_call:
  assumes "watch_reachable w" and "wt_receivers w r = Some rc" and "start_call w c rc = Some rc'"
    and "w' = w\<lparr>wt_receivers := (wt_receivers w)(r \<mapsto> rc')\<rparr>"
  shows "watch_reachable w'"
  unfolding assms(4) by (rule watch_reachable.call [OF assms(1-3)])

lemma watch_misses_no_update_witness:
  "\<exists>(w :: nat watch) rc. watch_reachable w \<and> wt_receivers w 0 = Some rc \<and> published w = [10, 20]
    \<and> rc_reads rc = [(1, 20)] \<and> rc_at rc = Rc_Wait \<and> rc_listener rc = Some False \<and> rc_index rc = 1 \<and> \<not> is_closed w"
proof -
  let ?rc = "\<lambda>pc l s k rs. \<lparr>rc_seen = s, rc_at = pc, rc_listener = l, rc_stream = No_Stream, rc_result = None,
      rc_index = k, rc_reads = rs\<rparr> :: nat watch_receiver"
  define w1 where "w1 = after_sender 5 (Suc (Suc (Suc (Suc 0)))) (sender_at 5 (Sn_Lock 20) (watch_channel (10::nat)))"
  define w2 where "w2 = w1\<lparr>wt_receivers := (wt_receivers w1)(0 \<mapsto> ?rc Rc_Lock None 0 0 [])\<rparr>"
  define w3 where "w3 = after_receiver 0 (Suc (Suc (Suc 0))) w2"
  define w4 where "w4 = w3\<lparr>wt_receivers := (wt_receivers w3)(0 \<mapsto> ?rc Rc_Check None 2 1 [(1, 20)])\<rparr>"
  define w5 where "w5 = after_receiver 0 (Suc (Suc (Suc 0))) w4"
  have add: "add64 0 2 = 2" by (simp add: add64_def u64_bound_def)
  have one: "w1 = (watch_channel 10)\<lparr>wt_value := 20, wt_state := 2, wt_returned := [5 \<mapsto> 10], published := [10, 20],
      wt_senders := (\<lambda>t. Sn_Idle)\<rparr>"
    by (simp add: w1_def watch_channel_def sender_step_def sender_at_def notify_all_def STEP_def add watch_receiver_new_def
        fun_eq_iff)
  have three: "w3 = w1\<lparr>wt_receivers := [0 \<mapsto> (?rc Rc_Idle None 2 1 [(1, 20)])\<lparr>rc_result := Some (Res_Value 20)\<rparr>]\<rparr>"
    by (simp add: w3_def w2_def one watch_channel_def receiver_step_def mark_unchanged_def version_def version_of_def
        newest_def receiver_return_def)
  have five: "w5 = w1\<lparr>wt_receivers := [0 \<mapsto> ?rc Rc_Wait (Some False) 2 1 [(1, 20)]]\<rparr>"
    by (simp add: w5_def w4_def three one watch_channel_def receiver_step_def receiver_local_def changed_step_def receiver_look_def poll_state_def
        version_of_def closed_of_def CLOSED_def)
  have "watch_reachable w1"
    unfolding w1_def
    by (intro reachable_after_sender watch_reachable.publish watch_reachable.start) (simp_all add: watch_channel_def)
  then have "watch_reachable w2"
    by (rule reachable_call [where r = 0 and c = Call_Read and rc = "?rc Rc_Idle None 0 0 []" and rc' = "?rc Rc_Lock None 0 0 []"])
      (simp_all add: w2_def one watch_channel_def watch_receiver_new_def start_call_def)
  then have "watch_reachable w3" unfolding w3_def by (rule reachable_after_receiver)
  then have "watch_reachable w4"
    by (rule reachable_call [where r = 0 and c = Call_Changed and rc' = "?rc Rc_Check None 2 1 [(1, 20)]"
        and rc = "(?rc Rc_Idle None 2 1 [(1, 20)])\<lparr>rc_result := Some (Res_Value 20)\<rparr>"])
      (simp_all add: w4_def three start_call_def)
  then have r: "watch_reachable w5" unfolding w5_def by (rule reachable_after_receiver)
  show ?thesis
    using watch_misses_no_update [OF r, of 0 "?rc Rc_Wait (Some False) 2 1 [(1, 20)]"] r
    by (intro exI [of _ w5] exI [of _ "?rc Rc_Wait (Some False) 2 1 [(1, 20)]"])
      (simp add: five one watch_channel_def)
qed

end
