(* ===== verification/Task_Handle.thy ===== *)
theory Task_Handle
  imports Task_Attempt
begin

text \<open>
  The handle of a spawned download (\<open>task/handle.rs\<close>): awaiting it, cancelling, stopping, detaching
  and dropping it, and the thread that drives a progress bar from the status. The status channel it
  reads is the one of the attempt. Whether the attempt's thread has returned is an argument of \<open>poll\<close>.
\<close>

section \<open>The handle\<close>

record task_output =
  to_path :: path
  to_progress :: progress
  to_mode :: download_mode

text \<open>
  \<open>tk_join\<close>: whether the attempt's thread is still held. \<open>tk_cancelled\<close> is the task's own token.
\<close>

record task =
  tk_join :: bool
  tk_cancelled :: bool
  tk_outcome :: "(download_error + task_output) option"

definition task_new :: task where
  "task_new = \<lparr>tk_join = True, tk_cancelled = False, tk_outcome = None\<rparr>"

definition task_snapshot :: "publisher \<Rightarrow> task_status" where
  "task_snapshot pb = current_status pb"

definition task_is_terminal :: "publisher \<Rightarrow> bool" where
  "task_is_terminal pb \<longleftrightarrow> status_is_terminal (current_status pb)"

definition task_cancel :: "task \<Rightarrow> task" where
  "task_cancel t = t\<lparr>tk_cancelled := True\<rparr>"

definition task_detach :: "task \<Rightarrow> task" where
  "task_detach t = t\<lparr>tk_join := False\<rparr>"

definition task_drop :: "task \<Rightarrow> task" where
  "task_drop t = (if tk_join t then t\<lparr>tk_join := False, tk_cancelled := True\<rparr> else t)"

section \<open>The outcome\<close>

definition task_outcome :: "task_status \<Rightarrow> download_error + task_output" where
  "task_outcome s =
     (case ts_state s of
        State_Finished \<Rightarrow>
          (case ts_info s of
             Some i \<Rightarrow> Inr \<lparr>to_path = ti_path i, to_progress = ts_progress s, to_mode = ti_mode i\<rparr>
           | None \<Rightarrow> Inl Aborted)
      | State_Cancelled \<Rightarrow> Inl Download_Cancelled
      | State_Failed \<Rightarrow> Inl (case ts_error s of Some e \<Rightarrow> e | None \<Rightarrow> Aborted)
      | _ \<Rightarrow> Inl Aborted)"

text \<open>\<open>Pending\<close> is \<open>None\<close>.\<close>

definition task_poll ::
  "bool \<Rightarrow> publisher \<Rightarrow> task \<Rightarrow> ((download_error + task_output) option \<times> task) run" where
  "task_poll returned pb t =
     (if tk_join t \<and> \<not> returned then Done (None, t)
      else
        (let t = (if tk_join t
                  then t\<lparr>tk_join := False, tk_outcome := Some (task_outcome (current_status pb))\<rparr>
                  else t)
         in bind_run (expect_some ''a task that is neither running nor detached has an outcome'' (tk_outcome t))
              (\<lambda>res. Done (Some res, t))))"

text \<open>One poll of \<open>stop\<close>, which owns the handle; it is dropped with the result.\<close>

definition task_stop ::
  "bool \<Rightarrow> publisher \<Rightarrow> task \<Rightarrow> ((download_error + task_output) option \<times> task) run" where
  "task_stop returned pb t = task_poll returned pb (task_cancel t)"

section \<open>The progress bar\<close>

datatype bar_end = Bar_Running | Bar_Finished | Bar_Abandoned

record progress_bar =
  bar_length :: "u64 option"
  bar_position :: u64
  bar_end :: bar_end

text \<open>One turn of the loop, up to waiting for the next change.\<close>

definition bar_turn :: "progress_bar \<Rightarrow> task_status \<Rightarrow> progress_bar" where
  "bar_turn bar s =
     (let bar = (case pr_total (ts_progress s) of
                   Some n \<Rightarrow> if bar_length bar \<noteq> Some n then bar\<lparr>bar_length := Some n\<rparr> else bar
                 | None \<Rightarrow> bar);
          bar = bar\<lparr>bar_position := pr_downloaded (ts_progress s)\<rparr>
      in if ts_state s = State_Finished then bar\<lparr>bar_end := Bar_Finished\<rparr>
         else if state_is_terminal (ts_state s) then bar\<lparr>bar_end := Bar_Abandoned\<rparr>
         else bar)"

text \<open>
  \<open>reads\<close> is what the receiver reads after each change; the channel is closed, that is
  \<open>changed_blocking\<close> fails, when they are used up.
\<close>

fun drive_progress_bar :: "progress_bar \<Rightarrow> task_status \<Rightarrow> task_status list \<Rightarrow> progress_bar" where
  "drive_progress_bar bar s reads =
     (let bar = bar_turn bar s
      in if bar_end bar \<noteq> Bar_Running then bar
         else (case reads of
                 [] \<Rightarrow> bar\<lparr>bar_end := Bar_Abandoned\<rparr>
               | s' # rest \<Rightarrow> drive_progress_bar bar s' rest))"

declare drive_progress_bar.simps [simp del]

section \<open>Facts\<close>

lemma task_poll_running [simp]: "tk_join t \<Longrightarrow> task_poll False pb t = Done (None, t)"
  by (simp add: task_poll_def)

lemma task_poll_returned:
  "tk_join t \<Longrightarrow> task_poll True pb t =
     Done (Some (task_outcome (current_status pb)),
           t\<lparr>tk_join := False, tk_outcome := Some (task_outcome (current_status pb))\<rparr>)"
  by (simp add: task_poll_def Let_def)

lemma task_poll_again:
  "\<not> tk_join t \<Longrightarrow> tk_outcome t = Some res \<Longrightarrow> task_poll returned pb t = Done (Some res, t)"
  by (simp add: task_poll_def Let_def)

text \<open>A consistent terminal snapshot never needs the fallback \<open>Aborted\<close>.\<close>

lemma task_outcome_terminal:
  assumes "status_ok s" and "status_is_terminal s"
  shows "case task_outcome s of
      Inr out \<Rightarrow> ts_state s = State_Finished \<and> ts_error s = None
        \<and> (\<exists>i. ts_info s = Some i \<and> out = \<lparr>to_path = ti_path i, to_progress = ts_progress s, to_mode = ti_mode i\<rparr>)
    | Inl e \<Rightarrow> ts_state s \<noteq> State_Finished \<and> ts_error s = Some e"
  using assms
  by (cases "ts_state s")
    (auto simp: task_outcome_def status_ok_def status_is_terminal_def state_is_terminal_def)

lemma task_drop_cancels: "tk_join t \<Longrightarrow> tk_cancelled (task_drop t) \<and> \<not> tk_join (task_drop t)"
  by (simp add: task_drop_def)

lemma task_drop_detached: "task_drop (task_detach t) = task_detach t"
  by (simp add: task_drop_def task_detach_def)

lemma bar_running: "bar_end bar = Bar_Running \<Longrightarrow>
    bar_end (bar_turn bar s) = (if ts_state s = State_Finished then Bar_Finished
      else if state_is_terminal (ts_state s) then Bar_Abandoned else Bar_Running)"
  by (auto simp: bar_turn_def Let_def split: option.split)

text \<open>The bar is finished exactly when the last status it reads is \<open>Finished\<close>, and always ended.\<close>

lemma drive_progress_bar_ends:
  assumes "bar_end bar = Bar_Running" and "list_all (\<lambda>s. \<not> status_is_terminal s) (butlast (s # reads))"
  shows "bar_end (drive_progress_bar bar s reads) =
    (if ts_state (last (s # reads)) = State_Finished then Bar_Finished else Bar_Abandoned)"
  using assms
proof (induction reads arbitrary: bar s)
  case Nil
  then show ?case
    by (subst drive_progress_bar.simps) (auto simp: bar_running Let_def state_is_terminal_def)
next
  case (Cons s' rest)
  have r: "bar_end (bar_turn bar s) = Bar_Running"
    using Cons.prems by (simp add: bar_running status_is_terminal_def state_is_terminal_def)
  then show ?case
    using Cons.IH [OF r, of s'] Cons.prems(2) by (subst drive_progress_bar.simps) (simp add: Let_def)
qed

end
