(* ===== verification/Task_Handle_Props.thy ===== *)
theory Task_Handle_Props
  imports Task_Handle Task_Attempt_Props
begin

text \<open>
  What awaiting a task tells, composed with what its attempt did to the status and the files.
\<close>

lemma final_status:
  assumes "spawn_attempt env att publisher_new fs = (True, pb, fs')"
  shows "status_ok (current_status pb) \<and> status_is_terminal (current_status pb)"
proof -
  have i: "publisher_inv pb" "pb_terminal pb" using attempt_publisher_inv [OF assms] by auto
  then have "pb_sent pb \<noteq> []" "list_all status_ok (pb_sent pb)" by (auto simp: publisher_inv_def)
  then have "status_ok (last (pb_sent pb))" by (simp add: list_all_iff)
  then show ?thesis using i by (simp add: publisher_inv_def current_status_def)
qed

text \<open>
  C1: Awaiting a task tells the truth about the files. The handle is pending while the attempt's
  thread runs and never panics. \<open>Ok\<close> means that the destination it names exists, that its temporary
  file is gone and that no other file was touched; an error is the one the attempt recorded, never an
  invented one, and then only the temporary file can have changed. Awaiting again returns the same,
  whatever the channel says by then.
\<close>

theorem task_outcome_is_truthful:
  "case spawn_attempt env att publisher_new fs of (ended, pb, fs') \<Rightarrow>
     (case task_poll ended pb task_new of
        Panicked _ \<Rightarrow> False
      | Done (None, t) \<Rightarrow> \<not> ended \<and> t = task_new
      | Done (Some res, t) \<Rightarrow>
          ended \<and> task_poll again pb' t = Done (Some res, t)
          \<and> (case res of
               Inr out \<Rightarrow>
                 fs' (to_path out) \<noteq> None \<and> fs' (tmp_path_for (to_path out)) = None
                 \<and> {p. fs' p \<noteq> fs p} \<subseteq> {to_path out, tmp_path_for (to_path out)}
                 \<and> ts_error (current_status pb) = None
             | Inl e \<Rightarrow>
                 {p. fs' p \<noteq> fs p} \<subseteq> set_option (pb_temp_file pb)
                 \<and> ts_error (current_status pb) = Some e))"
proof -
  obtain ended pb fs' where sp: "spawn_attempt env att publisher_new fs = (ended, pb, fs')" by (metis surj_pair)
  show ?thesis
  proof (cases ended)
    case False
    then show ?thesis by (simp add: sp task_new_def)
  next
    case True
    let ?s = "current_status pb"
    have ok: "status_ok ?s" "status_is_terminal ?s" using final_status sp True by auto
    note out = task_outcome_terminal [OF ok]
    note files = attempt_files [OF sp, unfolded attempt_files_ok_def]
    have again: "task_poll again pb' (task_new\<lparr>tk_join := False, tk_outcome := Some res\<rparr>) =
        Done (Some res, task_new\<lparr>tk_join := False, tk_outcome := Some res\<rparr>)" for res
      by (rule task_poll_again) simp_all
    show ?thesis
    proof (cases "task_outcome ?s")
      case (Inl e)
      then have e: "ts_state ?s \<noteq> State_Finished" "ts_error ?s = Some e" using out by auto
      then have "{p. fs' p \<noteq> fs p} \<subseteq> set_option (pb_temp_file pb)"
        using files by (cases "ts_state ?s") auto
      then show ?thesis using Inl e(2) again True by (simp add: sp task_poll_returned task_new_def)
    next
      case (Inr r)
      then obtain i where i: "ts_state ?s = State_Finished" "ts_error ?s = None" "ts_info ?s = Some i"
        "to_path r = ti_path i" using out by auto
      then show ?thesis using Inr files again True by (simp add: sp task_poll_returned task_new_def)
    qed
  qed
qed

end
