(* ===== verification/Planner_Bytes.thy ===== *)
theory Planner_Bytes
  imports Chunk_Planner_Props
begin

text \<open>
  The downloaded bytes over time: only accepted progress adds to them, nothing takes from them, and
  when every chunk that is marked finished is whole, a complete planner has downloaded the whole file.
  This needs less than the planner's invariant, only the layout of the chunks.
\<close>

section \<open>Whole chunks\<close>

definition bytes_inv :: "planner \<Rightarrow> bool" where
  "bytes_inv p \<longleftrightarrow>
     p_total p < u64_bound \<and> layout 0 (p_chunks p) (p_total p)
     \<and> (\<forall>(k, c) \<in> set (p_chunks p). c_status c = Finished \<longrightarrow> chunk_is_complete c)"

definition planner_dl :: "planner \<Rightarrow> nat set" where
  "planner_dl p = dl_bytes (p_chunks p)"

text \<open>What an operation does that is not progress.\<close>

definition bytes_kept :: "planner \<Rightarrow> planner \<Rightarrow> bool" where
  "bytes_kept p p' \<longleftrightarrow>
     (bytes_inv p \<longrightarrow> bytes_inv p' \<and> planner_dl p' = planner_dl p \<and> p_total p' = p_total p)"

lemma bytes_kept_refl [simp]: "bytes_kept p p"
  by (simp add: bytes_kept_def)

lemma bytes_kept_trans: "bytes_kept p q \<Longrightarrow> bytes_kept q r \<Longrightarrow> bytes_kept p r"
  by (simp add: bytes_kept_def)

lemma bytes_kept_same:
  "p_chunks p' = p_chunks p \<Longrightarrow> p_total p' = p_total p \<Longrightarrow> bytes_kept p p'"
  by (simp add: bytes_kept_def bytes_inv_def planner_dl_def)

lemma bytes_inv_bt: "bytes_inv p \<Longrightarrow> bt_invar (p_chunks p)"
  using layout_bt_invar by (auto simp: bytes_inv_def)

lemma bytes_inv_entry:
  assumes "bytes_inv p" and "bt_get k (p_chunks p) = Some c"
  obtains xs ys where "p_chunks p = xs @ (k, c) # ys" and "chunk_ok k c" and "r_end (c_allocated c) \<le> p_total p"
    and "\<And>d. bt_insert k d (p_chunks p) = xs @ (k, d) # ys" and "bt_remove k (p_chunks p) = xs @ ys"
    and "\<And>d. bt_insert k d (bt_remove k (p_chunks p)) = xs @ (k, d) # ys"
proof -
  obtain xs ys where xs: "p_chunks p = xs @ (k, c) # ys" using bt_split [OF assms(2)] .
  have bt: "bt_invar (xs @ (k, c) # ys)" using bytes_inv_bt [OF assms(1)] xs by simp
  have "(k, c) \<in> set (p_chunks p)" using xs by simp
  then have "chunk_ok k c" "r_end (c_allocated c) \<le> p_total p"
    using assms(1) layout_entries unfolding bytes_inv_def by blast+
  then show ?thesis
    using that [OF xs] bt_insert_here [OF bt] bt_remove_here [OF bt] bt_insert_removed [OF bt] xs by metis
qed

text \<open>Replacing a chunk by one that is no longer, or dropping one without data.\<close>

lemma bytes_inv_replace:
  assumes "bytes_inv p" and "p_chunks p = xs @ (k, c) # ys" and "chunk_ok k c'"
    and "r_end (c_allocated c') \<le> r_end (c_allocated c)" and "c_status c' = Finished \<longrightarrow> chunk_is_complete c'"
    and "p_chunks p' = xs @ (k, c') # ys" and "p_total p' = p_total p"
  shows "bytes_inv p'"
  using assms layout_replace [of 0 xs k c ys "p_total p" c'] by (auto simp: bytes_inv_def)

lemma bytes_kept_replace:
  assumes "bytes_inv p" and "p_chunks p = xs @ (k, c) # ys" and "chunk_ok k c'"
    and "r_end (c_allocated c') \<le> r_end (c_allocated c)" and "c_status c' = Finished \<longrightarrow> chunk_is_complete c'"
    and "p_chunks p' = xs @ (k, c') # ys" and "p_total p' = p_total p"
    and "c_downloaded c' = c_downloaded c"
  shows "bytes_kept p p'"
  using bytes_inv_replace [OF assms(1-7)] assms(2,6-8) by (simp add: bytes_kept_def planner_dl_def)

lemma bytes_kept_remove:
  assumes "bytes_inv p" and "p_chunks p = xs @ (k, c) # ys" and "r_end (c_downloaded c) = k"
    and "p_chunks p' = xs @ ys" and "p_total p' = p_total p"
  shows "bytes_kept p p'"
proof -
  have lay: "layout 0 xs k" "chunk_ok k c" "layout (r_end (c_allocated c)) ys (p_total p)"
    using assms(1,2) by (auto simp: bytes_inv_def)
  have "layout k ys (p_total p)" using lay(2,3) layout_lower by (auto simp: chunk_ok_def)
  then have "layout 0 (xs @ ys) (p_total p)"
    using lay(1) by (cases ys) (auto intro: layout_upper dest: layout_le)
  moreover have "r_bytes (c_downloaded c) = {}" using lay(2) assms(3) by (simp add: chunk_ok_def)
  ultimately show ?thesis
    using assms by (auto simp: bytes_kept_def bytes_inv_def planner_dl_def)
qed

section \<open>The operations\<close>

lemma mark_running_bytes: "bytes_kept p (snd (mark_running p i))"
proof (cases "bytes_inv p \<and> fst (mark_running p i) = Inr ()")
  case True
  then obtain k c where c: "p_runner_to_chunk p i = Some k" "bt_get k (p_chunks p) = Some c"
    by (auto simp: mark_running_def split: option.splits)
  obtain xs ys where xs: "p_chunks p = xs @ (k, c) # ys" "chunk_ok k c"
    "\<And>d. bt_insert k d (p_chunks p) = xs @ (k, d) # ys"
    using bytes_inv_entry [OF _ c(2)] True by metis
  show ?thesis
    by (rule bytes_kept_replace [OF _ xs(1), of "c\<lparr>c_status := Running\<rparr>"])
      (use True xs(2,3) c in \<open>simp_all add: mark_running_def chunk_ok_def\<close>)
next
  case False
  then show ?thesis by (auto simp: mark_running_def bytes_kept_def split: option.splits)
qed

lemma mark_finished_bytes:
  assumes "\<And>c. get_runner_state p i = Some c \<Longrightarrow> chunk_is_complete c"
  shows "bytes_kept p (snd (mark_finished p i))"
proof (cases "bytes_inv p \<and> fst (mark_finished p i) = Inr ()")
  case True
  then obtain k c where c: "p_runner_to_chunk p i = Some k" "bt_get k (p_chunks p) = Some c"
    by (auto simp: mark_finished_def forget_runner_def Let_def split: option.splits)
  obtain xs ys where xs: "p_chunks p = xs @ (k, c) # ys" "chunk_ok k c"
    "\<And>d. bt_insert k d (p_chunks p) = xs @ (k, d) # ys"
    using bytes_inv_entry [OF _ c(2)] True by metis
  have "chunk_is_complete c" using assms c by (simp add: get_runner_state_def)
  then show ?thesis
    by (intro bytes_kept_replace [OF _ xs(1), of "c\<lparr>c_status := Finished\<rparr>"])
      (use True xs(2,3) c in \<open>simp_all add: mark_finished_def forget_runner_def chunk_ok_def chunk_is_complete_def Let_def\<close>)
next
  case False
  then show ?thesis
    by (auto simp: mark_finished_def forget_runner_def Let_def split: option.splits
        intro: bytes_kept_same) (simp_all add: bytes_kept_def)
qed

lemma mark_failed_bytes: "bytes_kept p (snd (mark_failed p i))"
proof (cases "bytes_inv p \<and> (\<exists>r. fst (mark_failed p i) = Inr r)")
  case True
  then obtain k c where c: "p_runner_to_chunk p i = Some k" "bt_get k (p_chunks p) = Some c"
    by (auto simp: mark_failed_def forget_runner_def Let_def split: option.splits)
  obtain xs ys where xs: "p_chunks p = xs @ (k, c) # ys" "chunk_ok k c"
    "bt_remove k (p_chunks p) = xs @ ys" "\<And>d. bt_insert k d (bt_remove k (p_chunks p)) = xs @ (k, d) # ys"
    using bytes_inv_entry [OF _ c(2)] True by metis
  have k: "r_start (c_downloaded c) = k" using xs(2) by (simp add: chunk_ok_def)
  show ?thesis
  proof (cases "r_end (c_downloaded c) = k")
    case e: True
    show ?thesis
      by (rule bytes_kept_remove [OF _ xs(1) e])
        (use True xs(3) c k e in \<open>simp_all add: mark_failed_def forget_runner_def Let_def\<close>)
  next
    case e: False
    let ?d = "c\<lparr>c_allocated := Range (r_start (c_allocated c)) (r_end (c_downloaded c)), c_status := Finished,
        c_runner_id := None\<rparr>"
    show ?thesis
      by (rule bytes_kept_replace [OF _ xs(1), of ?d])
        (use True xs(2,4) c k e in \<open>simp_all add: mark_failed_def forget_runner_def chunk_ok_def
            chunk_is_complete_def Let_def\<close>)
  qed
next
  case False
  then show ?thesis
    by (auto simp: mark_failed_def forget_runner_def Let_def split: option.splits
        intro: bytes_kept_same) (simp_all add: bytes_kept_def)
qed

lemma resize_bytes: "bytes_kept p (snd (resize_runner_state p i sz))"
proof (cases "bytes_inv p \<and> (\<exists>n. fst (resize_runner_state p i sz) = Inr (Shrunk n))")
  case True
  then obtain k c e where c: "p_runner_to_chunk p i = Some k" "bt_get k (p_chunks p) = Some c"
    "checked_add64 (r_end (c_downloaded c)) sz = Some e" "r_start (c_allocated c) < e" "e < r_end (c_allocated c)"
    by (auto simp: resize_runner_state_def split: option.splits if_splits)
  obtain xs ys where xs: "p_chunks p = xs @ (k, c) # ys" "chunk_ok k c"
    "\<And>d. bt_insert k d (p_chunks p) = xs @ (k, d) # ys"
    using bytes_inv_entry [OF _ c(2)] True by metis
  have e: "r_end (c_downloaded c) \<le> e" using c(3) by (auto simp: checked_add64_def split: if_splits)
  have "\<not> chunk_is_complete c" using e c(5) by (simp add: chunk_is_complete_def)
  moreover have "(k, c) \<in> set (p_chunks p)" using xs(1) by simp
  ultimately have "c_status c \<noteq> Finished" using True by (auto simp: bytes_inv_def)
  then show ?thesis
    by (intro bytes_kept_replace [OF _ xs(1), of "c\<lparr>c_allocated := Range (r_start (c_allocated c)) e\<rparr>"])
      (use True xs(2,3) c e in \<open>simp_all add: resize_runner_state_def chunk_ok_def\<close>)
next
  case False
  then show ?thesis
    by (auto simp: resize_runner_state_def bytes_kept_def split: option.splits if_splits)
qed

lemma allocate_bytes:
  assumes st: "st \<noteq> Finished" and a: "allocate_chunk_inner p r rid st = (ok, p')"
  shows "bytes_kept p p'"
proof (cases ok)
  case False
  then have "p' = p" using a allocate_chunk_inner_False [of p r rid st p'] by simp
  then show ?thesis by simp
next
  case True
  let ?c = "chunk_new r rid st"
  have r: "r_start r < r_end r" "r_end r \<le> p_total p" and p': "p_total p' = p_total p"
    "p_chunks p' = bt_insert (r_start r) ?c (p_chunks p)"
    and pred: "case bt_last_below (r_end r) (p_chunks p) of None \<Rightarrow> True
      | Some (_, d) \<Rightarrow> r_end (c_allocated d) \<le> r_start r"
    using a True by (auto simp: allocate_chunk_inner_def split: if_splits option.splits)
  have "bytes_inv p' \<and> planner_dl p' = planner_dl p" if inv: "bytes_inv p"
  proof -
    have lay: "layout 0 (p_chunks p) (p_total p)" using inv by (simp add: bytes_inv_def)
    have fits: "r_end (c_allocated d) \<le> r_start r \<or> r_end r \<le> j" if "(j, d) \<in> set (p_chunks p)" for j d
    proof (cases "bt_last_below (r_end r) (p_chunks p)")
      case None
      then show ?thesis using bt.last_below_None [OF None that] by simp
    next
      case (Some e)
      then show ?thesis
        using last_below_no_overlap [OF lay _ _ that, of "r_end r" "fst e" "snd e" "r_start r"] pred
        by (cases e) (auto simp: not_less [symmetric])
    qed
    have ok: "chunk_ok (r_start r) ?c" using r by (simp add: chunk_ok_def chunk_new_def)
    have l: "layout 0 (p_chunks p') (p_total p)"
      using layout_insert [OF lay ok, of] fits r p' by (auto simp: chunk_new_def)
    have es: "set (p_chunks p') = insert (r_start r, ?c) {e \<in> set (p_chunks p). fst e \<noteq> r_start r}"
      using bt.entries_insert [OF bytes_inv_bt [OF inv]] p' by simp
    have no: "j \<noteq> r_start r" if "(j, d) \<in> set (p_chunks p)" for j d
      using fits [OF that] layout_entries [OF lay that] r by (auto simp: chunk_ok_def)
    then have es': "set (p_chunks p') = insert (r_start r, ?c) (set (p_chunks p))" using es by fastforce
    have "r_bytes (c_downloaded ?c) = {}" by (simp add: chunk_new_def)
    then have "planner_dl p' = planner_dl p"
      by (simp add: planner_dl_def dl_bytes_def bt_values_def es')
    moreover have "bytes_inv p'"
      using inv l p' es' st by (auto simp: bytes_inv_def chunk_new_def)
    ultimately show ?thesis by simp
  qed
  then show ?thesis using p' by (simp add: bytes_kept_def)
qed

text \<open>Progress adds exactly the accepted range, at the end of what the runner has downloaded.\<close>

lemma update_progress_bytes:
  assumes inv: "bytes_inv p" and u: "update_progress p i n = (Inr r, p')"
  obtains c where "get_runner_state p i = Some c" and "r_start r = r_end (c_downloaded c)"
    and "r_start r \<le> r_end r" and "r_end r \<le> r_start r + n" and "r_end r \<le> p_total p"
    and "bytes_inv p'" and "p_total p' = p_total p"
    and "planner_dl p' = planner_dl p \<union> r_bytes r" and "planner_dl p \<inter> r_bytes r = {}"
proof -
  obtain k c where c: "p_runner_to_chunk p i = Some k" "bt_get k (p_chunks p) = Some c"
    using u by (auto simp: update_progress_def split: option.splits)
  obtain c' where acc: "chunk_accept c n = (c', r)" and p': "p_chunks p' = bt_insert k c' (p_chunks p)"
    "p_total p' = p_total p"
    using u c by (auto simp: update_progress_def split: prod.splits)
  obtain xs ys where xs: "p_chunks p = xs @ (k, c) # ys" "chunk_ok k c" "r_end (c_allocated c) \<le> p_total p"
    "\<And>d. bt_insert k d (p_chunks p) = xs @ (k, d) # ys"
    using bytes_inv_entry [OF inv c(2)] by metis
  have "r_end (c_allocated c) < u64_bound" using xs(3) inv by (simp add: bytes_inv_def)
  note a = chunk_accept_ok [OF xs(2) this acc]
  have r: "r_start r = r_end (c_downloaded c)" "r_start r \<le> r_end r" "r_end r \<le> r_start r + n"
    "r_end r \<le> r_end (c_allocated c)" using a(1) xs(2) by (auto simp: chunk_ok_def)
  have full: "c_status c' = Finished \<longrightarrow> chunk_is_complete c'"
  proof
    assume f: "c_status c' = Finished"
    have "c_status c = Finished \<Longrightarrow> chunk_is_complete c" using inv xs(1) by (auto simp: bytes_inv_def)
    then show "chunk_is_complete c'" using acc f a(1,2,4) xs(2)
      by (auto simp: chunk_accept_def Let_def chunk_is_complete_def chunk_ok_def split: if_splits)
  qed
  have p2: "p_chunks p' = xs @ (k, c') # ys" using p'(1) xs(4) by simp
  have inv': "bytes_inv p'"
    by (rule bytes_inv_replace [OF inv xs(1) a(6) _ full p2 p'(2)]) (simp add: a(2))
  have dl: "r_bytes (c_downloaded c') = r_bytes (c_downloaded c) \<union> r_bytes r"
    using a(4) r xs(2) by (auto simp: chunk_ok_def)
  have "planner_dl p' = planner_dl p \<union> r_bytes r" using p2 xs(1) dl by (auto simp: planner_dl_def)
  moreover have "planner_dl p \<inter> r_bytes r = {}"
  proof -
    have lay: "layout 0 xs k" "layout (r_end (c_allocated c)) ys (p_total p)"
      using inv xs(1) by (auto simp: bytes_inv_def)
    have "dl_bytes xs \<subseteq> {0..<k}" "dl_bytes ys \<subseteq> {r_end (c_allocated c)..<p_total p}"
      using layout_dl_bytes [OF lay(1)] layout_alloc_bytes [OF lay(1)]
        layout_dl_bytes [OF lay(2)] layout_alloc_bytes [OF lay(2)] by blast+
    moreover have "k \<le> r_start r" using r(1) xs(2) by (simp add: chunk_ok_def)
    ultimately show ?thesis using xs(1) r by (fastforce simp: planner_dl_def)
  qed
  ultimately show ?thesis
    using that [of c] c r xs(3) inv' p'(2) by (simp add: get_runner_state_def)
qed

lemma complete_bytes:
  assumes inv: "bytes_inv p" and compl: "planner_is_complete p"
  shows "planner_dl p = {0..<p_total p}"
proof -
  have lay: "layout 0 (p_chunks p) (p_total p)" using inv by (simp add: bytes_inv_def)
  have all: "\<forall>c \<in> set (bt_values (p_chunks p)). c_status c = Finished"
    using compl unfolding planner_is_complete_def by (elim conjE)
  have none: "get_available_ranges p = []" using compl unfolding planner_is_complete_def by (elim conjE)
  have full: "r_bytes (c_downloaded c) = r_bytes (c_allocated c)" if c: "c \<in> set (bt_values (p_chunks p))" for c
  proof -
    obtain k where k: "(k, c) \<in> set (p_chunks p)" using c by (meson bt_values_entry)
    have "chunk_is_complete c" using inv k bspec [OF all c] unfolding bytes_inv_def by fastforce
    moreover have "chunk_ok k c" using layout_entries [OF lay k] by simp
    ultimately show ?thesis by (simp add: chunk_ok_def chunk_is_complete_def)
  qed
  have "planner_dl p = alloc_bytes (p_chunks p)"
    unfolding planner_dl_def dl_bytes_def alloc_bytes_def by (intro SUP_cong refl full)
  moreover have "ranges_bytes (get_available_ranges p) = {0..<p_total p} - alloc_bytes (p_chunks p)"
    using available_from_exact [OF lay] unfolding get_available_ranges_def by (elim conjE)
  ultimately show ?thesis using none layout_alloc_bytes [OF lay] by auto
qed

end
