(* ===== verification/Loop_Assembly.thy ===== *)
theory Loop_Assembly
  imports Planner_Bytes Download_Loop_Props
begin

text \<open>
  The composition of the planner, the runners, the manager and the event loop over a whole run: the
  chunks the loop hands to the writer are pairwise disjoint slices of the file, and a run that ends in
  success has handed out all of it.
\<close>

section \<open>What the runners promise\<close>

text \<open>
  Two facts of a runner that its own theorems show. Its frames are the bytes of the file from where it
  has got to, in order; and it reports the end of its range only after the consumer has read all of it.
\<close>

fun frames_from :: "chunk \<Rightarrow> runner_manager \<Rightarrow> chunk group_event \<Rightarrow> bool" where
  "frames_from body m (Group_Item i frame) \<longleftrightarrow>
     (case get_runner_state (rm_planner m) i of
        None \<Rightarrow> True
      | Some c \<Rightarrow> take (length frame) (drop (r_end (c_downloaded c)) body) = frame)"
| "frames_from body m _ \<longleftrightarrow> True"

fun stops_when_full :: "runner_manager \<Rightarrow> lifecycle_event group_event \<Rightarrow> bool" where
  "stops_when_full m (Group_Item i (Stopped reason)) \<longleftrightarrow>
     is_connecting m i \<or> reason \<notin> {Stop_Finished, Stop_Failed Exceeded_Total_Size}
     \<or> (case get_runner_state (rm_planner m) i of None \<Rightarrow> True | Some c \<Rightarrow> chunk_is_complete c)"
| "stops_when_full m _ \<longleftrightarrow> True"

section \<open>The manager\<close>

abbreviation manager_kept :: "runner_manager \<Rightarrow> runner_manager \<Rightarrow> bool" where
  "manager_kept m m' \<equiv> bytes_kept (rm_planner m) (rm_planner m')"

lemma connect_failed_planner:
  "handle_connect_failed m i e now = Done (t, m') \<Longrightarrow> rm_planner m' = snd (mark_failed (rm_planner m) i)"
  by (auto simp: handle_connect_failed_def planner_expect_def sample_outcome_def bind_run_Done Let_def
      split: if_splits)

lemma connect_failed_bytes:
  "handle_connect_failed m i e now = Done (t, m') \<Longrightarrow> manager_kept m m'"
  by (simp add: connect_failed_planner mark_failed_bytes)

lemma started_bytes: "handle_started m i = Done (t, m') \<Longrightarrow> manager_kept m m'"
  using mark_running_bytes [of "rm_planner m" i]
  by (auto simp: handle_started_def planner_expect_def bind_run_Done split: if_splits)

lemma release_planner [simp]: "rm_planner (release_runner m i) = rm_planner m"
  by (simp add: release_runner_def)

lemma completed_bytes:
  assumes "mark_runner_completed m i now = Done (b, m')"
    and "case get_runner_state (rm_planner m) i of None \<Rightarrow> True | Some c \<Rightarrow> chunk_is_complete c"
  shows "manager_kept m m'"
proof -
  have "bytes_kept (rm_planner m) (snd (mark_finished (rm_planner m) i))"
    by (rule mark_finished_bytes) (use assms(2) in simp)
  then show ?thesis using assms(1)
    by (auto simp: mark_runner_completed_def planner_expect_def sample_outcome_def bind_run_Done)
qed

lemma expect_failed_bytes:
  assumes "planner_expect m (mark_failed (rm_planner m0) i) = Done (x, m')" and "rm_planner m = rm_planner m0"
  shows "manager_kept m0 m'"
  using assms mark_failed_bytes [of "rm_planner m0" i] by (auto simp: planner_expect_def bind_run_Done)

lemma stopped_bytes:
  assumes h: "handle_stopped m i reason now = Done (t, m')" and full: "stops_when_full m (Group_Item i (Stopped reason))"
  shows "manager_kept m m'"
proof -
  let ?m = "release_runner (m\<lparr>rm_meters := bt_remove i (rm_meters m)\<rparr>) i"
  have p: "rm_planner ?m = rm_planner m" by simp
  consider (connecting) "is_connecting m i"
    | (whole) "\<not> is_connecting m i" "reason = Stop_Finished \<or> reason = Stop_Failed Exceeded_Total_Size"
    | (failed) kind where "\<not> is_connecting m i" "reason = Stop_Failed kind" "kind \<noteq> Exceeded_Total_Size"
    by (cases reason) auto
  then show ?thesis
  proof cases
    case connecting
    then show ?thesis using h p by (auto simp: handle_stopped_def Let_def dest!: connect_failed_bytes)
  next
    case whole
    then obtain b where "mark_runner_completed ?m i now = Done (b, m')"
      using h by (auto simp: handle_stopped_def Let_def bind_run_Done)
    then show ?thesis using completed_bytes [of ?m i now b m'] full whole p by auto
  next
    case failed
    then obtain x m1 where "planner_expect ?m (mark_failed (rm_planner m) i) = Done (x, m1)"
      "rm_planner m' = rm_planner m1"
      using h by (auto simp: handle_stopped_def Let_def bind_run_Done sample_outcome_def split: if_splits)
    then show ?thesis using expect_failed_bytes [of ?m m i x m1] p by simp
  qed
qed

lemma lost_bytes:
  assumes "handle_runner_lost m i now = Done (t, m')"
  shows "manager_kept m m'"
proof -
  let ?m = "m\<lparr>rm_meters := bt_remove i (rm_meters m)\<rparr>"
  obtain x m1 where "planner_expect ?m (mark_failed (rm_planner m) i) = Done (x, m1)"
    "rm_planner m' = rm_planner m1"
    using assms by (auto simp: handle_runner_lost_def Let_def bind_run_Done sample_outcome_def)
  then show ?thesis using expect_failed_bytes [of ?m m i x m1] by simp
qed

lemma poll_lifecycle_bytes:
  assumes p: "poll_lifecycle m ev now = Done (t, m')" and full: "stops_when_full m ev"
  shows "manager_kept m m'"
proof (cases "rm_spawn_failures m")
  case (Cons f rest)
  then show ?thesis using p
    by (cases f) (auto simp: poll_lifecycle_def bind_run_Done handle_spawn_failed_def dest!: connect_failed_bytes)
next
  case Nil
  show ?thesis
  proof (cases "rm_lifecycle m = {}")
    case False
    show ?thesis
    proof (cases ev)
      case (Group_Item i e)
      then obtain tk where h: "handle_lifecycle m i e now = Done (tk, m')"
        using p Nil False by (auto simp: poll_lifecycle_def bind_run_Done)
      then show ?thesis using stopped_bytes [of m i _ now tk m'] full Group_Item started_bytes
        by (cases e) (auto simp: handle_lifecycle_def)
    next
      case (Group_Closed i)
      then show ?thesis using p Nil False by (auto simp: poll_lifecycle_def bind_run_Done dest!: lost_bytes)
    qed (use p Nil False in \<open>auto simp: poll_lifecycle_def\<close>)
  qed (use p Nil in \<open>auto simp: poll_lifecycle_def\<close>)
qed

section \<open>What a turn hands to the writer\<close>

definition slice :: "chunk \<Rightarrow> range \<Rightarrow> chunk" where
  "slice body r = take (r_len r) (drop (r_start r) body)"

definition accepted_from :: "chunk \<Rightarrow> planner \<Rightarrow> planner \<Rightarrow> downloaded_chunk option \<Rightarrow> bool" where
  "accepted_from body p p' ch \<longleftrightarrow>
     bytes_inv p' \<and> p_total p' = p_total p
     \<and> (case ch of
          None \<Rightarrow> planner_dl p' = planner_dl p
        | Some c \<Rightarrow>
            dc_bytes c = slice body (dc_range c) \<and> r_end (dc_range c) \<le> p_total p
            \<and> planner_dl p' = planner_dl p \<union> r_bytes (dc_range c) \<and> planner_dl p \<inter> r_bytes (dc_range c) = {})"

lemma accepted_from_None: "bytes_inv p \<Longrightarrow> bytes_kept p p' \<Longrightarrow> accepted_from body p p' None"
  by (simp add: accepted_from_def bytes_kept_def)

lemma accepted_from_kept: "accepted_from body p q ch \<Longrightarrow> bytes_kept q r \<Longrightarrow> accepted_from body p r ch"
  by (simp add: accepted_from_def bytes_kept_def split: option.splits)

lemma data_frame_bytes:
  assumes inv: "bytes_inv (rm_planner m)" and h: "handle_data_frame m i frame = Done (c, m')"
    and body: "frames_from body m (Group_Item i frame)"
  shows "accepted_from body (rm_planner m) (rm_planner m') (Some c)"
proof -
  obtain r where u: "update_progress (rm_planner m) i (length frame) = (Inr r, rm_planner m')"
    and c: "c = \<lparr>dc_range = r, dc_bytes = take (sub64 (r_end r) (r_start r)) frame\<rparr>"
    using h by (cases "update_progress (rm_planner m) i (length frame)")
      (auto simp: handle_data_frame_def planner_expect_def bind_run_Done expect_ok_def Let_def split: sum.splits)
  obtain s where s: "get_runner_state (rm_planner m) i = Some s" "r_start r = r_end (c_downloaded s)"
    "r_start r \<le> r_end r" "r_end r \<le> r_start r + length frame" "r_end r \<le> p_total (rm_planner m)"
    "bytes_inv (rm_planner m')" "p_total (rm_planner m') = p_total (rm_planner m)"
    "planner_dl (rm_planner m') = planner_dl (rm_planner m) \<union> r_bytes r"
    "planner_dl (rm_planner m) \<inter> r_bytes r = {}"
    using update_progress_bytes [OF inv u] by blast
  have "take (length frame) (drop (r_start r) body) = frame" using body s(1,2) by simp
  moreover have "r_len r \<le> length frame" using s(4) by simp
  ultimately have "take (r_len r) frame = slice body r" unfolding slice_def by (metis min.absorb1 take_take)
  moreover have "sub64 (r_end r) (r_start r) = r_len r"
    using s(3,5) inv by (intro sub64_exact) (auto simp: bytes_inv_def)
  ultimately show ?thesis using c s by (simp add: accepted_from_def)
qed

definition tick_chunk :: "runner_tick option \<Rightarrow> downloaded_chunk option" where
  "tick_chunk t = (case t of None \<Rightarrow> None | Some k \<Rightarrow> tk_downloaded k)"

lemma poll_lifecycle_chunk: "poll_lifecycle m ev now = Done (t, m') \<Longrightarrow> tick_chunk t = None \<and> (t = None \<longrightarrow> m' = m)"
  by (auto simp: poll_lifecycle_def handle_spawn_failed_def handle_lifecycle_def handle_started_def handle_stopped_def
      handle_runner_lost_def handle_connect_failed_def bind_run_Done Let_def tick_chunk_def tick_downloading_def
      tick_finished_def tick_with_failure_def
      split: list.splits if_splits group_event.splits lifecycle_event.splits stopped_reason.splits)

lemma poll_tick_bytes:
  assumes inv: "bytes_inv (rm_planner m)" and p: "poll_tick m lev dev enabled now = Done (t, m')"
    and full: "stops_when_full m lev" and body: "frames_from body m dev"
  shows "accepted_from body (rm_planner m) (rm_planner m') (tick_chunk t)"
proof -
  obtain t1 m1 where l: "poll_lifecycle m lev now = Done (t1, m1)"
    and rest: "(if t1 \<noteq> None then Done (t1, m1) else if enabled then poll_data m1 dev else Done (None, m1)) = Done (t, m')"
    using p by (auto simp: poll_tick_def bind_run_Done)
  note c = poll_lifecycle_chunk [OF l] and k = poll_lifecycle_bytes [OF l full]
  show ?thesis
  proof (cases "t1 = None \<and> enabled")
    case False
    then have "t = t1 \<and> m' = m1" using rest by (auto split: if_splits)
    then show ?thesis using c accepted_from_None [OF inv k] by simp
  next
    case True
    then have d: "poll_data m dev = Done (t, m')" using rest c by simp
    show ?thesis
    proof (cases "\<exists>i frame. rm_data m \<noteq> {} \<and> dev = Group_Item i frame")
      case item: True
      then obtain i frame where i: "dev = Group_Item i frame" "rm_data m \<noteq> {}" by blast
      then obtain ch where h: "handle_data_frame m i frame = Done (ch, m')" "t = Some (tick_with_chunk ch)"
        using d by (auto simp: poll_data_def bind_run_Done)
      then show ?thesis using data_frame_bytes [OF inv h(1)] body i(1)
        by (simp add: tick_chunk_def tick_with_chunk_def)
    next
      case other: False
      then have "tick_chunk t = None" "rm_planner m' = rm_planner m"
        using d by (auto simp: poll_data_def tick_chunk_def tick_downloading_def split: if_splits group_event.splits)
      then show ?thesis using accepted_from_None [OF inv bytes_kept_refl] by simp
    qed
  qed
qed

section \<open>The handlers\<close>

abbreviation loop_kept :: "download_loop \<Rightarrow> download_loop \<Rightarrow> bool" where
  "loop_kept d d' \<equiv> manager_kept (dl_manager d) (dl_manager d')"

lemma spawn_with_chunk_bytes:
  assumes "spawn_runner_with_chunk m r spawn = (ok, m')"
  shows "manager_kept m m'"
proof -
  obtain res m1 where a: "allocate_runner m = (res, m1)" by fastforce
  have p1: "rm_planner m1 = rm_planner m" using a by (auto simp: allocate_runner_def split: prod.splits option.splits)
  show ?thesis
  proof (cases res)
    case None
    then show ?thesis using assms a p1 by (auto simp: spawn_runner_with_chunk_def)
  next
    case (Some x)
    obtain i limits where x: "x = (i, limits)" by fastforce
    obtain b p where b: "allocate_pending_chunk (rm_planner m1) r i = (b, p)" by fastforce
    have "bytes_kept (rm_planner m1) p"
      using b by (intro allocate_bytes [of Pending]) (simp_all add: allocate_pending_chunk_def)
    moreover have "rm_planner m' = p"
      using assms a Some x b
      by (auto simp: spawn_runner_with_chunk_def register_runner_channels_def Let_def split: bool.splits option.splits)
    ultimately show ?thesis using p1 by simp
  qed
qed

lemma spawn_bytes: "spawn_runner env d r = Done d' \<Longrightarrow> loop_kept d d'"
  by (auto simp: spawn_runner_def bind_run_Done split: prod.splits dest!: spawn_with_chunk_bytes)

lemma resize_runner_bytes:
  assumes "resize_runner m i sz = Done (res, m')"
  shows "manager_kept m m'"
proof -
  obtain x p where r: "resize_runner_state (rm_planner m) i sz = (x, p)" by fastforce
  have "bytes_kept (rm_planner m) p" using resize_bytes [of "rm_planner m" i sz] r by simp
  moreover have "rm_planner m' = p \<or> rm_planner m' = rm_planner m"
    using assms r by (auto simp: resize_runner_def guard_new_def guard_drop_def guard_commit_def Let_def bind_run_Done
        split: sum.splits resize.splits option.splits if_splits)
  ultimately show ?thesis by auto
qed

lemma split_bytes:
  assumes "split_runner env d i r = Done d'"
  shows "loop_kept d d'"
proof -
  obtain res m where r: "resize_runner (dl_manager d) i (sub64 (r_end r) (r_start r) div 2) = Done (res, m)"
    using assms by (auto simp: split_runner_def Let_def bind_run_Done)
  note k = resize_runner_bytes [OF r]
  show ?thesis
  proof (cases res)
    case (Inl e)
    then show ?thesis using assms r k by (auto simp: split_runner_def)
  next
    case (Inr u)
    then show ?thesis using assms r bytes_kept_trans [OF k] by (auto simp: split_runner_def dest!: spawn_bytes)
  qed
qed

lemma split_all_bytes: "split_all env d xs = Done d' \<Longrightarrow> loop_kept d d'"
  by (induction env d xs rule: split_all.induct)
    (auto simp: bind_run_Done intro: bytes_kept_trans dest!: split_bytes)

lemma apply_action_bytes: "apply_action env d a = Done d' \<Longrightarrow> loop_kept d d'"
  by (cases a) (auto simp: apply_action_def bind_run_Done dest!: split_all_bytes split_bytes spawn_bytes)

lemma apply_all_bytes: "apply_all env d as = Done d' \<Longrightarrow> loop_kept d d'"
  by (induction env d as rule: apply_all.induct)
    (auto simp: bind_run_Done intro: bytes_kept_trans dest!: apply_action_bytes)

lemma strategy_execute_planner:
  assumes x: "strategy_execute s k v w m now t1 t2 = Done (res, s', m')"
  shows "rm_planner m' = rm_planner m"
proof -
  let ?ctx = "\<lparr>cx_max_concurrency = k, cx_active_runners = get_active_runners_count (rm_planner m),
      cx_available_chunks = get_available_ranges (rm_planner m)\<rparr>"
  obtain r where r: "cc_step (sc_cc s) ?ctx (rm_sampler m) now t1 t2 = Done r"
    using x by (cases "cc_step (sc_cc s) ?ctx (rm_sampler m) now t1 t2") (simp_all add: strategy_execute_def Let_def)
  obtain acts cc samp where s: "r = (acts, cc, samp)" by (metis prod_cases3)
  show ?thesis
  proof (cases "acts = []")
    case False
    then show ?thesis using x r s by (auto simp: strategy_execute_def Let_def)
  next
    case True
    note x' = x [unfolded strategy_execute_def Let_def r s True]
    show ?thesis
    proof (cases "find_chunk_to_split (rm_planner m) (float_to_u64 (v * 2))")
      case None
      then show ?thesis using x' by auto
    next
      case (Some f)
      obtain rid suggested where f: "f = (rid, suggested)" by fastforce
      show ?thesis using x' Some f by (cases rid) (auto split: if_splits prod.splits)
    qed
  qed
qed

lemma strategy_tick_bytes:
  assumes "on_strategy_tick env d = Done d'"
  shows "loop_kept d d'"
proof -
  obtain res s m where x: "strategy_execute (dl_strategy d) (dl_max_concurrency d) (tp_speed (dl_throughput d))
      (tp_per_runner (dl_throughput d)) (dl_manager d) (en_now env) (en_t1 env) (en_t2 env) = Done (res, s, m)"
    and rest: "(case res of None \<Rightarrow> Done (d\<lparr>dl_strategy := s, dl_manager := m\<rparr>)
      | Some (_, acts) \<Rightarrow> apply_all env (d\<lparr>dl_strategy := s, dl_manager := m\<rparr>) acts) = Done d'"
    using assms by (auto simp: on_strategy_tick_def Let_def bind_run_Done)
  have p: "rm_planner m = rm_planner (dl_manager d)" by (rule strategy_execute_planner [OF x])
  show ?thesis
  proof (cases res)
    case None
    then show ?thesis using rest p by auto
  next
    case (Some y)
    then show ?thesis using rest p apply_all_bytes [of env "d\<lparr>dl_strategy := s, dl_manager := m\<rparr>" "snd y" d']
      by (cases y) simp
  qed
qed

lemma on_runner_manager: "on_runner env d tick = (res, d') \<Longrightarrow> dl_manager d' = dl_manager d"
  by (auto simp: on_runner_def accept_chunk_def on_failure_def Let_def
      split: option.splits sum.splits prod.splits if_splits)

lemma handle_event_bytes:
  assumes h: "handle_event env d e = Done (res, d')"
  shows "loop_kept d d'"
proof (cases e)
  case Ev_Strategy_Timer
  then show ?thesis using h by (auto simp: handle_event_def bind_run_Done dest!: strategy_tick_bytes)
next
  case Ev_Throughput_Timer
  then have "rm_planner (dl_manager d') = rm_planner (dl_manager d)"
    using h by (auto simp: handle_event_def on_throughput_tick_def publish_progress_def take_meters_snapshot_def
        split: prod.splits)
  then show ?thesis by simp
next
  case (Ev_Runner tick)
  then show ?thesis using h on_runner_manager [of env d tick] by (simp add: handle_event_def)
next
  case (Ev_Writer_Completed cs)
  then show ?thesis using h
    by (auto simp: handle_event_def record_completions_def split: option.splits sum.splits prod.splits)
qed (use h in \<open>auto simp: handle_event_def on_deadline_def split: option.splits sum.splits prod.splits\<close>)

section \<open>A turn and a run\<close>

text \<open>The chunk a turn takes from the runners, and those of a run, in order.\<close>

definition turn_chunk :: "loop_env \<Rightarrow> poll_inputs \<Rightarrow> download_loop \<Rightarrow> downloaded_chunk option" where
  "turn_chunk env ins d =
     (case poll_event env ins (d\<lparr>dl_writer := workers_report (dl_writer d) (in_reports ins)\<rparr>) of
        Done (Some (Ev_Runner tick), _) \<Rightarrow> tk_downloaded tick
      | _ \<Rightarrow> None)"

fun loop_chunks :: "(loop_env \<times> poll_inputs) list \<Rightarrow> download_loop \<Rightarrow> downloaded_chunk list" where
  "loop_chunks [] d = []"
| "loop_chunks ((env, ins) # polls) d =
     (case turn_chunk env ins d of None \<Rightarrow> [] | Some c \<Rightarrow> [c])
     @ (case loop_turn env ins d of Done (None, d') \<Rightarrow> loop_chunks polls d' | _ \<Rightarrow> [])"

lemma turn_bytes:
  assumes inv: "bytes_inv (rm_planner (dl_manager d))" and t: "loop_turn env ins d = Done (res, d')"
    and full: "stops_when_full (dl_manager d) (in_lifecycle ins)" and body: "frames_from body (dl_manager d) (in_data ins)"
  shows "accepted_from body (rm_planner (dl_manager d)) (rm_planner (dl_manager d')) (turn_chunk env ins d)"
proof -
  let ?d = "d\<lparr>dl_writer := workers_report (dl_writer d) (in_reports ins)\<rparr>"
  obtain ev d1 where p: "poll_event env ins ?d = Done (ev, d1)" using t by (auto simp: loop_turn_def bind_run_Done)
  have k: "loop_kept d1 d'"
  proof (cases ev)
    case None
    then show ?thesis using t p by (simp add: loop_turn_def)
  next
    case (Some e)
    then obtain x where "handle_event env d1 e = Done (x, d')" using t p by (auto simp: loop_turn_def bind_run_Done)
    then show ?thesis by (rule handle_event_bytes)
  qed
  have "accepted_from body (rm_planner (dl_manager d)) (rm_planner (dl_manager d1)) (turn_chunk env ins d)"
  proof (cases "\<exists>tk m. poll_tick (dl_manager d) (in_lifecycle ins) (in_data ins) (can_write (dl_writer d1)) (en_now env)
      = Done (tk, m) \<and> ev = map_option Ev_Runner tk \<and> dl_manager d1 = m")
    case True
    then obtain tk where tk: "poll_tick (dl_manager d) (in_lifecycle ins) (in_data ins) (can_write (dl_writer d1))
        (en_now env) = Done (tk, dl_manager d1)" "ev = map_option Ev_Runner tk" by blast
    have "turn_chunk env ins d = tick_chunk tk" using p tk(2) by (cases tk) (simp_all add: turn_chunk_def tick_chunk_def)
    then show ?thesis using poll_tick_bytes [OF inv tk(1) full body] by simp
  next
    case False
    then have "dl_manager d1 = dl_manager d" "\<forall>tick. ev \<noteq> Some (Ev_Runner tick)"
      using p by (auto simp: poll_event_def poll_runner_def bind_run_Done Let_def split: if_splits option.splits prod.splits)
    moreover from this(2) have "turn_chunk env ins d = None"
      using p by (auto simp: turn_chunk_def split: option.splits loop_event.splits)
    ultimately show ?thesis using accepted_from_None [OF inv bytes_kept_refl] by simp
  qed
  then show ?thesis by (rule accepted_from_kept [OF _ k])
qed

text \<open>What a turn may be given, and what a run may be given in each of its turns.\<close>

definition turn_legal :: "instant \<Rightarrow> loop_env \<Rightarrow> poll_inputs \<Rightarrow> download_loop \<Rightarrow> bool" where
  "turn_legal t env ins d \<longleftrightarrow>
     t \<le> en_now env \<and> en_now env \<le> en_t2 env
     \<and> legal_lifecycle (dl_manager d) (in_lifecycle ins) \<and> legal_data (dl_manager d) (in_data ins)
     \<and> (in_strategy ins \<longrightarrow> all_active (dl_manager d))"

fun polls_ok :: "chunk \<Rightarrow> instant \<Rightarrow> (loop_env \<times> poll_inputs) list \<Rightarrow> download_loop \<Rightarrow> bool" where
  "polls_ok body t [] d \<longleftrightarrow> True"
| "polls_ok body t ((env, ins) # polls) d \<longleftrightarrow>
     turn_legal t env ins d
     \<and> frames_from body (dl_manager d) (in_data ins) \<and> stops_when_full (dl_manager d) (in_lifecycle ins)
     \<and> (case loop_turn env ins d of Done (None, d') \<Rightarrow> polls_ok body (en_t2 env) polls d' | _ \<Rightarrow> True)"

lemma workers_report_inv: "writer_inv w \<Longrightarrow> writer_inv (workers_report w reports)"
  unfolding workers_report_def
  by (induction reports arbitrary: w) (auto simp: worker_reports_ok)

lemma turn_total:
  assumes inv: "loop_inv n t d" and legal: "turn_legal t env ins d"
  shows "\<exists>res d'. loop_turn env ins d = Done (res, d') \<and> loop_inv n (en_t2 env) d'
    \<and> (res = Some (Inr ()) \<longrightarrow> planner_is_complete (rm_planner (dl_manager d')))"
proof -
  let ?d = "d\<lparr>dl_writer := workers_report (dl_writer d) (in_reports ins)\<rparr>"
  have "loop_inv n t ?d" using inv workers_report_inv by (simp add: loop_inv_def)
  then obtain ev d1 where p: "poll_event env ins ?d = Done (ev, d1)"
    and rest: "case ev of None \<Rightarrow> loop_inv n (en_t2 env) d1
        | Some e \<Rightarrow> \<exists>res d2. handle_event env d1 e = Done (res, d2) \<and> loop_inv n (en_t2 env) d2
            \<and> (res = Inr True \<longrightarrow> planner_is_complete (rm_planner (dl_manager d2)))"
    using loop_turn_ok [of n t ?d env ins] legal by (fastforce simp: turn_legal_def split: option.splits)
  show ?thesis
  proof (cases ev)
    case None
    then show ?thesis using p rest by (simp add: loop_turn_def)
  next
    case (Some e)
    then obtain x d2 where x: "handle_event env d1 e = Done (x, d2)" "loop_inv n (en_t2 env) d2"
      "x = Inr True \<longrightarrow> planner_is_complete (rm_planner (dl_manager d2))" using rest by auto
    then show ?thesis using p Some by (cases x) (auto simp: loop_turn_def)
  qed
qed

text \<open>The accounting of a run that starts with nothing but \<open>planner_dl\<close> downloaded.\<close>

definition chunks_ok :: "chunk \<Rightarrow> planner \<Rightarrow> downloaded_chunk list \<Rightarrow> planner \<Rightarrow> bool" where
  "chunks_ok body p cs p' \<longleftrightarrow>
     bytes_inv p' \<and> p_total p' = p_total p
     \<and> planner_dl p' = planner_dl p \<union> ranges_bytes (map dc_range cs)
     \<and> planner_dl p \<inter> ranges_bytes (map dc_range cs) = {}
     \<and> sorted_wrt (\<lambda>a b. r_bytes (dc_range a) \<inter> r_bytes (dc_range b) = {}) cs
     \<and> list_all (\<lambda>c. dc_bytes c = slice body (dc_range c) \<and> r_end (dc_range c) \<le> p_total p) cs"

lemma chunks_ok_Nil: "bytes_inv p \<Longrightarrow> chunks_ok body p [] p"
  by (simp add: chunks_ok_def)

lemma chunks_ok_step:
  assumes a: "accepted_from body p q ch" and b: "chunks_ok body q cs r"
  shows "chunks_ok body p ((case ch of None \<Rightarrow> [] | Some c \<Rightarrow> [c]) @ cs) r"
proof (cases ch)
  case None
  then show ?thesis using a b by (simp add: accepted_from_def chunks_ok_def)
next
  case (Some c)
  have q: "planner_dl q = planner_dl p \<union> r_bytes (dc_range c)" "planner_dl p \<inter> r_bytes (dc_range c) = {}"
    "p_total q = p_total p" "dc_bytes c = slice body (dc_range c)" "r_end (dc_range c) \<le> p_total p"
    using a Some by (simp_all add: accepted_from_def)
  have r: "planner_dl q \<inter> ranges_bytes (map dc_range cs) = {}" using b by (simp add: chunks_ok_def)
  have "r_bytes (dc_range c) \<inter> r_bytes (dc_range x) = {}" if "x \<in> set cs" for x
  proof -
    have "r_bytes (dc_range x) \<subseteq> ranges_bytes (map dc_range cs)"
      using that unfolding ranges_bytes_def set_map by (rule_tac UN_upper) (rule imageI)
    then show ?thesis using r unfolding q(1) by blast
  qed
  moreover have "planner_dl p \<inter> ranges_bytes (map dc_range (c # cs)) = {}" using r q(1,2) by auto
  ultimately show ?thesis using b q Some by (auto simp: chunks_ok_def Un_assoc)
qed

lemma run_ok:
  "loop_inv n t d \<Longrightarrow> bytes_inv (rm_planner (dl_manager d)) \<Longrightarrow> polls_ok body t polls d \<Longrightarrow>
   \<exists>res d'. loop_run polls d = Done (res, d')
     \<and> chunks_ok body (rm_planner (dl_manager d)) (loop_chunks polls d) (rm_planner (dl_manager d'))
     \<and> (res = Some (Inr ()) \<longrightarrow> planner_is_complete (rm_planner (dl_manager d')))"
proof (induction polls arbitrary: t d)
  case Nil
  then show ?case by (simp add: chunks_ok_Nil)
next
  case (Cons x polls)
  obtain env ins where x: "x = (env, ins)" by fastforce
  have legal: "turn_legal t env ins d" "frames_from body (dl_manager d) (in_data ins)"
    "stops_when_full (dl_manager d) (in_lifecycle ins)" using Cons.prems(3) x by simp_all
  obtain res d1 where t: "loop_turn env ins d = Done (res, d1)" "loop_inv n (en_t2 env) d1"
    "res = Some (Inr ()) \<longrightarrow> planner_is_complete (rm_planner (dl_manager d1))"
    using turn_total [OF Cons.prems(1) legal(1)] by blast
  note a = turn_bytes [OF Cons.prems(2) t(1) legal(3,2)]
  have inv1: "bytes_inv (rm_planner (dl_manager d1))" using a by (simp add: accepted_from_def)
  show ?case
  proof (cases res)
    case None
    then have "polls_ok body (en_t2 env) polls d1" using Cons.prems(3) t(1) x by simp
    then show ?thesis using Cons.IH [OF t(2) inv1] chunks_ok_step [OF a] t(1) None x by auto
  next
    case (Some r)
    then show ?thesis using chunks_ok_step [OF a chunks_ok_Nil [OF inv1]] t(1,3) x by simp
  qed
qed

end
