(* ===== verification/Writer_Backend.thy ===== *)
theory Writer_Backend
  imports Pending_Writer Output_File
begin

text \<open>
  The backends of the file writer (\<open>concurrent_task/file_writer.rs\<close> and its \<open>pool_writer\<close>,
  \<open>mmap_writer\<close>, \<open>null_writer\<close> and \<open>compio_writer\<close>): a bounded queue of commands, the workers that
  take them, and the file they write. Every send, receive, system call and exit is a step of its own,
  so a run is any interleaving of the submitters and the workers; what the operating system answers to
  a step is part of the event. A file is the list of its bytes.
\<close>

section \<open>Writing at an offset\<close>

text \<open>What \<open>pwrite\<close> and a mapping do to a file: a gap is filled with zeros, writing nothing does nothing.\<close>

definition pwrite :: "chunk \<Rightarrow> nat \<Rightarrow> chunk \<Rightarrow> chunk" where
  "pwrite content pos data =
     (if data = [] then content
      else take pos (content @ replicate (pos - length content) 0) @ data @ drop (pos + length data) content)"

definition byte_at :: "chunk \<Rightarrow> nat \<Rightarrow> byte option" where
  "byte_at content i = (if i < length content then Some (content ! i) else None)"

lemma byte_at_pwrite_in:
  assumes "pos \<le> i" and "i < pos + length data"
  shows "byte_at (pwrite content pos data) i = Some (data ! (i - pos))"
proof -
  have at: "length p = pos \<Longrightarrow> byte_at (p @ data @ rest) i = Some (data ! (i - pos))" for p rest
    using assms by (auto simp: byte_at_def nth_append)
  have "data \<noteq> []" using assms by auto
  then show ?thesis
    using at [of "take pos (content @ replicate (pos - length content) 0)" "drop (pos + length data) content"]
    by (simp add: pwrite_def)
qed

lemma byte_at_pwrite_out:
  assumes "i < pos \<or> pos + length data \<le> i" and "i < length content"
  shows "byte_at (pwrite content pos data) i = byte_at content i"
  using assms by (auto simp: byte_at_def pwrite_def nth_append min_def)

lemma length_pwrite: "length content \<le> length (pwrite content pos data)"
  by (auto simp: pwrite_def)

lemma length_pwrite_inside: "pos + length data \<le> length content \<Longrightarrow> length (pwrite content pos data) = length content"
  by (auto simp: pwrite_def)

section \<open>The kinds\<close>

datatype writer_kind = Kind_Mmap | Kind_Pool | Kind_Null | Kind_Compio

definition ISIZE_MAX :: nat where
  "ISIZE_MAX = 2 ^ 63 - 1"

definition FILE_WRITER_QUEUE_SIZE :: nat where
  "FILE_WRITER_QUEUE_SIZE = 2048"

definition NULL_PATH :: rstr where
  "NULL_PATH = lit ''<null>''"

text \<open>\<open>MmapWriterBuilder::is_supported\<close>; the other backends support every size.\<close>

definition mmap_is_supported :: "u64 \<Rightarrow> bool" where
  "mmap_is_supported file_size \<longleftrightarrow> file_size \<le> ISIZE_MAX"

text \<open>The features of the build select one of three versions of the function.\<close>

definition suggest_kind_compio :: "u64 \<Rightarrow> writer_kind" where
  "suggest_kind_compio file_size = Kind_Compio"

definition suggest_kind_mmap :: "u64 \<Rightarrow> writer_kind" where
  "suggest_kind_mmap file_size = (if file_size \<le> ISIZE_MAX then Kind_Mmap else Kind_Pool)"

definition suggest_kind_plain :: "u64 \<Rightarrow> writer_kind" where
  "suggest_kind_plain file_size = Kind_Pool"

definition suggest_kind :: "bool \<Rightarrow> bool \<Rightarrow> u64 \<Rightarrow> writer_kind" where
  "suggest_kind compio mmap =
     (if compio then suggest_kind_compio else if mmap then suggest_kind_mmap else suggest_kind_plain)"

section \<open>Commands and replies\<close>

text \<open>
  A command carries how to report its result: to a call that awaits it, or to the completion channel.
  The number identifies the write.
\<close>

datatype write_reply = Reply_Awaited nat | Reply_Completion nat

datatype command = Cmd_Write write_chunk write_reply | Cmd_Finalize

text \<open>
  What becomes of a reply: told the result of the backend's write, dropped with its command, or not
  queued at all because the queue is closed.
\<close>

datatype reply_outcome = Told "io_error + unit" | Reply_Gone | Not_Queued

text \<open>
  What the submitter sees: the result of an awaited \<open>write_range\<close> of each backend, which differ in the
  path they name, or the guard's completion.
\<close>

definition awaited_write :: "rstr \<Rightarrow> write_chunk \<Rightarrow> reply_outcome \<Rightarrow> write_result" where
  "awaited_write path c out =
     (case out of
        Not_Queued \<Rightarrow> Inl (Write_Range_Failed Cmd_Send (Some c) path)
      | Reply_Gone \<Rightarrow> Inl (Write_Range_Failed Cmd_Recv (Some c) path)
      | Told (Inl e) \<Rightarrow> Inl (Write_Range_Failed (Cmd_Io e) (Some c) path)
      | Told (Inr u) \<Rightarrow> Inr u)"

definition pool_write_range :: "rstr \<Rightarrow> write_chunk \<Rightarrow> reply_outcome \<Rightarrow> write_result" where
  "pool_write_range path = awaited_write path"

definition mmap_write_range :: "rstr \<Rightarrow> write_chunk \<Rightarrow> reply_outcome \<Rightarrow> write_result" where
  "mmap_write_range path = awaited_write path"

definition compio_write_range :: "rstr \<Rightarrow> write_chunk \<Rightarrow> reply_outcome \<Rightarrow> write_result" where
  "compio_write_range path = awaited_write path"

definition null_write_range :: "write_chunk \<Rightarrow> reply_outcome \<Rightarrow> write_result" where
  "null_write_range = awaited_write NULL_PATH"

definition impl_write_range :: "writer_kind \<Rightarrow> rstr \<Rightarrow> write_chunk \<Rightarrow> reply_outcome \<Rightarrow> write_result" where
  "impl_write_range kind path =
     (case kind of
        Kind_Mmap \<Rightarrow> mmap_write_range path
      | Kind_Pool \<Rightarrow> pool_write_range path
      | Kind_Null \<Rightarrow> null_write_range
      | Kind_Compio \<Rightarrow> compio_write_range path)"

text \<open>The path the backend reports and submits under.\<close>

definition submission_path :: "writer_kind \<Rightarrow> rstr \<Rightarrow> rstr" where
  "submission_path kind path = (if kind = Kind_Null then NULL_PATH else path)"

definition completion_write :: "rstr \<Rightarrow> write_chunk \<Rightarrow> reply_outcome \<Rightarrow> write_result" where
  "completion_write path c out =
     (case out of
        Not_Queued \<Rightarrow> Inl (Write_Range_Failed (Cmd_Io queue_closed) (Some c) path)
      | Reply_Gone \<Rightarrow> Inl (Write_Range_Failed (Cmd_Io (lit ''write request dropped / panicked'')) (Some c) [])
      | Told (Inl e) \<Rightarrow> Inl (Write_Range_Failed (Cmd_Io e) (Some c) path)
      | Told (Inr u) \<Rightarrow> Inr u)"

definition reply_result :: "writer_kind \<Rightarrow> rstr \<Rightarrow> write_chunk \<Rightarrow> write_reply \<Rightarrow> reply_outcome \<Rightarrow> write_result" where
  "reply_result kind path c r out =
     (case r of
        Reply_Awaited _ \<Rightarrow> impl_write_range kind path c out
      | Reply_Completion _ \<Rightarrow> completion_write (submission_path kind path) c out)"

lemma reply_result_ok: "reply_result kind path c r out = Inr u \<longleftrightarrow> out = Told (Inr ())"
  by (auto simp: reply_result_def impl_write_range_def mmap_write_range_def pool_write_range_def
      null_write_range_def compio_write_range_def awaited_write_def completion_write_def
      split: write_reply.split writer_kind.split reply_outcome.split sum.split)

section \<open>The state of a backend\<close>

text \<open>
  A worker waits for a command, is in \<open>write_all_at\<close> with what is left of the buffer and its offset,
  waits for its tasks before it finalizes, or has exited. \<open>bk_tasks\<close> are the write tasks a compio
  worker has spawned. The finalize command is answered once, or dropped.
\<close>

datatype worker =
    Wk_Waiting
  | Wk_Writing write_chunk write_reply chunk nat
  | Wk_Finalizing
  | Wk_Exited

datatype finalize_ack = No_Ack | Acked "io_error + unit" | Ack_Gone

record backend =
  bk_kind :: writer_kind
  bk_file :: chunk
  bk_queue :: "command list"
  bk_closed :: bool
  bk_workers :: "worker list"
  bk_tasks :: "(write_chunk \<times> write_reply) list"
  bk_reports :: "(write_chunk \<times> write_reply \<times> reply_outcome) list"
  bk_ack :: finalize_ack

definition backend_new :: "writer_kind \<Rightarrow> nat \<Rightarrow> chunk \<Rightarrow> backend" where
  "backend_new kind parallel content =
     \<lparr>bk_kind = kind, bk_file = content, bk_queue = [], bk_closed = False,
      bk_workers = replicate parallel Wk_Waiting, bk_tasks = [], bk_reports = [], bk_ack = No_Ack\<rparr>"

definition report_write :: "backend \<Rightarrow> write_chunk \<Rightarrow> write_reply \<Rightarrow> reply_outcome \<Rightarrow> backend" where
  "report_write b c r out = b\<lparr>bk_reports := bk_reports b @ [(c, r, out)]\<rparr>"

section \<open>Submitting\<close>

text \<open>
  \<open>send\<close> waits while the queue is full (\<open>None\<close>); a closed queue hands the command back.
\<close>

definition backend_send :: "backend \<Rightarrow> write_chunk \<Rightarrow> write_reply \<Rightarrow> backend option" where
  "backend_send b c r =
     (if bk_closed b then Some (report_write b c r Not_Queued)
      else if length (bk_queue b) < FILE_WRITER_QUEUE_SIZE
      then Some (b\<lparr>bk_queue := bk_queue b @ [Cmd_Write c r]\<rparr>)
      else None)"

datatype submit_error = Submit_Full | Submit_Closed

definition try_submit :: "backend \<Rightarrow> write_chunk \<Rightarrow> write_reply \<Rightarrow> submit_error + backend" where
  "try_submit b c r =
     (if bk_closed b then Inl Submit_Closed
      else if length (bk_queue b) < FILE_WRITER_QUEUE_SIZE
      then Inr (b\<lparr>bk_queue := bk_queue b @ [Cmd_Write c r]\<rparr>)
      else Inl Submit_Full)"

text \<open>What \<open>dispatch_direct\<close> does with it, as the answer the pending writer is given.\<close>

definition submit_answer_of :: "submit_error + backend \<Rightarrow> bool \<Rightarrow> rstr \<Rightarrow> submit_answer" where
  "submit_answer_of res spawned path =
     (case res of
        Inr _ \<Rightarrow> Queue_Accepts
      | Inl Submit_Full \<Rightarrow> Queue_Is_Full spawned
      | Inl Submit_Closed \<Rightarrow> Queue_Is_Closed path)"

definition backend_finalize :: "backend \<Rightarrow> backend option" where
  "backend_finalize b =
     (if bk_closed b then Some (b\<lparr>bk_ack := Ack_Gone\<rparr>)
      else if length (bk_queue b) < FILE_WRITER_QUEUE_SIZE
      then Some (b\<lparr>bk_queue := bk_queue b @ [Cmd_Finalize]\<rparr>)
      else None)"

section \<open>The workers\<close>

definition drop_command :: "backend \<Rightarrow> command \<Rightarrow> backend" where
  "drop_command b cmd =
     (case cmd of
        Cmd_Write c r \<Rightarrow> report_write b c r Reply_Gone
      | Cmd_Finalize \<Rightarrow> b\<lparr>bk_ack := Ack_Gone\<rparr>)"

text \<open>\<open>CloseOnExit\<close>: an exiting worker closes the queue and drops what is left in it.\<close>

definition close_on_exit :: "backend \<Rightarrow> backend" where
  "close_on_exit b = foldl drop_command (b\<lparr>bk_closed := True, bk_queue := []\<rparr>) (bk_queue b)"

text \<open>A compio worker takes its runtime, and with it the unfinished write tasks, down.\<close>

definition worker_exit :: "backend \<Rightarrow> nat \<Rightarrow> backend" where
  "worker_exit b n =
     close_on_exit
       (foldl (\<lambda>b (c, r). report_write b c r Reply_Gone)
         (b\<lparr>bk_workers := (bk_workers b)[n := Wk_Exited], bk_tasks := []\<rparr>) (bk_tasks b))"

text \<open>
  A write through the mapping: slicing it out of its bounds and copying a slice of another length
  panic, which drops the reply and ends the worker.
\<close>

definition mmap_write :: "backend \<Rightarrow> nat \<Rightarrow> write_chunk \<Rightarrow> write_reply \<Rightarrow> backend" where
  "mmap_write b n c r =
     (if r_start (wc_range c) \<le> r_end (wc_range c) \<and> r_end (wc_range c) \<le> length (bk_file b)
         \<and> length (wc_data c) = r_end (wc_range c) - r_start (wc_range c)
      then report_write (b\<lparr>bk_file := pwrite (bk_file b) (r_start (wc_range c)) (wc_data c)\<rparr>) c r (Told (Inr ()))
      else worker_exit (report_write b c r Reply_Gone) n)"

text \<open>
  What a worker of each backend does with a command. A pool worker starts to write; a compio worker
  spawns a task; the mapping is flushed by the worker, which the pool leaves to its owner.
\<close>

definition pool_command :: "backend \<Rightarrow> nat \<Rightarrow> command \<Rightarrow> backend" where
  "pool_command b n cmd =
     (case cmd of
        Cmd_Write c r \<Rightarrow>
          b\<lparr>bk_workers := (bk_workers b)[n := Wk_Writing c r (wc_data c) (r_start (wc_range c))]\<rparr>
      | Cmd_Finalize \<Rightarrow> worker_exit (b\<lparr>bk_ack := Acked (Inr ())\<rparr>) n)"

definition mmap_command :: "backend \<Rightarrow> nat \<Rightarrow> command \<Rightarrow> io_error + unit \<Rightarrow> backend" where
  "mmap_command b n cmd flushed =
     (case cmd of
        Cmd_Write c r \<Rightarrow> mmap_write b n c r
      | Cmd_Finalize \<Rightarrow> worker_exit (b\<lparr>bk_ack := Acked flushed\<rparr>) n)"

definition null_command :: "backend \<Rightarrow> nat \<Rightarrow> command \<Rightarrow> backend" where
  "null_command b n cmd =
     (case cmd of
        Cmd_Write c r \<Rightarrow> report_write b c r (Told (Inr ()))
      | Cmd_Finalize \<Rightarrow> worker_exit (b\<lparr>bk_ack := Acked (Inr ())\<rparr>) n)"

definition compio_command :: "backend \<Rightarrow> nat \<Rightarrow> command \<Rightarrow> backend" where
  "compio_command b n cmd =
     (case cmd of
        Cmd_Write c r \<Rightarrow> b\<lparr>bk_tasks := bk_tasks b @ [(c, r)]\<rparr>
      | Cmd_Finalize \<Rightarrow> b\<lparr>bk_workers := (bk_workers b)[n := Wk_Finalizing]\<rparr>)"

lemmas worker_command_defs = pool_command_def mmap_command_def null_command_def compio_command_def

text \<open>\<open>recv\<close>: the next command, or an error once the queue is closed and empty, which ends the worker.\<close>

definition worker_recv :: "backend \<Rightarrow> nat \<Rightarrow> io_error + unit \<Rightarrow> backend option" where
  "worker_recv b n sync =
     (if n < length (bk_workers b) \<and> bk_workers b ! n = Wk_Waiting
      then
        (case bk_queue b of
           [] \<Rightarrow> if bk_closed b then Some (worker_exit b n) else None
         | cmd # rest \<Rightarrow>
             (let b = b\<lparr>bk_queue := rest\<rparr>
              in Some (case bk_kind b of
                         Kind_Pool \<Rightarrow> pool_command b n cmd
                       | Kind_Mmap \<Rightarrow> mmap_command b n cmd sync
                       | Kind_Null \<Rightarrow> null_command b n cmd
                       | Kind_Compio \<Rightarrow> compio_command b n cmd)))
      else None)"

text \<open>
  One turn of \<open>write_all_at\<close> of a pool worker. The operating system writes a prefix, is interrupted
  or fails; it never writes more than it was given.
\<close>

datatype os_write = Os_Wrote nat | Os_Interrupted | Os_Failed io_error

definition worker_done :: "backend \<Rightarrow> nat \<Rightarrow> write_chunk \<Rightarrow> write_reply \<Rightarrow> io_error + unit \<Rightarrow> backend" where
  "worker_done b n c r res =
     report_write (b\<lparr>bk_workers := (bk_workers b)[n := Wk_Waiting]\<rparr>) c r (Told res)"

definition write_all_turn :: "backend \<Rightarrow> nat \<Rightarrow> os_write \<Rightarrow> backend option" where
  "write_all_turn b n ans =
     (if n < length (bk_workers b)
      then
        (case bk_workers b ! n of
           Wk_Writing c r buf offset \<Rightarrow>
             (if buf = [] then Some (worker_done b n c r (Inr ()))
              else
                (case ans of
                   Os_Wrote k \<Rightarrow>
                     if k = 0 then Some (worker_done b n c r (Inl (lit ''failed to write whole buffer'')))
                     else if k \<le> length buf
                     then Some (b\<lparr>bk_file := pwrite (bk_file b) offset (take k buf),
                                  bk_workers := (bk_workers b)[n := Wk_Writing c r (drop k buf) (offset + k)]\<rparr>)
                     else None
                 | Os_Interrupted \<Rightarrow> Some b
                 | Os_Failed e \<Rightarrow> Some (worker_done b n c r (Inl e))))
         | _ \<Rightarrow> None)
      else None)"

text \<open>
  The \<open>i\<close>-th write task of a compio worker ends: \<open>write_all_at\<close> of the compio crate writes all, or a
  prefix of \<open>k\<close> bytes and fails.
\<close>

definition compio_task :: "backend \<Rightarrow> nat \<Rightarrow> nat \<times> io_error option \<Rightarrow> backend option" where
  "compio_task b i ans =
     (if i < length (bk_tasks b)
      then
        (case (bk_tasks b ! i, ans) of
           ((c, r), (k, err)) \<Rightarrow>
             (let data = (case err of None \<Rightarrow> wc_data c | Some _ \<Rightarrow> take k (wc_data c));
                  b = b\<lparr>bk_tasks := take i (bk_tasks b) @ drop (Suc i) (bk_tasks b),
                        bk_file := pwrite (bk_file b) (r_start (wc_range c)) data\<rparr>
              in Some (report_write b c r (Told (case err of None \<Rightarrow> Inr () | Some e \<Rightarrow> Inl e)))))
      else None)"

text \<open>A compio worker has waited for its tasks and syncs the file.\<close>

definition compio_sync :: "backend \<Rightarrow> nat \<Rightarrow> io_error + unit \<Rightarrow> backend option" where
  "compio_sync b n sync =
     (if n < length (bk_workers b) \<and> bk_workers b ! n = Wk_Finalizing \<and> bk_tasks b = []
      then Some (worker_exit (b\<lparr>bk_ack := Acked sync\<rparr>) n) else None)"

section \<open>Runs\<close>

datatype backend_event =
    Ev_Send write_chunk write_reply
  | Ev_Finalize
  | Ev_Drop_Sender
  | Ev_Recv nat "io_error + unit"
  | Ev_Write nat os_write
  | Ev_Task nat "nat \<times> io_error option"
  | Ev_Sync nat "io_error + unit"

text \<open>\<open>None\<close>: the event cannot happen in this state.\<close>

definition backend_step :: "backend \<Rightarrow> backend_event \<Rightarrow> backend option" where
  "backend_step b e =
     (case e of
        Ev_Send c r \<Rightarrow> backend_send b c r
      | Ev_Finalize \<Rightarrow> backend_finalize b
      | Ev_Drop_Sender \<Rightarrow> Some (b\<lparr>bk_closed := True\<rparr>)
      | Ev_Recv n sync \<Rightarrow> worker_recv b n sync
      | Ev_Write n ans \<Rightarrow> write_all_turn b n ans
      | Ev_Task i ans \<Rightarrow> compio_task b i ans
      | Ev_Sync n sync \<Rightarrow> compio_sync b n sync)"

fun backend_run :: "backend \<Rightarrow> backend_event list \<Rightarrow> backend option" where
  "backend_run b [] = Some b"
| "backend_run b (e # es) = Option.bind (backend_step b e) (\<lambda>b. backend_run b es)"

fun submitted :: "backend_event list \<Rightarrow> (write_chunk \<times> write_reply) list" where
  "submitted [] = []"
| "submitted (Ev_Send c r # es) = (c, r) # submitted es"
| "submitted (_ # es) = submitted es"

section \<open>Finalizing\<close>

text \<open>
  \<open>finalize_and_join\<close> once every worker has exited, and the finalizing of each kind. The null writer
  joins no worker. \<open>synced\<close> is what the pool's own sync after the join answers.
\<close>

definition finalize_error :: "rstr \<Rightarrow> command_error + unit \<Rightarrow> write_result" where
  "finalize_error path res = (case res of Inr u \<Rightarrow> Inr u | Inl e \<Rightarrow> Inl (Finalize_Failed e path))"

definition finalize_and_join :: "bool \<Rightarrow> rstr \<Rightarrow> finalize_ack \<Rightarrow> write_result" where
  "finalize_and_join sent path ack =
     finalize_error path
       (if \<not> sent then Inl Cmd_Send
        else (case ack of
                Acked (Inr u) \<Rightarrow> Inr u
              | Acked (Inl e) \<Rightarrow> Inl (Cmd_Io e)
              | _ \<Rightarrow> Inl Cmd_Recv))"

definition pool_finalize :: "bool \<Rightarrow> rstr \<Rightarrow> finalize_ack \<Rightarrow> io_error + unit \<Rightarrow> write_result" where
  "pool_finalize sent path ack synced =
     (let joined = finalize_and_join sent path ack;
          synced = finalize_error path (case synced of Inr u \<Rightarrow> Inr u | Inl e \<Rightarrow> Inl (Cmd_Io e))
      in case joined of Inl e \<Rightarrow> Inl e | Inr _ \<Rightarrow> synced)"

definition mmap_finalize :: "bool \<Rightarrow> rstr \<Rightarrow> finalize_ack \<Rightarrow> write_result" where
  "mmap_finalize sent path ack = finalize_and_join sent path ack"

definition compio_finalize :: "bool \<Rightarrow> rstr \<Rightarrow> finalize_ack \<Rightarrow> write_result" where
  "compio_finalize sent path ack = finalize_and_join sent path ack"

definition null_finalize :: "bool \<Rightarrow> finalize_ack \<Rightarrow> write_result" where
  "null_finalize sent ack =
     (if \<not> sent then Inl (Finalize_Failed Cmd_Send NULL_PATH)
      else (case ack of
              Acked (Inr u) \<Rightarrow> Inr u
            | Acked (Inl e) \<Rightarrow> Inl (Finalize_Failed (Cmd_Io e) NULL_PATH)
            | _ \<Rightarrow> Inl (Finalize_Failed Cmd_Recv NULL_PATH)))"

definition backend_finalized :: "writer_kind \<Rightarrow> bool \<Rightarrow> rstr \<Rightarrow> finalize_ack \<Rightarrow> io_error + unit \<Rightarrow> write_result" where
  "backend_finalized kind sent path ack synced =
     (case kind of
        Kind_Mmap \<Rightarrow> mmap_finalize sent path ack
      | Kind_Pool \<Rightarrow> pool_finalize sent path ack synced
      | Kind_Null \<Rightarrow> null_finalize sent ack
      | Kind_Compio \<Rightarrow> compio_finalize sent path ack)"

section \<open>Creating a backend\<close>

datatype writer_builder_error =
    Writer_Validation rstr
  | Range_Writer file_writer_error

text \<open>
  What creating a writer meets: the errors of opening and sizing the file and of cloning a handle, what
  a worker says when it starts (\<open>None\<close>: it ended without a word), and the available parallelism.
\<close>

record build_answers =
  ba_open :: "io_error option"
  ba_set_len :: "io_error option"
  ba_clone :: "nat \<Rightarrow> io_error option"
  ba_ready :: "nat \<Rightarrow> (io_error + unit) option"
  ba_parallelism :: usize

definition set_len :: "u64 \<Rightarrow> chunk \<Rightarrow> chunk" where
  "set_len n content = take n (content @ replicate (n - length content) 0)"

definition open_or_create :: "files \<Rightarrow> path \<Rightarrow> chunk" where
  "open_or_create fs p = (case fs p of Some c \<Rightarrow> c | None \<Rightarrow> [])"

definition open_file :: "build_answers \<Rightarrow> files \<Rightarrow> path \<Rightarrow> u64 \<Rightarrow> (file_writer_error + chunk) \<times> files" where
  "open_file env fs p n =
     (case ba_open env of
        Some e \<Rightarrow> (Inl (Open_Or_Create_File (Cmd_Io e) p), fs)
      | None \<Rightarrow>
         (let fs = fs(p \<mapsto> open_or_create fs p)
          in (case ba_set_len env of
                Some e \<Rightarrow> (Inl (Allocate_File (Cmd_Io e) n), fs)
              | None \<Rightarrow>
                 (let content = set_len n (open_or_create fs p)
                  in (Inr content, fs(p \<mapsto> content))))))"

definition FILE_NOT_SET :: rstr where
  "FILE_NOT_SET = lit ''file is not set''"

definition PATH_NOT_SET :: rstr where
  "PATH_NOT_SET = lit ''path is not set''"

text \<open>The builders. A missing file or path is refused; the parallelism is optional.\<close>

definition pool_build ::
  "build_answers \<Rightarrow> path \<Rightarrow> chunk option \<Rightarrow> usize option \<Rightarrow> writer_builder_error + backend" where
  "pool_build env p opened parallel =
     (case opened of
        None \<Rightarrow> Inl (Writer_Validation FILE_NOT_SET)
      | Some content \<Rightarrow>
         (let n = (case parallel of Some n \<Rightarrow> n | None \<Rightarrow> ba_parallelism env)
          in (case List.find (\<lambda>i. ba_clone env i \<noteq> None) [0..<n] of
                Some i \<Rightarrow> Inl (Range_Writer (Open_Or_Create_File (Cmd_Io (the (ba_clone env i))) p))
              | None \<Rightarrow> Inr (backend_new Kind_Pool n content))))"

definition worker_ready :: "path \<Rightarrow> (io_error + unit) option \<Rightarrow> file_writer_error + unit" where
  "worker_ready p answer =
     (case answer of
        None \<Rightarrow> Inl (Open_Or_Create_File Cmd_Recv p)
      | Some (Inl e) \<Rightarrow> Inl (Open_Or_Create_File (Cmd_Io e) p)
      | Some (Inr u) \<Rightarrow> Inr u)"

definition mmap_build :: "build_answers \<Rightarrow> path \<Rightarrow> chunk option \<Rightarrow> writer_builder_error + backend" where
  "mmap_build env p opened =
     (case opened of
        None \<Rightarrow> Inl (Writer_Validation FILE_NOT_SET)
      | Some content \<Rightarrow>
         (case ba_clone env 0 of
            Some e \<Rightarrow> Inl (Range_Writer (Open_Or_Create_File (Cmd_Io e) p))
          | None \<Rightarrow>
             (case worker_ready p (ba_ready env 0) of
                Inl e \<Rightarrow> Inl (Range_Writer e)
              | Inr _ \<Rightarrow> Inr (backend_new Kind_Mmap 1 content))))"

definition null_build :: "build_answers \<Rightarrow> usize option \<Rightarrow> writer_builder_error + backend" where
  "null_build env parallel =
     (let n = (case parallel of Some n \<Rightarrow> n | None \<Rightarrow> 1)
      in (case List.find (\<lambda>i. worker_ready NULL_PATH (ba_ready env i) \<noteq> Inr ()) [0..<n] of
            Some i \<Rightarrow>
              (case worker_ready NULL_PATH (ba_ready env i) of
                 Inl e \<Rightarrow> Inl (Range_Writer e) | Inr _ \<Rightarrow> Inr (backend_new Kind_Null n []))
          | None \<Rightarrow> Inr (backend_new Kind_Null n [])))"

text \<open>The compio worker opens the file itself: its length is left as it is.\<close>

definition compio_build ::
  "build_answers \<Rightarrow> files \<Rightarrow> path option \<Rightarrow> (writer_builder_error + backend) \<times> files" where
  "compio_build env fs path =
     (case path of
        None \<Rightarrow> (Inl (Writer_Validation PATH_NOT_SET), fs)
      | Some p \<Rightarrow>
         (case ba_open env of
            Some e \<Rightarrow> (Inl (Range_Writer (Open_Or_Create_File (Cmd_Io e) p)), fs)
          | None \<Rightarrow>
             (case worker_ready p (ba_ready env 0) of
                Inl e \<Rightarrow> (Inl (Range_Writer e), fs)
              | Inr _ \<Rightarrow>
                  (Inr (backend_new Kind_Compio 1 (open_or_create fs p)), fs(p \<mapsto> open_or_create fs p)))))"

definition new_with_kind ::
  "build_answers \<Rightarrow> files \<Rightarrow> path \<Rightarrow> u64 \<Rightarrow> writer_kind \<Rightarrow> (writer_builder_error + backend) \<times> files" where
  "new_with_kind env fs p n kind =
     (case kind of
        Kind_Mmap \<Rightarrow>
          (case open_file env fs p n of
             (Inl e, fs) \<Rightarrow> (Inl (Range_Writer e), fs)
           | (Inr content, fs) \<Rightarrow> (mmap_build env p (Some content), fs))
      | Kind_Pool \<Rightarrow>
          (case open_file env fs p n of
             (Inl e, fs) \<Rightarrow> (Inl (Range_Writer e), fs)
           | (Inr content, fs) \<Rightarrow> (pool_build env p (Some content) None, fs))
      | Kind_Null \<Rightarrow> (null_build env None, fs)
      | Kind_Compio \<Rightarrow> compio_build env fs (Some p))"

definition file_writer_new ::
  "bool \<Rightarrow> bool \<Rightarrow> build_answers \<Rightarrow> files \<Rightarrow> path \<Rightarrow> u64 \<Rightarrow> (writer_builder_error + backend) \<times> files" where
  "file_writer_new compio mmap env fs p n = new_with_kind env fs p n (suggest_kind compio mmap n)"

text \<open>The pool and the mapping start with a file of the announced size, whatever was there before.\<close>

lemma length_set_len [simp]: "length (set_len n content) = n"
  by (simp add: set_len_def)

lemma sized_backend:
  assumes "new_with_kind env fs p n kind = (Inr b, fs')" and "kind = Kind_Mmap \<or> kind = Kind_Pool"
  shows "length (bk_file b) = n \<and> fs' p = Some (bk_file b)"
  using assms
  by (auto simp: new_with_kind_def open_file_def mmap_build_def pool_build_def backend_new_def Let_def
      split: option.splits sum.splits)

text \<open>
  The compio backend does not set the length: a longer file that an earlier attempt left behind keeps
  its tail, which then belongs to the file that is committed.
\<close>

lemma compio_keeps_stale_tail:
  "ba_open env = None \<Longrightarrow> ba_ready env 0 = Some (Inr ()) \<Longrightarrow> fs p = Some stale \<Longrightarrow>
   new_with_kind env fs p n Kind_Compio = (Inr (backend_new Kind_Compio 1 stale), fs(p \<mapsto> stale))"
  by (simp add: new_with_kind_def compio_build_def worker_ready_def open_or_create_def)

end
