(* ===== verification/Writer_Backend_Props.thy ===== *)
theory Writer_Backend_Props
  imports Writer_Backend
begin

text \<open>
  A backend reports a write as done only when its bytes are in the file, under every interleaving of
  the submitters and the workers, and loses no write. The proof follows how far each write has got.
\<close>

section \<open>How far the writes are\<close>

definition write_area :: "write_chunk \<Rightarrow> nat set" where
  "write_area c = {r_start (wc_range c)..<r_start (wc_range c) + length (wc_data c)}"

definition disjoint_writes :: "(write_chunk \<times> write_reply) list \<Rightarrow> bool" where
  "disjoint_writes ws \<longleftrightarrow> sorted_wrt (\<lambda>x y. write_area (fst x) \<inter> write_area (fst y) = {}) ws"

text \<open>The first \<open>k\<close> bytes of a write are in the file.\<close>

definition prefix_written :: "chunk \<Rightarrow> write_chunk \<Rightarrow> nat \<Rightarrow> bool" where
  "prefix_written f c k \<longleftrightarrow> (\<forall>i<k. byte_at f (r_start (wc_range c) + i) = Some (wc_data c ! i))"

lemma prefix_written_0 [simp]: "prefix_written f c 0"
  by (simp add: prefix_written_def)

lemma prefix_written_less: "prefix_written f c k \<Longrightarrow> j \<le> k \<Longrightarrow> prefix_written f c j"
  by (simp add: prefix_written_def)

lemma prefix_written_more:
  assumes "prefix_written f c j" and "j + m \<le> length (wc_data c)"
  shows "prefix_written (pwrite f (r_start (wc_range c) + j) (take m (drop j (wc_data c)))) c (j + m)"
  unfolding prefix_written_def
proof (intro allI impI)
  fix i assume i: "i < j + m"
  let ?d = "take m (drop j (wc_data c))" and ?s = "r_start (wc_range c)"
  have d: "length ?d = m" using assms(2) by simp
  show "byte_at (pwrite f (?s + j) ?d) (?s + i) = Some (wc_data c ! i)"
  proof (cases "i < j")
    case True
    then have "byte_at f (?s + i) = Some (wc_data c ! i)" using assms(1) by (simp add: prefix_written_def)
    then show ?thesis using byte_at_pwrite_out [of "?s + i" "?s + j" ?d f] True
      by (simp add: byte_at_def split: if_splits)
  next
    case False
    then show ?thesis using byte_at_pwrite_in [of "?s + j" "?s + i" ?d f] i d assms(2) by simp
  qed
qed

lemma prefix_written_other:
  assumes "prefix_written f d k" and "k \<le> length (wc_data d)" and "write_area c \<inter> write_area d = {}"
    and "j + m \<le> length (wc_data c)"
  shows "prefix_written (pwrite f (r_start (wc_range c) + j) (take m (drop j (wc_data c)))) d k"
  unfolding prefix_written_def
proof (intro allI impI)
  fix i assume i: "i < k"
  let ?x = "take m (drop j (wc_data c))" and ?s = "r_start (wc_range c)" and ?i = "r_start (wc_range d) + i"
  have x: "length ?x = m" using assms(4) by simp
  have b: "byte_at f ?i = Some (wc_data d ! i)" using assms(1) i by (simp add: prefix_written_def)
  have "?i \<in> write_area d" using i assms(2) by (simp add: write_area_def)
  then have "?i \<notin> write_area c" using assms(3) by blast
  then have "?i < ?s + j \<or> ?s + j + length ?x \<le> ?i" using assms(4) x by (auto simp: write_area_def)
  then have "byte_at (pwrite f (?s + j) ?x) ?i = byte_at f ?i"
    using b by (intro byte_at_pwrite_out) (auto simp: byte_at_def split: if_splits)
  then show "byte_at (pwrite f (?s + j) ?x) ?i = Some (wc_data d ! i)" using b by simp
qed

lemma disjoint_pair:
  assumes "disjoint_writes ws" and "{#x, y#} \<subseteq># mset ws"
  shows "write_area (fst x) \<inter> write_area (fst y) = {}"
  using assms
proof (induction ws)
  case (Cons w ws)
  have ih: "disjoint_writes ws" "\<forall>z \<in> set ws. write_area (fst w) \<inter> write_area (fst z) = {}"
    using Cons.prems(1) by (auto simp: disjoint_writes_def)
  consider "x = w" | "y = w" | "x \<noteq> w" "y \<noteq> w" by blast
  then show ?case
  proof cases
    case 1
    then have "y \<in> set ws" using Cons.prems(2) by (auto simp: mset_subset_eq_insertD)
    then show ?thesis using ih(2) 1 by blast
  next
    case 2
    then have "x \<in> set ws" using Cons.prems(2) by (auto simp: mset_subset_eq_insertD add_mset_commute)
    then show ?thesis using ih(2) 2 by blast
  next
    case 3
    have "{#x, y#} \<subseteq># mset ws"
    proof (rule mset_subset_eqI)
      fix a
      show "count {#x, y#} a \<le> count (mset ws) a"
        using mset_subset_eq_count [OF Cons.prems(2), of a] 3 by (cases "a = w") auto
    qed
    then show ?thesis using Cons.IH ih(1) by blast
  qed
qed simp

text \<open>Every write that was submitted, with the number of its bytes that are in the file.\<close>

type_synonym write_progress = "write_chunk \<times> write_reply \<times> nat"

abbreviation the_write :: "write_progress \<Rightarrow> write_chunk \<times> write_reply" where
  "the_write \<equiv> \<lambda>(c, r, _). (c, r)"

fun command_progress :: "command \<Rightarrow> write_progress list" where
  "command_progress (Cmd_Write c r) = [(c, r, 0)]"
| "command_progress Cmd_Finalize = []"

fun worker_progress :: "worker \<Rightarrow> write_progress list" where
  "worker_progress (Wk_Writing c r buf offset) = [(c, r, offset - r_start (wc_range c))]"
| "worker_progress _ = []"

fun report_progress :: "write_chunk \<times> write_reply \<times> reply_outcome \<Rightarrow> write_progress" where
  "report_progress (c, r, Told (Inr _)) = (c, r, length (wc_data c))"
| "report_progress (c, r, _) = (c, r, 0)"

definition writes_progress :: "backend \<Rightarrow> write_progress multiset" where
  "writes_progress b =
     mset (concat (map command_progress (bk_queue b))) + mset (concat (map worker_progress (bk_workers b)))
     + mset (map (\<lambda>(c, r). (c, r, 0)) (bk_tasks b)) + mset (map report_progress (bk_reports b))"

text \<open>Outside the submitted writes nothing changes, and the file does not grow past them.\<close>

definition outside_kept :: "chunk \<Rightarrow> (write_chunk \<times> write_reply) list \<Rightarrow> chunk \<Rightarrow> bool" where
  "outside_kept content ws f \<longleftrightarrow>
     (\<forall>i<length content. i \<notin> (\<Union>x \<in> set ws. write_area (fst x)) \<longrightarrow> byte_at f i = Some (content ! i))
     \<and> (\<forall>n\<ge>length content. (\<forall>x \<in> set ws. write_area (fst x) \<subseteq> {..<n}) \<longrightarrow> length f \<le> n)"

definition writes_ok ::
  "writer_kind \<Rightarrow> chunk \<Rightarrow> (write_chunk \<times> write_reply) list \<Rightarrow> chunk \<Rightarrow> write_progress multiset \<Rightarrow> bool" where
  "writes_ok kind content ws f P \<longleftrightarrow>
     image_mset the_write P = mset ws
     \<and> (kind \<noteq> Kind_Null \<and> disjoint_writes ws \<longrightarrow>
          (\<forall>(c, r, k) \<in># P. k \<le> length (wc_data c) \<and> prefix_written f c k) \<and> outside_kept content ws f)"

text \<open>A write is submitted; a write gets further, or is given up.\<close>

lemma writes_ok_submit:
  assumes "writes_ok kind content ws f P"
  shows "writes_ok kind content (ws @ [(c, r)]) f (add_mset (c, r, 0) P)"
  using assms
  by (auto simp: writes_ok_def disjoint_writes_def sorted_wrt_append outside_kept_def)

lemma ivl_below:
  assumes "{a..<a + m} \<subseteq> {..<n}"
  shows "a + m \<le> n \<or> m = (0::nat)"
proof (cases m)
  case (Suc j)
  then have "a + j \<in> {a..<a + m}" by simp
  then have "a + j < n" using assms by blast
  then show ?thesis using Suc by simp
qed simp

lemma writes_ok_move:
  assumes ok: "writes_ok kind content ws f P" and P: "P = add_mset (c, r, j) Q"
    and m: "kind \<noteq> Kind_Null \<longrightarrow> j + m \<le> length (wc_data c) \<and> k \<le> j + m
      \<and> f' = pwrite f (r_start (wc_range c) + j) (take m (drop j (wc_data c)))"
  shows "writes_ok kind content ws f' (add_mset (c, r, k) Q)"
proof -
  have e: "image_mset the_write (add_mset (c, r, k) Q) = mset ws" using ok P by (simp add: writes_ok_def)
  have "(\<forall>(d, r', n) \<in># add_mset (c, r, k) Q. n \<le> length (wc_data d) \<and> prefix_written f' d n)
      \<and> outside_kept content ws f'"
    if kind: "kind \<noteq> Kind_Null" and dis: "disjoint_writes ws"
  proof -
    have old: "\<forall>(d, r', n) \<in># P. n \<le> length (wc_data d) \<and> prefix_written f d n" "outside_kept content ws f"
      using ok kind dis by (simp_all add: writes_ok_def)
    have f': "f' = pwrite f (r_start (wc_range c) + j) (take m (drop j (wc_data c)))"
      and jm: "j + m \<le> length (wc_data c)" "k \<le> j + m" using m kind by auto
    have "prefix_written f' c k"
      using prefix_written_less [OF prefix_written_more [OF _ jm(1)] jm(2)] old(1) P f' by auto
    moreover have "n \<le> length (wc_data d) \<and> prefix_written f' d n" if q: "(d, r', n) \<in># Q" for d r' n
    proof -
      have n: "n \<le> length (wc_data d)" "prefix_written f d n" using old(1) P q by auto
      obtain Q' where Q': "Q = add_mset (d, r', n) Q'" using q by (metis mset_add)
      have "{#(c, r), (d, r')#} \<subseteq># mset ws" unfolding e [symmetric] Q' by simp
      then have "write_area c \<inter> write_area d = {}" using disjoint_pair [OF dis] by fastforce
      then show ?thesis using prefix_written_other [OF n(2,1) _ jm(1)] n(1) f' by simp
    qed
    moreover have "outside_kept content ws f'"
    proof -
      have "(c, r) \<in># mset ws" using e by (metis add_mset_remove_trivial_eq case_prod_conv image_mset_add_mset union_single_eq_member)
      then have area: "(c, r) \<in> set ws" by simp
      have "byte_at f' i = Some (content ! i)"
        if i: "i < length content" "i \<notin> (\<Union>x \<in> set ws. write_area (fst x))" for i
      proof -
        have b: "byte_at f i = Some (content ! i)" using old(2) i by (simp add: outside_kept_def)
        have "i \<notin> write_area c" using i(2) area by fastforce
        then have "i < r_start (wc_range c) + j \<or> r_start (wc_range c) + j + length (take m (drop j (wc_data c))) \<le> i"
          using jm(1) by (auto simp: write_area_def)
        then have "byte_at f' i = byte_at f i"
          unfolding f' using b by (intro byte_at_pwrite_out) (auto simp: byte_at_def split: if_splits)
        then show ?thesis using b by simp
      qed
      moreover have "length f' \<le> n" if n: "length content \<le> n" "\<forall>x \<in> set ws. write_area (fst x) \<subseteq> {..<n}" for n
      proof -
        have "length f \<le> n" using old(2) n by (simp add: outside_kept_def)
        moreover have "r_start (wc_range c) + length (wc_data c) \<le> n \<or> length (wc_data c) = 0"
          by (rule ivl_below) (use bspec [OF n(2) area] in \<open>simp add: write_area_def\<close>)
        ultimately show ?thesis unfolding f' using jm(1) by (auto simp: pwrite_def)
      qed
      ultimately show ?thesis unfolding outside_kept_def by blast
    qed
    ultimately show ?thesis using jm by auto
  qed
  then show ?thesis using e by (simp add: writes_ok_def)
qed

lemma writes_ok_drop:
  assumes "writes_ok kind content ws f (add_mset (c, r, j) Q)"
  shows "writes_ok kind content ws f (add_mset (c, r, 0) Q)"
  using assms by (auto simp: writes_ok_def)

section \<open>The invariant of a run\<close>

definition worker_ok :: "worker \<Rightarrow> bool" where
  "worker_ok w \<longleftrightarrow>
     (case w of
        Wk_Writing c r buf offset \<Rightarrow>
          (\<exists>k \<le> length (wc_data c). offset = r_start (wc_range c) + k \<and> buf = drop k (wc_data c))
      | _ \<Rightarrow> True)"

definition backend_inv :: "writer_kind \<Rightarrow> chunk \<Rightarrow> (write_chunk \<times> write_reply) list \<Rightarrow> backend \<Rightarrow> bool" where
  "backend_inv kind content ws b \<longleftrightarrow>
     bk_kind b = kind \<and> writes_ok kind content ws (bk_file b) (writes_progress b)
     \<and> list_all worker_ok (bk_workers b)
     \<and> (Wk_Exited \<in> set (bk_workers b) \<longrightarrow> bk_closed b \<and> bk_queue b = [] \<and> bk_tasks b = [])"

lemma mset_concat_update:
  assumes "n < length ws"
  shows "mset (concat (map f (ws[n := w]))) + mset (f (ws ! n)) = mset (concat (map f ws)) + mset (f w)"
  using assms
proof (induction ws arbitrary: n)
  case (Cons x xs)
  show ?case
  proof (cases n)
    case (Suc m)
    then have "mset (concat (map f (xs[m := w]))) + mset (f (xs ! m)) = mset (concat (map f xs)) + mset (f w)"
      using Cons by simp
    then show ?thesis using Suc by (simp add: ac_simps)
  qed simp
qed simp

lemma worker_progress_update:
  assumes "n < length ws"
  shows "worker_progress (ws ! n) = [] \<Longrightarrow>
      mset (concat (map worker_progress (ws[n := w]))) = mset (concat (map worker_progress ws)) + mset (worker_progress w)"
    and "worker_progress (ws ! n) = [p] \<Longrightarrow>
      \<exists>Q. mset (concat (map worker_progress ws)) = add_mset p Q
        \<and> mset (concat (map worker_progress (ws[n := w]))) = Q + mset (worker_progress w)"
proof -
  note u = mset_concat_update [OF assms, of worker_progress w]
  show "worker_progress (ws ! n) = [] \<Longrightarrow>
      mset (concat (map worker_progress (ws[n := w]))) = mset (concat (map worker_progress ws)) + mset (worker_progress w)"
    using u by simp
  assume p: "worker_progress (ws ! n) = [p]"
  have "p \<in># mset (concat (map worker_progress ws))"
    using p nth_mem [OF assms] by (auto intro!: bexI [of _ "ws ! n"])
  then obtain Q where Q: "mset (concat (map worker_progress ws)) = add_mset p Q" by (metis mset_add)
  then have "mset (concat (map worker_progress (ws[n := w]))) = Q + mset (worker_progress w)"
    using u p by simp
  then show "\<exists>Q. mset (concat (map worker_progress ws)) = add_mset p Q
        \<and> mset (concat (map worker_progress (ws[n := w]))) = Q + mset (worker_progress w)" using Q by blast
qed

lemma report_write_fields [simp]:
  "bk_kind (report_write b c r out) = bk_kind b" "bk_file (report_write b c r out) = bk_file b"
  "bk_queue (report_write b c r out) = bk_queue b" "bk_closed (report_write b c r out) = bk_closed b"
  "bk_workers (report_write b c r out) = bk_workers b" "bk_tasks (report_write b c r out) = bk_tasks b"
  by (simp_all add: report_write_def)

lemma report_write_progress [simp]:
  "writes_progress (report_write b c r out) = add_mset (report_progress (c, r, out)) (writes_progress b)"
  by (simp add: writes_progress_def report_write_def)

lemma ack_progress [simp]:
  "writes_progress (b\<lparr>bk_ack := a\<rparr>) = writes_progress b"
  "writes_progress (b\<lparr>bk_closed := x\<rparr>) = writes_progress b"
  by (simp_all add: writes_progress_def)

text \<open>What dropping commands or tasks leaves of a backend: nothing but its reports changes.\<close>

definition same_but_reports :: "backend \<Rightarrow> backend \<Rightarrow> bool" where
  "same_but_reports b b' \<longleftrightarrow>
     bk_kind b' = bk_kind b \<and> bk_file b' = bk_file b \<and> bk_queue b' = bk_queue b \<and> bk_closed b' = bk_closed b
     \<and> bk_workers b' = bk_workers b \<and> bk_tasks b' = bk_tasks b"

lemma same_but_reports_trans: "same_but_reports a b \<Longrightarrow> same_but_reports b c \<Longrightarrow> same_but_reports a c"
  by (simp add: same_but_reports_def)

lemma drop_command_one:
  "same_but_reports b (drop_command b cmd)
   \<and> writes_progress (drop_command b cmd) = writes_progress b + mset (command_progress cmd)"
  by (cases cmd) (simp_all add: drop_command_def same_but_reports_def)

lemma drop_commands:
  "same_but_reports b (foldl drop_command b cmds)
   \<and> writes_progress (foldl drop_command b cmds) = writes_progress b + mset (concat (map command_progress cmds))"
proof (induction cmds arbitrary: b)
  case (Cons cmd cmds)
  then show ?case using drop_command_one [of b cmd] same_but_reports_trans by fastforce
qed (simp add: same_but_reports_def)

lemma drop_tasks:
  "same_but_reports b (foldl (\<lambda>b (c, r). report_write b c r Reply_Gone) b ts)
   \<and> writes_progress (foldl (\<lambda>b (c, r). report_write b c r Reply_Gone) b ts) =
       writes_progress b + mset (map (\<lambda>(c, r). (c, r, 0)) ts)"
proof (induction ts arbitrary: b)
  case (Cons t ts)
  obtain c r where t: "t = (c, r)" by fastforce
  have "same_but_reports b (report_write b c r Reply_Gone)" by (simp add: same_but_reports_def)
  then show ?case using Cons [of "report_write b c r Reply_Gone"] same_but_reports_trans t by fastforce
qed (simp add: same_but_reports_def)

lemma close_on_exit_fields:
  "bk_kind (close_on_exit b) = bk_kind b \<and> bk_file (close_on_exit b) = bk_file b \<and> bk_queue (close_on_exit b) = []
   \<and> bk_closed (close_on_exit b) \<and> bk_workers (close_on_exit b) = bk_workers b \<and> bk_tasks (close_on_exit b) = bk_tasks b
   \<and> writes_progress (close_on_exit b) = writes_progress b"
  using drop_commands [of "b\<lparr>bk_closed := True, bk_queue := []\<rparr>" "bk_queue b"]
  by (simp add: close_on_exit_def same_but_reports_def) (simp add: writes_progress_def)

lemma worker_exit_fields:
  assumes n: "n < length (bk_workers b)" "worker_progress (bk_workers b ! n) = []"
  shows "bk_kind (worker_exit b n) = bk_kind b \<and> bk_file (worker_exit b n) = bk_file b
    \<and> bk_queue (worker_exit b n) = [] \<and> bk_closed (worker_exit b n)
    \<and> bk_workers (worker_exit b n) = (bk_workers b)[n := Wk_Exited] \<and> bk_tasks (worker_exit b n) = []
    \<and> writes_progress (worker_exit b n) = writes_progress b"
proof -
  let ?b = "b\<lparr>bk_workers := (bk_workers b)[n := Wk_Exited], bk_tasks := []\<rparr>"
  obtain t where t: "t = foldl (\<lambda>b (c, r). report_write b c r Reply_Gone) ?b (bk_tasks b)" by simp
  have s: "same_but_reports ?b t"
    and p: "writes_progress t = writes_progress ?b + mset (map (\<lambda>(c, r). (c, r, 0)) (bk_tasks b))"
    unfolding t using drop_tasks by blast+
  have "writes_progress t = writes_progress b"
    using p worker_progress_update(1) [OF n, of Wk_Exited] by (simp add: writes_progress_def)
  moreover have "worker_exit b n = close_on_exit t" by (simp add: worker_exit_def t)
  ultimately show ?thesis using close_on_exit_fields [of t] s by (simp add: same_but_reports_def)
qed

lemma worker_exit_inv:
  assumes ok: "writes_ok kind content ws (bk_file b) (writes_progress b)" and kind: "bk_kind b = kind"
    and workers: "list_all worker_ok (bk_workers b)"
    and n: "n < length (bk_workers b)" "worker_progress (bk_workers b ! n) = []"
  shows "backend_inv kind content ws (worker_exit b n)"
proof -
  have "list_all worker_ok ((bk_workers b)[n := Wk_Exited])"
    using workers set_update_subset_insert [of "bk_workers b" n Wk_Exited]
    by (auto simp: list_all_iff worker_ok_def)
  then show ?thesis using worker_exit_fields [OF n] ok kind by (simp add: backend_inv_def)
qed

section \<open>Every event keeps it\<close>

lemma backend_send_inv:
  assumes inv: "backend_inv kind content ws b" and s: "backend_send b c r = Some b'"
  shows "backend_inv kind content (ws @ [(c, r)]) b'"
proof -
  have "writes_progress (b\<lparr>bk_queue := bk_queue b @ [Cmd_Write c r]\<rparr>) = add_mset (c, r, 0) (writes_progress b)"
    by (simp add: writes_progress_def)
  moreover have "writes_ok kind content (ws @ [(c, r)]) (bk_file b) (add_mset (c, r, 0) (writes_progress b))"
    using writes_ok_submit inv by (simp add: backend_inv_def)
  ultimately show ?thesis
    using s inv by (auto simp: backend_send_def backend_inv_def split: if_splits)
qed

lemma backend_finalize_inv:
  assumes "backend_inv kind content ws b" and "backend_finalize b = Some b'"
  shows "backend_inv kind content ws b'"
proof -
  have "writes_progress (b\<lparr>bk_queue := bk_queue b @ [Cmd_Finalize]\<rparr>) = writes_progress b"
    by (simp add: writes_progress_def)
  then show ?thesis
    using assms by (auto simp: backend_finalize_def backend_inv_def split: if_splits)
qed

text \<open>A worker takes a write: it is no longer in the queue, and so far nothing of it is in the file.\<close>

lemma taken_write:
  assumes "bk_queue b = Cmd_Write c r # rest"
  shows "writes_progress b = add_mset (c, r, 0) (writes_progress (b\<lparr>bk_queue := rest\<rparr>))"
  using assms by (simp add: writes_progress_def)

lemma mmap_write_inv:
  assumes ok: "writes_ok kind content ws (bk_file b) (add_mset (c, r, 0) (writes_progress b))"
    and b: "bk_kind b = kind" "list_all worker_ok (bk_workers b)" "Wk_Exited \<notin> set (bk_workers b)"
    and n: "n < length (bk_workers b)" "worker_progress (bk_workers b ! n) = []"
  shows "backend_inv kind content ws (mmap_write b n c r)"
proof (cases "r_start (wc_range c) \<le> r_end (wc_range c) \<and> r_end (wc_range c) \<le> length (bk_file b)
    \<and> length (wc_data c) = r_end (wc_range c) - r_start (wc_range c)")
  case True
  let ?f = "pwrite (bk_file b) (r_start (wc_range c)) (wc_data c)"
  have "writes_ok kind content ws ?f (add_mset (c, r, length (wc_data c)) (writes_progress b))"
    by (rule writes_ok_move [OF ok refl, where m = "length (wc_data c)"]) simp
  moreover have "writes_progress (b\<lparr>bk_file := ?f\<rparr>) = writes_progress b" by (simp add: writes_progress_def)
  ultimately show ?thesis using True b by (simp add: mmap_write_def backend_inv_def)
next
  case False
  have "backend_inv kind content ws (worker_exit (report_write b c r Reply_Gone) n)"
    by (rule worker_exit_inv) (use ok b n in simp_all)
  then show ?thesis unfolding mmap_write_def if_not_P [OF False] .
qed

lemma recv_write_inv:
  assumes inv: "backend_inv kind content ws b" and q: "bk_queue b = Cmd_Write c r # rest"
    and n: "n < length (bk_workers b)" "bk_workers b ! n = Wk_Waiting" and s: "worker_recv b n sync = Some b'"
  shows "backend_inv kind content ws b'"
proof -
  let ?b = "b\<lparr>bk_queue := rest\<rparr>"
  have i: "bk_kind b = kind" "writes_ok kind content ws (bk_file b) (add_mset (c, r, 0) (writes_progress ?b))"
    "list_all worker_ok (bk_workers b)" "Wk_Exited \<notin> set (bk_workers b)"
    using inv taken_write [OF q] q by (auto simp: backend_inv_def)
  have w: "worker_progress (bk_workers b ! n) = []" using n by simp
  show ?thesis
  proof (cases kind)
    case Kind_Mmap
    then show ?thesis using s n q i mmap_write_inv [of kind content ws ?b c r n] w
      by (simp add: worker_recv_def worker_command_defs)
  next
    case Kind_Pool
    let ?w = "Wk_Writing c r (wc_data c) (r_start (wc_range c))"
    have b': "b' = ?b\<lparr>bk_workers := (bk_workers b)[n := ?w]\<rparr>" using s n q i Kind_Pool by (simp add: worker_recv_def worker_command_defs)
    have "writes_progress b' = add_mset (c, r, 0) (writes_progress ?b)"
      using worker_progress_update(1) [OF n(1) w, of ?w] by (simp add: b' writes_progress_def)
    moreover have "set ((bk_workers b)[n := ?w]) \<subseteq> insert ?w (set (bk_workers b))" by (rule set_update_subset_insert)
    ultimately show ?thesis using i b' by (auto simp: backend_inv_def worker_ok_def list_all_iff)
  next
    case Kind_Null
    then have "writes_ok kind content ws (bk_file b) (add_mset (c, r, length (wc_data c)) (writes_progress ?b))"
      using writes_ok_move [OF i(2) refl] by simp
    then show ?thesis using s n q i Kind_Null by (auto simp: worker_recv_def worker_command_defs backend_inv_def)
  next
    case Kind_Compio
    then have b': "b' = ?b\<lparr>bk_tasks := bk_tasks b @ [(c, r)]\<rparr>" using s n q i by (simp add: worker_recv_def worker_command_defs)
    have "writes_progress b' = add_mset (c, r, 0) (writes_progress ?b)" by (simp add: b' writes_progress_def)
    then show ?thesis using i b' by (simp add: backend_inv_def)
  qed
qed

lemma recv_finalize_inv:
  assumes inv: "backend_inv kind content ws b" and q: "bk_queue b = Cmd_Finalize # rest"
    and n: "n < length (bk_workers b)" "bk_workers b ! n = Wk_Waiting" and s: "worker_recv b n sync = Some b'"
  shows "backend_inv kind content ws b'"
proof -
  let ?b = "b\<lparr>bk_queue := rest\<rparr>"
  have p: "writes_progress ?b = writes_progress b" using q by (simp add: writes_progress_def)
  have i: "bk_kind b = kind" "writes_ok kind content ws (bk_file b) (writes_progress ?b)"
    "list_all worker_ok (bk_workers b)" "Wk_Exited \<notin> set (bk_workers b)"
    using inv p q by (auto simp: backend_inv_def)
  have w: "worker_progress (bk_workers b ! n) = []" using n by simp
  have out: "backend_inv kind content ws (worker_exit (?b\<lparr>bk_ack := a\<rparr>) n)" for a
    by (rule worker_exit_inv) (use i w n in simp_all)
  show ?thesis
  proof (cases "kind = Kind_Compio")
    case True
    then have b': "b' = ?b\<lparr>bk_workers := (bk_workers b)[n := Wk_Finalizing]\<rparr>"
      using s n q i by (simp add: worker_recv_def worker_command_defs)
    have "writes_progress b' = writes_progress ?b"
      using worker_progress_update(1) [OF n(1) w, of Wk_Finalizing] by (simp add: b' writes_progress_def)
    moreover have "set ((bk_workers b)[n := Wk_Finalizing]) \<subseteq> insert Wk_Finalizing (set (bk_workers b))"
      by (rule set_update_subset_insert)
    ultimately show ?thesis using i b' by (auto simp: backend_inv_def worker_ok_def list_all_iff)
  next
    case False
    then show ?thesis using s n q i(1) out by (cases kind) (auto simp: worker_recv_def worker_command_defs)
  qed
qed

lemma recv_inv:
  assumes inv: "backend_inv kind content ws b" and s: "worker_recv b n sync = Some b'"
  shows "backend_inv kind content ws b'"
proof -
  have n: "n < length (bk_workers b)" "bk_workers b ! n = Wk_Waiting"
    using s by (auto simp: worker_recv_def split: if_splits)
  show ?thesis
  proof (cases "bk_queue b")
    case Nil
    then have "b' = worker_exit b n" using s n by (simp add: worker_recv_def split: if_splits)
    then show ?thesis using worker_exit_inv [of kind content ws b n] inv n by (simp add: backend_inv_def)
  next
    case (Cons cmd rest)
    then show ?thesis
      using recv_write_inv [OF inv _ n s] recv_finalize_inv [OF inv _ n s] by (cases cmd) blast+
  qed
qed

lemma worker_done_inv:
  assumes inv: "backend_inv kind content ws b" and n: "n < length (bk_workers b)"
    and w: "bk_workers b ! n = Wk_Writing c r buf offset" and res: "res = Inr () \<longrightarrow> buf = []"
  shows "backend_inv kind content ws (worker_done b n c r res)"
proof -
  have "worker_ok (Wk_Writing c r buf offset)" using inv n w by (auto simp: backend_inv_def list_all_length)
  then obtain k where k: "k \<le> length (wc_data c)" "offset = r_start (wc_range c) + k" "buf = drop k (wc_data c)"
    by (auto simp: worker_ok_def)
  let ?ws = "(bk_workers b)[n := Wk_Waiting]"
  have "worker_progress (bk_workers b ! n) = [(c, r, k)]" using w k by simp
  then obtain Q where Q: "mset (concat (map worker_progress (bk_workers b))) = add_mset (c, r, k) Q"
    "mset (concat (map worker_progress ?ws)) = Q"
    using worker_progress_update(2) [OF n, of _ Wk_Waiting] by fastforce
  let ?Q = "writes_progress (b\<lparr>bk_workers := ?ws\<rparr>)"
  have ok: "writes_ok kind content ws (bk_file b) (add_mset (c, r, k) ?Q)"
    using inv Q by (simp add: backend_inv_def writes_progress_def)
  have "writes_ok kind content ws (bk_file b) (add_mset (report_progress (c, r, Told res)) ?Q)"
  proof (cases res)
    case (Inr u)
    then have "k = length (wc_data c)" using res k by simp
    then show ?thesis using ok Inr by simp
  qed (use ok writes_ok_drop in auto)
  moreover have "set ?ws \<subseteq> insert Wk_Waiting (set (bk_workers b))" by (rule set_update_subset_insert)
  ultimately show ?thesis using inv by (auto simp: backend_inv_def worker_done_def list_all_iff worker_ok_def)
qed

lemma write_some_inv:
  assumes inv: "backend_inv kind content ws b" and n: "n < length (bk_workers b)"
    and w: "bk_workers b ! n = Wk_Writing c r buf offset" and k: "k \<le> length buf"
  shows "backend_inv kind content ws
    (b\<lparr>bk_file := pwrite (bk_file b) offset (take k buf),
       bk_workers := (bk_workers b)[n := Wk_Writing c r (drop k buf) (offset + k)]\<rparr>)"
proof -
  have "worker_ok (Wk_Writing c r buf offset)" using inv n w by (auto simp: backend_inv_def list_all_length)
  then obtain j where j: "j \<le> length (wc_data c)" "offset = r_start (wc_range c) + j" "buf = drop j (wc_data c)"
    by (auto simp: worker_ok_def)
  let ?w = "Wk_Writing c r (drop k buf) (offset + k)" and ?f = "pwrite (bk_file b) offset (take k buf)"
  let ?b = "b\<lparr>bk_file := ?f, bk_workers := (bk_workers b)[n := ?w]\<rparr>"
  have w': "worker_progress (bk_workers b ! n) = [(c, r, j)]" "worker_progress ?w = [(c, r, j + k)]"
    using w j by simp_all
  then obtain Q where Q: "mset (concat (map worker_progress (bk_workers b))) = add_mset (c, r, j) Q"
    "mset (concat (map worker_progress ((bk_workers b)[n := ?w]))) = add_mset (c, r, j + k) Q"
    using worker_progress_update(2) [OF n, of "(c, r, j)" ?w] by auto
  obtain R where R: "writes_progress b = add_mset (c, r, j) R" "writes_progress ?b = add_mset (c, r, j + k) R"
    using Q by (simp add: writes_progress_def)
  have "writes_ok kind content ws ?f (writes_progress ?b)"
    unfolding R(2)
    by (rule writes_ok_move [OF _ R(1), where m = k]) (use inv j k in \<open>auto simp: backend_inv_def\<close>)
  moreover have "worker_ok ?w" unfolding worker_ok_def using j k by (auto intro!: exI [of _ "j + k"] simp: add.commute)
  moreover have "set ((bk_workers b)[n := ?w]) \<subseteq> insert ?w (set (bk_workers b))" by (rule set_update_subset_insert)
  ultimately show ?thesis using inv by (auto simp: backend_inv_def list_all_iff)
qed

lemma write_all_inv:
  assumes inv: "backend_inv kind content ws b" and s: "write_all_turn b n ans = Some b'"
  shows "backend_inv kind content ws b'"
proof -
  have n: "n < length (bk_workers b)" using s by (auto simp: write_all_turn_def split: if_splits)
  then obtain c r buf offset where w: "bk_workers b ! n = Wk_Writing c r buf offset"
    using s by (auto simp: write_all_turn_def split: worker.splits)
  note fin = worker_done_inv [OF inv n w] and more = write_some_inv [OF inv n w]
  show ?thesis
  proof (cases "buf = []")
    case True
    then show ?thesis using s n w fin [of "Inr ()"] by (simp add: write_all_turn_def)
  next
    case False
    then show ?thesis
      using s n w fin [of "Inl _"] more inv by (cases ans) (auto simp: write_all_turn_def split: if_splits)
  qed
qed

lemma compio_task_inv:
  assumes inv: "backend_inv kind content ws b" and s: "compio_task b i ans = Some b'"
  shows "backend_inv kind content ws b'"
proof -
  have i: "i < length (bk_tasks b)" using s by (auto simp: compio_task_def split: if_splits)
  obtain c r k err where t: "bk_tasks b ! i = (c, r)" and a: "ans = (k, err)" by fastforce
  let ?ts = "take i (bk_tasks b) @ drop (Suc i) (bk_tasks b)"
  let ?d = "case err of None \<Rightarrow> wc_data c | Some _ \<Rightarrow> take k (wc_data c)"
  let ?f = "pwrite (bk_file b) (r_start (wc_range c)) ?d"
  let ?b = "b\<lparr>bk_tasks := ?ts, bk_file := ?f\<rparr>"
  have b': "b' = report_write ?b c r (Told (case err of None \<Rightarrow> Inr () | Some e \<Rightarrow> Inl e))"
    using s i t a by (simp add: compio_task_def Let_def)
  have ts: "bk_tasks b = take i (bk_tasks b) @ (c, r) # drop (Suc i) (bk_tasks b)"
    using id_take_nth_drop [OF i] t by simp
  have "mset (map (\<lambda>(c, r). (c, r, 0::nat)) (bk_tasks b)) = add_mset (c, r, 0) (mset (map (\<lambda>(c, r). (c, r, 0)) ?ts))"
    by (subst ts) simp
  then have p: "writes_progress b = add_mset (c, r, 0) (writes_progress ?b)" by (simp add: writes_progress_def)
  have ok: "writes_ok kind content ws ?f (add_mset (report_progress (c, r, Told (case err of None \<Rightarrow> Inr () | Some e \<Rightarrow> Inl e)))
      (writes_progress ?b))"
  proof (cases err)
    case None
    have "writes_ok kind content ws ?f (add_mset (c, r, length (wc_data c)) (writes_progress ?b))"
      by (rule writes_ok_move [OF _ p, where m = "length (wc_data c)"]) (use inv None in \<open>auto simp: backend_inv_def\<close>)
    then show ?thesis using None by simp
  next
    case (Some e)
    have "writes_ok kind content ws ?f (add_mset (c, r, 0) (writes_progress ?b))"
      by (rule writes_ok_move [OF _ p, where m = "min k (length (wc_data c))"])
        (use inv Some in \<open>auto simp: backend_inv_def min_def\<close>)
    then show ?thesis using Some by simp
  qed
  moreover have "Wk_Exited \<notin> set (bk_workers b)" using inv i by (auto simp: backend_inv_def)
  ultimately show ?thesis using inv unfolding b' by (simp add: backend_inv_def)
qed

lemma backend_step_inv:
  assumes inv: "backend_inv kind content ws b" and s: "backend_step b e = Some b'"
  shows "backend_inv kind content (ws @ submitted [e]) b'"
proof (cases e)
  case (Ev_Sync n sync)
  then have n: "n < length (bk_workers b)" "bk_workers b ! n = Wk_Finalizing"
    and b': "b' = worker_exit (b\<lparr>bk_ack := Acked sync\<rparr>) n"
    using s by (auto simp: backend_step_def compio_sync_def split: if_splits)
  have "backend_inv kind content ws b'"
    unfolding b' by (rule worker_exit_inv) (use inv n in \<open>simp_all add: backend_inv_def\<close>)
  then show ?thesis using Ev_Sync by simp
next
  case Ev_Drop_Sender
  then show ?thesis using inv s by (auto simp: backend_step_def backend_inv_def)
qed (use s backend_send_inv [OF inv] backend_finalize_inv [OF inv] recv_inv [OF inv] write_all_inv [OF inv] compio_task_inv [OF inv]
    in \<open>auto simp: backend_step_def\<close>)

lemma submitted_Cons: "submitted (e # es) = submitted [e] @ submitted es"
  by (cases e) simp_all

lemma backend_run_inv:
  "backend_inv kind content ws b \<Longrightarrow> backend_run b es = Some b' \<Longrightarrow> backend_inv kind content (ws @ submitted es) b'"
proof (induction es arbitrary: b ws)
  case (Cons e es)
  obtain b1 where b1: "backend_step b e = Some b1" "backend_run b1 es = Some b'"
    using Cons.prems(2) by (auto simp: bind_eq_Some_conv)
  then show ?case
    using Cons.IH [OF backend_step_inv [OF Cons.prems(1) b1(1)] b1(2)] submitted_Cons [of e es] by simp
qed simp

lemma drop_workers:
  "length (bk_workers (foldl drop_command b cmds)) = length (bk_workers b)"
  "length (bk_workers (worker_exit b n)) = length (bk_workers b)"
proof -
  show c: "length (bk_workers (foldl drop_command b cmds)) = length (bk_workers b)" for b cmds
    using drop_commands [of b cmds] by (simp add: same_but_reports_def)
  show "length (bk_workers (worker_exit b n)) = length (bk_workers b)"
    using drop_tasks [of "b\<lparr>bk_workers := (bk_workers b)[n := Wk_Exited], bk_tasks := []\<rparr>" "bk_tasks b"]
    by (simp add: worker_exit_def close_on_exit_def c same_but_reports_def)
qed

lemma backend_step_workers:
  "backend_step b e = Some b' \<Longrightarrow> length (bk_workers b') = length (bk_workers b)"
  by (auto simp: backend_step_def backend_send_def backend_finalize_def worker_recv_def worker_command_defs mmap_write_def Let_def
      write_all_turn_def compio_task_def compio_sync_def worker_done_def drop_workers
      split: backend_event.splits if_splits list.splits command.splits writer_kind.splits worker.splits
        os_write.splits prod.splits)

lemma backend_run_workers:
  "backend_run (backend_new kind n content) es = Some b \<Longrightarrow> length (bk_workers b) = n"
proof -
  have "backend_run b es = Some b' \<Longrightarrow> length (bk_workers b') = length (bk_workers b)" for b b'
    by (induction es arbitrary: b) (auto simp: bind_eq_Some_conv dest: backend_step_workers)
  then show "backend_run (backend_new kind n content) es = Some b \<Longrightarrow> length (bk_workers b) = n"
    by (fastforce simp: backend_new_def)
qed

lemma backend_new_inv: "backend_inv kind content [] (backend_new kind n content)"
  by (auto simp: backend_inv_def backend_new_def writes_ok_def writes_progress_def outside_kept_def byte_at_def
      worker_ok_def list_all_iff)

section \<open>What a report means\<close>

definition reported_write :: "write_chunk \<times> write_reply \<times> reply_outcome \<Rightarrow> write_chunk \<times> write_reply" where
  "reported_write = (\<lambda>(c, r, _). (c, r))"

lemma backend_reports:
  assumes run: "backend_run (backend_new kind n content) es = Some b"
  shows "mset (map reported_write (bk_reports b)) \<subseteq># mset (submitted es)
    \<and> (0 < n \<and> list_all (\<lambda>w. w = Wk_Exited) (bk_workers b) \<longrightarrow>
         mset (map reported_write (bk_reports b)) = mset (submitted es))
    \<and> (kind \<noteq> Kind_Null \<and> disjoint_writes (submitted es) \<longrightarrow>
         (\<forall>(c, r, out) \<in> set (bk_reports b). out = Told (Inr ()) \<longrightarrow> prefix_written (bk_file b) c (length (wc_data c)))
         \<and> outside_kept content (submitted es) (bk_file b))"
proof -
  have inv: "backend_inv kind content (submitted es) b"
    using backend_run_inv [OF backend_new_inv run] by simp
  let ?rs = "mset (map report_progress (bk_reports b))"
  have rp: "the_write (report_progress x) = reported_write x" for x
    by (cases x rule: report_progress.cases) (simp_all add: reported_write_def)
  then have "the_write \<circ> report_progress = reported_write" by (simp add: fun_eq_iff)
  then have r: "image_mset the_write ?rs = mset (map reported_write (bk_reports b))"
    by (simp only: mset_map image_mset.compositionality)
  have e: "image_mset the_write (writes_progress b) = mset (submitted es)"
    using inv by (simp add: backend_inv_def writes_ok_def)
  have 1: "mset (map reported_write (bk_reports b)) \<subseteq># mset (submitted es)"
    using r e by (simp add: writes_progress_def flip: e)
  have 2: "mset (map reported_write (bk_reports b)) = mset (submitted es)"
    if all: "0 < n \<and> list_all (\<lambda>w. w = Wk_Exited) (bk_workers b)"
  proof -
    have "bk_workers b \<noteq> []" using backend_run_workers [OF run] all by auto
    then have "Wk_Exited \<in> set (bk_workers b)" using all by (auto simp: list_all_iff neq_Nil_conv)
    moreover have "concat (map worker_progress (bk_workers b)) = []" using all by (auto simp: list_all_iff)
    ultimately have "writes_progress b = ?rs" using inv by (simp add: backend_inv_def writes_progress_def)
    then show ?thesis using r e by simp
  qed
  have 3: "(\<forall>(c, r, out) \<in> set (bk_reports b). out = Told (Inr ()) \<longrightarrow> prefix_written (bk_file b) c (length (wc_data c)))
      \<and> outside_kept content (submitted es) (bk_file b)"
    if "kind \<noteq> Kind_Null \<and> disjoint_writes (submitted es)"
  proof -
    have w: "\<forall>(c, r, k) \<in># writes_progress b. k \<le> length (wc_data c) \<and> prefix_written (bk_file b) c k"
      "outside_kept content (submitted es) (bk_file b)"
      using inv that by (simp_all add: backend_inv_def writes_ok_def)
    have "prefix_written (bk_file b) c (length (wc_data c))" if "(c, r, Told (Inr ())) \<in> set (bk_reports b)" for c r
    proof -
      have "report_progress (c, r, Told (Inr ())) \<in># writes_progress b"
        using that by (force simp: writes_progress_def)
      then show ?thesis using w(1) by auto
    qed
    then show ?thesis using w(2) by auto
  qed
  show ?thesis using 1 2 3 by blast
qed

text \<open>
  C10: A backend tells the truth about its writes. Whatever the kind, the number of workers and the
  interleaving, it reports no write twice and none that was not submitted, and when its workers have
  exited it has reported every one. If the submitted writes do not overlap, a write reported as done is
  in the file with all its bytes, however short or interrupted the system's writes were and whatever
  else was written, and no byte outside the submitted writes has changed. (The null writer discards.)
\<close>

theorem backend_reports_only_what_it_wrote:
  assumes run: "backend_run (backend_new kind n content) es = Some b"
  shows "mset (map reported_write (bk_reports b)) \<subseteq># mset (submitted es)
    \<and> (0 < n \<and> list_all (\<lambda>w. w = Wk_Exited) (bk_workers b) \<longrightarrow>
         mset (map reported_write (bk_reports b)) = mset (submitted es))
    \<and> (kind \<noteq> Kind_Null \<and> disjoint_writes (submitted es) \<longrightarrow>
         (\<forall>(c, r, out) \<in> set (bk_reports b). out = Told (Inr ()) \<longrightarrow> prefix_written (bk_file b) c (length (wc_data c)))
         \<and> outside_kept content (submitted es) (bk_file b))"
  by (rule backend_reports [OF assms])

text \<open>
  Two pool workers, two writes; the first write is short, then interrupted, and the second worker
  writes in between.
\<close>

definition some_writes :: "backend_event list" where
  "some_writes =
     [Ev_Send \<lparr>wc_range = Range 0 2, wc_data = [7, 8]\<rparr> (Reply_Completion 0),
      Ev_Send \<lparr>wc_range = Range 2 3, wc_data = [9]\<rparr> (Reply_Awaited 1),
      Ev_Recv 0 (Inr ()), Ev_Recv 1 (Inr ()), Ev_Write 0 (Os_Wrote 1), Ev_Write 1 (Os_Wrote 1),
      Ev_Write 0 Os_Interrupted, Ev_Write 1 (Os_Wrote 0), Ev_Write 0 (Os_Wrote 1), Ev_Write 0 (Os_Wrote 0),
      Ev_Finalize, Ev_Recv 1 (Inr ()), Ev_Drop_Sender, Ev_Recv 0 (Inr ())]"

theorem backend_reports_only_what_it_wrote_witness:
  "\<exists>b. backend_run (backend_new Kind_Pool 2 [0, 0, 0]) some_writes = Some b
     \<and> bk_file b = [7, 8, 9] \<and> length (bk_reports b) = 2
     \<and> mset (map reported_write (bk_reports b)) = mset (submitted some_writes)
     \<and> (\<forall>(c, r, out) \<in> set (bk_reports b). prefix_written (bk_file b) c (length (wc_data c)))"
proof -
  let ?b = "the (backend_run (backend_new Kind_Pool 2 [0, 0, 0]) some_writes)"
  have b: "backend_run (backend_new Kind_Pool 2 [0, 0, 0]) some_writes = Some ?b"
    "bk_file ?b = [7, 8, 9]" "length (bk_reports ?b) = 2" "bk_workers ?b = [Wk_Exited, Wk_Exited]"
    "list_all (\<lambda>(c, r, out). out = Told (Inr ())) (bk_reports ?b)"
    by code_simp+
  have d: "disjoint_writes (submitted some_writes)"
    by (simp add: some_writes_def disjoint_writes_def write_area_def)
  show ?thesis
    using backend_reports_only_what_it_wrote [OF b(1)] b d by (intro exI [of _ ?b]) (auto simp: list_all_iff)
qed

end
