(* ===== verification/Concurrent_Props.thy ===== *)
theory Concurrent_Props
  imports Loop_Assembly Writer_Backend_Props
begin

text \<open>
  The concurrent download from end to end: the chunks a run of the event loop hands to its writer, put
  into the file by a backend that reports every one of them done, are the resource.
\<close>

section \<open>The chunks in the file\<close>

definition chunk_write :: "downloaded_chunk \<Rightarrow> write_chunk" where
  "chunk_write c = \<lparr>wc_range = dc_range c, wc_data = dc_bytes c\<rparr>"

text \<open>
  A backend on the file \<open>content\<close> has been given the chunks, in whatever order and interleaving,
  its workers have ended, and every report says that the write is done.
\<close>

definition backend_wrote :: "writer_kind \<Rightarrow> nat \<Rightarrow> chunk \<Rightarrow> downloaded_chunk list \<Rightarrow> backend \<Rightarrow> bool" where
  "backend_wrote kind n content cs b \<longleftrightarrow>
     (\<exists>es. backend_run (backend_new kind n content) es = Some b
        \<and> mset (map fst (submitted es)) = mset (map chunk_write cs))
     \<and> 0 < n \<and> list_all (\<lambda>w. w = Wk_Exited) (bk_workers b)
     \<and> list_all (\<lambda>(_, _, out). out = Told (Inr ())) (bk_reports b)"

lemma sorted_wrt_mset:
  assumes sym: "\<And>x y. P x y \<Longrightarrow> P y x" and "mset xs = mset ys" and "sorted_wrt P xs"
  shows "sorted_wrt P ys"
  using assms(2,3)
proof (induction ys arbitrary: xs)
  case (Cons y ys)
  have "y \<in> set xs" using Cons.prems(1) by (metis list.set_intros(1) mset_eq_setD)
  then obtain as bs where xs: "xs = as @ y # bs" by (meson split_list)
  have m: "mset (as @ bs) = mset ys" using Cons.prems(1) xs by simp
  have "sorted_wrt P (as @ bs)" "\<forall>z \<in> set (as @ bs). P y z"
    using Cons.prems(2) sym unfolding xs by (auto simp: sorted_wrt_append)
  moreover have "set (as @ bs) = set ys" using m by (metis mset_eq_setD)
  ultimately show ?case using Cons.IH [OF m] by simp
qed simp

lemma disjoint_of_chunks:
  assumes "mset (map fst ws) = mset (map chunk_write cs)"
    and "sorted_wrt (\<lambda>a b. r_bytes (dc_range a) \<inter> r_bytes (dc_range b) = {}) cs"
    and area: "\<forall>c \<in> set cs. write_area (chunk_write c) \<subseteq> r_bytes (dc_range c)"
  shows "disjoint_writes ws"
proof -
  let ?P = "\<lambda>a b. write_area a \<inter> write_area b = {}"
  have "sorted_wrt (\<lambda>a b. ?P (chunk_write a) (chunk_write b)) cs"
    by (rule sorted_wrt_mono_rel [OF _ assms(2)]) (use area in blast)
  then have "sorted_wrt ?P (map chunk_write cs)" by (simp add: sorted_wrt_map)
  then have "sorted_wrt ?P (map fst ws)" using sorted_wrt_mset [of ?P "map chunk_write cs" "map fst ws"] assms(1) by auto
  then show ?thesis by (simp add: disjoint_writes_def sorted_wrt_map)
qed

lemma slice_area:
  assumes "dc_bytes c = slice body (dc_range c)" and "r_end (dc_range c) \<le> length body"
  shows "write_area (chunk_write c) = r_bytes (dc_range c)"
    and "i < length (dc_bytes c) \<Longrightarrow> dc_bytes c ! i = body ! (r_start (dc_range c) + i)"
  using assms by (auto simp: write_area_def chunk_write_def slice_def)

lemma written_file:
  assumes kind: "kind \<noteq> Kind_Null" and len: "length content = length body"
    and wrote: "backend_wrote kind n content cs b"
    and dis: "sorted_wrt (\<lambda>a b. r_bytes (dc_range a) \<inter> r_bytes (dc_range b) = {}) cs"
    and slices: "list_all (\<lambda>c. dc_bytes c = slice body (dc_range c) \<and> r_end (dc_range c) \<le> length body) cs"
    and all: "ranges_bytes (map dc_range cs) = {0..<length body}"
  shows "bk_file b = body"
proof -
  obtain es where es: "backend_run (backend_new kind n content) es = Some b"
    "mset (map fst (submitted es)) = mset (map chunk_write cs)"
    and ended: "0 < n \<and> list_all (\<lambda>w. w = Wk_Exited) (bk_workers b)"
    "list_all (\<lambda>(_, _, out). out = Told (Inr ())) (bk_reports b)"
    using wrote unfolding backend_wrote_def by blast
  have area: "write_area (chunk_write c) = r_bytes (dc_range c)" if "c \<in> set cs" for c
    using slice_area(1) bspec [OF slices [unfolded list_all_iff] that] by blast
  have "disjoint_writes (submitted es)"
    by (rule disjoint_of_chunks [OF es(2) dis]) (use area in simp)
  then have rep: "mset (map reported_write (bk_reports b)) = mset (submitted es)"
    "\<forall>(c, r, out) \<in> set (bk_reports b). out = Told (Inr ()) \<longrightarrow> prefix_written (bk_file b) c (length (wc_data c))"
    "outside_kept content (submitted es) (bk_file b)"
    using backend_reports [OF es(1)] ended(1) kind by simp_all
  have ws: "fst ` set (submitted es) = chunk_write ` set cs"
    using mset_eq_setD [OF es(2)] by simp
  have whole: "prefix_written (bk_file b) (chunk_write c) (length (dc_bytes c))" if c: "c \<in> set cs" for c
  proof -
    have "chunk_write c \<in> fst ` set (submitted es)" unfolding ws by (rule imageI [OF c])
    then obtain r where "(chunk_write c, r) \<in> set (submitted es)" by (rule imageE) (metis prod.collapse)
    then have "(chunk_write c, r) \<in> reported_write ` set (bk_reports b)"
      using mset_eq_setD [OF rep(1)] by simp
    then obtain out where o: "(chunk_write c, r, out) \<in> set (bk_reports b)" by (auto simp: reported_write_def)
    have "out = Told (Inr ())" using bspec [OF ended(2) [unfolded list_all_iff] o] unfolding prod.case .
    then have "prefix_written (bk_file b) (chunk_write c) (length (wc_data (chunk_write c)))"
      using bspec [OF rep(2) o] by simp
    then show ?thesis by (simp add: chunk_write_def)
  qed
  have byte: "byte_at (bk_file b) i = Some (body ! i)" if i: "i < length body" for i
  proof -
    have "i \<in> ranges_bytes (map dc_range cs)" using all i by simp
    then obtain c where c: "c \<in> set cs" "i \<in> r_bytes (dc_range c)" by (auto simp: ranges_bytes_def)
    have s: "dc_bytes c = slice body (dc_range c)" "r_end (dc_range c) \<le> length body"
      using bspec [OF slices [unfolded list_all_iff] c(1)] by blast+
    define j where "j = i - r_start (dc_range c)"
    have "r_start (dc_range c) \<le> i" "i < r_end (dc_range c)" using c(2) by simp_all
    then have j: "i = r_start (dc_range c) + j" "j < length (dc_bytes c)"
      using s by (auto simp: j_def slice_def)
    then show ?thesis using whole [OF c(1)] slice_area(2) [OF s j(2)]
      by (simp add: prefix_written_def chunk_write_def)
  qed
  have "\<forall>x \<in> set (submitted es). write_area (fst x) \<subseteq> {..<length body}"
  proof
    fix x assume "x \<in> set (submitted es)"
    then obtain c where c: "c \<in> set cs" "fst x = chunk_write c" using ws by blast
    then have "r_end (dc_range c) \<le> length body" using bspec [OF slices [unfolded list_all_iff] c(1)] by blast
    then show "write_area (fst x) \<subseteq> {..<length body}" using area [OF c(1)] c(2) by auto
  qed
  then have "length (bk_file b) \<le> length body" using rep(3) len by (auto simp: outside_kept_def)
  moreover have "length body \<le> length (bk_file b)"
  proof (cases "length body")
    case (Suc m)
    then show ?thesis using byte [of m] by (simp add: byte_at_def split: if_splits)
  qed simp
  ultimately show ?thesis using byte by (intro nth_equalityI) (auto simp: byte_at_def split: if_splits)
qed

section \<open>The whole download\<close>

lemma planner_new_bytes: "tot < u64_bound \<Longrightarrow> bytes_inv (planner_new tot) \<and> planner_dl (planner_new tot) = {}"
  by (simp add: bytes_inv_def planner_new_def planner_dl_def dl_bytes_def bt_values_def)


text \<open>
  A resource of three bytes, downloaded by one runner: a strategy tick spawns it, it starts, delivers
  its frame and stops; a pool worker writes the chunk.
\<close>

definition no_inputs :: poll_inputs where
  "no_inputs = \<lparr>in_reports = [], in_cancelled = False, in_deadline = False, in_strategy = False, in_throughput = False,
     in_lifecycle = Group_Pending, in_data = Group_Pending\<rparr>"

definition some_polls :: "(loop_env \<times> poll_inputs) list" where
  "some_polls = map (Pair some_env)
     [no_inputs\<lparr>in_strategy := True\<rparr>, no_inputs\<lparr>in_lifecycle := Group_Item 0 Started\<rparr>,
      no_inputs\<lparr>in_data := Group_Item 0 [7, 8, 9]\<rparr>, no_inputs\<lparr>in_lifecycle := Group_Item 0 (Stopped Stop_Finished)\<rparr>]"

definition some_loop :: download_loop where
  "some_loop = (case loop_new 3 (Some 1) 5 60 (from_secs 60) 0 0 publisher_new of Done d \<Rightarrow> d)"

lemmas start_defs = some_loop_def loop_new_def some_env_def no_inputs_def loop_turn_def Let_def workers_report_def poll_event_def
   throughput_new_def sampler_new_def sampler_with_alpha_def DEFAULT_EMA_ALPHA_def manager_new_def strategy_control_new_def writer_new_def policy_new_def
   poll_completions_def handle_event_def on_strategy_tick_def strategy_execute_def cc_step_def cc_with_default_config_def cc_new_def
   get_available_ranges_def planner_new_def apply_action_def spawn_runner_def spawn_runner_with_chunk_def allocate_runner_def gen_next_def gen_new_def gen_index_def
   allocate_pending_chunk_def allocate_chunk_inner_def bt_values_def get_chunks_count_def bt_last_below_def register_runner_channels_def is_connecting_def get_runner_state_def
   bt_get_def chunk_new_def expect_some_def from_secs_def add64_def u64_bound_def

lemmas run_defs = some_polls_def poll_runner_def poll_tick_def poll_lifecycle_def handle_lifecycle_def handle_started_def planner_expect_def expect_ok_def mark_running_def
  can_write_def writer_is_full_def has_pending_write_def poll_data_def handle_data_frame_def update_progress_def chunk_accept_def remaining_def sub64_def chunk_is_complete_def
  tick_with_chunk_def tick_downloading_def on_runner_def accept_chunk_def write_range_def dispatch_write_def writer_dispatch_def r_is_empty_def policy_on_progress_def
  handle_stopped_def mark_runner_completed_def mark_finished_def forget_runner_def release_runner_def sample_outcome_def record_outcome_def gen_release_def planner_is_complete_def
  tick_finished_def limit_mailbox_def outcome_sampler_default_def cleanup_expired_def outcome_sampler_new_def
lemma some_run:
  "\<exists>d'. loop_run some_polls some_loop = Done (Some (Inr ()), d')"
  "loop_chunks some_polls some_loop = [\<lparr>dc_range = Range 0 3, dc_bytes = [7, 8, 9]\<rparr>]"
  by (simp_all add: start_defs run_defs turn_chunk_def)

lemma some_run_legal: "polls_ok [7, 8, 9] (from_secs 60) some_polls some_loop"
  by (simp add: start_defs run_defs turn_legal_def all_active_def gen_ids_def active_ids_def gen_is_allocated_def) auto

lemma some_loop: "loop_new 3 (Some 1) 5 60 (from_secs 60) 0 0 publisher_new = Done some_loop"
  using new_loop [of 3 1 5 60 "from_secs 60" 0 0 publisher_new] by (auto simp: some_loop_def)

definition some_backend_run :: "backend_event list" where
  "some_backend_run =
     [Ev_Send \<lparr>wc_range = Range 0 3, wc_data = [7, 8, 9]\<rparr> (Reply_Completion 0), Ev_Recv 0 (Inr ()),
      Ev_Write 0 (Os_Wrote 2), Ev_Write 0 Os_Interrupted, Ev_Write 0 (Os_Wrote 1), Ev_Write 0 (Os_Wrote 0),
      Ev_Drop_Sender, Ev_Recv 0 (Inr ())]"


end
