(* ===== verification/Aggregator.thy ===== *)
theory Aggregator
  imports Runner_Manager Http
begin

text \<open>
  Where the runner manager's events come from (\<open>runner_manager/stream.rs\<close>, and the aggregators of
  \<open>runner_manager/lifecycle.rs\<close> and \<open>runner_manager/data.rs\<close>): one group of tagged streams per kind of
  channel, which the manager's model represents by the set of registered runners and the event a poll
  yields. Shown here: polling a group is polling one channel per registered runner, so every event is of
  a registered runner, in the order it was sent, and a runner id that is reused never sees what an
  earlier runner left behind.
\<close>

section \<open>Tagged streams\<close>

text \<open>
  The receiving end of a runner's channel, of the async-ringbuf crate: the items that were pushed and
  not yet read, and whether the sender is gone.
\<close>

record 'a receiver =
  rx_items :: "'a list"
  rx_closed :: bool

definition receiver_poll :: "'a receiver \<Rightarrow> 'a option poll \<times> 'a receiver" where
  "receiver_poll r =
     (case rx_items r of
        x # xs \<Rightarrow> (Poll_Ready (Some x), r\<lparr>rx_items := xs\<rparr>)
      | [] \<Rightarrow> (if rx_closed r then Poll_Ready None else Poll_Pending, r))"

definition exhausted :: "'a receiver \<Rightarrow> bool" where
  "exhausted r \<longleftrightarrow> rx_items r = [] \<and> rx_closed r"

record 'a tagged_stream =
  tg_runner_id :: runner_id
  tg_stream :: "'a receiver"
  tg_closed_emitted :: bool

definition tagged_new :: "runner_id \<Rightarrow> 'a receiver \<Rightarrow> 'a tagged_stream" where
  "tagged_new i r = \<lparr>tg_runner_id = i, tg_stream = r, tg_closed_emitted = False\<rparr>"

definition tagged_poll :: "'a tagged_stream \<Rightarrow> 'a group_event option poll \<times> 'a tagged_stream" where
  "tagged_poll s =
     (case receiver_poll (tg_stream s) of
        (Poll_Ready (Some item), r) \<Rightarrow>
          (Poll_Ready (Some (Group_Item (tg_runner_id s) item)), s\<lparr>tg_stream := r\<rparr>)
      | (Poll_Ready None, r) \<Rightarrow>
          if \<not> tg_closed_emitted s
          then (Poll_Ready (Some (Group_Closed (tg_runner_id s))),
                s\<lparr>tg_stream := r, tg_closed_emitted := True\<rparr>)
          else (Poll_Ready None, s\<lparr>tg_stream := r\<rparr>)
      | (Poll_Pending, r) \<Rightarrow> (Poll_Pending, s\<lparr>tg_stream := r\<rparr>))"

section \<open>Aggregators\<close>

text \<open>
  The group, of the futures-concurrency crate: its streams by their keys. A poll of the group polls its
  streams, in the order given, up to the first that yields, and drops those that have ended.
\<close>

type_synonym key = nat

type_synonym 'a stream_group = "key \<rightharpoonup> 'a tagged_stream"

fun group_poll :: "key list \<Rightarrow> 'a stream_group \<Rightarrow> 'a group_event option \<times> 'a stream_group" where
  "group_poll [] g = (None, g)"
| "group_poll (k # ks) g =
     (case g k of
        None \<Rightarrow> group_poll ks g
      | Some s \<Rightarrow>
          (case tagged_poll s of
             (Poll_Pending, s) \<Rightarrow> group_poll ks (g(k \<mapsto> s))
           | (Poll_Ready None, s) \<Rightarrow> group_poll ks (g(k := None))
           | (Poll_Ready (Some e), s) \<Rightarrow> (Some e, g(k \<mapsto> s))))"

record 'a aggregator =
  ag_group :: "'a stream_group"
  ag_map :: "runner_id \<rightharpoonup> key"
  ag_waker :: "nat option"

text \<open>The aggregator of the lifecycle events, over any item.\<close>

definition aggregator_with_capacity :: "nat \<Rightarrow> 'a aggregator" where
  "aggregator_with_capacity capacity = \<lparr>ag_group = Map.empty, ag_map = Map.empty, ag_waker = None\<rparr>"

text \<open>\<open>add\<close> gets the key the group gives the stream, and returns the waker it wakes.\<close>

definition aggregator_add ::
  "runner_id \<Rightarrow> 'a receiver \<Rightarrow> key \<Rightarrow> 'a aggregator
   \<Rightarrow> nat option \<times> 'a aggregator" where
  "aggregator_add i r k a =
     (ag_waker a,
      a\<lparr>ag_group := (ag_group a)(k \<mapsto> tagged_new i r), ag_map := (ag_map a)(i \<mapsto> k), ag_waker := None\<rparr>)"

definition aggregator_remove :: "runner_id \<Rightarrow> 'a aggregator \<Rightarrow> 'a aggregator" where
  "aggregator_remove i a =
     (case ag_map a i of
        None \<Rightarrow> a
      | Some k \<Rightarrow> a\<lparr>ag_map := (ag_map a)(i := None), ag_group := (ag_group a)(k := None)\<rparr>)"

definition aggregator_poll_next ::
  "nat \<Rightarrow> key list \<Rightarrow> 'a aggregator
   \<Rightarrow> 'a group_event \<times> 'a aggregator" where
  "aggregator_poll_next waker order a0 =
     (let a = a0\<lparr>ag_waker := Some waker\<rparr>
      in if dom (ag_map a) = {} then (Group_Pending, a)
         else
           (case group_poll order (ag_group a) of
              (Some (Group_Item i item), g) \<Rightarrow> (Group_Item i item, a\<lparr>ag_group := g\<rparr>)
            | (Some (Group_Closed i), g) \<Rightarrow>
                (Group_Closed i, a\<lparr>ag_group := g, ag_map := (ag_map a)(i := None)\<rparr>)
            | (_, g) \<Rightarrow> (Group_Pending, a\<lparr>ag_group := g\<rparr>)))"

text \<open>The aggregator of the data frames has the code of the lifecycle events' once more.\<close>

definition data_with_capacity :: "nat \<Rightarrow> chunk aggregator" where
  "data_with_capacity capacity = \<lparr>ag_group = Map.empty, ag_map = Map.empty, ag_waker = None\<rparr>"

definition data_register ::
  "runner_id \<Rightarrow> chunk receiver \<Rightarrow> key \<Rightarrow> chunk aggregator \<Rightarrow> nat option \<times> chunk aggregator" where
  "data_register i r k a =
     (ag_waker a,
      a\<lparr>ag_group := (ag_group a)(k \<mapsto> tagged_new i r), ag_map := (ag_map a)(i \<mapsto> k), ag_waker := None\<rparr>)"

definition data_unregister :: "runner_id \<Rightarrow> chunk aggregator \<Rightarrow> chunk aggregator" where
  "data_unregister i a =
     (case ag_map a i of
        None \<Rightarrow> a
      | Some k \<Rightarrow> a\<lparr>ag_map := (ag_map a)(i := None), ag_group := (ag_group a)(k := None)\<rparr>)"

definition data_poll_next ::
  "nat \<Rightarrow> key list \<Rightarrow> chunk aggregator \<Rightarrow> chunk group_event \<times> chunk aggregator" where
  "data_poll_next waker order a0 =
     (let a = a0\<lparr>ag_waker := Some waker\<rparr>
      in if dom (ag_map a) = {} then (Group_Pending, a)
         else
           (case group_poll order (ag_group a) of
              (Some (Group_Item i item), g) \<Rightarrow> (Group_Item i item, a\<lparr>ag_group := g\<rparr>)
            | (Some (Group_Closed i), g) \<Rightarrow>
                (Group_Closed i, a\<lparr>ag_group := g, ag_map := (ag_map a)(i := None)\<rparr>)
            | (_, g) \<Rightarrow> (Group_Pending, a\<lparr>ag_group := g\<rparr>)))"

lemma data_aggregator [simp]:
  "data_with_capacity = aggregator_with_capacity" "data_register = aggregator_add"
  "data_unregister = aggregator_remove" "data_poll_next = aggregator_poll_next"
  by (simp_all add: fun_eq_iff data_with_capacity_def aggregator_with_capacity_def data_register_def aggregator_add_def
      data_unregister_def aggregator_remove_def data_poll_next_def aggregator_poll_next_def)

section \<open>One channel per runner\<close>

text \<open>What is registered: each runner's channel, with the key its sender holds.\<close>

definition channels :: "'a aggregator \<Rightarrow> runner_id \<rightharpoonup> key \<times> 'a receiver" where
  "channels a i =
     (case ag_map a i of
        None \<Rightarrow> None
      | Some k \<Rightarrow> map_option (\<lambda>s. (k, tg_stream s)) (ag_group a k))"

text \<open>A stream of the group is the current one of its runner, or it has ended and said so.\<close>

definition ended :: "'a tagged_stream \<Rightarrow> bool" where
  "ended s \<longleftrightarrow> tg_closed_emitted s \<and> exhausted (tg_stream s)"

definition aggregator_inv :: "'a aggregator \<Rightarrow> bool" where
  "aggregator_inv a \<longleftrightarrow>
     (\<forall>i k. ag_map a i = Some k \<longrightarrow> (\<exists>s. ag_group a k = Some s \<and> tg_runner_id s = i \<and> \<not> tg_closed_emitted s))
     \<and> (\<forall>k s. ag_group a k = Some s \<longrightarrow> ag_map a (tg_runner_id s) = Some k \<or> ended s)"

lemma aggregator_invD:
  "aggregator_inv a \<Longrightarrow> ag_map a i = Some k \<Longrightarrow>
     \<exists>s. ag_group a k = Some s \<and> tg_runner_id s = i \<and> \<not> tg_closed_emitted s"
  "aggregator_inv a \<Longrightarrow> ag_group a k = Some s \<Longrightarrow> ag_map a (tg_runner_id s) = Some k \<or> ended s"
  by (simp_all add: aggregator_inv_def)

lemma aggregator_inv_new: "aggregator_inv (aggregator_with_capacity n)" "channels (aggregator_with_capacity n) = Map.empty"
  by (simp_all add: aggregator_inv_def aggregator_with_capacity_def channels_def fun_eq_iff)

lemma channels_waker [simp]: "channels (a\<lparr>ag_waker := w\<rparr>) = channels a" "aggregator_inv (a\<lparr>ag_waker := w\<rparr>) = aggregator_inv a"
  by (simp_all add: channels_def aggregator_inv_def fun_eq_iff split: option.split)

lemma channels_Some:
  "channels a i = Some (k, r) \<longleftrightarrow> ag_map a i = Some k \<and> (\<exists>s. ag_group a k = Some s \<and> tg_stream s = r)"
  by (auto simp: channels_def split: option.splits)

lemma dom_channels: "aggregator_inv a \<Longrightarrow> dom (channels a) = dom (ag_map a)"
  by (auto simp: channels_def dom_def dest: aggregator_invD(1) split: option.splits)

text \<open>Two runners never share a key.\<close>

lemma channels_key:
  "aggregator_inv a \<Longrightarrow> ag_map a i = Some k \<Longrightarrow> ag_map a j = Some k \<Longrightarrow> i = j"
  using aggregator_invD(1) [of a i k] aggregator_invD(1) [of a j k] by auto

lemma aggregator_add_spec:
  assumes inv: "aggregator_inv a" and fresh: "ag_group a k = None" "i \<notin> dom (channels a)"
  shows "aggregator_inv (snd (aggregator_add i r k a))
    \<and> channels (snd (aggregator_add i r k a)) = (channels a)(i \<mapsto> (k, r))"
proof -
  let ?a = "snd (aggregator_add i r k a)"
  have none: "ag_map a i = None" using fresh(2) dom_channels [OF inv] by (simp add: domIff)
  have old: "j \<noteq> k" if "ag_map a x = Some j" for x j using aggregator_invD(1) [OF inv that] fresh(1) by auto
  have "aggregator_inv ?a"
    unfolding aggregator_inv_def
    using aggregator_invD(1) [OF inv] none old
    by (auto simp: aggregator_add_def tagged_new_def dest: aggregator_invD(2) [OF inv])
  moreover have "channels ?a = (channels a)(i \<mapsto> (k, r))"
  proof (rule ext)
    fix j
    show "channels ?a j = ((channels a)(i \<mapsto> (k, r))) j"
      using old [of j] by (auto simp: channels_def aggregator_add_def tagged_new_def split: option.splits)
  qed
  ultimately show ?thesis by simp
qed

lemma aggregator_remove_spec:
  assumes inv: "aggregator_inv a"
  shows "aggregator_inv (aggregator_remove i a) \<and> channels (aggregator_remove i a) = (channels a)(i := None)"
proof (cases "ag_map a i")
  case None
  then show ?thesis using inv by (auto simp: aggregator_remove_def channels_def fun_eq_iff)
next
  case (Some k)
  have other: "j \<noteq> k" if "ag_map a x = Some j" "x \<noteq> i" for x j using channels_key [OF inv Some] that by auto
  have "aggregator_inv (aggregator_remove i a)"
    unfolding aggregator_inv_def
    using aggregator_invD(1) [OF inv] Some other by (auto simp: aggregator_remove_def dest: aggregator_invD(2) [OF inv])
  moreover have "channels (aggregator_remove i a) = (channels a)(i := None)"
  proof (rule ext)
    fix j
    show "channels (aggregator_remove i a) j = ((channels a)(i := None)) j"
      using Some other [of j] by (auto simp: channels_def aggregator_remove_def split: option.splits)
  qed
  ultimately show ?thesis by simp
qed

section \<open>Polling\<close>

lemma tagged_poll_cases:
  obtains (item) x xs where "rx_items (tg_stream s) = x # xs"
      "tagged_poll s = (Poll_Ready (Some (Group_Item (tg_runner_id s) x)), s\<lparr>tg_stream := (tg_stream s)\<lparr>rx_items := xs\<rparr>\<rparr>)"
  | (closed) "exhausted (tg_stream s)" "\<not> tg_closed_emitted s"
      "tagged_poll s = (Poll_Ready (Some (Group_Closed (tg_runner_id s))), s\<lparr>tg_closed_emitted := True\<rparr>)"
  | (ended) "ended s" "tagged_poll s = (Poll_Ready None, s)"
  | (pending) "rx_items (tg_stream s) = []" "\<not> rx_closed (tg_stream s)" "tagged_poll s = (Poll_Pending, s)"
  by (cases "rx_items (tg_stream s)"; cases "rx_closed (tg_stream s)"; cases "tg_closed_emitted s")
    (auto simp: tagged_poll_def receiver_poll_def exhausted_def ended_def)

definition over :: "(runner_id \<rightharpoonup> key) \<Rightarrow> 'a stream_group \<Rightarrow> 'a aggregator" where
  "over m g = \<lparr>ag_group = g, ag_map = m, ag_waker = None\<rparr>"

lemma over_fields [simp]: "ag_group (over m g) = g" "ag_map (over m g) = m"
  by (simp_all add: over_def)

lemma over_same: "over (ag_map a) (ag_group a) = a\<lparr>ag_waker := None\<rparr>"
  by (simp add: over_def)

text \<open>What polling the channels of the registered runners may yield.\<close>

definition polled ::
  "(runner_id \<rightharpoonup> key \<times> 'a receiver) \<Rightarrow> key set \<Rightarrow> 'a group_event \<Rightarrow> (runner_id \<rightharpoonup> key \<times> 'a receiver) \<Rightarrow> bool" where
  "polled C ks e C' \<longleftrightarrow>
     (case e of
        Group_Pending \<Rightarrow> C' = C \<and> (\<forall>i k r. C i = Some (k, r) \<longrightarrow> k \<in> ks \<longrightarrow> rx_items r = [] \<and> \<not> rx_closed r)
      | Group_Item i x \<Rightarrow> (\<exists>k r xs. C i = Some (k, r) \<and> rx_items r = x # xs \<and> C' = C(i \<mapsto> (k, r\<lparr>rx_items := xs\<rparr>)))
      | Group_Closed i \<Rightarrow> (\<exists>k r. C i = Some (k, r) \<and> exhausted r \<and> C' = C(i := None)))"

fun map_after :: "(runner_id \<rightharpoonup> key) \<Rightarrow> 'a group_event \<Rightarrow> runner_id \<rightharpoonup> key" where
  "map_after m (Group_Closed i) = m(i := None)"
| "map_after m _ = m"

definition event_of :: "'a group_event option \<Rightarrow> 'a group_event" where
  "event_of e = (case e of None \<Rightarrow> Group_Pending | Some e \<Rightarrow> e)"

lemma over_invI:
  assumes "\<And>i k. m i = Some k \<Longrightarrow> \<exists>s. g k = Some s \<and> tg_runner_id s = i \<and> \<not> tg_closed_emitted s"
    and "\<And>k s. g k = Some s \<Longrightarrow> m (tg_runner_id s) = Some k \<or> ended s"
  shows "aggregator_inv (over m g)"
  using assms by (simp add: aggregator_inv_def)

lemma over_invD:
  assumes "aggregator_inv (over m g)"
  shows "m i = Some k \<Longrightarrow> \<exists>s. g k = Some s \<and> tg_runner_id s = i \<and> \<not> tg_closed_emitted s"
    and "g k = Some s \<Longrightarrow> m (tg_runner_id s) = Some k \<or> ended s"
  using aggregator_invD [OF assms] by simp_all

lemma over_item:
  assumes inv: "aggregator_inv (over m g)" and s: "g k = Some s" and x: "rx_items (tg_stream s) = x # xs"
  shows "aggregator_inv (over m (g(k \<mapsto> s\<lparr>tg_stream := (tg_stream s)\<lparr>rx_items := xs\<rparr>\<rparr>)))
    \<and> polled (channels (over m g)) ks (Group_Item (tg_runner_id s) x)
        (channels (over m (g(k \<mapsto> s\<lparr>tg_stream := (tg_stream s)\<lparr>rx_items := xs\<rparr>\<rparr>))))"
proof -
  let ?g = "g(k \<mapsto> s\<lparr>tg_stream := (tg_stream s)\<lparr>rx_items := xs\<rparr>\<rparr>)"
  have cur: "m (tg_runner_id s) = Some k" using aggregator_invD(2) [OF inv, of k s] s x by (simp add: ended_def exhausted_def)
  have open_s: "\<not> tg_closed_emitted s" using aggregator_invD(1) [OF inv, of "tg_runner_id s" k] cur s by simp
  have other: "j = tg_runner_id s" if "m j = Some k" for j using channels_key [OF inv, of j k] that cur by simp
  have "aggregator_inv (over m ?g)"
  proof (rule over_invI)
    show "\<exists>t. ?g j = Some t \<and> tg_runner_id t = i \<and> \<not> tg_closed_emitted t" if "m i = Some j" for i j
    proof (cases "j = k")
      case True
      then show ?thesis using over_invD(1) [OF inv that] s by simp
    qed (use over_invD(1) [OF inv that] in simp)
    show "m (tg_runner_id t) = Some j \<or> ended t" if t: "?g j = Some t" for j t
    proof (cases "j = k")
      case True
      then have "tg_runner_id t = tg_runner_id s" using t by auto
      then show ?thesis using cur True by simp
    qed (use over_invD(2) [OF inv, of j t] t in simp)
  qed
  moreover have "channels (over m g) (tg_runner_id s) = Some (k, tg_stream s)" using cur s by (simp add: channels_def)
  moreover have "channels (over m ?g) = (channels (over m g))(tg_runner_id s \<mapsto> (k, (tg_stream s)\<lparr>rx_items := xs\<rparr>))"
  proof (rule ext)
    fix j
    show "channels (over m ?g) j = ((channels (over m g))(tg_runner_id s \<mapsto> (k, (tg_stream s)\<lparr>rx_items := xs\<rparr>))) j"
    proof (cases "j = tg_runner_id s")
      case False
      then have "m j \<noteq> Some k" using other by blast
      then show ?thesis using False by (cases "m j") (simp_all add: channels_def)
    qed (use cur in \<open>simp add: channels_def\<close>)
  qed
  ultimately show ?thesis using x unfolding polled_def group_event.case by blast
qed

lemma over_closed:
  assumes inv: "aggregator_inv (over m g)" and s: "g k = Some s" and x: "exhausted (tg_stream s)" "\<not> tg_closed_emitted s"
  shows "aggregator_inv (over (m(tg_runner_id s := None)) (g(k \<mapsto> s\<lparr>tg_closed_emitted := True\<rparr>)))
    \<and> polled (channels (over m g)) ks (Group_Closed (tg_runner_id s))
        (channels (over (m(tg_runner_id s := None)) (g(k \<mapsto> s\<lparr>tg_closed_emitted := True\<rparr>))))"
proof -
  let ?m = "m(tg_runner_id s := None)" and ?g = "g(k \<mapsto> s\<lparr>tg_closed_emitted := True\<rparr>)"
  have cur: "m (tg_runner_id s) = Some k" using aggregator_invD(2) [OF inv, of k s] s x by (simp add: ended_def)
  have other: "j = tg_runner_id s" if "m j = Some k" for j using channels_key [OF inv, of j k] that cur by simp
  have "aggregator_inv (over ?m ?g)"
  proof (rule over_invI)
    show "\<exists>t. ?g j = Some t \<and> tg_runner_id t = i \<and> \<not> tg_closed_emitted t" if "?m i = Some j" for i j
    proof -
      have i: "m i = Some j" "i \<noteq> tg_runner_id s" using that by (auto split: if_splits)
      then have "j \<noteq> k" using other by blast
      then show ?thesis using over_invD(1) [OF inv i(1)] by simp
    qed
    show "?m (tg_runner_id t) = Some j \<or> ended t" if t: "?g j = Some t" for j t
    proof (cases "j = k")
      case True
      then show ?thesis using t x by (auto simp: ended_def)
    next
      case False
      then have "m (tg_runner_id t) = Some j \<or> ended t" using over_invD(2) [OF inv, of j t] t by simp
      then show ?thesis using cur False by auto
    qed
  qed
  moreover have "channels (over m g) (tg_runner_id s) = Some (k, tg_stream s)" using cur s by (simp add: channels_def)
  moreover have "channels (over ?m ?g) = (channels (over m g))(tg_runner_id s := None)"
  proof (rule ext)
    fix j
    show "channels (over ?m ?g) j = ((channels (over m g))(tg_runner_id s := None)) j"
      using other [of j] by (auto simp: channels_def split: option.splits)
  qed
  ultimately show ?thesis using x unfolding polled_def group_event.case by blast
qed

lemma over_ended:
  assumes inv: "aggregator_inv (over m g)" and s: "g k = Some s" and x: "ended s"
  shows "aggregator_inv (over m (g(k := None))) \<and> channels (over m (g(k := None))) = channels (over m g)"
proof -
  have other: "m j \<noteq> Some k" for j using aggregator_invD(1) [OF inv, of j k] s x by (auto simp: ended_def)
  have "aggregator_inv (over m (g(k := None)))"
  proof (rule over_invI)
    show "\<exists>t. (g(k := None)) j = Some t \<and> tg_runner_id t = i \<and> \<not> tg_closed_emitted t" if "m i = Some j" for i j
      using over_invD(1) [OF inv that] other [of i] that by auto
    show "m (tg_runner_id t) = Some j \<or> ended t" if "(g(k := None)) j = Some t" for j t
      using over_invD(2) [OF inv, of j t] that by (auto split: if_splits)
  qed
  moreover have "channels (over m (g(k := None))) = channels (over m g)"
  proof (rule ext)
    show "channels (over m (g(k := None))) j = channels (over m g) j" for j
      using other [of j] by (auto simp: channels_def split: option.splits)
  qed
  ultimately show ?thesis by simp
qed

lemma polled_skip:
  assumes "polled C ks e C'" and "e = Group_Pending \<Longrightarrow> \<forall>i r. C i = Some (k, r) \<longrightarrow> rx_items r = [] \<and> \<not> rx_closed r"
  shows "polled C (insert k ks) e C'"
  using assms unfolding polled_def by (cases e) auto

lemma group_poll_spec:
  "aggregator_inv (over m g) \<Longrightarrow> group_poll ks g = (e, g') \<Longrightarrow>
     aggregator_inv (over (map_after m (event_of e)) g')
     \<and> polled (channels (over m g)) (set ks) (event_of e) (channels (over (map_after m (event_of e)) g'))"
proof (induction ks arbitrary: g)
  case Nil
  then show ?case by (auto simp: event_of_def polled_def)
next
  case (Cons k ks)
  show ?case
  proof (cases "g k")
    case None
    have "\<forall>i r. channels (over m g) i \<noteq> Some (k, r)" using None by (auto simp: channels_Some)
    then show ?thesis using Cons None polled_skip [of "channels (over m g)" "set ks" "event_of e" _ k] by simp
  next
    case (Some s)
    show ?thesis
    proof (cases s rule: tagged_poll_cases)
      case (item x xs)
      have "e = Some (Group_Item (tg_runner_id s) x)" "g' = g(k \<mapsto> s\<lparr>tg_stream := (tg_stream s)\<lparr>rx_items := xs\<rparr>\<rparr>)"
        using Cons.prems(2) Some item(2) by simp_all
      then show ?thesis
        using over_item [OF Cons.prems(1) Some item(1), of "set (k # ks)"] by (simp only: event_of_def option.case map_after.simps)
    next
      case closed
      have "e = Some (Group_Closed (tg_runner_id s))" "g' = g(k \<mapsto> s\<lparr>tg_closed_emitted := True\<rparr>)"
        using Cons.prems(2) Some closed(3) by simp_all
      then show ?thesis
        using over_closed [OF Cons.prems(1) Some closed(1,2), of "set (k # ks)"] by (simp only: event_of_def option.case map_after.simps)
    next
      case ended
      note o = over_ended [OF Cons.prems(1) Some ended(1)]
      have none: "\<forall>i r. channels (over m g) i \<noteq> Some (k, r)"
        using ended(1) aggregator_invD(1) [OF Cons.prems(1)] Some by (fastforce simp: channels_Some ended_def)
      have "group_poll ks (g(k := None)) = (e, g')" using Cons.prems(2) Some ended(2) by simp
      note ih = Cons.IH [OF conjunct1 [OF o] this, unfolded conjunct2 [OF o]]
      show ?thesis
        using ih polled_skip [OF conjunct2 [OF ih], of k] none by simp
    next
      case pending
      have g: "g(k \<mapsto> s) = g" using Some by (rule fun_upd_idem)
      have "\<forall>i r. channels (over m g) i = Some (k, r) \<longrightarrow> rx_items r = [] \<and> \<not> rx_closed r"
        using pending(1,2) Some by (auto simp: channels_Some)
      then show ?thesis
        using Cons.IH [of g] Cons.prems Some pending(3) g
          polled_skip [of "channels (over m g)" "set ks" "event_of e" _ k] by simp
    qed
  qed
qed

lemma group_poll_event: "fst (group_poll ks g) \<noteq> Some Group_Pending"
proof (induction ks arbitrary: g)
  case (Cons k ks)
  show ?case
  proof (cases "g k")
    case (Some s)
    show ?thesis by (cases s rule: tagged_poll_cases) (use Some Cons.IH in simp_all)
  qed (use Cons.IH in simp)
qed simp

lemma aggregator_poll_spec:
  assumes inv: "aggregator_inv a" and p: "aggregator_poll_next w order a = (e, a')"
  shows "aggregator_inv a' \<and> ag_waker a' = Some w \<and> polled (channels a) (set order) e (channels a')"
proof (cases "dom (ag_map a) = {}")
  case True
  then have c: "channels a = Map.empty" using dom_channels [OF inv] by simp
  have "(e, a') = (Group_Pending, a\<lparr>ag_waker := Some w\<rparr>)"
    unfolding p [symmetric] using True by (simp add: aggregator_poll_next_def)
  then show ?thesis using inv c by (simp add: polled_def)
next
  case False
  obtain x g where g: "group_poll order (ag_group a) = (x, g)" by fastforce
  note spec = group_poll_spec [where m = "ag_map a" and g = "ag_group a", unfolded over_same channels_waker, OF inv g]
  have x: "x \<noteq> Some Group_Pending"
  proof
    assume "x = Some Group_Pending"
    then show False using group_poll_event [of order "ag_group a"] g by simp
  qed
  have a': "e = event_of x \<and> ag_group a' = g \<and> ag_map a' = map_after (ag_map a) (event_of x) \<and> ag_waker a' = Some w"
  proof (cases x)
    case None
    then have "(e, a') = (Group_Pending, a\<lparr>ag_waker := Some w, ag_group := g\<rparr>)"
      unfolding p [symmetric] using False g by (simp add: aggregator_poll_next_def)
    then show ?thesis using None by (simp add: event_of_def)
  next
    case (Some y)
    show ?thesis
    proof (cases y)
      case (Group_Item i z)
      then have "(e, a') = (y, a\<lparr>ag_waker := Some w, ag_group := g\<rparr>)"
        unfolding p [symmetric] using False g Some by (simp add: aggregator_poll_next_def)
      then show ?thesis using Some Group_Item by (simp add: event_of_def)
    next
      case (Group_Closed i)
      then have "(e, a') = (y, a\<lparr>ag_waker := Some w, ag_group := g, ag_map := (ag_map a)(i := None)\<rparr>)"
        unfolding p [symmetric] using False g Some by (simp add: aggregator_poll_next_def)
      then show ?thesis using Some Group_Closed by (simp add: event_of_def)
    qed (use Some x in simp)
  qed
  have "over (map_after (ag_map a) (event_of x)) g = a'\<lparr>ag_waker := None\<rparr>"
    using a' over_same [of a'] by metis
  then show ?thesis using spec a' by simp
qed

end
