(* ===== verification/Aggregator_Props.thy ===== *)
theory Aggregator_Props
  imports Aggregator Runner_Manager_Props
begin

text \<open>
  The property of the aggregators: over any run of registrations, removals, sends and polls they are
  one queue per registered runner. What the manager's model takes for granted of the events it polls
  follows.
\<close>

section \<open>Runs\<close>

text \<open>
  A run interleaves the manager (which adds, removes and polls) and the senders of the runners (which
  push and close by the key of their stream). The manager adds only a runner that is not registered,
  under a key that is not in use; a closed channel has no sender. The result lists what each step yields.
\<close>

datatype 'a aggregator_event =
    Ag_Add runner_id key
  | Ag_Remove runner_id
  | Ag_Push key 'a
  | Ag_Close key
  | Ag_Poll nat "key list"

definition receiver_new :: "'a receiver" where
  "receiver_new = \<lparr>rx_items = [], rx_closed = False\<rparr>"

definition sender_step ::
  "key \<Rightarrow> ('a receiver \<Rightarrow> 'a receiver) \<Rightarrow> 'a aggregator \<Rightarrow> ('a group_event \<times> 'a aggregator) option" where
  "sender_step k f a =
     (case ag_group a k of
        None \<Rightarrow> Some (Group_Pending, a)
      | Some s \<Rightarrow>
          if rx_closed (tg_stream s) then None
          else Some (Group_Pending, a\<lparr>ag_group := (ag_group a)(k \<mapsto> s\<lparr>tg_stream := f (tg_stream s)\<rparr>)\<rparr>))"

fun aggregator_step :: "'a aggregator_event \<Rightarrow> 'a aggregator \<Rightarrow> ('a group_event \<times> 'a aggregator) option" where
  "aggregator_step (Ag_Add i k) a =
     (if ag_group a k = None \<and> ag_map a i = None
      then Some (Group_Pending, snd (aggregator_add i receiver_new k a)) else None)"
| "aggregator_step (Ag_Remove i) a = Some (Group_Pending, aggregator_remove i a)"
| "aggregator_step (Ag_Push k x) a = sender_step k (\<lambda>r. r\<lparr>rx_items := rx_items r @ [x]\<rparr>) a"
| "aggregator_step (Ag_Close k) a = sender_step k (\<lambda>r. r\<lparr>rx_closed := True\<rparr>) a"
| "aggregator_step (Ag_Poll waker order) a = Some (aggregator_poll_next waker order a)"

fun aggregator_run ::
  "'a aggregator_event list \<Rightarrow> 'a aggregator \<Rightarrow> ('a group_event list \<times> 'a aggregator) option" where
  "aggregator_run [] a = Some ([], a)"
| "aggregator_run (ev # evs) a =
     (case aggregator_step ev a of
        None \<Rightarrow> None
      | Some (e, a) \<Rightarrow> map_option (\<lambda>(es, a). (e # es, a)) (aggregator_run evs a))"

text \<open>The same steps on one queue per registered runner.\<close>

abbreviation at_key :: "key \<Rightarrow> ('a receiver \<Rightarrow> 'a receiver) \<Rightarrow> (runner_id \<rightharpoonup> key \<times> 'a receiver)
    \<Rightarrow> (runner_id \<rightharpoonup> key \<times> 'a receiver)" where
  "at_key k f C \<equiv> \<lambda>i. map_option (\<lambda>(j, r). (j, if j = k then f r else r)) (C i)"

fun queues_step ::
  "(runner_id \<rightharpoonup> key \<times> 'a receiver) \<Rightarrow> 'a aggregator_event \<Rightarrow> 'a group_event
   \<Rightarrow> (runner_id \<rightharpoonup> key \<times> 'a receiver) \<Rightarrow> bool" where
  "queues_step C (Ag_Add i k) e C' \<longleftrightarrow> C' = C(i \<mapsto> (k, receiver_new))"
| "queues_step C (Ag_Remove i) e C' \<longleftrightarrow> C' = C(i := None)"
| "queues_step C (Ag_Push k x) e C' \<longleftrightarrow> C' = at_key k (\<lambda>r. r\<lparr>rx_items := rx_items r @ [x]\<rparr>) C"
| "queues_step C (Ag_Close k) e C' \<longleftrightarrow> C' = at_key k (\<lambda>r. r\<lparr>rx_closed := True\<rparr>) C"
| "queues_step C (Ag_Poll waker order) e C' \<longleftrightarrow> polled C (set order) e C'"

fun queues_run ::
  "(runner_id \<rightharpoonup> key \<times> 'a receiver) \<Rightarrow> ('a aggregator_event \<times> 'a group_event) list
   \<Rightarrow> (runner_id \<rightharpoonup> key \<times> 'a receiver) \<Rightarrow> bool" where
  "queues_run C [] C' \<longleftrightarrow> C' = C"
| "queues_run C ((ev, e) # evs) C' \<longleftrightarrow> (\<exists>D. queues_step C ev e D \<and> queues_run D evs C')"

section \<open>One queue per runner\<close>

lemma sender_step_spec:
  assumes inv: "aggregator_inv a" and s: "sender_step k f a = Some (e, a')"
  shows "aggregator_inv a' \<and> channels a' = at_key k f (channels a)"
proof (cases "ag_group a k")
  case None
  then have "a' = a" using s by (simp add: sender_step_def)
  moreover have "at_key k f (channels a) = channels a"
  proof (rule ext)
    fix i
    show "at_key k f (channels a) i = channels a i"
      using None by (cases "channels a i") (auto simp: channels_Some)
  qed
  ultimately show ?thesis using inv by simp
next
  case (Some t)
  let ?t = "t\<lparr>tg_stream := f (tg_stream t)\<rparr>"
  have closed: "\<not> rx_closed (tg_stream t)" and a': "a' = a\<lparr>ag_group := (ag_group a)(k \<mapsto> ?t)\<rparr>"
    using s Some by (auto simp: sender_step_def split: if_splits)
  have cur: "ag_map a (tg_runner_id t) = Some k"
    using aggregator_invD(2) [OF inv Some] closed by (simp add: ended_def exhausted_def)
  have other: "i = tg_runner_id t" if "ag_map a i = Some k" for i using channels_key [OF inv that cur] .
  have "aggregator_inv a'"
    unfolding aggregator_inv_def
  proof (intro conjI allI impI)
    fix i j assume m: "ag_map a' i = Some j"
    then have "ag_map a i = Some j" using a' by simp
    note u = aggregator_invD(1) [OF inv this]
    show "\<exists>u. ag_group a' j = Some u \<and> tg_runner_id u = i \<and> \<not> tg_closed_emitted u"
      using u Some a' by (cases "j = k") auto
  next
    fix j u assume g: "ag_group a' j = Some u"
    show "ag_map a' (tg_runner_id u) = Some j \<or> ended u"
    proof (cases "j = k")
      case True
      then have "tg_runner_id u = tg_runner_id t" using g a' by auto
      then show ?thesis using cur True a' by simp
    next
      case False
      then have "ag_group a j = Some u" using g a' by simp
      then show ?thesis using aggregator_invD(2) [OF inv] a' by simp
    qed
  qed
  moreover have "channels a' = at_key k f (channels a)"
  proof (rule ext)
    fix i
    show "channels a' i = at_key k f (channels a) i"
    proof (cases "ag_map a i")
      case (Some j)
      then show ?thesis using aggregator_invD(1) [OF inv Some] a' \<open>ag_group a k = Some t\<close>
        by (cases "j = k") (auto simp: channels_def)
    qed (use a' in \<open>simp add: channels_def\<close>)
  qed
  ultimately show ?thesis by simp
qed

lemma aggregator_step_spec:
  assumes inv: "aggregator_inv a" and s: "aggregator_step ev a = Some (e, a')"
  shows "aggregator_inv a' \<and> queues_step (channels a) ev e (channels a')"
proof (cases ev)
  case (Ag_Add i k)
  then have "ag_group a k = None" "i \<notin> dom (channels a)" "a' = snd (aggregator_add i receiver_new k a)"
    using s dom_channels [OF inv] by (auto split: if_splits)
  then show ?thesis using aggregator_add_spec [OF inv] Ag_Add by simp
next
  case (Ag_Remove i)
  then have "a' = aggregator_remove i a" using s by simp
  then show ?thesis using aggregator_remove_spec [OF inv, of i] Ag_Remove by simp
next
  case (Ag_Push k x)
  then show ?thesis using sender_step_spec [OF inv] s by simp
next
  case (Ag_Close k)
  then show ?thesis using sender_step_spec [OF inv] s by simp
next
  case (Ag_Poll w order)
  then have "aggregator_poll_next w order a = (e, a')" using s by simp
  then show ?thesis using aggregator_poll_spec [OF inv] Ag_Poll by simp
qed

lemma aggregator_run_spec:
  "aggregator_inv a \<Longrightarrow> aggregator_run evs a = Some (es, a') \<Longrightarrow>
     aggregator_inv a' \<and> length es = length evs \<and> queues_run (channels a) (zip evs es) (channels a')"
proof (induction evs arbitrary: a es)
  case (Cons ev evs)
  obtain e b es' where s: "aggregator_step ev a = Some (e, b)" "aggregator_run evs b = Some (es', a')" "es = e # es'"
    using Cons.prems(2) by (auto split: option.splits)
  then show ?case using aggregator_step_spec [OF Cons.prems(1) s(1)] Cons.IH [OF _ s(2)] by auto
qed simp

text \<open>
  C25: Over any interleaving of the manager and the senders of the runners, an aggregator is one queue per
  registered runner. A poll yields the oldest unread item of a registered runner, or the end of one whose
  channel is closed and empty, which it then unregisters, and pends only if no polled channel has either;
  nothing is lost, repeated or attributed to another runner, and what a runner left behind is never
  reported for a later runner of the same id.
\<close>

theorem aggregators_are_runner_queues:
  assumes "aggregator_run evs (aggregator_with_capacity n) = Some (es, a)"
  shows "queues_run Map.empty (zip evs es) (channels a) \<and> length es = length evs \<and> dom (channels a) = dom (ag_map a)"
  using aggregator_run_spec [OF aggregator_inv_new(1) assms, unfolded aggregator_inv_new(2)] dom_channels [of a] by simp

text \<open>The id 4 is used twice; the end of its first runner comes before the item of the second.\<close>

lemma aggregators_are_runner_queues_witness:
  "\<exists>es a. aggregator_run
       [Ag_Add 4 0, Ag_Push 0 (7::nat), Ag_Close 0, Ag_Poll 1 [0], Ag_Poll 1 [0], Ag_Add 4 1, Ag_Push 1 8, Ag_Poll 1 [0, 1]]
       (aggregator_with_capacity 2) = Some (es, a)
     \<and> es = [Group_Pending, Group_Pending, Group_Pending, Group_Item 4 7, Group_Closed 4, Group_Pending, Group_Pending,
            Group_Item 4 8]
     \<and> dom (channels a) = {4}"
proof -
  let ?evs = "[Ag_Add 4 0, Ag_Push 0 (7::nat), Ag_Close 0, Ag_Poll 1 [0], Ag_Poll 1 [0], Ag_Add 4 1, Ag_Push 1 8, Ag_Poll 1 [0, 1]]"
  obtain a where a: "aggregator_run ?evs (aggregator_with_capacity 2) =
      Some ([Group_Pending, Group_Pending, Group_Pending, Group_Item 4 7, Group_Closed 4, Group_Pending, Group_Pending,
            Group_Item 4 8], a)" "dom (ag_map a) = {4}"
    by (simp add: aggregator_with_capacity_def aggregator_add_def sender_step_def receiver_new_def tagged_new_def
        aggregator_poll_next_def tagged_poll_def receiver_poll_def)
  then show ?thesis using aggregators_are_runner_queues [OF a(1)] by auto
qed

section \<open>What the manager relies on\<close>

text \<open>The events of an aggregator whose runners are those the manager has registered are legal.\<close>

lemma polled_registered:
  assumes "aggregator_inv a" and "aggregator_poll_next w order a = (e, a')"
  shows "case e of Group_Pending \<Rightarrow> True | Group_Item i x \<Rightarrow> i \<in> dom (ag_map a) | Group_Closed i \<Rightarrow> i \<in> dom (ag_map a)"
  using aggregator_poll_spec [OF assms] unfolding dom_channels [OF assms(1), symmetric]
  by (cases e) (auto simp: polled_def)

lemma aggregator_data_legal:
  assumes "aggregator_inv a" and "dom (ag_map a) = rm_data m" and "data_poll_next w order a = (e, a')"
  shows "legal_data m e"
  using polled_registered [OF assms(1)] assms(2,3) by (cases e) fastforce+

lemma aggregator_lifecycle_legal:
  assumes "aggregator_inv a" and "dom (ag_map a) = rm_lifecycle m" and "aggregator_poll_next w order a = (e, a')"
    and "\<And>i. e = Group_Item i Started \<Longrightarrow> is_connecting m i"
  shows "legal_lifecycle m e"
  using polled_registered [OF assms(1,3)] assms(2,4) by (cases e) simp_all

end
