(* ===== verification/Runner_Spawner.thy ===== *)
theory Runner_Spawner
  imports Aggregator_Props Runner Task_Builder
begin

text \<open>
  The spawner of the runners of one attempt (\<open>concurrent_task/runner_spawner.rs\<close>): it builds a runner
  for a range and gives it to the executor as a worker that is a member of a wait group until it exits.
  What the executor answers is an input, the message of its rejection; the adapter, the cancellation
  token and the runtime are held as they are.
\<close>

record runner_spawner =
  sp_members :: nat
  sp_idle_timeout :: duration
  sp_connect_timeout :: duration

definition spawner_new :: "duration \<Rightarrow> runner_spawner" where
  "spawner_new idle_timeout =
     \<lparr>sp_members = 0, sp_idle_timeout = idle_timeout, sp_connect_timeout = DEFAULT_CONNECT_TIMEOUT\<rparr>"

definition spawner_connect_timeout :: "runner_spawner \<Rightarrow> duration \<Rightarrow> runner_spawner" where
  "spawner_connect_timeout sp t = sp\<lparr>sp_connect_timeout := t\<rparr>"

text \<open>A spawned worker, with the timeouts its runner has been given.\<close>

record runner_worker =
  rw_runner :: task_runner
  rw_idle_timeout :: duration
  rw_connect_timeout :: duration

record runner_channels =
  ch_lifecycle_rx :: "lifecycle_event receiver"
  ch_data_rx :: "chunk receiver"

text \<open>
  \<open>spawn\<close>: the worker joins the wait group before it is given to the executor, and a rejected worker is
  dropped, and leaves it.
\<close>

definition spawner_spawn ::
  "runner_spawner \<Rightarrow> range \<Rightarrow> runner_id \<Rightarrow> rstr option
   \<Rightarrow> ((spawn_failed + runner_channels) \<times> runner_worker option \<times> runner_spawner) run" where
  "spawner_spawn sp r i rejected =
     bind_run (case spawner_runner r i of
                 Inl _ \<Rightarrow> Panicked ''every runner input is set''
               | Inr runner \<Rightarrow> Done runner)
       (\<lambda>runner.
          (let worker = \<lparr>rw_runner = runner, rw_idle_timeout = sp_idle_timeout sp,
                         rw_connect_timeout = sp_connect_timeout sp\<rparr>;
               joined = sp\<lparr>sp_members := sp_members sp + 1\<rparr>
           in (case rejected of
                 Some message \<Rightarrow>
                   Done (Inl message, None, joined\<lparr>sp_members := sp_members joined - 1\<rparr>)
               | None \<Rightarrow>
                   Done (Inr \<lparr>ch_lifecycle_rx = receiver_new, ch_data_rx = receiver_new\<rparr>, Some worker, joined))))"

text \<open>A worker has run its runner and is dropped, its membership last.\<close>

definition worker_run :: "runner_spawner \<Rightarrow> runner_worker \<Rightarrow> runner_spawner" where
  "worker_run sp w = sp\<lparr>sp_members := sp_members sp - 1\<rparr>"

text \<open>
  Spawning never panics: every input of a runner is set. The runner of a range expects exactly its
  bytes; an accepted spawn is one more member, a rejected one leaves nothing behind.
\<close>

lemma spawner_spawn_ok:
  assumes "r_start r \<le> r_end r" and "r_end r < u64_bound"
  shows "\<exists>res w sp'. spawner_spawn sp r i rejected = Done (res, w, sp')
    \<and> (case rejected of
          None \<Rightarrow> \<exists>ch. res = Inr ch \<and> \<not> rx_closed (ch_lifecycle_rx ch) \<and> rx_items (ch_data_rx ch) = []
            \<and> sp_members sp' = Suc (sp_members sp)
            \<and> (\<exists>v. w = Some v \<and> rn_total (rw_runner v) = Some (r_len r) \<and> worker_run sp' v = sp)
        | Some m \<Rightarrow> res = Inl m \<and> w = None \<and> sp' = sp)"
proof -
  have "sub64 (r_end r) (r_start r) = r_len r" using assms by (intro sub64_exact) auto
  then show ?thesis
    by (cases rejected)
      (simp_all add: spawner_spawn_def spawner_runner_def runner_build_def builder_default_def worker_run_def receiver_new_def)
qed

end
