(* ===== verification/Test_Adapter.thy ===== *)
theory Test_Adapter
  imports Task_Status Http
begin

text \<open>
  The scripted adapter the tests download from (\<open>bolt-load-tests/src/adapter/simple.rs\<close>) and its fault
  plans (\<open>adapter/fault.rs\<close>). A method is a function from the adapter, whose counters its clones share,
  to what it answers and the adapter after; delays take no part in the answers. The rate limiters of the
  governor crate let any number of cells through in time, up to their burst, and refuse more.
\<close>

section \<open>Faults\<close>

text \<open>A gate: how many have arrived, and whether it has been released.\<close>

record gate =
  gt_entered :: nat
  gt_released :: bool

definition gate_new :: gate where
  "gate_new = \<lparr>gt_entered = 0, gt_released = False\<rparr>"

definition gate_pass :: "gate \<Rightarrow> unit poll \<times> gate" where
  "gate_pass g = (if gt_released g then Poll_Ready () else Poll_Pending, g\<lparr>gt_entered := Suc (gt_entered g)\<rparr>)"

definition gate_entered :: "gate \<Rightarrow> unit poll \<times> gate" where
  "gate_entered g =
     (if 0 < gt_entered g then (Poll_Ready (), g\<lparr>gt_entered := gt_entered g - 1\<rparr>) else (Poll_Pending, g))"

definition gate_release :: "gate \<Rightarrow> gate" where
  "gate_release g = g\<lparr>gt_released := True\<rparr>"

datatype fault_kind = Fault_Retryable | Fault_Unretryable

fun fault_error :: "fault_kind \<Rightarrow> rstr \<Rightarrow> adapter_error" where
  "fault_error Fault_Retryable context = Retryable (Retryable_Io (lit ''injected retryable fault: '' @ context))"
| "fault_error Fault_Unretryable context = Unretryable (Internal (lit ''injected unretryable fault: '' @ context))"

datatype fault_plan =
    Plan_None
  | Fail_First usize fault_kind
  | Always_Fail fault_kind
  | Block_At gate
  | Hang_At usize

fun fault_apply :: "fault_plan \<Rightarrow> usize \<Rightarrow> rstr \<Rightarrow> (adapter_error + unit) poll \<times> fault_plan" where
  "fault_apply Plan_None attempt context = (Poll_Ready (Inr ()), Plan_None)"
| "fault_apply (Fail_First n kind) attempt context =
     (Poll_Ready (if attempt < n then Inl (fault_error kind context) else Inr ()), Fail_First n kind)"
| "fault_apply (Always_Fail kind) attempt context = (Poll_Ready (Inl (fault_error kind context)), Always_Fail kind)"
| "fault_apply (Block_At g) attempt context =
     (case gate_pass g of
        (Poll_Ready _, g) \<Rightarrow> (Poll_Ready (Inr ()), Block_At g)
      | (Poll_Pending, g) \<Rightarrow> (Poll_Pending, Block_At g))"
| "fault_apply (Hang_At n) attempt context =
     (if attempt = n then Poll_Pending else Poll_Ready (Inr ()), Hang_At n)"

section \<open>The content\<close>

definition le_bytes :: "u64 \<Rightarrow> chunk" where
  "le_bytes n = map (\<lambda>i. n div 256 ^ i mod 256) [0..<8]"

text \<open>The loop of \<open>create_deterministic_content\<close>, from an offset and a counter on.\<close>

function content_from :: "nat \<Rightarrow> nat \<Rightarrow> u64 \<Rightarrow> chunk" where
  "content_from n offset counter =
     (if offset + 8 \<le> n then le_bytes counter @ content_from n (offset + 8) (counter + 1)
      else if offset < n then take (n - offset) (le_bytes counter) else [])"
  by pat_completeness auto
termination
  by (relation "measure (\<lambda>(n, offset, _). n - offset)") auto

declare content_from.simps [simp del]

definition create_deterministic_content :: "nat \<Rightarrow> chunk" where
  "create_deterministic_content n = content_from n 0 0"

section \<open>The adapter\<close>

record faults =
  ft_meta_gate :: "gate option"
  ft_range_probe_gate :: "gate option"
  ft_range_connect_plan :: fault_plan
  ft_full_connect_plan :: fault_plan
  ft_stall_after_bytes :: "u64 option"
  ft_stall_with_empty_frames :: bool
  ft_fail_body_after_bytes :: "(u64 \<times> fault_kind) option"

definition faults_default :: faults where
  "faults_default =
     \<lparr>ft_meta_gate = None, ft_range_probe_gate = None, ft_range_connect_plan = Plan_None,
      ft_full_connect_plan = Plan_None, ft_stall_after_bytes = None, ft_stall_with_empty_frames = False,
      ft_fail_body_after_bytes = None\<rparr>"

record test_adapter_builder =
  ab_content_size :: "usize option"
  ab_support_range :: "bool option"
  ab_should_fail :: "bool option"
  ab_chunk_size :: "usize option"
  ab_filename :: "rstr option"
  ab_max_speed :: "u64 option"
  ab_max_per_stream_speed :: "u64 option"
  ab_connecting_delay :: "duration option"
  ab_max_concurrent_streams :: "usize option"
  ab_faults :: faults

definition test_adapter_builder_default :: test_adapter_builder where
  "test_adapter_builder_default =
     \<lparr>ab_content_size = None, ab_support_range = None, ab_should_fail = None, ab_chunk_size = None,
      ab_filename = Some (lit ''test_file.bin''), ab_max_speed = None, ab_max_per_stream_speed = None,
      ab_connecting_delay = None, ab_max_concurrent_streams = None, ab_faults = faults_default\<rparr>"

definition builder_large :: test_adapter_builder where
  "builder_large = test_adapter_builder_default\<lparr>ab_content_size := Some (100 * 1024 * 1024)\<rparr>"

definition builder_large_with_range_support :: test_adapter_builder where
  "builder_large_with_range_support =
     test_adapter_builder_default\<lparr>ab_content_size := Some (100 * 1024 * 1024), ab_support_range := Some True\<rparr>"

record counters =
  cn_active_requests :: nat
  cn_active_streams :: nat
  cn_range_attempts :: usize
  cn_full_attempts :: usize

definition counters_default :: counters where
  "counters_default = \<lparr>cn_active_requests = 0, cn_active_streams = 0, cn_range_attempts = 0, cn_full_attempts = 0\<rparr>"

record test_adapter =
  ad_content :: chunk
  ad_support_range :: bool
  ad_should_fail :: bool
  ad_chunk_size :: usize
  ad_call_count :: usize
  ad_filename :: "rstr option"
  ad_rate_limiter :: "nat option"
  ad_max_per_stream_speed :: "u64 option"
  ad_connecting_delay :: "duration option"
  ad_max_concurrent_streams :: "usize option"
  ad_current_concurrency :: usize
  ad_faults :: faults
  ad_counters :: counters

text \<open>The burst of \<open>Quota::per_second\<close>; the conversions panic outside \<open>1 .. 2^32 - 1\<close>.\<close>

definition per_second :: "u64 \<Rightarrow> nat run" where
  "per_second speed =
     (if 2 ^ 32 \<le> speed then Panicked ''speed must be lossless to u32''
      else if speed = 0 then Panicked ''speed must be non-zero'' else Done speed)"

definition limiter_for :: "u64 option \<Rightarrow> nat option run" where
  "limiter_for speed =
     (case speed of None \<Rightarrow> Done None | Some s \<Rightarrow> bind_run (per_second s) (\<lambda>burst. Done (Some burst)))"

text \<open>\<open>build\<close>; the hash of the content is the blake3 crate's and is left out.\<close>

definition test_adapter_build :: "test_adapter_builder \<Rightarrow> (unit + test_adapter) run" where
  "test_adapter_build b =
     (case ab_content_size b of
        None \<Rightarrow> Done (Inl ())
      | Some n \<Rightarrow>
          bind_run (limiter_for (ab_max_speed b))
            (\<lambda>limiter. Done (Inr
               \<lparr>ad_content = create_deterministic_content n,
                ad_support_range = (case ab_support_range b of None \<Rightarrow> False | Some x \<Rightarrow> x),
                ad_should_fail = (case ab_should_fail b of None \<Rightarrow> False | Some x \<Rightarrow> x),
                ad_chunk_size = (case ab_chunk_size b of None \<Rightarrow> 8192 | Some x \<Rightarrow> x),
                ad_call_count = 0, ad_filename = ab_filename b, ad_rate_limiter = limiter,
                ad_max_per_stream_speed = ab_max_per_stream_speed b,
                ad_connecting_delay = ab_connecting_delay b,
                ad_max_concurrent_streams = ab_max_concurrent_streams b, ad_current_concurrency = 0,
                ad_faults = ab_faults b, ad_counters = counters_default\<rparr>)))"

definition clone_reset_count :: "test_adapter \<Rightarrow> test_adapter" where
  "clone_reset_count a = a\<lparr>ad_call_count := 0, ad_current_concurrency := 0, ad_counters := counters_default\<rparr>"

section \<open>Body streams\<close>

record body_stream =
  bs_content :: chunk
  bs_pos :: usize
  bs_end :: usize
  bs_chunk_size :: usize
  bs_limiters :: "nat list"
  bs_stall_at :: "usize option"
  bs_stall_with_empty_frames :: bool
  bs_fail_at :: "(usize \<times> fault_kind) option"
  bs_returned :: bool

definition the_list :: "'a option \<Rightarrow> 'a list" where
  "the_list x = (case x of None \<Rightarrow> [] | Some y \<Rightarrow> [y])"

definition body_stream_of :: "test_adapter \<Rightarrow> usize \<Rightarrow> usize \<Rightarrow> (body_stream \<times> test_adapter) run" where
  "body_stream_of a start end0 =
     bind_run (limiter_for (ad_max_per_stream_speed a))
       (\<lambda>stream_limiter. Done
          (\<lparr>bs_content = ad_content a, bs_pos = start, bs_end = min end0 (length (ad_content a)),
            bs_chunk_size = ad_chunk_size a, bs_limiters = the_list (ad_rate_limiter a) @ the_list stream_limiter,
            bs_stall_at = ft_stall_after_bytes (ad_faults a),
            bs_stall_with_empty_frames = ft_stall_with_empty_frames (ad_faults a),
            bs_fail_at = ft_fail_body_after_bytes (ad_faults a), bs_returned = False\<rparr>,
           a\<lparr>ad_counters := (ad_counters a)\<lparr>cn_active_streams := cn_active_streams (ad_counters a) + 1\<rparr>\<rparr>))"

text \<open>The end of the next frame: a chunk further, but not past a fault that is ahead.\<close>

definition frame_end :: "body_stream \<Rightarrow> usize" where
  "frame_end b =
     foldl (\<lambda>next limit. if bs_pos b < limit then min next limit else next)
       (min (add64 (bs_pos b) (bs_chunk_size b)) (bs_end b))
       (the_list (bs_stall_at b) @ the_list (map_option fst (bs_fail_at b)))"

text \<open>
  One poll, once the limiters have let the frame through: an item, the end, or a stall. A frame of no
  bytes or of more than a limiter's burst panics (\<open>NonZeroU32::new\<close> and \<open>until_n_ready\<close> are unwrapped).
\<close>

definition body_fault :: "body_stream \<Rightarrow> fault_kind option" where
  "body_fault b =
     (case bs_fail_at b of None \<Rightarrow> None | Some (fail_at, kind) \<Rightarrow> if fail_at \<le> bs_pos b then Some kind else None)"

definition body_stalls :: "body_stream \<Rightarrow> bool" where
  "body_stalls b = (case bs_stall_at b of None \<Rightarrow> False | Some stall_at \<Rightarrow> stall_at \<le> bs_pos b)"

definition body_next :: "body_stream \<Rightarrow> ((adapter_error + chunk) option poll \<times> body_stream) run" where
  "body_next b =
     (if bs_returned b \<or> bs_end b \<le> bs_pos b then Done (Poll_Ready None, b)
      else
        (case body_fault b of
           Some kind \<Rightarrow>
             Done (Poll_Ready (Some (Inl (fault_error kind (lit ''body'')))), b\<lparr>bs_returned := True\<rparr>)
         | None \<Rightarrow>
             if body_stalls b
             then Done (if bs_stall_with_empty_frames b then Poll_Ready (Some (Inr [])) else Poll_Pending, b)
             else
               (let next_pos = frame_end b; chunk_len = sub64 next_pos (bs_pos b) mod 2 ^ 32
                in if chunk_len = 0 then Panicked ''called unwrap on a None value''
                   else if list_ex (\<lambda>burst. burst < chunk_len) (bs_limiters b)
                   then Panicked ''called unwrap on an Err value''
                   else Done (Poll_Ready (Some (Inr (take (next_pos - bs_pos b) (drop (bs_pos b) (bs_content b))))),
                              b\<lparr>bs_pos := next_pos\<rparr>))))"

text \<open>Dropping a stream drops its two guards.\<close>

definition body_dropped :: "test_adapter \<Rightarrow> test_adapter" where
  "body_dropped a =
     a\<lparr>ad_current_concurrency := sub64 (ad_current_concurrency a) 1,
       ad_counters := (ad_counters a)\<lparr>cn_active_streams := cn_active_streams (ad_counters a) - 1\<rparr>\<rparr>"

section \<open>The methods\<close>

text \<open>The counters of a request, and what dropping its guard does.\<close>

definition begin_request :: "test_adapter \<Rightarrow> test_adapter" where
  "begin_request a =
     a\<lparr>ad_call_count := add64 (ad_call_count a) 1,
       ad_counters := (ad_counters a)\<lparr>cn_active_requests := cn_active_requests (ad_counters a) + 1\<rparr>\<rparr>"

definition end_request :: "test_adapter \<Rightarrow> test_adapter" where
  "end_request a =
     a\<lparr>ad_counters := (ad_counters a)\<lparr>cn_active_requests := cn_active_requests (ad_counters a) - 1\<rparr>\<rparr>"

definition opt_gate :: "gate option \<Rightarrow> unit poll \<times> gate option" where
  "opt_gate g = (case g of None \<Rightarrow> (Poll_Ready (), None) | Some g \<Rightarrow> (case gate_pass g of (r, g) \<Rightarrow> (r, Some g)))"

text \<open>\<open>Poll_Pending\<close>: the request waits, at a gate or for ever, and stays counted.\<close>

definition test_is_range_stream_available :: "test_adapter \<Rightarrow> bool poll \<times> test_adapter" where
  "test_is_range_stream_available a0 =
     (let a = begin_request a0
      in (case opt_gate (ft_range_probe_gate (ad_faults a)) of
            (r, g) \<Rightarrow>
              (let a = a\<lparr>ad_faults := (ad_faults a)\<lparr>ft_range_probe_gate := g\<rparr>\<rparr>
               in (case r of
                     Poll_Pending \<Rightarrow> (Poll_Pending, a)
                   | Poll_Ready _ \<Rightarrow> (Poll_Ready (ad_support_range a), end_request a)))))"

definition test_retrieve_meta :: "test_adapter \<Rightarrow> (adapter_error + adapter_meta) poll \<times> test_adapter" where
  "test_retrieve_meta a0 =
     (let a = begin_request a0
      in (case opt_gate (ft_meta_gate (ad_faults a)) of
            (r, g) \<Rightarrow>
              (let a = a\<lparr>ad_faults := (ad_faults a)\<lparr>ft_meta_gate := g\<rparr>\<rparr>
               in (case r of
                     Poll_Pending \<Rightarrow> (Poll_Pending, a)
                   | Poll_Ready _ \<Rightarrow>
                       (Poll_Ready
                          (if ad_should_fail a
                           then Inl (Unretryable (Internal (lit ''Simulated meta retrieval failure'')))
                           else Inr (with_filename (meta_new (length (ad_content a))) (ad_filename a))),
                        end_request a)))))"

text \<open>The end of both stream methods: one more stream, unless there are too many already.\<close>

definition admit_stream ::
  "test_adapter \<Rightarrow> usize \<Rightarrow> usize \<Rightarrow> ((adapter_error + body_stream) \<times> test_adapter) run" where
  "admit_stream a0 start end0 =
     (let current = ad_current_concurrency a0; a = a0\<lparr>ad_current_concurrency := add64 current 1\<rparr>
      in if (case ad_max_concurrent_streams a of None \<Rightarrow> False | Some m \<Rightarrow> m \<le> current)
         then Done (Inl (Unretryable (Congestion 429 None)),
                    a\<lparr>ad_current_concurrency := sub64 (ad_current_concurrency a) 1\<rparr>)
         else bind_run (body_stream_of a start end0) (\<lambda>(b, a). Done (Inr b, a)))"

definition test_full_stream :: "test_adapter \<Rightarrow> ((adapter_error + body_stream) poll \<times> test_adapter) run" where
  "test_full_stream a0 =
     (let a = begin_request a0; attempt = cn_full_attempts (ad_counters a);
          a = a\<lparr>ad_counters := (ad_counters a)\<lparr>cn_full_attempts := add64 attempt 1\<rparr>\<rparr>
      in (case fault_apply (ft_full_connect_plan (ad_faults a)) attempt (lit ''full_stream connect'') of
            (r, plan) \<Rightarrow>
              (let a = a\<lparr>ad_faults := (ad_faults a)\<lparr>ft_full_connect_plan := plan\<rparr>\<rparr>
               in (case r of
                     Poll_Pending \<Rightarrow> Done (Poll_Pending, a)
                   | Poll_Ready (Inl e) \<Rightarrow> Done (Poll_Ready (Inl e), end_request a)
                   | Poll_Ready (Inr _) \<Rightarrow>
                       if ad_should_fail a
                       then Done (Poll_Ready (Inl (Unretryable (Internal (lit ''Simulated stream failure'')))), end_request a)
                       else bind_run (admit_stream a 0 (length (ad_content a)))
                              (\<lambda>(s, a). Done (Poll_Ready s, end_request a))))))"

definition test_range_stream ::
  "test_adapter \<Rightarrow> u64 \<Rightarrow> u64 \<Rightarrow> ((adapter_error + body_stream) poll \<times> test_adapter) run" where
  "test_range_stream a0 start end0 =
     (let a = begin_request a0; attempt = cn_range_attempts (ad_counters a);
          a = a\<lparr>ad_counters := (ad_counters a)\<lparr>cn_range_attempts := add64 attempt 1\<rparr>\<rparr>
      in (case fault_apply (ft_range_connect_plan (ad_faults a)) attempt (lit ''range_stream connect'') of
            (r, plan) \<Rightarrow>
              (let a = a\<lparr>ad_faults := (ad_faults a)\<lparr>ft_range_connect_plan := plan\<rparr>\<rparr>
               in (case r of
                     Poll_Pending \<Rightarrow> Done (Poll_Pending, a)
                   | Poll_Ready (Inl e) \<Rightarrow> Done (Poll_Ready (Inl e), end_request a)
                   | Poll_Ready (Inr _) \<Rightarrow>
                       if ad_should_fail a
                       then Done (Poll_Ready (Inl (Unretryable (Internal (lit ''Simulated range stream failure'')))),
                                  end_request a)
                       else if \<not> ad_support_range a
                       then Done (Poll_Ready (Inl (Unretryable Range_Stream_Not_Supported)), end_request a)
                       else bind_run (admit_stream a start end0)
                              (\<lambda>(s, a). Done (Poll_Ready s, end_request a))))))"

section \<open>What the tests rely on\<close>

lemma length_le_bytes [simp]: "length (le_bytes n) = 8"
  by (simp add: le_bytes_def)

lemma content_from_eq:
  "content_from n (8 * k) k = map (\<lambda>i. i div 8 div 256 ^ (i mod 8) mod 256) [8 * k..<n]"
proof (induction "n - 8 * k" arbitrary: k rule: less_induct)
  case less
  have byte: "le_bytes k ! j = (8 * k + j) div 8 div 256 ^ ((8 * k + j) mod 8) mod 256" if "j < 8" for j
    using that by (simp add: le_bytes_def)
  show ?case
  proof (cases "8 * k + 8 \<le> n")
    case True
    have split: "[8 * k..<n] = [8 * k..<8 * k + 8] @ [8 * Suc k..<n]"
      using True upt_add_eq_append [of "8 * k" "8 * k + 8" "n - (8 * k + 8)"] by (simp add: add.commute)
    have "le_bytes k = map (\<lambda>i. i div 8 div 256 ^ (i mod 8) mod 256) [8 * k..<8 * k + 8]"
      by (rule nth_equalityI) (use byte in simp_all)
    then show ?thesis using less [of "Suc k"] True
      unfolding split by (subst content_from.simps) (simp add: add.commute)
  next
    case False
    have "take (n - 8 * k) (le_bytes k) = map (\<lambda>i. i div 8 div 256 ^ (i mod 8) mod 256) [8 * k..<n]"
      by (rule nth_equalityI) (use byte False in auto)
    then show ?thesis using False by (subst content_from.simps) auto
  qed
qed

text \<open>The content of \<open>n\<close> bytes: the numbers from zero on, eight bytes each, the lowest first.\<close>

lemma deterministic_content:
  "create_deterministic_content n = map (\<lambda>i. i div 8 div 256 ^ (i mod 8) mod 256) [0..<n]"
  using content_from_eq [of n 0] by (simp add: create_deterministic_content_def)

text \<open>A stream without faults whose frames every limiter lets through.\<close>

definition body_plain :: "body_stream \<Rightarrow> bool" where
  "body_plain b \<longleftrightarrow>
     bs_stall_at b = None \<and> bs_fail_at b = None \<and> \<not> bs_returned b \<and> bs_end b \<le> length (bs_content b)
     \<and> 0 < bs_chunk_size b \<and> bs_chunk_size b < 2 ^ 32 \<and> length (bs_content b) + bs_chunk_size b < u64_bound
     \<and> list_all (\<lambda>burst. bs_chunk_size b \<le> burst) (bs_limiters b)"

lemma body_next_plain:
  assumes plain: "body_plain b" and pos: "bs_pos b < bs_end b"
  shows "\<exists>k. 0 < k \<and> bs_pos b + k \<le> bs_end b \<and> k \<le> bs_chunk_size b
    \<and> body_next b = Done (Poll_Ready (Some (Inr (take k (drop (bs_pos b) (bs_content b))))), b\<lparr>bs_pos := bs_pos b + k\<rparr>)"
proof -
  define k where "k = min (bs_chunk_size b) (bs_end b - bs_pos b)"
  have B: "bs_stall_at b = None" "bs_fail_at b = None" "\<not> bs_returned b" "bs_end b \<le> length (bs_content b)"
    "0 < bs_chunk_size b" "bs_chunk_size b < 2 ^ 32" "length (bs_content b) + bs_chunk_size b < u64_bound"
    "list_all (\<lambda>burst. bs_chunk_size b \<le> burst) (bs_limiters b)" using plain by (simp_all add: body_plain_def)
  have k: "0 < k" "bs_pos b + k \<le> bs_end b" "k \<le> bs_chunk_size b" using pos B(5) by (auto simp: k_def)
  have "add64 (bs_pos b) (bs_chunk_size b) = bs_pos b + bs_chunk_size b" using pos B(4,7) by (intro add64_exact) simp
  then have e: "frame_end b = bs_pos b + k" using B(1,2) pos by (auto simp: frame_end_def the_list_def k_def)
  have "sub64 (bs_pos b + k) (bs_pos b) = k" using k(2) B(4,7) by (subst sub64_exact) auto
  moreover have "k mod 2 ^ 32 = k" using k(3) B(6) by simp
  moreover have "\<not> list_ex (\<lambda>burst. burst < k) (bs_limiters b)"
    using B(8) k(3) by (auto simp: list_all_iff list_ex_iff)
  ultimately have "body_next b = Done (Poll_Ready (Some (Inr (take k (drop (bs_pos b) (bs_content b))))), b\<lparr>bs_pos := bs_pos b + k\<rparr>)"
    using B(1-3) pos e k(1) by (simp add: body_next_def body_fault_def body_stalls_def)
  then show ?thesis using k by blast
qed

text \<open>Reading a stream to its end, with as many polls as given; \<open>None\<close>: they do not suffice.\<close>

fun body_read :: "nat \<Rightarrow> body_stream \<Rightarrow> (chunk \<times> adapter_error option) option run" where
  "body_read 0 b = Done None"
| "body_read (Suc n) b =
     bind_run (body_next b)
       (\<lambda>(r, b).
          (case r of
             Poll_Pending \<Rightarrow> body_read n b
           | Poll_Ready None \<Rightarrow> Done (Some ([], None))
           | Poll_Ready (Some (Inl e)) \<Rightarrow> Done (Some ([], Some e))
           | Poll_Ready (Some (Inr frame)) \<Rightarrow>
               bind_run (body_read n b) (\<lambda>x. Done (map_option (\<lambda>(bytes, e). (frame @ bytes, e)) x))))"

lemma body_plain_read:
  "body_plain b \<Longrightarrow> bs_pos b \<le> bs_end b \<Longrightarrow> bs_end b - bs_pos b < n \<Longrightarrow>
     body_read n b = Done (Some (take (bs_end b - bs_pos b) (drop (bs_pos b) (bs_content b)), None))"
proof (induction n arbitrary: b)
  case (Suc n)
  show ?case
  proof (cases "bs_pos b < bs_end b")
    case False
    then show ?thesis using Suc.prems by (simp add: body_next_def)
  next
    case True
    obtain k where k: "0 < k" "bs_pos b + k \<le> bs_end b"
      "body_next b = Done (Poll_Ready (Some (Inr (take k (drop (bs_pos b) (bs_content b))))), b\<lparr>bs_pos := bs_pos b + k\<rparr>)"
      using body_next_plain [OF Suc.prems(1) True] by blast
    let ?b = "b\<lparr>bs_pos := bs_pos b + k\<rparr>" and ?m = "bs_end b - (bs_pos b + k)"
    have "body_plain ?b" using Suc.prems(1) by (simp add: body_plain_def)
    then have "body_read n ?b = Done (Some (take ?m (drop (bs_pos b + k) (bs_content b)), None))"
      using Suc.IH [of ?b] Suc.prems(3) k(1,2) by simp
    moreover have "take k (drop (bs_pos b) (bs_content b)) @ take ?m (drop (bs_pos b + k) (bs_content b))
        = take (bs_end b - bs_pos b) (drop (bs_pos b) (bs_content b))"
    proof -
      have "bs_end b - bs_pos b = k + ?m" using k(2) by simp
      then show ?thesis using take_add [of k ?m "drop (bs_pos b) (bs_content b)"] by (simp add: add.commute)
    qed
    ultimately show ?thesis using k(3) by simp
  qed
qed simp

text \<open>
  A range stream of a well-configured adapter without faults delivers exactly the range, and the adapter
  counts it until it is dropped.
\<close>

lemma test_range_stream_delivers:
  assumes r: "test_range_stream a start end0 = Done (Poll_Ready (Inr b), a')"
    and "ft_stall_after_bytes (ad_faults a) = None" "ft_fail_body_after_bytes (ad_faults a) = None"
    and "start \<le> end0" "end0 \<le> length (ad_content a)" "0 < ad_chunk_size a" "ad_chunk_size a < 2 ^ 32"
    and "length (ad_content a) + ad_chunk_size a < u64_bound"
    and "list_all (\<lambda>burst. ad_chunk_size a \<le> burst) (the_list (ad_rate_limiter a) @ the_list (ad_max_per_stream_speed a))"
  shows "body_read (Suc (end0 - start)) b = Done (Some (take (end0 - start) (drop start (ad_content a)), None))
    \<and> cn_active_streams (ad_counters a') = Suc (cn_active_streams (ad_counters a))
    \<and> cn_active_requests (ad_counters a') = cn_active_requests (ad_counters a)"
proof -
  have b: "bs_content b = ad_content a \<and> bs_pos b = start \<and> bs_end b = end0 \<and> bs_chunk_size b = ad_chunk_size a
      \<and> bs_limiters b = the_list (ad_rate_limiter a) @ the_list (ad_max_per_stream_speed a)
      \<and> bs_stall_at b = None \<and> bs_fail_at b = None \<and> \<not> bs_returned b
      \<and> cn_active_streams (ad_counters a') = Suc (cn_active_streams (ad_counters a))
      \<and> cn_active_requests (ad_counters a') = cn_active_requests (ad_counters a)"
    using r assms(2,3,5)
    by (auto simp: test_range_stream_def admit_stream_def body_stream_of_def limiter_for_def per_second_def Let_def
        begin_request_def end_request_def bind_run_Done the_list_def
        split: prod.splits poll.splits sum.splits if_splits option.splits)
  then have "body_plain b" using assms(5-9) by (simp add: body_plain_def)
  then show ?thesis using body_plain_read [of b "Suc (end0 - start)"] b assms(4) by simp
qed

end
